(* ===== verification/Prelude.thy ===== *)
theory Prelude
  imports
    Main
    "HOL-Library.Word"
    "HOL-Library.Char_ord"
    "HOL-Library.List_Lexorder"
    "HOL-Library.Product_Lexorder"
    "HOL-Library.AList"
    "HOL-Library.Sublist"
    "HOL-Library.Monad_Syntax"
begin

text \<open>
  The shared base of the development: the collections its proofs simplify with, Go's
  fixed-width integer arithmetic, association lists standing for Go maps, and the
  few facts about lists and sorting that several components use.

  Strings are Go strings, that is byte sequences, as HOL's \<open>string\<close>; their order (from
  \<^verbatim>\<open>List_Lexorder\<close> over \<^verbatim>\<open>Char_ord\<close>) is Go's bytewise order.  A Go \<open>map[string]string\<close>
  that is iterated or measured is an association list with distinct keys; a Go
  \<open>map[K]int\<close> used as a counter, which reads 0 for a missing key, is a function.
\<close>

named_theorems status_frame
  \<open>what an operation on a FeedStatus leaves unchanged\<close>

named_theorems run_simps
  \<open>unfolding of the retry-run view of a FeedStatus\<close>

named_theorems ledger_simps
  \<open>facts about identity records and the delivery ledger\<close>

named_theorems record_simps
  \<open>one equation per outcome kind of the feed attempt\<close>

subsection \<open>Fixed-width integers\<close>

text \<open>Two's complement wrap-around of an \<open>n\<close>-bit signed integer.\<close>

definition wrap_signed :: "nat \<Rightarrow> int \<Rightarrow> int" where
  "wrap_signed n x = (x + 2 ^ (n - 1)) mod 2 ^ n - 2 ^ (n - 1)"

abbreviation int32 :: "int \<Rightarrow> int" where "int32 \<equiv> wrap_signed 32"
abbreviation int64 :: "int \<Rightarrow> int" where "int64 \<equiv> wrap_signed 64"

lemma wrap_signed_id:
  assumes "0 < n" and "- (2 ^ (n - 1)) \<le> x" and "x < 2 ^ (n - 1)"
  shows "wrap_signed n x = x"
proof -
  have "(2::int) ^ n = 2 * 2 ^ (n - 1)"
    using assms(1) by (cases n) simp_all
  then show ?thesis
    using assms(2,3) by (simp add: wrap_signed_def)
qed

lemma int32_id: "- 2147483648 \<le> x \<Longrightarrow> x < 2147483648 \<Longrightarrow> int32 x = x"
  by (rule wrap_signed_id) simp_all

lemma int64_id:
  "- 9223372036854775808 \<le> x \<Longrightarrow> x < 9223372036854775808 \<Longrightarrow> int64 x = x"
  by (rule wrap_signed_id) simp_all

lemma int32_range: "- 2147483648 \<le> int32 x \<and> int32 x < 2147483648"
  by (simp add: wrap_signed_def)

text \<open>Bounds of a quotient from bounds of the dividend.\<close>

lemma int_div_less: "0 < k \<Longrightarrow> r < b * k \<Longrightarrow> r div k < (b::int)"
  by (smt (verit, best) div_mult_mod_eq mult_right_mono pos_mod_sign)

lemma int_le_div: "0 < k \<Longrightarrow> b * k \<le> r \<Longrightarrow> (b::int) \<le> r div k"
  by (metis nonzero_mult_div_cancel_right order_less_irrefl zdiv_mono1)

lemma int_div_nonneg: "0 < k \<Longrightarrow> 0 \<le> r \<Longrightarrow> (0::int) \<le> r div k"
  by (simp add: pos_imp_zdiv_nonneg_iff)

lemma int_div_div: "0 \<le> b \<Longrightarrow> a * b = c \<Longrightarrow> (n::int) div c = n div a div b"
  using zdiv_zmult2_eq [of b n a] by (simp only:)

lemma decimal_divs:
  fixes n :: int
  shows "n div 100 = n div 10 div 10" "n div 1000 = n div 10 div 10 div 10"
proof -
  show "n div 100 = n div 10 div 10" by (rule int_div_div) simp_all
  have "n div 1000 = n div 100 div 10" by (rule int_div_div) simp_all
  also have "n div 100 = n div 10 div 10" by (rule int_div_div) simp_all
  finally show "n div 1000 = n div 10 div 10 div 10" .
qed

subsection \<open>Go maps as association lists\<close>

lemma map_of_alist_update [simp]: "map_of (AList.update k v al) = (map_of al)(k \<mapsto> v)"
  by (simp add: update_conv')

lemma map_of_alist_delete [simp]: "map_of (AList.delete k al) = (map_of al)(k := None)"
  by (simp add: delete_conv')

lemma distinct_keys_update [intro]:
  "distinct (map fst al) \<Longrightarrow> distinct (map fst (AList.update k v al))"
  by (rule distinct_update)

lemma distinct_keys_delete [intro]:
  "distinct (map fst al) \<Longrightarrow> distinct (map fst (AList.delete k al))"
  by (rule distinct_delete)

lemma dom_map_of_nonempty: "map_of al k = Some v \<Longrightarrow> k \<in> fst ` set al"
  by (metis domI dom_map_of_conv_image_fst)

lemma update_new: "k \<notin> fst ` set m \<Longrightarrow> AList.update k v m = m @ [(k, v)]"
  by (induction m) auto

lemma distinct_keys_filter [intro]:
  "distinct (map fst al) \<Longrightarrow> distinct (map fst (filter P al))"
  by (simp add: distinct_map_filter)

subsection \<open>Lists\<close>

lemma filter_eq_NilI: "(\<And>x. x \<in> set xs \<Longrightarrow> \<not> P x) \<Longrightarrow> filter P xs = []"
  by (simp add: filter_empty_conv)

lemma drop_last_part: "length (drop (length xs - k) xs) = min k (length xs)"
  by simp

lemma set_map_filter: "y \<in> set (List.map_filter f xs) \<longleftrightarrow> (\<exists>x \<in> set xs. f x = Some y)"
  by (induction xs) (auto simp: List.map_filter_simps split: option.splits)

lemma map_filter_append:
  "List.map_filter f (xs @ ys) = List.map_filter f xs @ List.map_filter f ys"
  by (simp add: List.map_filter_def)

lemma map_filter_Nil_iff: "List.map_filter f xs = [] \<longleftrightarrow> (\<forall>x \<in> set xs. f x = None)"
  by (induction xs) (auto simp: List.map_filter_simps split: option.splits)

lemma sorted_sort_key_id: "sorted (map f xs) \<Longrightarrow> sort_key f xs = xs"
  by (rule sort_key_id_if_sorted)

lemma last_sort_key_max:
  assumes "xs \<noteq> []" and "x \<in> set xs"
  shows "f x \<le> f (last (sort_key f xs))"
proof -
  let ?ys = "sort_key f xs"
  have ne: "?ys \<noteq> []" using assms(1) by (metis length_0_conv length_sort)
  have "x \<in> set ?ys" using assms(2) by simp
  then obtain i where i: "i < length ?ys" "?ys ! i = x" by (metis in_set_conv_nth)
  have "map f ?ys ! i \<le> map f ?ys ! (length ?ys - 1)"
    by (rule sorted_nth_mono) (use i ne in auto)
  then show ?thesis using i ne by (simp add: last_conv_nth)
qed

end
