(* ===== verification/Go_Text.thy ===== *)
theory Go_Text
  imports Prelude
begin

text \<open>
  What the source uses of Go's strings: bytes, runes and the UTF-8 decoding and encoding
  between them (\<^verbatim>\<open>[]rune(s)\<close>, \<^verbatim>\<open>string(runes)\<close>, package \<^verbatim>\<open>unicode/utf8\<close>), \<^verbatim>\<open>strings.TrimSpace\<close>,
  \<^verbatim>\<open>HasPrefix\<close>, \<^verbatim>\<open>Contains\<close>, \<^verbatim>\<open>Cut\<close>, \<^verbatim>\<open>Split\<close>, \<^verbatim>\<open>Join\<close>, and the decimal formatting of integers.
  Runes and byte values are \<open>int\<close>.
\<close>

subsection \<open>Bytes\<close>

definition bytes_of :: "string \<Rightarrow> int list" where
  "bytes_of s = map of_char s"

definition of_bytes :: "int list \<Rightarrow> string" where
  "of_bytes bs = map char_of bs"

definition is_byte :: "int \<Rightarrow> bool" where
  "is_byte b \<longleftrightarrow> 0 \<le> b \<and> b < 256"

lemma of_char_bounds: "0 \<le> (of_char c :: int) \<and> (of_char c :: int) < 256"
proof -
  have "(of_char c :: int) = of_char c mod 256" by simp
  then show ?thesis by (metis pos_mod_bound pos_mod_sign zero_less_numeral)
qed

lemma bytes_of_is_byte: "b \<in> set (bytes_of s) \<Longrightarrow> is_byte b"
  using of_char_bounds by (auto simp: bytes_of_def is_byte_def)

lemma bytes_of_simps [simp]:
  "bytes_of [] = []" "bytes_of (c # s) = of_char c # bytes_of s"
  "bytes_of (s @ t) = bytes_of s @ bytes_of t" "length (bytes_of s) = length s"
  by (simp_all add: bytes_of_def)

lemma of_bytes_simps [simp]:
  "of_bytes [] = []" "of_bytes (b # bs) = char_of b # of_bytes bs"
  "of_bytes (bs @ cs) = of_bytes bs @ of_bytes cs" "length (of_bytes bs) = length bs"
  by (simp_all add: of_bytes_def)

lemma of_bytes_bytes_of [simp]: "of_bytes (bytes_of s) = s"
  by (induction s) simp_all

lemma bytes_of_of_bytes: "(\<forall>b \<in> set bs. is_byte b) \<Longrightarrow> bytes_of (of_bytes bs) = bs"
  by (induction bs) (auto simp: is_byte_def)

lemma bytes_of_inj: "bytes_of s = bytes_of t \<Longrightarrow> s = t"
  by (metis of_bytes_bytes_of)

subsection \<open>UTF-8\<close>

definition rune_error :: int where "rune_error = 65533"

definition valid_rune :: "int \<Rightarrow> bool" where
  "valid_rune r \<longleftrightarrow> 0 \<le> r \<and> r \<le> 1114111 \<and> \<not> (55296 \<le> r \<and> r \<le> 57343)"

definition is_cont :: "int \<Rightarrow> bool" where
  "is_cont b \<longleftrightarrow> 128 \<le> b \<and> b \<le> 191"

text \<open>\<open>utf8.RuneStart\<close>: not a continuation byte.\<close>

definition rune_start :: "int \<Rightarrow> bool" where
  "rune_start b \<longleftrightarrow> \<not> is_cont b"

definition second_ok :: "int \<Rightarrow> int \<Rightarrow> bool" where
  "second_ok b0 b1 \<longleftrightarrow>
     (if b0 = 224 then 160 \<le> b1 \<and> b1 \<le> 191
      else if b0 = 237 then 128 \<le> b1 \<and> b1 \<le> 159
      else if b0 = 240 then 144 \<le> b1 \<and> b1 \<le> 191
      else if b0 = 244 then 128 \<le> b1 \<and> b1 \<le> 143
      else is_cont b1)"

text \<open>
  \<open>utf8.DecodeRune\<close>: the first rune and its width, \<open>(RuneError, 0)\<close> for no bytes and
  \<open>(RuneError, 1)\<close> for an invalid sequence.
\<close>

fun decode_rune :: "int list \<Rightarrow> int \<times> nat" where
  "decode_rune [] = (rune_error, 0)"
| "decode_rune (b0 # bs) =
     (if b0 < 128 then (b0, 1)
      else if 194 \<le> b0 \<and> b0 \<le> 223 then
        (case bs of
           b1 # _ \<Rightarrow> if is_cont b1 then ((b0 - 192) * 64 + (b1 - 128), 2) else (rune_error, 1)
         | _ \<Rightarrow> (rune_error, 1))
      else if 224 \<le> b0 \<and> b0 \<le> 239 then
        (case bs of
           b1 # b2 # _ \<Rightarrow>
             if second_ok b0 b1 \<and> is_cont b2
             then ((b0 - 224) * 4096 + (b1 - 128) * 64 + (b2 - 128), 3) else (rune_error, 1)
         | _ \<Rightarrow> (rune_error, 1))
      else if 240 \<le> b0 \<and> b0 \<le> 244 then
        (case bs of
           b1 # b2 # b3 # _ \<Rightarrow>
             if second_ok b0 b1 \<and> is_cont b2 \<and> is_cont b3
             then ((b0 - 240) * 262144 + (b1 - 128) * 4096 + (b2 - 128) * 64 + (b3 - 128), 4)
             else (rune_error, 1)
         | _ \<Rightarrow> (rune_error, 1))
      else (rune_error, 1))"

lemma decode_rune_width: "1 \<le> snd (decode_rune (b # bs))"
  by (auto simp: decode_rune.simps(2) split: list.splits)

declare decode_rune.simps(2) [simp del]

fun utf8_decode :: "int list \<Rightarrow> int list" where
  "utf8_decode [] = []"
| "utf8_decode (b # bs) =
     fst (decode_rune (b # bs)) # utf8_decode (drop (snd (decode_rune (b # bs)) - 1) bs)"

declare utf8_decode.simps(2) [simp del]

text \<open>\<open>utf8.AppendRune\<close>: an invalid rune is encoded as \<open>RuneError\<close>.\<close>

definition encode_rune :: "int \<Rightarrow> int list" where
  "encode_rune r =
     (if \<not> valid_rune r then [239, 191, 189]
      else if r < 128 then [r]
      else if r < 2048 then [192 + r div 64, 128 + r mod 64]
      else if r < 65536 then [224 + r div 4096, 128 + r div 64 mod 64, 128 + r mod 64]
      else [240 + r div 262144, 128 + r div 4096 mod 64, 128 + r div 64 mod 64, 128 + r mod 64])"

definition utf8_encode :: "int list \<Rightarrow> int list" where
  "utf8_encode rs = concat (map encode_rune rs)"

text \<open>\<open>[]rune(s)\<close> and \<open>string(runes)\<close>.\<close>

definition runes :: "string \<Rightarrow> int list" where
  "runes s = utf8_decode (bytes_of s)"

definition of_runes :: "int list \<Rightarrow> string" where
  "of_runes rs = of_bytes (utf8_encode rs)"

lemma encode_rune_is_byte:
  assumes "b \<in> set (encode_rune r)"
  shows "is_byte b"
proof (cases "valid_rune r")
  case False
  with assms show ?thesis by (auto simp: encode_rune_def is_byte_def)
next
  case True
  then have r: "0 \<le> r" "r < 5 * 262144" by (simp_all add: valid_rune_def)
  have head: "is_byte (c + q)" if "0 \<le> q" "0 \<le> c" "c + q < 256" for c q
    using that by (simp add: is_byte_def)
  have low: "is_byte (128 + x mod 64)" for x :: int
    by (rule head) simp_all
  have "is_byte (192 + r div 64)" if "r < 2048"
    using int_div_less [of 64 r 32] int_div_nonneg [of 64 r] r that
    by (intro head) simp_all
  moreover have "is_byte (224 + r div 4096)" if "r < 65536"
    using int_div_less [of 4096 r 16] int_div_nonneg [of 4096 r] r that
    by (intro head) simp_all
  moreover have "is_byte (240 + r div 262144)"
    using int_div_less [of 262144 r 5] int_div_nonneg [of 262144 r] r
    by (intro head) simp_all
  moreover have "is_byte r" if "r < 128"
    using that r by (simp add: is_byte_def)
  ultimately show ?thesis
    using assms True low unfolding encode_rune_def by (auto split: if_splits simp del: mod_less)
qed

lemma encode_rune_nonempty [simp]: "encode_rune r \<noteq> []"
  by (simp add: encode_rune_def)

lemma length_encode_rune_pos: "0 < length (encode_rune r)"
  by simp

lemma utf8_encode_is_byte: "b \<in> set (utf8_encode rs) \<Longrightarrow> is_byte b"
  by (auto simp: utf8_encode_def encode_rune_is_byte)

lemma utf8_encode_simps [simp]:
  "utf8_encode [] = []" "utf8_encode (r # rs) = encode_rune r @ utf8_encode rs"
  "utf8_encode (rs @ rs') = utf8_encode rs @ utf8_encode rs'"
  by (simp_all add: utf8_encode_def)

lemma of_runes_append [simp]: "of_runes (rs @ rs') = of_runes rs @ of_runes rs'"
  by (simp add: of_runes_def)

lemma of_runes_Nil [simp]: "of_runes [] = []"
  by (simp add: of_runes_def)

lemma bytes_of_of_runes [simp]: "bytes_of (of_runes rs) = utf8_encode rs"
  by (simp add: of_runes_def bytes_of_of_bytes utf8_encode_is_byte)

lemma runes_Nil [simp]: "runes [] = []"
  by (simp add: runes_def)

text \<open>Decoding what was encoded gives the rune back, whatever follows.\<close>

lemma decode_two:
  "2 \<le> q \<Longrightarrow> q < 32 \<Longrightarrow> 0 \<le> m \<Longrightarrow> m < 64 \<Longrightarrow>
   decode_rune ((192 + q) # (128 + m) # bs) = (q * 64 + m, 2)"
  by (simp add: decode_rune.simps(2) is_cont_def)

lemma decode_three:
  assumes "0 \<le> q" "q < 16" "0 \<le> m" "m < 64" "0 \<le> n" "n < 64"
    and "q = 0 \<Longrightarrow> 32 \<le> m" and "q = 13 \<Longrightarrow> m < 32"
  shows "decode_rune ((224 + q) # (128 + m) # (128 + n) # bs) = (q * 4096 + m * 64 + n, 3)"
  using assms by (auto simp: decode_rune.simps(2) is_cont_def second_ok_def)

lemma decode_four:
  assumes "0 \<le> q" "q < 5" "0 \<le> l" "l < 64" "0 \<le> m" "m < 64" "0 \<le> n" "n < 64"
    and "q = 0 \<Longrightarrow> 16 \<le> l" and "q = 4 \<Longrightarrow> l < 16"
  shows "decode_rune ((240 + q) # (128 + l) # (128 + m) # (128 + n) # bs) =
    (q * 262144 + l * 4096 + m * 64 + n, 4)"
  using assms by (auto simp: decode_rune.simps(2) is_cont_def second_ok_def)

lemma base64_sum3: "x * 64 + n = r \<Longrightarrow> y * 64 + m = x \<Longrightarrow> y * 4096 + m * 64 + n = (r::int)"
  by linarith

lemma base64_sum4:
  "x * 64 + n = r \<Longrightarrow> y * 64 + m = x \<Longrightarrow> z * 64 + l = y \<Longrightarrow>
   z * 262144 + l * 4096 + m * 64 + n = (r::int)"
  by linarith

lemma base64_digits:
  fixes r :: int
  shows base64_three: "r div 4096 * 4096 + r div 64 mod 64 * 64 + r mod 64 = r"
    and base64_four:
      "r div 262144 * 262144 + r div 4096 mod 64 * 4096 + r div 64 mod 64 * 64 + r mod 64 = r"
proof -
  have d: "x div 64 * 64 + x mod 64 = x" for x :: int by simp
  have s1: "r div 4096 = r div 64 div 64" by (rule int_div_div) simp_all
  have s2: "r div 262144 = r div 4096 div 64" by (rule int_div_div) simp_all
  note s = s1 s2 [unfolded s1]
  show "r div 4096 * 4096 + r div 64 mod 64 * 64 + r mod 64 = r"
    unfolding s by (rule base64_sum3 [OF d d])
  show "r div 262144 * 262144 + r div 4096 mod 64 * 4096 + r div 64 mod 64 * 64 + r mod 64 = r"
    unfolding s by (rule base64_sum4 [OF d d d])
qed

lemma decode_three_rune:
  assumes r: "q * 4096 + m * 64 + n = r" "2048 \<le> r" "r < 65536" "valid_rune r"
    and b: "0 \<le> m" "m < 64" "0 \<le> n" "n < 64"
  shows "decode_rune ((224 + q) # (128 + m) # (128 + n) # bs) = (r, 3)"
proof -
  have "0 \<le> q" "q < 16" "q = 0 \<Longrightarrow> 32 \<le> m" "q = 13 \<Longrightarrow> m < 32"
    using r b unfolding valid_rune_def by linarith+
  from decode_three [OF this(1,2) b this(3,4)] show ?thesis by (simp only: r(1))
qed

lemma decode_four_rune:
  assumes r: "q * 262144 + l * 4096 + m * 64 + n = r" "65536 \<le> r" "valid_rune r"
    and b: "0 \<le> l" "l < 64" "0 \<le> m" "m < 64" "0 \<le> n" "n < 64"
  shows "decode_rune ((240 + q) # (128 + l) # (128 + m) # (128 + n) # bs) = (r, 4)"
proof -
  have "0 \<le> q" "q < 5" "q = 0 \<Longrightarrow> 16 \<le> l" "q = 4 \<Longrightarrow> l < 16"
    using r b unfolding valid_rune_def by linarith+
  from decode_four [OF this(1,2) b this(3,4)] show ?thesis by (simp only: r(1))
qed

lemma mod64_bounds: "0 \<le> x mod 64" "x mod 64 < (64::int)"
  by (rule pos_mod_sign, simp) (rule pos_mod_bound, simp)

lemma decode_encode_rune:
  assumes "valid_rune r"
  shows "decode_rune (encode_rune r @ bs) = (r, length (encode_rune r))"
proof -
  consider "r < 128" | "128 \<le> r" "r < 2048" | "2048 \<le> r" "r < 65536" | "65536 \<le> r"
    by linarith
  then show ?thesis
  proof cases
    case 1
    with assms show ?thesis by (simp add: encode_rune_def decode_rune.simps(2))
  next
    case 2
    have "2 \<le> r div 64" using 2 int_le_div [of 64 2 r] by simp
    moreover have "r div 64 < 32" using 2 int_div_less [of 64 r 32] by simp
    ultimately have "decode_rune ((192 + r div 64) # (128 + r mod 64) # bs) = (r, 2)"
      using decode_two [of "r div 64" "r mod 64" bs] by simp
    then show ?thesis using 2 assms by (auto simp: encode_rune_def)
  next
    case 3
    have "encode_rune r = [224 + r div 4096, 128 + r div 64 mod 64, 128 + r mod 64]"
      using 3 assms by (simp only: encode_rune_def not_True_eq_False simp_thms if_False not_less [symmetric] if_True) simp
    then show ?thesis
      using decode_three_rune [OF base64_three 3 assms mod64_bounds mod64_bounds]
      by (simp only: append_Cons append_Nil length_Cons list.size) simp
  next
    case 4
    have "encode_rune r = [240 + r div 262144, 128 + r div 4096 mod 64, 128 + r div 64 mod 64,
        128 + r mod 64]"
      using 4 assms by (simp only: encode_rune_def not_True_eq_False simp_thms if_False not_less [symmetric] if_True) simp
    then show ?thesis
      using decode_four_rune [OF base64_four 4 assms mod64_bounds mod64_bounds mod64_bounds]
      by (simp only: append_Cons append_Nil length_Cons list.size) simp
  qed
qed

lemma utf8_decode_encode_append:
  assumes "\<forall>r \<in> set rs. valid_rune r"
  shows "utf8_decode (utf8_encode rs @ bs) = rs @ utf8_decode bs"
  using assms
proof (induction rs)
  case Nil
  then show ?case by simp
next
  case (Cons r rs)
  obtain e es where e: "encode_rune r = e # es"
    using encode_rune_nonempty [of r] by (cases "encode_rune r") auto
  from Cons.prems have "decode_rune (e # es @ utf8_encode rs @ bs) = (r, Suc (length es))"
    using decode_encode_rune [of r "utf8_encode rs @ bs"] by (simp add: e)
  with Cons show ?case by (simp add: e utf8_decode.simps(2))
qed

lemma runes_of_runes_append:
  "(\<forall>r \<in> set rs. valid_rune r) \<Longrightarrow> runes (of_runes rs @ s) = rs @ runes s"
  by (simp add: runes_def utf8_decode_encode_append)

lemma runes_of_runes: "(\<forall>r \<in> set rs. valid_rune r) \<Longrightarrow> runes (of_runes rs) = rs"
  using runes_of_runes_append [of rs "[]"] by simp

text \<open>Whatever the bytes, decoding yields valid runes, and no more runes than bytes.\<close>

lemma valid_rune_error [simp]: "valid_rune rune_error"
  by (simp add: valid_rune_def rune_error_def)

lemma second_ok_cont: "second_ok b0 b1 \<Longrightarrow> 128 \<le> b1 \<and> b1 \<le> 191"
  by (auto simp: second_ok_def is_cont_def split: if_splits)

lemma valid_three:
  assumes "224 \<le> b0" "b0 \<le> 239" "second_ok b0 b1" "is_cont b2"
  shows "valid_rune ((b0 - 224) * 4096 + (b1 - 128) * 64 + (b2 - 128))"
  using assms second_ok_cont [OF assms(3)]
  by (auto simp: valid_rune_def is_cont_def second_ok_def split: if_splits)

lemma valid_four:
  assumes "240 \<le> b0" "b0 \<le> 244" "second_ok b0 b1" "is_cont b2" "is_cont b3"
  shows "valid_rune ((b0 - 240) * 262144 + (b1 - 128) * 4096 + (b2 - 128) * 64 + (b3 - 128))"
  using assms second_ok_cont [OF assms(3)]
  by (auto simp: valid_rune_def is_cont_def second_ok_def split: if_splits)

lemma decode_rune_valid:
  assumes "is_byte b"
  shows "valid_rune (fst (decode_rune (b # bs)))"
proof -
  consider "b < 128" | "194 \<le> b \<and> b \<le> 223" | "224 \<le> b \<and> b \<le> 239" | "240 \<le> b \<and> b \<le> 244"
    | "128 \<le> b \<and> b < 194 \<or> 244 < b" by linarith
  then show ?thesis
  proof cases
    case 1
    with assms show ?thesis by (simp add: decode_rune.simps(2) valid_rune_def is_byte_def)
  next
    case 2
    then show ?thesis
      by (auto simp: decode_rune.simps(2) valid_rune_def rune_error_def is_cont_def
          split: list.splits)
  next
    case 3
    then show ?thesis by (auto simp: decode_rune.simps(2) valid_three [simplified] split: list.splits)
  next
    case 4
    then show ?thesis by (auto simp: decode_rune.simps(2) valid_four [simplified] split: list.splits)
  next
    case 5
    then show ?thesis by (auto simp: decode_rune.simps(2))
  qed
qed

lemma utf8_decode_valid:
  "\<forall>b \<in> set bs. is_byte b \<Longrightarrow> r \<in> set (utf8_decode bs) \<Longrightarrow> valid_rune r"
proof (induction bs rule: utf8_decode.induct)
  case 1
  then show ?case by simp
next
  case (2 b bs)
  have "\<forall>x \<in> set (drop (snd (decode_rune (b # bs)) - 1) bs). is_byte x"
    using 2(2) by (meson in_set_dropD list.set_intros(2))
  with 2 decode_rune_valid [of b bs] show ?case
    by (auto simp: utf8_decode.simps(2))
qed

lemma runes_valid: "\<forall>r \<in> set (runes s). valid_rune r"
  unfolding runes_def using utf8_decode_valid bytes_of_is_byte by blast

lemma length_utf8_decode: "length (utf8_decode bs) \<le> length bs"
proof (induction bs rule: utf8_decode.induct)
  case 1
  then show ?case by simp
next
  case (2 b bs)
  then show ?case by (auto simp: utf8_decode.simps(2))
qed

lemma length_runes_le: "length (runes s) \<le> length s"
  using length_utf8_decode [of "bytes_of s"] by (simp add: runes_def)

lemma runes_empty_iff: "runes s = [] \<longleftrightarrow> s = []"
  by (cases s) (simp_all add: runes_def utf8_decode.simps(2))

subsection \<open>White space\<close>

text \<open>\<open>unicode.IsSpace\<close>.\<close>

definition is_space :: "int \<Rightarrow> bool" where
  "is_space r \<longleftrightarrow> 9 \<le> r \<and> r \<le> 13 \<or> r = 32 \<or> r = 133 \<or> r = 160 \<or> r = 5760
     \<or> 8192 \<le> r \<and> r \<le> 8202 \<or> r = 8232 \<or> r = 8233 \<or> r = 8239 \<or> r = 8287 \<or> r = 12288"

fun trim_left_bytes :: "int list \<Rightarrow> int list" where
  "trim_left_bytes [] = []"
| "trim_left_bytes (b # bs) =
     (if is_space (fst (decode_rune (b # bs)))
      then trim_left_bytes (drop (snd (decode_rune (b # bs)) - 1) bs)
      else b # bs)"

text \<open>
  The width of the white-space rune a byte sequence ends with, 0 if it ends with none.  Every
  white-space rune is encoded in one, two or three bytes, and a sequence that ends
  with such an encoding is one \<open>utf8.DecodeLastRune\<close> reads that rune from.
\<close>

definition ends_with_space :: "nat \<Rightarrow> int list \<Rightarrow> bool" where
  "ends_with_space k bs \<longleftrightarrow> k \<le> length bs \<and>
     snd (decode_rune (drop (length bs - k) bs)) = k \<and>
     is_space (fst (decode_rune (drop (length bs - k) bs)))"

definition trailing_space :: "int list \<Rightarrow> nat" where
  "trailing_space bs =
     (if ends_with_space 1 bs then 1 else if ends_with_space 2 bs then 2
      else if ends_with_space 3 bs then 3 else 0)"

function trim_right_bytes :: "int list \<Rightarrow> int list" where
  "trim_right_bytes bs =
     (if trailing_space bs = 0 then bs
      else trim_right_bytes (take (length bs - trailing_space bs) bs))"
  by pat_completeness auto
termination
  by (relation "measure length") (auto simp: trailing_space_def ends_with_space_def split: if_splits)

declare trim_right_bytes.simps [simp del]

text \<open>\<open>strings.TrimSpace\<close>.\<close>

definition trim_space :: "string \<Rightarrow> string" where
  "trim_space s = of_bytes (trim_right_bytes (trim_left_bytes (bytes_of s)))"

text \<open>A string is blank when trimming leaves nothing of it.\<close>

abbreviation blank :: "string \<Rightarrow> bool" where
  "blank s \<equiv> trim_space s = []"

lemma trim_space_Nil [simp]: "trim_space [] = []"
  by (simp add: trim_space_def trim_right_bytes.simps trailing_space_def ends_with_space_def)

subsection \<open>Searching and joining\<close>

text \<open>\<open>strings.HasPrefix\<close>, \<open>HasSuffix\<close> and \<open>Contains\<close>.\<close>

definition has_prefix :: "string \<Rightarrow> string \<Rightarrow> bool" where
  "has_prefix s p \<longleftrightarrow> take (length p) s = p"

definition has_suffix :: "string \<Rightarrow> string \<Rightarrow> bool" where
  "has_suffix s p \<longleftrightarrow> length p \<le> length s \<and> drop (length s - length p) s = p"

fun str_contains :: "string \<Rightarrow> string \<Rightarrow> bool" where
  "str_contains [] p \<longleftrightarrow> p = []"
| "str_contains (c # s) p \<longleftrightarrow> has_prefix (c # s) p \<or> str_contains s p"

text \<open>\<open>strings.Cut\<close> at a single byte: before, after and whether the separator was found.\<close>

fun cut_at :: "char \<Rightarrow> string \<Rightarrow> string \<times> string \<times> bool" where
  "cut_at sep [] = ([], [], False)"
| "cut_at sep (c # s) =
     (if c = sep then ([], s, True)
      else (case cut_at sep s of (l, r, found) \<Rightarrow> (c # l, r, found)))"

text \<open>\<open>strings.Split\<close> at a single byte.\<close>

fun split_on :: "char \<Rightarrow> string \<Rightarrow> string list" where
  "split_on sep [] = [[]]"
| "split_on sep (c # s) =
     (if c = sep then [] # split_on sep s
      else (case split_on sep s of [] \<Rightarrow> [[c]] | l # ls \<Rightarrow> (c # l) # ls))"

text \<open>\<open>strings.Join\<close>.\<close>

fun str_join :: "string \<Rightarrow> string list \<Rightarrow> string" where
  "str_join sep [] = []"
| "str_join sep [s] = s"
| "str_join sep (s # t # ss) = s @ sep @ str_join sep (t # ss)"

lemma split_on_nonempty [simp]: "split_on sep s \<noteq> []"
  by (induction s) (auto split: list.splits)

lemma join_split_on: "str_join [sep] (split_on sep s) = s"
proof (induction s)
  case Nil
  show ?case by simp
next
  case (Cons c s)
  then show ?case by (cases "split_on sep s" rule: list.exhaust; cases "tl (split_on sep s)") auto
qed

lemma cut_at_found: "cut_at sep s = (l, r, True) \<Longrightarrow> s = l @ sep # r"
  by (induction s arbitrary: l r) (auto split: prod.splits if_splits)

lemma cut_at_not_found: "cut_at sep s = (l, r, False) \<Longrightarrow> l = s \<and> r = [] \<and> sep \<notin> set s"
  by (induction s arbitrary: l r) (auto split: prod.splits if_splits)

subsection \<open>Decimal numbers\<close>

definition digit_char :: "int \<Rightarrow> char" where
  "digit_char n = char_of (48 + n)"

function dec_digits :: "int \<Rightarrow> string" where
  "dec_digits n = (if n < 10 then [digit_char n] else dec_digits (n div 10) @ [digit_char (n mod 10)])"
  by pat_completeness auto
termination
  by (relation "measure nat") auto

declare dec_digits.simps [simp del]

text \<open>\<open>strconv.Itoa\<close>, \<open>%d\<close>.\<close>

definition itoa :: "int \<Rightarrow> string" where
  "itoa n = (if n < 0 then CHR ''-'' # dec_digits (- n) else dec_digits n)"

definition is_digit :: "char \<Rightarrow> bool" where
  "is_digit c \<longleftrightarrow> 48 \<le> (of_char c :: int) \<and> (of_char c :: int) \<le> 57"

definition digit_val :: "char \<Rightarrow> int" where
  "digit_val c = of_char c - 48"

lemma digit_char_simps [simp]:
  assumes "0 \<le> n" "n < 10"
  shows "is_digit (digit_char n)" "digit_val (digit_char n) = n"
  using assms by (simp_all add: is_digit_def digit_val_def digit_char_def)

text \<open>A number zero-padded to at least \<open>k\<close> digits, as \<open>time.Time.Format\<close> writes its fields.\<close>

definition pad_int :: "nat \<Rightarrow> int \<Rightarrow> string" where
  "pad_int k n =
     (if n < 0 then CHR ''-'' # replicate (k - length (dec_digits (- n))) (CHR ''0'') @ dec_digits (- n)
      else replicate (k - length (dec_digits n)) (CHR ''0'') @ dec_digits n)"

lemma digit_char_0: "digit_char 0 = CHR ''0''"
  by (simp add: digit_char_def char_of_def)

lemma replicate_small: "replicate 2 x = [x, x]" "replicate 3 x = [x, x, x]"
  by (simp_all add: numeral_2_eq_2 numeral_3_eq_3)

lemma pad_int_2:
  assumes "0 \<le> n" "n < 100"
  shows "pad_int 2 n = [digit_char (n div 10), digit_char (n mod 10)]"
proof (cases "n < 10")
  case True
  then have "n div 10 = 0" "n mod 10 = n" using assms by auto
  then show ?thesis
    using True assms by (simp add: pad_int_def dec_digits.simps [of n] digit_char_0)
next
  case False
  have "n div 10 < 10" using assms int_div_less [of 10 n 10] by simp
  then have "dec_digits n = [digit_char (n div 10), digit_char (n mod 10)]"
    using False by (simp add: dec_digits.simps [of n] dec_digits.simps [of "n div 10"])
  then show ?thesis using assms by (simp add: pad_int_def)
qed

lemma pad_int_4:
  assumes "0 \<le> n" "n < 10000"
  shows "pad_int 4 n = [digit_char (n div 1000), digit_char (n div 100 mod 10),
    digit_char (n div 10 mod 10), digit_char (n mod 10)]"
proof -
  note q = decimal_divs [of n]
  have d: "dec_digits m = (if m < 10 then [digit_char m]
      else dec_digits (m div 10) @ [digit_char (m mod 10)])" for m
    by (subst dec_digits.simps) simp
  have b: "n div 10 < 1000" "n div 10 div 10 < 100" "n div 10 div 10 div 10 < 10" "0 \<le> n div 10"
    "0 \<le> n div 10 div 10" "0 \<le> n div 10 div 10 div 10"
    using assms by (simp_all add: int_div_less int_div_nonneg)
  consider "n < 10" | "10 \<le> n" "n div 10 < 10" | "10 \<le> n div 10" "n div 10 div 10 < 10"
    | "10 \<le> n div 10 div 10" by linarith
  then show ?thesis
  proof cases
    case 1
    then have "n div 10 = 0" "n mod 10 = n" using assms by auto
    then show ?thesis using 1 assms
      by (simp add: pad_int_def d [of n] q digit_char_0 replicate_small)
  next
    case 2
    then have "n div 10 div 10 = 0" "n div 10 mod 10 = n div 10" using b by auto
    then show ?thesis using 2 assms
      by (simp add: pad_int_def d [of n] d [of "n div 10"] q digit_char_0 replicate_small)
  next
    case 3
    then have "n div 10 div 10 div 10 = 0" "n div 10 div 10 mod 10 = n div 10 div 10" "10 \<le> n"
      using b by auto
    then show ?thesis using 3 assms
      by (simp add: pad_int_def d [of n] d [of "n div 10"] d [of "n div 10 div 10"] q
          digit_char_0 replicate_small)
  next
    case 4
    then have ge: "\<not> n < 10" "\<not> n div 10 < 10" "\<not> n div 10 div 10 < 10"
      by linarith+
    have "dec_digits n = [digit_char (n div 10 div 10 div 10), digit_char (n div 10 div 10 mod 10),
        digit_char (n div 10 mod 10), digit_char (n mod 10)]"
      by (simp only: d [of n] d [of "n div 10"] d [of "n div 10 div 10"]
          d [of "n div 10 div 10 div 10"] ge b if_False if_True append.simps)
    then show ?thesis using assms by (simp only: pad_int_def q) simp
  qed
qed

end
