(* ===== verification/Go_Sha256.thy ===== *)
theory Go_Sha256
  imports Go_Text
begin

text \<open>
  The two standard-library packages the identity code hashes with: \<^verbatim>\<open>crypto/sha256\<close>
  (\<open>Sum256\<close>, FIPS 180-4) and \<^verbatim>\<open>encoding/hex\<close> (\<open>EncodeToString\<close>).  They are written
  out, so that the keys the ledger stores are concrete 64-character strings and the
  model needs no hash parameter.
\<close>

unbundle bit_operations_syntax

type_synonym u32 = "32 word"

subsection \<open>The round functions\<close>

definition rotr32 :: "nat \<Rightarrow> u32 \<Rightarrow> u32" where
  "rotr32 n x = drop_bit n x OR push_bit (32 - n) x"

definition sha_ch :: "u32 \<Rightarrow> u32 \<Rightarrow> u32 \<Rightarrow> u32" where
  "sha_ch x y z = (x AND y) XOR (NOT x AND z)"

definition sha_maj :: "u32 \<Rightarrow> u32 \<Rightarrow> u32 \<Rightarrow> u32" where
  "sha_maj x y z = (x AND y) XOR (x AND z) XOR (y AND z)"

definition sha_Sigma0 :: "u32 \<Rightarrow> u32" where
  "sha_Sigma0 x = rotr32 2 x XOR rotr32 13 x XOR rotr32 22 x"

definition sha_Sigma1 :: "u32 \<Rightarrow> u32" where
  "sha_Sigma1 x = rotr32 6 x XOR rotr32 11 x XOR rotr32 25 x"

definition sha_sigma0 :: "u32 \<Rightarrow> u32" where
  "sha_sigma0 x = rotr32 7 x XOR rotr32 18 x XOR drop_bit 3 x"

definition sha_sigma1 :: "u32 \<Rightarrow> u32" where
  "sha_sigma1 x = rotr32 17 x XOR rotr32 19 x XOR drop_bit 10 x"

text \<open>
  The constants are the first 32 bits of the fractional parts of the cube roots of the
  first 64 primes, and of the square roots of the first eight: \<open>root_bits\<close> finds an
  integer root bit by bit, and the conversion to 32 bits drops its integer part.
\<close>

fun root_bits :: "nat \<Rightarrow> int \<Rightarrow> nat \<Rightarrow> int \<Rightarrow> int" where
  "root_bits k n 0 r = r"
| "root_bits k n (Suc j) r =
     root_bits k n j (if (r + 2 ^ j) ^ k \<le> n then r + 2 ^ j else r)"

definition sha_primes :: "int list" where
  "sha_primes = filter (\<lambda>n. \<forall>d \<in> set [2..n - 1]. n mod d \<noteq> 0) [2..311]"

definition sha_K :: "u32 list" where
  "sha_K = map (\<lambda>p. word_of_int (root_bits 3 (p * 2 ^ 96) 36 0)) sha_primes"

datatype sha_state = Sha (sha_a: u32) (sha_b: u32) (sha_c: u32) (sha_d: u32)
  (sha_e: u32) (sha_f: u32) (sha_g: u32) (sha_h: u32)

definition sha_init :: sha_state where
  "sha_init =
     (case map (\<lambda>p. word_of_int (root_bits 2 (p * 2 ^ 64) 36 0)) (take 8 sha_primes) of
        [a, b, c, d, e, f, g, h] \<Rightarrow> Sha a b c d e f g h
      | _ \<Rightarrow> Sha 0 0 0 0 0 0 0 0)"

text \<open>One round, split so that the two temporaries are computed once.\<close>

fun sha_mix :: "u32 \<Rightarrow> u32 \<Rightarrow> sha_state \<Rightarrow> sha_state" where
  "sha_mix t1 t2 (Sha a b c d e f g h) = Sha (t1 + t2) a b c (d + t1) e f g"

fun sha_round :: "u32 \<Rightarrow> u32 \<Rightarrow> sha_state \<Rightarrow> sha_state" where
  "sha_round k w (Sha a b c d e f g h) =
     sha_mix (h + sha_Sigma1 e + sha_ch e f g + k + w) (sha_Sigma0 a + sha_maj a b c)
       (Sha a b c d e f g h)"

text \<open>
  The message schedule is kept as a window of the last sixteen words, oldest first:
  each step yields the oldest word and pushes the next one.
\<close>

definition sha_next_word :: "u32 list \<Rightarrow> u32" where
  "sha_next_word ws = sha_sigma1 (ws ! 14) + ws ! 9 + sha_sigma0 (ws ! 1) + ws ! 0"

fun sha_rounds :: "u32 list \<Rightarrow> u32 list \<Rightarrow> sha_state \<Rightarrow> sha_state" where
  "sha_rounds [] ws st = st"
| "sha_rounds (k # ks) [] st = st"
| "sha_rounds (k # ks) (w # ws) st =
     sha_rounds ks (ws @ [sha_next_word (w # ws)]) (sha_round k w st)"

fun sha_add :: "sha_state \<Rightarrow> sha_state \<Rightarrow> sha_state" where
  "sha_add (Sha a b c d e f g h) (Sha a' b' c' d' e' f' g' h') =
     Sha (a + a') (b + b') (c + c') (d + d') (e + e') (f + f') (g + g') (h + h')"

definition sha_block :: "u32 list \<Rightarrow> sha_state \<Rightarrow> sha_state" where
  "sha_block ws st = sha_add st (sha_rounds sha_K ws st)"

subsection \<open>Padding and blocks\<close>

fun be_bytes :: "nat \<Rightarrow> int \<Rightarrow> int list" where
  "be_bytes 0 n = []"
| "be_bytes (Suc k) n = be_bytes k (n div 256) @ [n mod 256]"

definition sha_pad :: "int list \<Rightarrow> int list" where
  "sha_pad bs = bs @ 128 # replicate ((119 - length bs mod 64) mod 64) 0
     @ be_bytes 8 (8 * int (length bs))"

fun sha_words :: "int list \<Rightarrow> u32 list" where
  "sha_words (a # b # c # d # bs) =
     word_of_int (((a * 256 + b) * 256 + c) * 256 + d) # sha_words bs"
| "sha_words _ = []"

fun sha_blocks :: "nat \<Rightarrow> u32 list \<Rightarrow> sha_state \<Rightarrow> sha_state" where
  "sha_blocks 0 ws st = st"
| "sha_blocks (Suc n) ws st = sha_blocks n (drop 16 ws) (sha_block (take 16 ws) st)"

definition sha_digest_words :: "sha_state \<Rightarrow> u32 list" where
  "sha_digest_words st = [sha_a st, sha_b st, sha_c st, sha_d st,
     sha_e st, sha_f st, sha_g st, sha_h st]"

definition sha256_words :: "int list \<Rightarrow> u32 list" where
  "sha256_words bs = sha_digest_words (sha_blocks (length (sha_pad bs) div 64)
     (sha_words (sha_pad bs)) sha_init)"

subsection \<open>Hexadecimal text\<close>

definition hex_digit :: "int \<Rightarrow> char" where
  "hex_digit n = char_of (if n < 10 then 48 + n else 87 + n)"

fun hex_digits :: "nat \<Rightarrow> int \<Rightarrow> string" where
  "hex_digits 0 n = []"
| "hex_digits (Suc k) n = hex_digits k (n div 16) @ [hex_digit (n mod 16)]"

text \<open>\<open>hex.EncodeToString(sha256.Sum256([]byte(s))[:])\<close>: eight hexadecimal digits per word.\<close>

definition sha256_hex :: "string \<Rightarrow> string" where
  "sha256_hex s = concat (map (\<lambda>w. hex_digits 8 (uint w)) (sha256_words (bytes_of s)))"

lemma length_hex_digits [simp]: "length (hex_digits k n) = k"
  by (induction k n rule: hex_digits.induct) auto

lemma length_sha256_hex [simp]: "length (sha256_hex s) = 64"
  by (simp add: sha256_hex_def sha256_words_def sha_digest_words_def)

lemma sha256_hex_nonempty [simp]: "sha256_hex s \<noteq> []"
  using length_sha256_hex [of s] by (metis list.size(3) zero_neq_numeral)

text \<open>The digest text is lower-case hexadecimal, so it never needs escaping and is never empty.\<close>

lemma hex_digit_cases:
  "0 \<le> n \<Longrightarrow> n < 16 \<Longrightarrow> hex_digit n \<in> set ''0123456789abcdef''"
proof -
  assume "0 \<le> n" "n < 16"
  then have "n \<in> {0, 1, 2, 3, 4, 5, 6, 7, 8, 9, 10, 11, 12, 13, 14, 15}"
    by (simp only: insert_iff empty_iff) presburger
  then show ?thesis by (elim insertE) (simp_all add: hex_digit_def char_of_def)
qed

lemma set_hex_digits: "c \<in> set (hex_digits k n) \<Longrightarrow> c \<in> set ''0123456789abcdef''"
proof (induction k n rule: hex_digits.induct)
  case (2 k n)
  then show ?case using hex_digit_cases [of "n mod 16"] by fastforce
qed simp

lemma set_sha256_hex: "c \<in> set (sha256_hex s) \<Longrightarrow> c \<in> set ''0123456789abcdef''"
  unfolding sha256_hex_def using set_hex_digits by fastforce

end
