(* ===== verification/Go_Time.thy ===== *)
theory Go_Time
  imports Go_Text
begin

text \<open>
  What the source uses of package \<^verbatim>\<open>time\<close>.  A \<open>time.Time\<close> is the instant it denotes, in
  nanoseconds since the Unix epoch (an \<open>int\<close>); its zero value is \<open>zero_time\<close>.  A
  \<open>time.Duration\<close> is an \<open>int\<close> number of nanoseconds, an \<open>int64\<close> in Go: the one place
  where the source multiplies durations writes the wrap-around out (theory \<^verbatim>\<open>Backoff\<close>), and
  \<open>Time.Sub\<close> saturates as Go's does.  Every time the source formats is in UTC.

  \<open>format_rfc3339\<close> is \<open>t.Format(time.RFC3339)\<close>, \<open>parse_rfc3339\<close> is
  \<open>time.Parse(time.RFC3339, s)\<close> with every leniency of Go's parser (one-digit hours,
  a fraction after a comma, offsets of 24 hours).  The round trip between them is
  what makes a persisted deadline mean the instant it was computed from.
\<close>

subsection \<open>Durations and instants\<close>

definition nanosecond :: int where "nanosecond = 1"
definition second :: int where "second = 1000000000"
definition minute :: int where "minute = 60 * second"
definition hour :: int where "hour = 60 * minute"

lemmas duration_units = nanosecond_def second_def minute_def hour_def

text \<open>\<open>time.Time{}\<close>, the first of January of year 1.\<close>

definition zero_time :: int where "zero_time = -62135596800 * second"

definition max_duration :: int where "max_duration = 9223372036854775807"
definition min_duration :: int where "min_duration = -9223372036854775808"

text \<open>\<open>t.Sub(u)\<close>, saturating.\<close>

definition time_sub :: "int \<Rightarrow> int \<Rightarrow> int" where
  "time_sub t u = max min_duration (min max_duration (t - u))"

text \<open>\<open>t.Unix()\<close>.\<close>

definition unix :: "int \<Rightarrow> int" where "unix t = t div second"

lemma time_sub_pos_iff: "0 < time_sub t u \<longleftrightarrow> u < t"
  by (auto simp: time_sub_def max_duration_def min_duration_def)

lemma time_sub_le_zero_iff: "time_sub t u \<le> 0 \<longleftrightarrow> t \<le> u"
  using time_sub_pos_iff [of t u] by linarith

lemma time_sub_id: "\<bar>t - u\<bar> \<le> max_duration \<Longrightarrow> time_sub t u = t - u"
  by (auto simp: time_sub_def max_duration_def min_duration_def)

text \<open>
  \<open>Duration.String()\<close>: the fraction of \<open>v\<close> below \<open>10 ^ prec\<close> without trailing zeros, in
  the largest sub-second unit or as hours, minutes and seconds.
\<close>

definition fraction_text :: "nat \<Rightarrow> int \<Rightarrow> string" where
  "fraction_text prec v =
     (let ds = rev (dropWhile (\<lambda>c. c = CHR ''0'') (rev (pad_int prec (v mod 10 ^ prec))))
      in if ds = [] then [] else CHR ''.'' # ds)"

definition micro_sign :: string where "micro_sign = [CHR 0xC2, CHR 0xB5]"

definition duration_string :: "int \<Rightarrow> string" where
  "duration_string d =
     (let u = \<bar>d\<bar>; s = u div second; m = s div 60; h = m div 60;
          body =
            (if u = 0 then ''0s''
             else if u < 1000 then itoa u @ ''ns''
             else if u < 1000000 then itoa (u div 1000) @ fraction_text 3 u @ micro_sign @ ''s''
             else if u < second then itoa (u div 1000000) @ fraction_text 6 u @ ''ms''
             else (if 0 < h then itoa h @ ''h'' else [])
                  @ (if 0 < m then itoa (m mod 60) @ ''m'' else [])
                  @ itoa (s mod 60) @ fraction_text 9 u @ ''s'')
      in if d < 0 then CHR ''-'' # body else body)"

subsection \<open>The civil calendar\<close>

definition leap_year :: "int \<Rightarrow> bool" where
  "leap_year y \<longleftrightarrow> y mod 4 = 0 \<and> (y mod 100 \<noteq> 0 \<or> y mod 400 = 0)"

lemma leap_year_400: "leap_year (e * 400 + w) = leap_year w"
proof -
  have "e * 400 + w = e * 100 * 4 + w" "e * 400 + w = e * 4 * 100 + w" by simp_all
  then have "(e * 400 + w) mod 4 = w mod 4" "(e * 400 + w) mod 100 = w mod 100"
    "(e * 400 + w) mod 400 = w mod 400" by (metis mod_mult_self3)+
  then show ?thesis by (simp only: leap_year_def)
qed

text \<open>\<open>daysIn(month, year)\<close>.\<close>

definition days_in :: "int \<Rightarrow> int \<Rightarrow> int" where
  "days_in m y =
     (if m = 2 then (if leap_year y then 29 else 28)
      else if m = 4 \<or> m = 6 \<or> m = 9 \<or> m = 11 then 30 else 31)"

text \<open>
  Days are counted from the first of March of year 0, in cycles of 400, 100, 4 and
  1 years; months are counted from March too, so that the leap day is the last of its
  year.  \<open>epoch_days\<close> is the number of days to the Unix epoch.
\<close>

definition epoch_days :: int where "epoch_days = 719468"

definition day_of_months :: "int \<Rightarrow> int" where
  "day_of_months mp = (153 * mp + 2) div 5"

definition days_from_civil :: "int \<Rightarrow> int \<Rightarrow> int \<Rightarrow> int" where
  "days_from_civil y m d =
     (let y' = (if m \<le> 2 then y - 1 else y);
          mp = (if 2 < m then m - 3 else m + 9);
          era = y' div 400; yoe = y' mod 400
      in era * 146097 + yoe * 365 + yoe div 4 - yoe div 100 + day_of_months mp + d - 1 - epoch_days)"

text \<open>Year of the era and day of that year, from the day of the 400-year era.\<close>

definition year_of_era :: "int \<Rightarrow> int \<times> int" where
  "year_of_era doe =
     (let c = min 3 (doe div 36524); r = doe - 36524 * c;
          q = r div 1461; s = r mod 1461;
          a = min 3 (s div 365)
      in (100 * c + 4 * q + a, s - 365 * a))"

definition civil_of_era :: "int \<Rightarrow> int \<Rightarrow> int \<Rightarrow> int \<times> int \<times> int" where
  "civil_of_era era yoe doy =
     (let mp = (5 * doy + 2) div 153;
          m = (if mp < 10 then mp + 3 else mp - 9)
      in (era * 400 + yoe + (if m \<le> 2 then 1 else 0), m, doy - day_of_months mp + 1))"

definition civil_from_days :: "int \<Rightarrow> int \<times> int \<times> int" where
  "civil_from_days z =
     (let z' = z + epoch_days; era = z' div 146097;
          (yoe, doy) = year_of_era (z' mod 146097)
      in civil_of_era era yoe doy)"

text \<open>What \<open>year_of_era\<close> guarantees: it splits the day count, stays in range, and only
  yields a 366th day where the (March-based) year ends in a leap February.\<close>

lemma year_of_era_spec:
  assumes "0 \<le> doe" "doe < 146097" and e: "year_of_era doe = (yoe, doy)"
  shows "0 \<le> yoe \<and> yoe < 400 \<and> 0 \<le> doy \<and> doy \<le> 365 \<and>
    yoe * 365 + yoe div 4 - yoe div 100 + doy = doe \<and>
    (doy = 365 \<longrightarrow> leap_year (yoe + 1))"
proof -
  define c where "c = min 3 (doe div 36524)"
  define r where "r = doe - 36524 * c"
  define q where "q = r div 1461"
  define s where "s = r mod 1461"
  define a where "a = min 3 (s div 365)"
  have yd: "yoe = 100 * c + 4 * q + a" "doy = s - 365 * a"
    using e by (simp_all add: year_of_era_def Let_def c_def r_def q_def s_def a_def)
  have dm: "doe div 36524 * 36524 + doe mod 36524 = doe" by simp
  have c: "0 \<le> c" "c \<le> 3" "c < 3 \<longrightarrow> r < 36524" "c = 3 \<longrightarrow> r < 36525" "0 \<le> r"
    using assms(1,2) dm pos_mod_bound [of 36524 doe] pos_mod_sign [of 36524 doe]
      int_div_nonneg [of 36524 doe] unfolding c_def r_def by linarith+
  have rs: "1461 * q + s = r" "0 \<le> s" "s < 1461" by (simp_all add: q_def s_def)
  then have q: "0 \<le> q" "q \<le> 24" using c by linarith+
  have ds: "s div 365 * 365 + s mod 365 = s" by simp
  have a: "0 \<le> a" "a \<le> 3" "0 \<le> s - 365 * a" "a < 3 \<longrightarrow> s - 365 * a < 365"
    "s - 365 * a \<le> 365"
    using rs ds pos_mod_bound [of 365 s] pos_mod_sign [of 365 s] int_div_nonneg [of 365 s]
    unfolding a_def by linarith+
  have y4: "yoe div 4 = 25 * c + q" using yd a by simp
  have y100: "yoe div 100 = c" using yd a q by simp
  have sum: "yoe * 365 + yoe div 4 - yoe div 100 + doy = doe"
    using y4 y100 yd rs r_def by linarith
  have "leap_year (yoe + 1)" if "doy = 365"
  proof -
    have "a = 3" using that yd(2) a by linarith
    then have "s = 1460" using that yd by simp
    then have q24: "q = 24 \<longrightarrow> c = 3" using rs c by linarith
    have y1: "yoe + 1 = 100 * c + 4 * (q + 1)" using yd \<open>a = 3\<close> by simp
    show ?thesis
    proof (cases "q = 24")
      case True
      then show ?thesis using q24 y1 by (simp add: leap_year_def)
    next
      case False
      then have "q < 24" using q by linarith
      have m4: "(yoe + 1) mod 4 = 0" unfolding y1 by presburger
      have "(yoe + 1) mod 100 = 4 * (q + 1)" unfolding y1 using q \<open>q < 24\<close> by simp
      then show ?thesis using m4 q by (simp add: leap_year_def)
    qed
  qed
  then show ?thesis using yd a c q sum by auto
qed

text \<open>The month from the day of the (March-based) year, and the length of that month.\<close>

lemma month_of_day:
  assumes "0 \<le> doy" "doy \<le> 365" and mp: "mp = (5 * doy + 2) div 153"
  shows "0 \<le> mp" "mp \<le> 11" "day_of_months mp \<le> doy"
    "mp < 11 \<longrightarrow> doy - day_of_months mp <
       (if mp = 1 \<or> mp = 3 \<or> mp = 6 \<or> mp = 8 then 30 else 31)"
    "mp = 11 \<longrightarrow> day_of_months mp = 337"
proof -
  have dm: "153 * mp \<le> 5 * doy + 2" "5 * doy + 2 < 153 * mp + 153"
    using mp div_mult_mod_eq [of "5 * doy + 2" 153] pos_mod_bound [of 153 "5 * doy + 2"]
      pos_mod_sign [of 153 "5 * doy + 2"] by linarith+
  show r: "0 \<le> mp" "mp \<le> 11" using dm assms(1,2) by linarith+
  then have cases: "mp \<in> {0, 1, 2, 3, 4, 5, 6, 7, 8, 9, 10, 11}"
    by (simp only: insert_iff empty_iff) presburger
  have dms: "day_of_months 0 = 0" "day_of_months 1 = 31" "day_of_months 2 = 61"
    "day_of_months 3 = 92" "day_of_months 4 = 122" "day_of_months 5 = 153"
    "day_of_months 6 = 184" "day_of_months 7 = 214" "day_of_months 8 = 245"
    "day_of_months 9 = 275" "day_of_months 10 = 306" "day_of_months 11 = 337"
    by (simp_all add: day_of_months_def)
  have k: "day_of_months mp \<le> doy \<and> (mp < 11 \<longrightarrow> doy - day_of_months mp <
       (if mp = 1 \<or> mp = 3 \<or> mp = 6 \<or> mp = 8 then 30 else 31))"
    if "153 * mp \<le> 5 * doy + 2" "5 * doy + 2 < 153 * mp + 153"
    using cases that by (elim insertE emptyE; hypsubst) (simp_all add: dms)
  show "day_of_months mp \<le> doy" using k [OF dm] by simp
  show "mp < 11 \<longrightarrow> doy - day_of_months mp <
       (if mp = 1 \<or> mp = 3 \<or> mp = 6 \<or> mp = 8 then 30 else 31)" using k [OF dm] by simp
  show "mp = 11 \<longrightarrow> day_of_months mp = 337" by (simp add: dms)
qed

lemma civil_from_days_spec:
  assumes "civil_from_days z = (y, m, d)"
  shows "days_from_civil y m d = z \<and> 1 \<le> m \<and> m \<le> 12 \<and> 1 \<le> d \<and> d \<le> days_in m y"
proof -
  define era where "era = (z + epoch_days) div 146097"
  define doe where "doe = (z + epoch_days) mod 146097"
  obtain yoe doy where e: "year_of_era doe = (yoe, doy)" by fastforce
  define mp where "mp = (5 * doy + 2) div 153"
  have doe: "0 \<le> doe" "doe < 146097" by (simp_all add: doe_def)
  note s = year_of_era_spec [OF doe e]
  have doy: "0 \<le> doy" "doy \<le> 365" using s by auto
  note mo = month_of_day [OF doy mp_def]
  have ymd: "m = (if mp < 10 then mp + 3 else mp - 9)"
    "y = era * 400 + yoe + (if m \<le> 2 then 1 else 0)" "d = doy - day_of_months mp + 1"
    using assms by (auto simp: civil_from_days_def civil_of_era_def Let_def era_def [symmetric]
        doe_def [symmetric] e mp_def [symmetric])
  have m: "1 \<le> m" "m \<le> 12" "(if 2 < m then m - 3 else m + 9) = mp"
    using mo(1,2) unfolding ymd(1) by auto
  have y': "(if m \<le> 2 then y - 1 else y) = era * 400 + yoe" unfolding ymd(2) by simp
  have yq: "(era * 400 + yoe) div 400 = era" "(era * 400 + yoe) mod 400 = yoe" using s by auto
  define A where "A = yoe div 4"
  define B where "B = yoe div 100"
  have zsum: "era * 146097 + doe = z + epoch_days" by (simp add: era_def doe_def)
  have dsum: "yoe * 365 + A - B + doy = doe" using s by (simp add: A_def B_def)
  have "days_from_civil y m d =
      era * 146097 + yoe * 365 + A - B + day_of_months mp + d - 1 - epoch_days"
    unfolding days_from_civil_def Let_def m(3) y' yq A_def B_def ..
  then have "days_from_civil y m d = z" using zsum dsum ymd(3) by linarith
  moreover have "1 \<le> d" using ymd(3) mo(3) by linarith
  moreover have "d \<le> days_in m y"
  proof (cases "mp = 11")
    case False
    then show ?thesis using mo ymd unfolding days_in_def by auto
  next
    case True
    then have m2: "m = 2" and y1: "y = era * 400 + (yoe + 1)" using ymd by auto
    have "leap_year y = leap_year (yoe + 1)" unfolding y1 by (rule leap_year_400)
    then show ?thesis using True s ymd(3) mo(5) unfolding days_in_def m2 by auto
  qed
  ultimately show ?thesis using m by simp
qed

subsection \<open>RFC 3339 text\<close>

definition day_seconds :: int where "day_seconds = 86400"

definition civil_date :: "int \<Rightarrow> int \<times> int \<times> int" where
  "civil_date t = civil_from_days (unix t div day_seconds)"

definition format_rfc3339 :: "int \<Rightarrow> string" where
  "format_rfc3339 t =
     (let (y, m, d) = civil_date t; sod = unix t mod day_seconds
      in pad_int 4 y @ ''-'' @ pad_int 2 m @ ''-'' @ pad_int 2 d @ ''T''
         @ pad_int 2 (sod div 3600) @ '':'' @ pad_int 2 (sod mod 3600 div 60) @ '':''
         @ pad_int 2 (sod mod 60) @ ''Z'')"

text \<open>\<open>getnum\<close> of Go's parser: two digits, or one where \<open>fixed\<close> is false.\<close>

fun getnum :: "bool \<Rightarrow> string \<Rightarrow> (int \<times> string) option" where
  "getnum fixed [] = None"
| "getnum fixed (c # s) =
     (if \<not> is_digit c then None
      else (case s of
          e # s' \<Rightarrow> if is_digit e then Some (10 * digit_val c + digit_val e, s')
                     else if fixed then None else Some (digit_val c, s)
        | [] \<Rightarrow> if fixed then None else Some (digit_val c, s)))"

fun parse_year :: "string \<Rightarrow> (int \<times> string) option" where
  "parse_year (a # b # c # e # s) =
     (if is_digit a \<and> is_digit b \<and> is_digit c \<and> is_digit e
      then Some (1000 * digit_val a + 100 * digit_val b + 10 * digit_val c + digit_val e, s)
      else None)"
| "parse_year _ = None"

fun skip_char :: "char \<Rightarrow> string \<Rightarrow> string option" where
  "skip_char c [] = None"
| "skip_char c (e # s) = (if e = c then Some s else None)"

definition digits_value :: "string \<Rightarrow> int" where
  "digits_value s = foldl (\<lambda>v c. 10 * v + digit_val c) 0 s"

text \<open>A fraction after the seconds, of which nine digits count.\<close>

definition parse_fraction :: "string \<Rightarrow> int \<times> string" where
  "parse_fraction s =
     (case s of
        c # e # s' \<Rightarrow>
          if (c = CHR ''.'' \<or> c = CHR '','') \<and> is_digit e
          then (let ds = take 9 (takeWhile is_digit (e # s'))
                in (digits_value ds * 10 ^ (9 - length ds), dropWhile is_digit (e # s')))
          else (0, s)
      | _ \<Rightarrow> (0, s))"

text \<open>The offset, in seconds east of UTC; 24 hours and 60 minutes are accepted.\<close>

definition parse_zone :: "string \<Rightarrow> (int \<times> string) option" where
  "parse_zone s =
     (case s of
        [] \<Rightarrow> None
      | c # s' \<Rightarrow>
          if c = CHR ''Z'' then Some (0, s')
          else do {
            (hh, r) \<leftarrow> getnum True s';
            r' \<leftarrow> skip_char (CHR '':'') r;
            (mm, r'') \<leftarrow> getnum True r';
            if 24 < hh \<or> 60 < mm then None
            else if c = CHR ''+'' then Some ((hh * 60 + mm) * 60, r'')
            else if c = CHR ''-'' then Some (- ((hh * 60 + mm) * 60), r'')
            else None
          })"

definition parse_rfc3339 :: "string \<Rightarrow> int option" where
  "parse_rfc3339 s = do {
     (y, s) \<leftarrow> parse_year s;
     s \<leftarrow> skip_char (CHR ''-'') s;
     (mo, s) \<leftarrow> getnum True s;
     if mo < 1 \<or> 12 < mo then None else do {
     s \<leftarrow> skip_char (CHR ''-'') s;
     (d, s) \<leftarrow> getnum True s;
     s \<leftarrow> skip_char (CHR ''T'') s;
     (h, s) \<leftarrow> getnum False s;
     if 24 \<le> h then None else do {
     s \<leftarrow> skip_char (CHR '':'') s;
     (mi, s) \<leftarrow> getnum True s;
     if 60 \<le> mi then None else do {
     s \<leftarrow> skip_char (CHR '':'') s;
     (sec, s) \<leftarrow> getnum True s;
     if 60 \<le> sec then None else do {
     let (nsec, s) = parse_fraction s;
     (off, s) \<leftarrow> parse_zone s;
     if s \<noteq> [] \<or> d < 1 \<or> days_in mo y < d then None
     else Some ((days_from_civil y mo d * day_seconds + h * 3600 + mi * 60 + sec - off) * second + nsec)
     }}}}}"

lemma getnum_digits [simp]:
  assumes "0 \<le> n" "n < 100"
  shows "getnum fixed (digit_char (n div 10) # digit_char (n mod 10) # s) = Some (n, s)"
proof -
  have "n div 10 < 10" "0 \<le> n div 10" using assms by (simp_all add: int_div_less int_div_nonneg)
  then show ?thesis by simp
qed

lemma decimal_sum:
  "x1 * 10 + r1 = n \<Longrightarrow> x2 * 10 + r2 = x1 \<Longrightarrow> x3 * 10 + r3 = x2 \<Longrightarrow>
   1000 * x3 + 100 * r3 + 10 * r2 + r1 = (n::int)"
  by linarith

lemma parse_year_chars:
  "0 \<le> a \<Longrightarrow> a < 10 \<Longrightarrow> 0 \<le> b \<Longrightarrow> b < 10 \<Longrightarrow> 0 \<le> c \<Longrightarrow> c < 10 \<Longrightarrow> 0 \<le> e \<Longrightarrow> e < 10 \<Longrightarrow>
   parse_year (digit_char a # digit_char b # digit_char c # digit_char e # s) =
     Some (1000 * a + 100 * b + 10 * c + e, s)"
  by simp

lemma parse_year_digits:
  assumes "0 \<le> n" "n < 10000"
  shows "parse_year (digit_char (n div 1000) # digit_char (n div 100 mod 10) #
    digit_char (n div 10 mod 10) # digit_char (n mod 10) # s) = Some (n, s)"
proof -
  have d: "0 \<le> x mod 10" "x mod 10 < 10" "x div 10 * 10 + x mod 10 = x" for x :: int by simp_all
  note q = decimal_divs [of n]
  have "1000 * (n div 1000) + 100 * (n div 100 mod 10) + 10 * (n div 10 mod 10) + n mod 10 = n"
    unfolding q by (rule decimal_sum [OF d(3) d(3) d(3)])
  moreover have "0 \<le> n div 1000" "n div 1000 < 10"
    using assms by (simp_all add: int_div_less int_div_nonneg)
  ultimately show ?thesis
    using parse_year_chars [OF _ _ d(1,2) d(1,2) d(1,2)] by (simp only:)
qed

text \<open>The years Go's RFC 3339 layout can represent.\<close>

definition rfc3339_year :: "int \<Rightarrow> bool" where
  "rfc3339_year t \<longleftrightarrow> 0 \<le> fst (civil_date t) \<and> fst (civil_date t) < 10000"

lemma sod_split:
  fixes sod :: int
  assumes "0 \<le> sod" "sod < 86400"
  shows "0 \<le> sod div 3600" "sod div 3600 < 24" "0 \<le> sod mod 3600 div 60"
    "sod mod 3600 div 60 < 60" "0 \<le> sod mod 60" "sod mod 60 < 60"
    "sod div 3600 * 3600 + sod mod 3600 div 60 * 60 + sod mod 60 = sod"
proof -
  have m: "sod mod 3600 mod 60 = sod mod 60" by (rule mod_mod_cancel) simp
  have "sod div 3600 * 3600 + sod mod 3600 = sod"
    "sod mod 3600 div 60 * 60 + sod mod 3600 mod 60 = sod mod 3600" by simp_all
  then show "sod div 3600 * 3600 + sod mod 3600 div 60 * 60 + sod mod 60 = sod"
    unfolding m by linarith
  show "sod div 3600 < 24" using assms by (intro int_div_less) simp_all
  show "sod mod 3600 div 60 < 60" by (rule int_div_less) simp_all
  show "0 \<le> sod div 3600" using assms by (intro int_div_nonneg) simp_all
  show "0 \<le> sod mod 3600 div 60" by (rule int_div_nonneg) simp_all
qed simp_all

theorem parse_format_rfc3339:
  assumes "rfc3339_year t"
  shows "parse_rfc3339 (format_rfc3339 t) = Some (unix t * second)"
proof -
  obtain y m d where c: "civil_date t = (y, m, d)" by (metis prod_cases3)
  note s = civil_from_days_spec [OF c [unfolded civil_date_def]]
  have y: "0 \<le> y" "y < 10000" using assms c by (simp_all add: rfc3339_year_def)
  have md: "0 \<le> m" "m < 100" "0 \<le> d" "d < 100" "1 \<le> m" "m \<le> 12" "1 \<le> d" "d \<le> days_in m y"
    using s by (auto simp: days_in_def split: if_splits)
  define sod where "sod = unix t mod day_seconds"
  have sod: "0 \<le> sod" "sod < 86400" by (simp_all add: sod_def day_seconds_def)
  note h = sod_split [OF sod]
  have dsum: "days_from_civil y m d * day_seconds + sod = unix t"
    using s by (simp add: sod_def)
  have f: "format_rfc3339 t = pad_int 4 y @ ''-'' @ pad_int 2 m @ ''-'' @ pad_int 2 d @ ''T''
         @ pad_int 2 (sod div 3600) @ '':'' @ pad_int 2 (sod mod 3600 div 60) @ '':''
         @ pad_int 2 (sod mod 60) @ ''Z''"
    by (simp add: format_rfc3339_def c sod_def Let_def)
  define hh where "hh = sod div 3600"
  define mm where "mm = sod mod 3600 div 60"
  define ss where "ss = sod mod 60"
  have hms: "0 \<le> hh" "hh < 24" "0 \<le> mm" "mm < 60" "0 \<le> ss" "ss < 60"
    "hh * 3600 + mm * 60 + ss = sod"
    using h by (simp_all add: hh_def mm_def ss_def)
  have "parse_rfc3339 (format_rfc3339 t) =
      Some ((days_from_civil y m d * day_seconds + hh * 3600 + mm * 60 + ss - 0) * second + 0)"
    unfolding f hh_def [symmetric] mm_def [symmetric] ss_def [symmetric]
    using y md hms(1-6)
    by (simp add: pad_int_4 pad_int_2 parse_rfc3339_def parse_year_digits
        parse_fraction_def parse_zone_def Let_def del: getnum.simps parse_year.simps)
  moreover have "days_from_civil y m d * day_seconds + hh * 3600 + mm * 60 + ss - 0 = unix t"
    using dsum hms(7) by linarith
  ultimately show ?thesis by (simp only: add_0_right)
qed

text \<open>A formatted time is never the empty string, so it is never read as "absent".\<close>

lemma format_rfc3339_nonempty [simp]: "format_rfc3339 t \<noteq> []"
  by (simp add: format_rfc3339_def Let_def split: prod.splits)

end
