(* ===== verification/Go_Format.thy ===== *)
theory Go_Format
  imports Go_Time Go_Sha256
begin

text \<open>
  What the source uses of package \<^verbatim>\<open>strconv\<close> and of \<^verbatim>\<open>time.ParseDuration\<close>: the quoting of
  strings (\<^verbatim>\<open>%q\<close>), and the parsing of a duration with its overflow checks.  Whether a rune
  above Latin-1 is printable is a Unicode table, a parameter of the quoting.
\<close>

subsection \<open>strconv.Quote\<close>

text \<open>\<open>strconv.IsPrint\<close>, with \<open>p\<close> for the runes above 255.\<close>

definition is_print :: "(int \<Rightarrow> bool) \<Rightarrow> int \<Rightarrow> bool" where
  "is_print p r =
     (if r \<le> 255 then (32 \<le> r \<and> r < 127) \<or> (161 \<le> r \<and> r \<noteq> 173) else p r)"

definition escape_rune :: "(int \<Rightarrow> bool) \<Rightarrow> int \<Rightarrow> string" where
  "escape_rune p r =
     (if r = 34 \<or> r = 92 then CHR 0x5C # of_runes [r]
      else if is_print p r then of_runes [r]
      else if r = 7 then CHR 0x5C # ''a''
      else if r = 8 then CHR 0x5C # ''b''
      else if r = 12 then CHR 0x5C # ''f''
      else if r = 10 then CHR 0x5C # ''n''
      else if r = 13 then CHR 0x5C # ''r''
      else if r = 9 then CHR 0x5C # ''t''
      else if r = 11 then CHR 0x5C # ''v''
      else if r < 32 \<or> r = 127 then CHR 0x5C # ''x'' @ hex_digits 2 r
      else if r < 65536 then CHR 0x5C # ''u'' @ hex_digits 4 r
      else CHR 0x5C # ''U'' @ hex_digits 8 r)"

fun quote_bytes :: "(int \<Rightarrow> bool) \<Rightarrow> int list \<Rightarrow> string" where
  "quote_bytes p [] = []"
| "quote_bytes p (b # bs) =
     (let (r, w) = decode_rune (b # bs)
      in (if w = 1 \<and> r = rune_error then CHR 0x5C # ''x'' @ hex_digits 2 b else escape_rune p r)
         @ quote_bytes p (drop (w - 1) bs))"

declare quote_bytes.simps(2) [simp del]

definition go_quote :: "(int \<Rightarrow> bool) \<Rightarrow> string \<Rightarrow> string" where
  "go_quote p s = CHR 0x22 # quote_bytes p (bytes_of s) @ [CHR 0x22]"

text \<open>The quoting of package \<^verbatim>\<open>time\<close>'s own errors: bytewise.\<close>

definition time_quote :: "string \<Rightarrow> string" where
  "time_quote s = CHR 0x22 # concat (map (\<lambda>c.
     let b = of_char c :: int in
     if b \<ge> 128 \<or> b < 32 then CHR 0x5C # ''x'' @ hex_digits 2 b
     else if b = 34 \<or> b = 92 then [CHR 0x5C, c]
     else [c]) s) @ [CHR 0x22]"

subsection \<open>Floating-point numbers\<close>

text \<open>
  A positive \<open>float64\<close> in the range \<^verbatim>\<open>ParseDuration\<close> computes with is \<open>m * 2 ^ e\<close> with
  \<open>m\<close> of 53 bits; \<open>round53 n d\<close> is the one nearest to \<open>n / d\<close>, ties to even.
\<close>

datatype float64 = Float int int

function bit_length :: "int \<Rightarrow> int" where
  "bit_length n = (if n \<le> 0 then 0 else 1 + bit_length (n div 2))"
  by pat_completeness auto
termination
  by (relation "measure nat") (auto simp: nat_less_iff intro: int_div_less)

declare bit_length.simps [simp del]

definition half_even :: "int \<Rightarrow> int \<Rightarrow> int" where
  "half_even n d =
     (let q = n div d; r = n mod d
      in if 2 * r < d then q else if 2 * r > d then q + 1
         else if q mod 2 = 0 then q else q + 1)"

definition scaled :: "int \<Rightarrow> int \<Rightarrow> int \<Rightarrow> int" where
  "scaled n d e =
     (if 0 \<le> e then half_even n (d * 2 ^ nat e) else half_even (n * 2 ^ nat (- e)) d)"

definition round53 :: "int \<Rightarrow> int \<Rightarrow> float64" where
  "round53 n d =
     (let e0 = bit_length n - bit_length d - 53;
          e = (if (if 0 \<le> e0 then n \<ge> d * 2 ^ nat e0 * 2 ^ 53 else n * 2 ^ nat (- e0) \<ge> d * 2 ^ 53)
               then e0 + 1 else e0);
          m = scaled n d e
      in if n = 0 then Float 0 0 else Float m e)"

fun float_ratio :: "float64 \<Rightarrow> int \<times> int" where
  "float_ratio (Float m e) = (if 0 \<le> e then (m * 2 ^ nat e, 1) else (m, 2 ^ nat (- e)))"

definition float_div :: "float64 \<Rightarrow> float64 \<Rightarrow> float64" where
  "float_div x y =
     (let (a, b) = float_ratio x; (c, d) = float_ratio y in round53 (a * d) (b * c))"

definition float_mult :: "float64 \<Rightarrow> float64 \<Rightarrow> float64" where
  "float_mult x y =
     (let (a, b) = float_ratio x; (c, d) = float_ratio y in round53 (a * c) (b * d))"

definition float_trunc :: "float64 \<Rightarrow> int" where
  "float_trunc x = (let (a, b) = float_ratio x in a div b)"

subsection \<open>time.ParseDuration\<close>

text \<open>\<open>leadingInt\<close>: \<open>None\<close> on overflow past \<open>2 ^ 63\<close>.\<close>

fun leading_int :: "int \<Rightarrow> string \<Rightarrow> (int \<times> string) option" where
  "leading_int x [] = Some (x, [])"
| "leading_int x (c # s) =
     (if \<not> is_digit c then Some (x, c # s)
      else if x > 9223372036854775808 div 10 then None
      else let y = x * 10 + digit_val c
           in if y > 9223372036854775808 then None else leading_int y s)"

text \<open>\<open>leadingFraction\<close>: the digits used, their scale, and the rest.\<close>

fun leading_fraction :: "int \<Rightarrow> float64 \<Rightarrow> bool \<Rightarrow> string \<Rightarrow> int \<times> float64 \<times> string" where
  "leading_fraction x scale overflow [] = (x, scale, [])"
| "leading_fraction x scale overflow (c # s) =
     (if \<not> is_digit c then (x, scale, c # s)
      else if overflow then leading_fraction x scale True s
      else if x > 9223372036854775807 div 10 then leading_fraction x scale True s
      else let y = x * 10 + digit_val c
           in if y > 9223372036854775808 then leading_fraction x scale True s
              else leading_fraction y (float_mult scale (round53 10 1)) False s)"

definition unit_map :: "string \<Rightarrow> int option" where
  "unit_map = map_of
     [(''ns'', nanosecond), (''us'', 1000), (micro_sign @ ''s'', 1000),
      ([CHR 0xCE, CHR 0xBC] @ ''s'', 1000), (''ms'', 1000000), (''s'', second),
      (''m'', minute), (''h'', hour)]"

definition span_unit :: "string \<Rightarrow> string \<times> string" where
  "span_unit s = (takeWhile (\<lambda>c. \<not> (c = CHR ''.'' \<or> is_digit c)) s,
                  dropWhile (\<lambda>c. \<not> (c = CHR ''.'' \<or> is_digit c)) s)"

text \<open>One number and its unit: the value in nanoseconds and the rest of the text, or the
  text of the error.\<close>

definition parse_unit :: "string \<Rightarrow> string \<Rightarrow> string + int \<times> string" where
  "parse_unit orig s =
     (let invalid = ''time: invalid duration '' @ time_quote orig in
      case s of [] \<Rightarrow> Inl invalid | c # _ \<Rightarrow>
        if \<not> (c = CHR ''.'' \<or> is_digit c) then Inl invalid
        else (case leading_int 0 s of None \<Rightarrow> Inl invalid | Some (v, s1) \<Rightarrow>
          let pre = (length s \<noteq> length s1);
              (f, scale, s2, post) =
                (case s1 of
                   d # s1' \<Rightarrow> if d = CHR ''.''
                     then (let (f, scale, s2) = leading_fraction 0 (round53 1 1) False s1'
                           in (f, scale, s2, length s1' \<noteq> length s2))
                     else (0, round53 1 1, s1, False)
                 | [] \<Rightarrow> (0, round53 1 1, s1, False))
          in if \<not> pre \<and> \<not> post then Inl invalid
             else let (u, s3) = span_unit s2
                  in if u = [] then Inl (''time: missing unit in duration '' @ time_quote orig)
                     else case unit_map u of
                       None \<Rightarrow> Inl (''time: unknown unit '' @ time_quote u @ '' in duration ''
                                     @ time_quote orig)
                     | Some unit \<Rightarrow>
                         if v > 9223372036854775808 div unit then Inl invalid
                         else let v1 = v * unit;
                                  v2 = (if f > 0
                                        then v1 + float_trunc (float_mult (round53 f 1)
                                               (float_div (round53 unit 1) scale))
                                        else v1)
                              in if v2 > 9223372036854775808 then Inl invalid
                                 else Inr (v2, s3)))"

lemma leading_int_le: "leading_int x s = Some (v, s') \<Longrightarrow> length s' \<le> length s"
  by (induction s arbitrary: x) (auto simp: Let_def split: if_splits intro: le_SucI)

lemma leading_fraction_le:
  "leading_fraction x scale ov s = (f, sc, s') \<Longrightarrow> length s' \<le> length s"
  by (induction x scale ov s rule: leading_fraction.induct)
    (auto simp: Let_def split: if_splits intro: le_SucI)

lemma span_unit_less: "span_unit s = (u, s') \<Longrightarrow> u \<noteq> [] \<Longrightarrow> length s' < length s"
proof -
  assume "span_unit s = (u, s')" "u \<noteq> []"
  then have "s = u @ s'" by (auto simp: span_unit_def)
  then show ?thesis using \<open>u \<noteq> []\<close> by simp
qed

lemma parse_unit_less: "parse_unit orig s = Inr (v, s') \<Longrightarrow> length s' < length s"
  by (auto simp: parse_unit_def Let_def split: list.splits if_splits option.splits prod.splits
      dest!: leading_int_le leading_fraction_le span_unit_less)

function parse_units :: "string \<Rightarrow> int \<Rightarrow> string \<Rightarrow> string + int" where
  "parse_units orig d [] = Inr d"
| "parse_units orig d (c # s) =
     (case parse_unit orig (c # s) of
        Inl e \<Rightarrow> Inl e
      | Inr (v, s') \<Rightarrow>
          if d + v > 9223372036854775808 then Inl (''time: invalid duration '' @ time_quote orig)
          else parse_units orig (d + v) s')"
  by pat_completeness auto
termination
  by (relation "measure (\<lambda>(orig, d, s). length s)") (auto dest!: parse_unit_less)

declare parse_units.simps(2) [simp del]

definition parse_duration :: "string \<Rightarrow> string + int" where
  "parse_duration orig =
     (let invalid = ''time: invalid duration '' @ time_quote orig;
          (neg, s) = (case orig of
             c # s' \<Rightarrow> if c = CHR ''-'' \<or> c = CHR ''+'' then (c = CHR ''-'', s') else (False, orig)
           | [] \<Rightarrow> (False, orig))
      in if s = ''0'' then Inr 0
         else if s = [] then Inl invalid
         else case parse_units orig 0 s of
           Inl e \<Rightarrow> Inl e
         | Inr d \<Rightarrow> if neg then Inr (- d)
                    else if d > 9223372036854775807 then Inl invalid
                    else Inr d)"

end
