(* ===== verification/Api_Types.thy ===== *)
theory Api_Types
  imports Go_Time
begin

text \<open>
  The FeedGroup API objects (\<^verbatim>\<open>api/v1alpha1/feedgroup_types.go\<close>) as records, and the
  Kubernetes condition helpers the controller calls as a parameter.

  An optional pointer field is an \<open>option\<close>; a string field keeps Go's convention that
  the empty string is "absent".  \<open>LastSent\<close> is an association list with distinct keys;
  a nil map and an empty one are both \<open>[]\<close> (\<open>ensureFeedStatuses\<close> replaces nil by empty
  before anything writes to it).
\<close>

record feed_filter =
  flt_regex :: string
  flt_keywords :: "string list"

record embed_spec =
  em_enabled :: bool
  em_color :: string
  em_description_format :: string
  em_image_style :: string
  em_author_name :: string
  em_footer_text :: string

record feed_spec =
  rss_url :: string
  sp_filter :: "feed_filter option"
  sp_format :: string
  sp_embed :: "embed_spec option"
  forum_thread_name :: string
  forum_thread_id :: string
  sp_paused :: bool

record feed_group_spec =
  webhook_secret_name :: string
  webhook_secret_key :: string
  sp_interval :: string
  group_format :: string
  group_embed :: "embed_spec option"
  sp_username :: string
  sp_avatar_url :: string
  sp_retries :: int
  sp_retry_interval :: string
  sp_feeds :: "feed_spec list"
  sp_catch_up_limit :: "int option"

subsection \<open>Conditions\<close>

datatype condition_status = ConditionTrue | ConditionFalse | ConditionUnknown

record condition =
  cond_type :: string
  cond_status :: condition_status
  cond_reason :: string
  cond_message :: string
  cond_generation :: int
  cond_transition :: int

definition FeedConditionTypeReachable :: string where
  "FeedConditionTypeReachable = ''Reachable''"

definition FeedConditionTypeDelivered :: string where
  "FeedConditionTypeDelivered = ''Delivered''"

definition ConditionTypeReady :: string where
  "ConditionTypeReady = ''Ready''"

definition ConditionTypeFeedReachable :: string where
  "ConditionTypeFeedReachable = ''FeedReachable''"

lemmas condition_types = FeedConditionTypeReachable_def FeedConditionTypeDelivered_def
  ConditionTypeReady_def ConditionTypeFeedReachable_def

text \<open>
  \<^verbatim>\<open>k8s.io/apimachinery/pkg/api/meta\<close> is a third-party package: \<open>SetStatusCondition\<close>,
  \<open>FindStatusCondition\<close> and \<open>IsStatusConditionTrue/False\<close> are a parameter of the model.
  \<open>set_cond cs c\<close> returns the updated slice and whether it changed.
\<close>

record condition_api =
  set_cond :: "condition list \<Rightarrow> condition \<Rightarrow> condition list \<times> bool"
  find_cond :: "condition list \<Rightarrow> string \<Rightarrow> condition option"
  cond_is_true :: "condition list \<Rightarrow> string \<Rightarrow> bool"
  cond_is_false :: "condition list \<Rightarrow> string \<Rightarrow> bool"

text \<open>The fields a caller of \<open>SetStatusCondition\<close> decides (the transition time is the
  package's own).\<close>

definition same_condition :: "condition \<Rightarrow> condition \<Rightarrow> bool" where
  "same_condition c c' \<longleftrightarrow> cond_type c = cond_type c' \<and> cond_status c = cond_status c' \<and>
     cond_reason c = cond_reason c' \<and> cond_message c = cond_message c' \<and>
     cond_generation c = cond_generation c'"

text \<open>
  The documented behaviour the controller relies on: after a set, looking the type up
  finds the new condition and every other type is untouched; the set reports a change
  exactly when the type was missing or one of the fields differs; and the predicates
  read the found condition's status.
\<close>

definition condition_laws :: "condition_api \<Rightarrow> bool" where
  "condition_laws K \<longleftrightarrow>
     (\<forall>cs c. \<exists>c'. find_cond K (fst (set_cond K cs c)) (cond_type c) = Some c' \<and> same_condition c' c) \<and>
     (\<forall>cs c t. t \<noteq> cond_type c \<longrightarrow> find_cond K (fst (set_cond K cs c)) t = find_cond K cs t) \<and>
     (\<forall>cs c. snd (set_cond K cs c) \<longleftrightarrow>
        (case find_cond K cs (cond_type c) of None \<Rightarrow> True | Some old \<Rightarrow> \<not> same_condition old c)) \<and>
     (\<forall>cs t. cond_is_true K cs t \<longleftrightarrow>
        (case find_cond K cs t of None \<Rightarrow> False | Some c \<Rightarrow> cond_status c = ConditionTrue)) \<and>
     (\<forall>cs t. cond_is_false K cs t \<longleftrightarrow>
        (case find_cond K cs t of None \<Rightarrow> False | Some c \<Rightarrow> cond_status c = ConditionFalse))"

text \<open>
  A concrete instance, used by the witnesses: the condition of a type is the first with
  it, a set replaces it in place or appends, and the transition time moves to \<open>now\<close> when
  the status does.
\<close>

fun list_find_cond :: "condition list \<Rightarrow> string \<Rightarrow> condition option" where
  "list_find_cond [] t = None"
| "list_find_cond (c # cs) t = (if cond_type c = t then Some c else list_find_cond cs t)"

fun list_set_cond :: "int \<Rightarrow> condition list \<Rightarrow> condition \<Rightarrow> condition list \<times> bool" where
  "list_set_cond now [] c = ([c\<lparr>cond_transition := now\<rparr>], True)"
| "list_set_cond now (old # cs) c =
     (if cond_type old = cond_type c
      then (c\<lparr>cond_transition := (if cond_status old = cond_status c then cond_transition old else now)\<rparr> # cs,
            \<not> same_condition old c)
      else (case list_set_cond now cs c of (cs', changed) \<Rightarrow> (old # cs', changed)))"

definition list_conditions :: "int \<Rightarrow> condition_api" where
  "list_conditions now =
     \<lparr>set_cond = list_set_cond now,
      find_cond = list_find_cond,
      cond_is_true = (\<lambda>cs t. case list_find_cond cs t of None \<Rightarrow> False
        | Some c \<Rightarrow> cond_status c = ConditionTrue),
      cond_is_false = (\<lambda>cs t. case list_find_cond cs t of None \<Rightarrow> False
        | Some c \<Rightarrow> cond_status c = ConditionFalse)\<rparr>"

lemma list_set_cond_finds:
  "\<exists>c'. list_find_cond (fst (list_set_cond now cs c)) (cond_type c) = Some c' \<and> same_condition c' c"
  by (induction cs) (auto simp: same_condition_def split: prod.splits)

lemma list_set_cond_other:
  "t \<noteq> cond_type c \<Longrightarrow> list_find_cond (fst (list_set_cond now cs c)) t = list_find_cond cs t"
  by (induction cs) (auto split: prod.splits)

lemma list_set_cond_changed:
  "snd (list_set_cond now cs c) \<longleftrightarrow>
     (case list_find_cond cs (cond_type c) of None \<Rightarrow> True | Some old \<Rightarrow> \<not> same_condition old c)"
  by (induction cs) (auto split: prod.splits option.splits)

lemma list_conditions_laws: "condition_laws (list_conditions now)"
  unfolding condition_laws_def list_conditions_def
  using list_set_cond_finds list_set_cond_other list_set_cond_changed by simp

lemma condition_laws_find:
  assumes "condition_laws K"
  shows "\<exists>c'. find_cond K (fst (set_cond K cs c)) (cond_type c) = Some c' \<and> same_condition c' c"
    and "t \<noteq> cond_type c \<Longrightarrow> find_cond K (fst (set_cond K cs c)) t = find_cond K cs t"
  using assms by (auto simp: condition_laws_def)

lemma condition_laws_changed:
  assumes "condition_laws K"
  shows "snd (set_cond K cs c) \<longleftrightarrow>
     (case find_cond K cs (cond_type c) of None \<Rightarrow> True | Some old \<Rightarrow> \<not> same_condition old c)"
  using assms unfolding condition_laws_def by blast

lemma condition_laws_is:
  assumes "condition_laws K"
  shows "cond_is_true K cs t \<longleftrightarrow>
      (case find_cond K cs t of None \<Rightarrow> False | Some c \<Rightarrow> cond_status c = ConditionTrue)"
    and "cond_is_false K cs t \<longleftrightarrow>
      (case find_cond K cs t of None \<Rightarrow> False | Some c \<Rightarrow> cond_status c = ConditionFalse)"
  using assms unfolding condition_laws_def by blast+

lemma is_false_after_set:
  assumes "condition_laws K" "cond_type c = t"
  shows "cond_is_false K (fst (set_cond K cs c)) t \<longleftrightarrow> cond_status c = ConditionFalse"
    and "cond_is_true K (fst (set_cond K cs c)) t \<longleftrightarrow> cond_status c = ConditionTrue"
  using condition_laws_find(1) [OF assms(1), of cs c] assms(2)
  by (auto simp: condition_laws_is [OF assms(1)] same_condition_def)

lemma is_false_after_other_set:
  assumes "condition_laws K" "cond_type c \<noteq> t"
  shows "cond_is_false K (fst (set_cond K cs c)) t = cond_is_false K cs t"
    and "cond_is_true K (fst (set_cond K cs c)) t = cond_is_true K cs t"
  using condition_laws_find(2) [OF assms(1), of t c cs] assms(2)
  by (auto simp: condition_laws_is [OF assms(1)])

subsection \<open>Status\<close>

record feed_status =
  conditions :: "condition list"
  fs_url :: string
  last_checked :: string
  initialized :: bool
  state_version :: int
  last_seen_entry :: string
  last_sent :: "(string \<times> string) list"
  last_error :: string
  etag :: string
  last_modified :: string
  retry_count :: int
  backoff_until :: string

record feed_group_status =
  gs_conditions :: "condition list"
  gs_feeds :: "feed_status list"
  observed_generation :: int
  webhook_secret_version :: string

record feed_group =
  fg_namespace :: string
  fg_name :: string
  fg_generation :: int
  fg_spec :: feed_group_spec
  fg_status :: feed_group_status

text \<open>\<open>v1alpha1.FeedStatus{RSSUrl: url}\<close>: every other field is its zero value.\<close>

definition new_feed_status :: "string \<Rightarrow> feed_status" where
  "new_feed_status url =
     \<lparr>conditions = [], fs_url = url, last_checked = [], initialized = False, state_version = 0,
      last_seen_entry = [], last_sent = [], last_error = [], etag = [], last_modified = [],
      retry_count = 0, backoff_until = []\<rparr>"


text \<open>A group the witnesses of later theories evaluate on.\<close>

definition example_feed :: "string \<Rightarrow> feed_spec" where
  "example_feed url =
     \<lparr>rss_url = url, sp_filter = None, sp_format = [], sp_embed = None, forum_thread_name = [],
      forum_thread_id = [], sp_paused = False\<rparr>"

definition example_group :: "feed_spec list \<Rightarrow> feed_status list \<Rightarrow> feed_group" where
  "example_group feeds statuses =
     \<lparr>fg_namespace = ''news'', fg_name = ''go'', fg_generation = 1,
      fg_spec = \<lparr>webhook_secret_name = ''hook'', webhook_secret_key = ''url'',
        sp_interval = ''30m'', group_format = [], group_embed = None, sp_username = [],
        sp_avatar_url = [], sp_retries = 3, sp_retry_interval = [], sp_feeds = feeds,
        sp_catch_up_limit = None\<rparr>,
      fg_status = \<lparr>gs_conditions = [], gs_feeds = statuses, observed_generation = 1,
        webhook_secret_version = []\<rparr>\<rparr>"

end
