(* ===== verification/Failures.thy ===== *)
theory Failures
  imports Go_Time
begin

text \<open>
  The errors a fetch or a send can return, and their classification
  (\<^verbatim>\<open>internal/controller/classify.go\<close>, with the typed errors of \<^verbatim>\<open>internal/rss\<close> and
  \<^verbatim>\<open>internal/discord\<close>).

  A Go error is a value of \<open>go_error\<close>: one constructor per typed error the source
  declares or matches, \<open>NetError\<close> for the \<^verbatim>\<open>net.Error\<close>s of the standard library it does not
  tell apart (such as \<^verbatim>\<open>*net.OpError\<close>), \<open>UrlError\<close> for \<^verbatim>\<open>*url.Error\<close>, \<open>WrapError\<close> for \<^verbatim>\<open>fmt.Errorf\<close> with \<^verbatim>\<open>%w\<close>
  and \<open>PlainError\<close> for an error with only a text.  \<open>err_chain\<close> lists an error and what
  \<^verbatim>\<open>Unwrap\<close> yields from it, in the order \<^verbatim>\<open>errors.AsType\<close> searches.
\<close>

datatype go_error =
    RssHTTPStatusError int string string
  | ResponseTooLargeError int
  | InvalidURLError string string "go_error option"
  | UnrecognizedFormatError string
  | ParseError go_error
  | BlockedAddressError string
  | RateLimitError int
  | DiscordHTTPStatusError int string string
  | CertificateVerificationError string go_error
  | UnknownAuthorityError string
  | HostnameError string
  | CertificateInvalidError string
  | DNSError string bool
  | NetError string bool "go_error option"
  | UrlError string bool go_error
  | WrapError string go_error
  | PlainError string

fun err_text :: "go_error \<Rightarrow> string" where
  "err_text (RssHTTPStatusError code status body) =
     (if body = [] then ''feed fetch failed: '' @ status
      else ''feed fetch failed: '' @ status @ '': '' @ body)"
| "err_text (ResponseTooLargeError limit) =
     ''feed response exceeds maximum allowed size of '' @ itoa limit @ '' bytes''"
| "err_text (InvalidURLError url msg e) = msg"
| "err_text (UnrecognizedFormatError root) =
     ''unrecognized feed format: root element <'' @ root @ ''>''"
| "err_text (ParseError e) = ''parse feed: '' @ err_text e"
| "err_text (BlockedAddressError addr) = ''refusing to connect to non-public address '' @ addr"
| "err_text (RateLimitError d) =
     ''discord webhook rate limited, retry after '' @ duration_string d"
| "err_text (DiscordHTTPStatusError code status detail) =
     ''discord webhook returned '' @ status @ detail"
| "err_text (CertificateVerificationError text e) = text"
| "err_text (UnknownAuthorityError text) = text"
| "err_text (HostnameError text) = text"
| "err_text (CertificateInvalidError text) = text"
| "err_text (DNSError text timeout) = text"
| "err_text (NetError text timeout e) = text"
| "err_text (UrlError text timeout e) = text"
| "err_text (WrapError text e) = text"
| "err_text (PlainError text) = text"

fun err_chain :: "go_error \<Rightarrow> go_error list" where
  "err_chain (ParseError e) = ParseError e # err_chain e"
| "err_chain (CertificateVerificationError text e) =
     CertificateVerificationError text e # err_chain e"
| "err_chain (WrapError text e) = WrapError text e # err_chain e"
| "err_chain (InvalidURLError url msg (Some e)) = InvalidURLError url msg (Some e) # err_chain e"
| "err_chain (NetError text timeout (Some e)) = NetError text timeout (Some e) # err_chain e"
| "err_chain (UrlError text timeout e) = UrlError text timeout e # err_chain e"
| "err_chain e = [e]"

text \<open>\<open>errors.AsType[T](err)\<close>: the first error of the chain that is a \<open>T\<close>.\<close>

definition as_type :: "(go_error \<Rightarrow> 'a option) \<Rightarrow> go_error \<Rightarrow> 'a option" where
  "as_type match e = (case List.map_filter match (err_chain e) of [] \<Rightarrow> None | x # _ \<Rightarrow> Some x)"

fun rss_status_code :: "go_error \<Rightarrow> int option" where
  "rss_status_code (RssHTTPStatusError code s b) = Some code"
| "rss_status_code _ = None"

fun discord_status_code :: "go_error \<Rightarrow> int option" where
  "discord_status_code (DiscordHTTPStatusError code s d) = Some code"
| "discord_status_code _ = None"

fun rate_limit_wait :: "go_error \<Rightarrow> int option" where
  "rate_limit_wait (RateLimitError d) = Some d"
| "rate_limit_wait _ = None"

text \<open>The \<open>Timeout()\<close> of the errors that are \<^verbatim>\<open>net.Error\<close>s.\<close>

fun net_timeout :: "go_error \<Rightarrow> bool option" where
  "net_timeout (DNSError text timeout) = Some timeout"
| "net_timeout (NetError text timeout e) = Some timeout"
| "net_timeout (UrlError text timeout e) = Some timeout"
| "net_timeout _ = None"

definition when_is :: "(go_error \<Rightarrow> bool) \<Rightarrow> go_error \<Rightarrow> unit option" where
  "when_is P e = (if P e then Some () else None)"

definition has_type :: "(go_error \<Rightarrow> bool) \<Rightarrow> go_error \<Rightarrow> bool" where
  "has_type P e \<longleftrightarrow> as_type (when_is P) e \<noteq> None"

fun is_BlockedAddressError :: "go_error \<Rightarrow> bool" where
  "is_BlockedAddressError (BlockedAddressError a) = True"
| "is_BlockedAddressError _ = False"

fun is_UnrecognizedFormatError :: "go_error \<Rightarrow> bool" where
  "is_UnrecognizedFormatError (UnrecognizedFormatError r) = True"
| "is_UnrecognizedFormatError _ = False"

fun is_ParseError :: "go_error \<Rightarrow> bool" where
  "is_ParseError (ParseError e) = True"
| "is_ParseError _ = False"

fun is_ResponseTooLargeError :: "go_error \<Rightarrow> bool" where
  "is_ResponseTooLargeError (ResponseTooLargeError l) = True"
| "is_ResponseTooLargeError _ = False"

fun is_InvalidURLError :: "go_error \<Rightarrow> bool" where
  "is_InvalidURLError (InvalidURLError u m e) = True"
| "is_InvalidURLError _ = False"

fun is_DNSError :: "go_error \<Rightarrow> bool" where
  "is_DNSError (DNSError s t) = True"
| "is_DNSError _ = False"

fun is_certificate_error :: "go_error \<Rightarrow> bool" where
  "is_certificate_error (CertificateVerificationError s e) = True"
| "is_certificate_error (UnknownAuthorityError s) = True"
| "is_certificate_error (HostnameError s) = True"
| "is_certificate_error (CertificateInvalidError s) = True"
| "is_certificate_error _ = False"

subsection \<open>Classes\<close>

record failure_class =
  metric_reason :: string
  condition_reason :: string
  permanent :: bool

abbreviation mk_class :: "string \<Rightarrow> string \<Rightarrow> bool \<Rightarrow> failure_class" where
  "mk_class m r p \<equiv> \<lparr>metric_reason = m, condition_reason = r, permanent = p\<rparr>"

definition classNotFound :: failure_class where
  "classNotFound = mk_class ''not_found'' ''HTTP404'' True"
definition classGone :: failure_class where
  "classGone = mk_class ''gone'' ''HTTP410'' True"
definition classRateLimited :: failure_class where
  "classRateLimited = mk_class ''rate_limited'' ''RateLimited'' False"
definition classServerError :: failure_class where
  "classServerError = mk_class ''server_error'' ''ServerError'' False"
definition classClientError :: failure_class where
  "classClientError = mk_class ''client_error'' ''ClientError'' True"
definition classTimeout :: failure_class where
  "classTimeout = mk_class ''timeout'' ''Timeout'' False"
definition classDNSFailure :: failure_class where
  "classDNSFailure = mk_class ''dns_failure'' ''DNSFailure'' False"
definition classParseError :: failure_class where
  "classParseError = mk_class ''parse_error'' ''ParseError'' True"
definition classUnrecognizedFormat :: failure_class where
  "classUnrecognizedFormat = mk_class ''unrecognized_format'' ''UnrecognizedFormat'' True"
definition classWebhookInvalid :: failure_class where
  "classWebhookInvalid = mk_class ''webhook_invalid'' ''WebhookInvalid'' True"
definition classBlockedAddress :: failure_class where
  "classBlockedAddress = mk_class ''blocked_address'' ''BlockedAddress'' True"
definition classTLSError :: failure_class where
  "classTLSError = mk_class ''tls_error'' ''TLSError'' True"
definition classResponseTooLarge :: failure_class where
  "classResponseTooLarge = mk_class ''response_too_large'' ''ResponseTooLarge'' True"
definition classInvalidURL :: failure_class where
  "classInvalidURL = mk_class ''invalid_url'' ''InvalidURL'' True"
definition classOther :: failure_class where
  "classOther = mk_class ''other'' ''Other'' False"

lemmas class_defs = classNotFound_def classGone_def classRateLimited_def classServerError_def
  classClientError_def classTimeout_def classDNSFailure_def classParseError_def
  classUnrecognizedFormat_def classWebhookInvalid_def classBlockedAddress_def classTLSError_def
  classResponseTooLarge_def classInvalidURL_def classOther_def

definition classifyHTTPStatus :: "int \<Rightarrow> failure_class" where
  "classifyHTTPStatus code =
     (if code = 404 then classNotFound
      else if code = 410 then classGone
      else if code = 429 then classRateLimited
      else if code \<ge> 500 then classServerError
      else if code \<ge> 400 then classClientError
      else classOther)"

definition isTLSCertificateError :: "go_error \<Rightarrow> bool" where
  "isTLSCertificateError e = has_type is_certificate_error e"

definition classifyNetworkError :: "go_error \<Rightarrow> failure_class option" where
  "classifyNetworkError e =
     (if has_type is_DNSError e then Some classDNSFailure
      else case as_type net_timeout e of
             Some True \<Rightarrow> Some classTimeout
           | _ \<Rightarrow> None)"

definition classifyFetchError :: "go_error \<Rightarrow> failure_class" where
  "classifyFetchError e =
     (case as_type rss_status_code e of
        Some code \<Rightarrow> classifyHTTPStatus code
      | None \<Rightarrow>
          if has_type is_BlockedAddressError e then classBlockedAddress
          else if isTLSCertificateError e then classTLSError
          else case classifyNetworkError e of
            Some c \<Rightarrow> c
          | None \<Rightarrow>
              if has_type is_UnrecognizedFormatError e then classUnrecognizedFormat
              else if has_type is_ParseError e then classParseError
              else if has_type is_ResponseTooLargeError e then classResponseTooLarge
              else if has_type is_InvalidURLError e then classInvalidURL
              else classOther)"

definition classifySendError :: "go_error \<Rightarrow> failure_class" where
  "classifySendError e =
     (if as_type rate_limit_wait e \<noteq> None then classRateLimited
      else case as_type discord_status_code e of
        Some code \<Rightarrow> if code = 404 then classWebhookInvalid else classifyHTTPStatus code
      | None \<Rightarrow>
          if isTLSCertificateError e then classTLSError
          else case classifyNetworkError e of Some c \<Rightarrow> c | None \<Rightarrow> classOther)"

subsection \<open>What the classification guarantees\<close>

lemma as_type_None: "as_type m e = None \<longleftrightarrow> (\<forall>x \<in> set (err_chain e). m x = None)"
  unfolding as_type_def map_filter_Nil_iff [symmetric] by (simp split: list.splits)

lemma has_type_iff: "has_type P e \<longleftrightarrow> (\<exists>x \<in> set (err_chain e). P x)"
  by (simp add: has_type_def as_type_None when_is_def)

lemma as_type_cons:
  "err_chain e = x # xs \<Longrightarrow> err_chain e' = xs \<Longrightarrow>
     as_type m e = (case m x of Some v \<Rightarrow> Some v | None \<Rightarrow> as_type m e')"
  by (auto simp: as_type_def List.map_filter_simps split: option.splits)

lemma has_type_cons:
  "err_chain e = x # xs \<Longrightarrow> err_chain e' = xs \<Longrightarrow> has_type P e \<longleftrightarrow> P x \<or> has_type P e'"
  by (simp add: has_type_iff)

text \<open>Layers of \<^verbatim>\<open>fmt.Errorf\<close> and of standard library network errors around a cause.\<close>

inductive wraps :: "go_error \<Rightarrow> go_error \<Rightarrow> bool" where
  wraps_refl: "wraps e e"
| wraps_fmt: "wraps e c \<Longrightarrow> wraps (WrapError text e) c"
| wraps_net: "wraps e c \<Longrightarrow> wraps (NetError text timeout (Some e)) c"
| wraps_url: "wraps e c \<Longrightarrow> wraps (UrlError text timeout e) c"

lemma wraps_has_type:
  assumes "wraps e c" and "\<And>t x. \<not> P (WrapError t x)" and "\<And>t b x. \<not> P (NetError t b x)"
    and "\<And>t b x. \<not> P (UrlError t b x)"
  shows "has_type P e = has_type P c"
  using assms by (induction rule: wraps.induct) (auto simp: has_type_iff)

lemma wraps_as_type:
  assumes "wraps e c" and "\<And>t x. m (WrapError t x) = None" and "\<And>t b x. m (NetError t b x) = None"
    and "\<And>t b x. m (UrlError t b x) = None"
  shows "as_type m e = as_type m c"
  using assms by (induction rule: wraps.induct) (auto simp: as_type_def List.map_filter_simps)

lemma permanent_http:
  "permanent (classifyHTTPStatus code) \<longleftrightarrow> 400 \<le> code \<and> code < 500 \<and> code \<noteq> 429"
  by (auto simp: classifyHTTPStatus_def class_defs)

lemmas wraps_typed = wraps_has_type [where P = is_BlockedAddressError, simplified]
  wraps_has_type [where P = is_certificate_error, simplified]
  wraps_has_type [where P = is_DNSError, simplified]
  wraps_as_type [where m = rss_status_code, simplified]
  wraps_as_type [where m = discord_status_code, simplified]
  wraps_as_type [where m = rate_limit_wait, simplified]

lemma singleton_chain:
  "err_chain e = [e] \<Longrightarrow> has_type P e = P e" "err_chain e = [e] \<Longrightarrow> as_type m e = m e"
  by (auto simp: has_type_iff as_type_def List.map_filter_simps split: option.splits)

text \<open>What a cause classifies as when only its typed error is looked at.\<close>

fun fetch_cause_class :: "go_error \<Rightarrow> failure_class option" where
  "fetch_cause_class (RssHTTPStatusError code s b) = Some (classifyHTTPStatus code)"
| "fetch_cause_class (BlockedAddressError a) = Some classBlockedAddress"
| "fetch_cause_class (UnknownAuthorityError s) = Some classTLSError"
| "fetch_cause_class (HostnameError s) = Some classTLSError"
| "fetch_cause_class (CertificateInvalidError s) = Some classTLSError"
| "fetch_cause_class (DNSError s timeout) = Some classDNSFailure"
| "fetch_cause_class _ = None"

fun send_cause_class :: "go_error \<Rightarrow> failure_class option" where
  "send_cause_class (RateLimitError d) = Some classRateLimited"
| "send_cause_class (DiscordHTTPStatusError code s b) =
     Some (if code = 404 then classWebhookInvalid else classifyHTTPStatus code)"
| "send_cause_class (UnknownAuthorityError s) = Some classTLSError"
| "send_cause_class (HostnameError s) = Some classTLSError"
| "send_cause_class (CertificateInvalidError s) = Some classTLSError"
| "send_cause_class (DNSError s timeout) = Some classDNSFailure"
| "send_cause_class _ = None"

lemma fetch_class_wrapped:
  assumes "wraps e c" "fetch_cause_class c = Some k"
  shows "classifyFetchError e = k"
  using assms(2) wraps_typed [OF assms(1)]
  by (cases c) (simp_all add: classifyFetchError_def isTLSCertificateError_def
      classifyNetworkError_def singleton_chain)

lemma send_class_wrapped:
  assumes "wraps e c" "send_cause_class c = Some k"
  shows "classifySendError e = k"
  using assms(2) wraps_typed [OF assms(1)]
  by (cases c) (simp_all add: classifySendError_def isTLSCertificateError_def
      classifyNetworkError_def singleton_chain)

text \<open>C33: A failure is classified by its cause however deep it is wrapped, in \<^verbatim>\<open>fmt.Errorf\<close> layers
  and in network errors, even ones that report a timeout; and an HTTP failure backs off as
  permanent exactly for a 4xx status other than 429.\<close>

theorem failures_classified_by_cause:
  assumes "wraps e c"
  shows "(\<forall>k. fetch_cause_class c = Some k \<longrightarrow> classifyFetchError e = k) \<and>
    (\<forall>k. send_cause_class c = Some k \<longrightarrow> classifySendError e = k) \<and>
    (\<forall>code s b. c = RssHTTPStatusError code s b \<longrightarrow>
      permanent (classifyFetchError e) = (400 \<le> code \<and> code < 500 \<and> code \<noteq> 429)) \<and>
    (\<forall>code s b. c = DiscordHTTPStatusError code s b \<longrightarrow>
      permanent (classifySendError e) = (400 \<le> code \<and> code < 500 \<and> code \<noteq> 429))"
  using fetch_class_wrapped [OF assms] send_class_wrapped [OF assms] permanent_http
  by (auto simp: classWebhookInvalid_def)

lemma failures_classified_by_cause_witness:
  "classifyFetchError (UrlError ''Get: dial'' True (NetError ''timeout'' True (Some (BlockedAddressError ''10.0.0.1''))))
   = classBlockedAddress"
  using failures_classified_by_cause [OF wraps_url [OF wraps_net [OF wraps_refl]]] by simp

end
