(* ===== verification/Status_Text.thy ===== *)
theory Status_Text
  imports Failures Api_Types
begin

text \<open>
  The bounds on free text stored in a FeedStatus (\<^verbatim>\<open>clampText\<close>, \<^verbatim>\<open>errText\<close> and
  \<^verbatim>\<open>setFeedCondition\<close> of \<^verbatim>\<open>internal/controller/status_store.go\<close>).
\<close>

definition maxStatusTextBytes :: int where "maxStatusTextBytes = 2048"
definition maxConditionMessageBytes :: int where "maxConditionMessageBytes = 1024"

text \<open>The three bytes of the ellipsis character.\<close>

definition ellipsis :: string where
  "ellipsis = [CHR 0xE2, CHR 0x80, CHR 0xA6]"

text \<open>The loop \<open>for cut > 0 && !utf8.RuneStart(s[cut])\<close>.\<close>

fun cut_back :: "string \<Rightarrow> nat \<Rightarrow> nat" where
  "cut_back s 0 = 0"
| "cut_back s (Suc k) =
     (if rune_start (of_char (s ! Suc k)) then Suc k else cut_back s k)"

definition clampText :: "string \<Rightarrow> int \<Rightarrow> string" where
  "clampText s limit =
     (if int (length s) \<le> limit then s
      else take (cut_back s (nat (limit - 3))) s @ ellipsis)"

definition errText :: "go_error \<Rightarrow> string" where
  "errText e = clampText (err_text e) maxStatusTextBytes"

definition setFeedCondition ::
  "condition_api \<Rightarrow> feed_status \<Rightarrow> string \<Rightarrow> condition_status \<Rightarrow> string \<Rightarrow> string \<Rightarrow> int
   \<Rightarrow> feed_status \<times> bool" where
  "setFeedCondition K fs ctype st reason message generation =
     (let (cs, changed) = set_cond K (conditions fs)
        \<lparr>cond_type = ctype, cond_status = st, cond_reason = reason,
         cond_message = clampText message maxConditionMessageBytes,
         cond_generation = generation, cond_transition = zero_time\<rparr>
      in (fs\<lparr>conditions := cs\<rparr>, changed))"

lemma cut_back_le: "cut_back s n \<le> n"
  by (induction n) auto

lemma cut_back_start: "0 < cut_back s n \<Longrightarrow> rune_start (of_char (s ! cut_back s n))"
  by (induction n) auto

lemma length_clampText: "3 \<le> limit \<Longrightarrow> int (length (clampText s limit)) \<le> limit"
  using cut_back_le [of s "nat (limit - 3)"] by (auto simp: clampText_def ellipsis_def)

lemma clampText_id: "int (length s) \<le> limit \<Longrightarrow> clampText s limit = s"
  by (simp add: clampText_def)

lemma clampText_idem: "3 \<le> limit \<Longrightarrow> clampText (clampText s limit) limit = clampText s limit"
  by (simp add: clampText_id length_clampText)

lemma length_errText: "int (length (errText e)) \<le> 2048"
  unfolding errText_def maxStatusTextBytes_def by (rule length_clampText) simp

text \<open>In an encoded text a byte that starts a rune is a rune boundary.\<close>

lemma is_cont_mod64: "is_cont (128 + x mod 64)"
  using mod64_bounds [of x] unfolding is_cont_def by linarith

lemma encode_rune_tl: "b \<in> set (tl (encode_rune r)) \<Longrightarrow> is_cont b"
proof -
  have "is_cont 191" "is_cont 189" by (simp_all add: is_cont_def)
  then show "b \<in> set (tl (encode_rune r)) \<Longrightarrow> is_cont b"
    using is_cont_mod64 by (auto simp: encode_rune_def split: if_splits)
qed

lemma encode_rune_tail: "Suc i < length (encode_rune r) \<Longrightarrow> is_cont (encode_rune r ! Suc i)"
  by (rule encode_rune_tl [of _ r]) (metis Suc_less_eq2 length_Suc_conv list.sel(3) nth_Cons_Suc nth_mem)

lemma encode_rune_start: "rune_start (encode_rune r ! 0)"
  by (auto simp: encode_rune_def rune_start_def is_cont_def valid_rune_def not_le
      dest!: int_le_div [of 64 4 r])

lemma take_at_rune_start:
  assumes "k \<le> length (utf8_encode rs)"
    and "k < length (utf8_encode rs) \<Longrightarrow> rune_start (utf8_encode rs ! k)"
  shows "\<exists>n. take k (utf8_encode rs) = utf8_encode (take n rs)"
  using assms
proof (induction rs arbitrary: k)
  case Nil
  then show ?case by simp
next
  case (Cons r rs)
  let ?e = "encode_rune r"
  show ?case
  proof (cases "k < length ?e")
    case True
    then have "rune_start (?e ! k)"
      using Cons.prems(2) by (simp add: nth_append)
    then have "k = 0"
      using encode_rune_tail [of "k - 1" r] True by (cases k) (auto simp: rune_start_def)
    then show ?thesis by (intro exI [of _ 0]) simp
  next
    case False
    have le: "k - length ?e \<le> length (utf8_encode rs)"
      using Cons.prems(1) by simp
    have "rune_start (utf8_encode rs ! (k - length ?e))" if "k - length ?e < length (utf8_encode rs)"
      using Cons.prems(2) that False by (simp add: nth_append)
    from Cons.IH [OF le this] obtain n
      where "take (k - length ?e) (utf8_encode rs) = utf8_encode (take n rs)" by blast
    then show ?thesis using False by (intro exI [of _ "Suc n"]) simp
  qed
qed

lemma cut_back_boundary:
  assumes "k < length (of_runes rs)"
  shows "\<exists>n. take (cut_back (of_runes rs) k) (of_runes rs) = of_runes (take n rs)"
proof -
  let ?s = "of_runes rs" and ?b = "utf8_encode rs"
  let ?c = "cut_back ?s k"
  have len: "length ?b = length ?s" by (simp add: of_runes_def)
  have c: "?c < length ?s" using cut_back_le [of ?s k] assms by simp
  have "bytes_of ?s ! ?c = of_char (?s ! ?c)" using c by (simp add: bytes_of_def)
  then have byte: "?b ! ?c = of_char (?s ! ?c)" by simp
  have "rune_start (?b ! ?c)"
  proof (cases "?c = 0")
    case False
    then show ?thesis using cut_back_start [of ?s k] byte by simp
  next
    case True
    then obtain r rs' where "rs = r # rs'" using c by (cases rs) simp_all
    moreover have "rune_start (encode_rune r ! 0)" for r by (rule encode_rune_start)
    ultimately show ?thesis using True by (simp add: nth_append length_encode_rune_pos)
  qed
  then obtain n where "take ?c ?b = utf8_encode (take n rs)"
    using take_at_rune_start [of ?c rs] c len by auto
  then have "of_bytes (take ?c ?b) = of_runes (take n rs)" by (simp add: of_runes_def)
  moreover have "of_bytes (take ?c ?b) = take ?c ?s" by (simp add: of_runes_def of_bytes_def take_map)
  ultimately show ?thesis by auto
qed

lemma ellipsis_runes: "ellipsis = of_runes [8230]"
  by (rule bytes_of_inj) (simp add: ellipsis_def encode_rune_def valid_rune_def)

lemma clampText_of_runes:
  assumes "3 \<le> limit"
  shows "clampText (of_runes rs) limit = of_runes rs \<or>
    (\<exists>n. clampText (of_runes rs) limit = of_runes (take n rs @ [8230]))"
proof (cases "int (length (of_runes rs)) \<le> limit")
  case False
  then have "nat (limit - 3) < length (of_runes rs)" using assms by simp
  from cut_back_boundary [OF this] show ?thesis
    using False by (auto simp: clampText_def ellipsis_runes)
qed (simp add: clampText_id)

lemma setFeedCondition_frame [status_frame]:
  "fs_url (fst (setFeedCondition K fs t st r m g)) = fs_url fs"
  "last_checked (fst (setFeedCondition K fs t st r m g)) = last_checked fs"
  "initialized (fst (setFeedCondition K fs t st r m g)) = initialized fs"
  "state_version (fst (setFeedCondition K fs t st r m g)) = state_version fs"
  "last_seen_entry (fst (setFeedCondition K fs t st r m g)) = last_seen_entry fs"
  "last_sent (fst (setFeedCondition K fs t st r m g)) = last_sent fs"
  "last_error (fst (setFeedCondition K fs t st r m g)) = last_error fs"
  "etag (fst (setFeedCondition K fs t st r m g)) = etag fs"
  "last_modified (fst (setFeedCondition K fs t st r m g)) = last_modified fs"
  "retry_count (fst (setFeedCondition K fs t st r m g)) = retry_count fs"
  "backoff_until (fst (setFeedCondition K fs t st r m g)) = backoff_until fs"
  by (simp_all add: setFeedCondition_def Let_def split: prod.splits)

text \<open>A set condition reads back, other types keep theirs.\<close>

lemma setFeedCondition_is:
  assumes "condition_laws K"
  shows "cond_is_false K (conditions (fst (setFeedCondition K fs t st r m g))) t
           \<longleftrightarrow> st = ConditionFalse"
    and "cond_is_true K (conditions (fst (setFeedCondition K fs t st r m g))) t
           \<longleftrightarrow> st = ConditionTrue"
    and "t' \<noteq> t \<Longrightarrow> find_cond K (conditions (fst (setFeedCondition K fs t st r m g))) t'
           = find_cond K (conditions fs) t'"
    and "t' \<noteq> t \<Longrightarrow> cond_is_false K (conditions (fst (setFeedCondition K fs t st r m g))) t'
           = cond_is_false K (conditions fs) t'"
    and "t' \<noteq> t \<Longrightarrow> cond_is_true K (conditions (fst (setFeedCondition K fs t st r m g))) t'
           = cond_is_true K (conditions fs) t'"
  using is_false_after_set [OF assms, of _ t] is_false_after_other_set [OF assms, of _ t']
    condition_laws_find(2) [OF assms, of t']
  by (simp_all add: setFeedCondition_def case_prod_beta)

text \<open>\<open>clampText\<close> keeps within its bound and never splits a character: of a UTF-8 text it keeps
  all, or the encoding of a prefix of its characters with an ellipsis; a text within the
  bound is unchanged, and clamping twice is clamping once.\<close>

theorem clamp_keeps_whole_characters:
  assumes "3 \<le> limit"
  shows "int (length (clampText s limit)) \<le> limit \<and>
    clampText (clampText s limit) limit = clampText s limit \<and>
    (int (length s) \<le> limit \<longrightarrow> clampText s limit = s) \<and>
    (\<forall>rs. s = of_runes rs \<longrightarrow> clampText s limit = s \<or>
       (\<exists>n. clampText s limit = of_runes (take n rs @ [8230])))"
  using length_clampText [OF assms] clampText_idem [OF assms] clampText_id clampText_of_runes [OF assms]
  by blast

lemma clamp_keeps_whole_characters_witness:
  "int (length (clampText (of_runes [97, 8364, 8364]) 6)) \<le> 6"
  using clamp_keeps_whole_characters [of 6 "of_runes [97, 8364, 8364]"] by simp

end
