(* ===== verification/Backoff.thy ===== *)
theory Backoff
  imports Status_Text
begin

text \<open>
  The retry run of a feed (\<^verbatim>\<open>internal/controller/backoff.go\<close>): \<open>RetryCount\<close>, an \<open>int32\<close>
  whose increment wraps, and \<open>BackoffUntil\<close>, an RFC 3339 text.  The methods of \<open>retryRun\<close>
  are functions on the status they are a view of.  \<open>permanentBackoffDuration\<close> keeps the
  shift and the product at Go's width, so that its overflow guard is something to prove.
\<close>

definition maxPermanentBackoff :: int where "maxPermanentBackoff = 6 * hour"

datatype retry_phase = phaseFetch | phaseDelivery

definition run_set :: "feed_status \<Rightarrow> bool" where
  "run_set fs \<longleftrightarrow> backoff_until fs \<noteq> []"

definition in_progress :: "feed_status \<Rightarrow> bool" where
  "in_progress fs \<longleftrightarrow> retry_count fs > 0 \<or> run_set fs"

definition outstanding :: "feed_status \<Rightarrow> bool" where
  "outstanding fs \<longleftrightarrow> retry_count fs > 0"

definition run_clear :: "feed_status \<Rightarrow> feed_status" where
  "run_clear fs = fs\<lparr>backoff_until := [], retry_count := 0\<rparr>"

definition fetch_succeeded :: "condition_api \<Rightarrow> feed_status \<Rightarrow> feed_status" where
  "fetch_succeeded K fs =
     (if cond_is_false K (conditions fs) FeedConditionTypeReachable \<and> in_progress fs
      then run_clear fs else fs)"

definition run_fail :: "condition_api \<Rightarrow> retry_phase \<Rightarrow> feed_status \<Rightarrow> feed_status" where
  "run_fail K phase fs =
     (let fs1 = (if phase = phaseFetch
                   \<and> cond_is_true K (conditions fs) FeedConditionTypeReachable \<and> in_progress fs
                 then run_clear fs else fs)
      in fs1\<lparr>retry_count := int32 (retry_count fs1 + 1)\<rparr>)"

definition below_limit :: "feed_status \<Rightarrow> int \<Rightarrow> bool" where
  "below_limit fs limit \<longleftrightarrow> retry_count fs < limit"

definition exhausted_now :: "feed_status \<Rightarrow> int \<Rightarrow> bool" where
  "exhausted_now fs limit \<longleftrightarrow> retry_count fs = limit"

definition past_limit :: "feed_status \<Rightarrow> int \<Rightarrow> bool" where
  "past_limit fs limit \<longleftrightarrow> retry_count fs > limit"

definition run_active :: "feed_status \<Rightarrow> int \<Rightarrow> bool" where
  "run_active fs now =
     (if backoff_until fs = [] then False
      else case parse_rfc3339 (backoff_until fs) of
             None \<Rightarrow> False
           | Some until \<Rightarrow> now < until)"

definition nextBackoffUntil :: "int \<Rightarrow> int \<Rightarrow> string" where
  "nextBackoffUntil now backoff = format_rfc3339 (now + backoff)"

definition permanentBackoffDuration :: "int \<Rightarrow> int \<Rightarrow> int" where
  "permanentBackoffDuration retryCount base =
     (let retryCount = (if retryCount < 1 then 1 else retryCount)
      in if retryCount \<ge> 63 then maxPermanentBackoff
         else let shift = int64 (2 ^ nat retryCount)
              in if base \<le> 0 then maxPermanentBackoff
                 else if shift > maxPermanentBackoff div base then maxPermanentBackoff
                 else int64 (base * shift))"

definition run_extend :: "int \<Rightarrow> int \<Rightarrow> feed_status \<Rightarrow> feed_status \<times> bool" where
  "run_extend base now fs =
     (let count = retry_count fs;
          backoff = permanentBackoffDuration count base;
          capped = backoff \<ge> maxPermanentBackoff;
          firstCapped = (capped \<and>
            (count \<le> 1 \<or> permanentBackoffDuration (count - 1) base < maxPermanentBackoff));
          backoff = (if capped then maxPermanentBackoff else backoff)
      in (fs\<lparr>backoff_until := nextBackoffUntil now backoff\<rparr>, firstCapped))"

definition send_caused :: "condition_api \<Rightarrow> feed_status \<Rightarrow> bool" where
  "send_caused K fs \<longleftrightarrow>
     run_set fs \<and> \<not> cond_is_false K (conditions fs) FeedConditionTypeReachable"

definition clearPermanentBackoffs :: "feed_group \<Rightarrow> feed_group" where
  "clearPermanentBackoffs g =
     g\<lparr>fg_status := (fg_status g)\<lparr>gs_feeds := map run_clear (gs_feeds (fg_status g))\<rparr>\<rparr>"

subsection \<open>The backoff formula\<close>

lemma max_backoff_val: "maxPermanentBackoff = 21600000000000"
  by (simp add: maxPermanentBackoff_def duration_units)

lemma le_div_iff: "0 < b \<Longrightarrow> s \<le> c div b \<longleftrightarrow> b * s \<le> (c::int)"
proof
  assume "0 < b" "s \<le> c div b"
  then have "b * s \<le> b * (c div b)" by simp
  also have "\<dots> \<le> c" using \<open>0 < b\<close> by (simp add: minus_mod_eq_mult_div [symmetric])
  finally show "b * s \<le> c" .
next
  assume "0 < b" "b * s \<le> c"
  then show "s \<le> c div b" by (intro int_le_div) (simp_all add: mult.commute)
qed

lemma permanentBackoff_formula:
  "permanentBackoffDuration n base =
     (if base \<le> 0 then maxPermanentBackoff
      else min maxPermanentBackoff (base * 2 ^ nat (max 1 n)))"
proof (cases "base \<le> 0")
  case True
  then show ?thesis by (simp add: permanentBackoffDuration_def Let_def)
next
  case False
  define m where "m = max 1 n"
  have guard: "(if n < 1 then 1 else n) = m" by (simp add: m_def)
  have "1 * 2 ^ nat m \<le> base * 2 ^ nat m" using False by (intro mult_right_mono) simp_all
  then have pow: "2 ^ nat m \<le> base * 2 ^ nat m" by simp
  show ?thesis
  proof (cases "m \<ge> 63")
    case True
    then have "(2::int) ^ 63 \<le> 2 ^ nat m" by (intro power_increasing) simp_all
    then have "(9223372036854775808::int) \<le> 2 ^ nat m" by simp
    then have "maxPermanentBackoff \<le> base * 2 ^ nat m"
      using pow unfolding max_backoff_val by linarith
    then show ?thesis
      using False True unfolding permanentBackoffDuration_def guard m_def [symmetric] by simp
  next
    case small: False
    have "nat m \<le> 62" using small by simp
    then have "(2::int) ^ nat m \<le> 2 ^ 62" by (intro power_increasing) simp_all
    moreover have "(0::int) < 2 ^ nat m" by simp
    ultimately have shift: "int64 (2 ^ nat m) = 2 ^ nat m"
      by (intro int64_id; linarith?) simp_all
    show ?thesis
    proof (cases "2 ^ nat m \<le> maxPermanentBackoff div base")
      case True
      then have le: "base * 2 ^ nat m \<le> maxPermanentBackoff"
        using False le_div_iff by simp
      then have "int64 (base * 2 ^ nat m) = base * 2 ^ nat m"
        using pow \<open>0 < 2 ^ nat m\<close> unfolding max_backoff_val by (intro int64_id; linarith)
      then show ?thesis
        using True False small le unfolding permanentBackoffDuration_def guard m_def [symmetric]
        by (simp add: shift)
    next
      case big: False
      then have "\<not> base * 2 ^ nat m \<le> maxPermanentBackoff"
        using False le_div_iff by simp
      then show ?thesis
        using big False small unfolding permanentBackoffDuration_def guard m_def [symmetric]
        by (simp add: shift)
    qed
  qed
qed

lemma permanentBackoff_range:
  "0 < permanentBackoffDuration n base \<and> permanentBackoffDuration n base \<le> maxPermanentBackoff"
  by (auto simp: permanentBackoff_formula max_backoff_val)

lemma permanentBackoff_mono:
  assumes "m \<le> n"
  shows "permanentBackoffDuration m base \<le> permanentBackoffDuration n base"
proof (cases "base \<le> 0")
  case False
  have "(2::int) ^ nat (max 1 m) \<le> 2 ^ nat (max 1 n)"
    using assms by (intro power_increasing) auto
  then have "base * 2 ^ nat (max 1 m) \<le> base * 2 ^ nat (max 1 n)" using False by simp
  then show ?thesis
    using False unfolding permanentBackoff_formula by (simp only: if_False min.coboundedI2 min.mono order_refl)
qed (simp add: permanentBackoff_formula)


subsection \<open>Extending a run\<close>

lemma run_extend_flag:
  "snd (run_extend base now fs) \<longleftrightarrow>
     permanentBackoffDuration (retry_count fs) base = maxPermanentBackoff \<and>
     (retry_count fs \<le> 1 \<or>
      permanentBackoffDuration (retry_count fs - 1) base < maxPermanentBackoff)"
  using permanentBackoff_range [of "retry_count fs" base]
  by (auto simp: run_extend_def Let_def)

lemma run_extend_until:
  "fst (run_extend base now fs) =
     fs\<lparr>backoff_until :=
       nextBackoffUntil now (permanentBackoffDuration (retry_count fs) base)\<rparr>"
  using permanentBackoff_range [of "retry_count fs" base]
  by (auto simp: run_extend_def Let_def)

lemma run_extend_frame [status_frame]:
  "conditions (fst (run_extend base now fs)) = conditions fs"
  "fs_url (fst (run_extend base now fs)) = fs_url fs"
  "last_checked (fst (run_extend base now fs)) = last_checked fs"
  "initialized (fst (run_extend base now fs)) = initialized fs"
  "state_version (fst (run_extend base now fs)) = state_version fs"
  "last_seen_entry (fst (run_extend base now fs)) = last_seen_entry fs"
  "last_sent (fst (run_extend base now fs)) = last_sent fs"
  "last_error (fst (run_extend base now fs)) = last_error fs"
  "etag (fst (run_extend base now fs)) = etag fs"
  "last_modified (fst (run_extend base now fs)) = last_modified fs"
  "retry_count (fst (run_extend base now fs)) = retry_count fs"
  by (simp_all add: run_extend_until)

lemma run_clear_simps [run_simps]:
  "backoff_until (run_clear fs) = []" "retry_count (run_clear fs) = 0"
  "conditions (run_clear fs) = conditions fs" "last_error (run_clear fs) = last_error fs"
  by (simp_all add: run_clear_def)

lemma run_clear_frame [status_frame]:
  "fs_url (run_clear fs) = fs_url fs"
  "last_checked (run_clear fs) = last_checked fs"
  "initialized (run_clear fs) = initialized fs"
  "state_version (run_clear fs) = state_version fs"
  "last_seen_entry (run_clear fs) = last_seen_entry fs"
  "last_sent (run_clear fs) = last_sent fs"
  "etag (run_clear fs) = etag fs"
  "last_modified (run_clear fs) = last_modified fs"
  by (simp_all add: run_clear_def)

lemma run_clear_ended [run_simps]:
  "\<not> in_progress (run_clear fs)" "\<not> run_active (run_clear fs) now"
  by (simp_all add: in_progress_def run_set_def run_active_def run_clear_def)

lemma run_active_until:
  assumes "rfc3339_year (now + backoff)"
  shows "run_active (fs\<lparr>backoff_until := nextBackoffUntil now backoff\<rparr>) t \<longleftrightarrow>
           t < unix (now + backoff) * second"
  by (simp add: run_active_def nextBackoffUntil_def parse_format_rfc3339 [OF assms])

lemma fetch_succeeded_frame [status_frame]:
  "conditions (fetch_succeeded K fs) = conditions fs"
  "fs_url (fetch_succeeded K fs) = fs_url fs"
  "last_checked (fetch_succeeded K fs) = last_checked fs"
  "initialized (fetch_succeeded K fs) = initialized fs"
  "state_version (fetch_succeeded K fs) = state_version fs"
  "last_seen_entry (fetch_succeeded K fs) = last_seen_entry fs"
  "last_sent (fetch_succeeded K fs) = last_sent fs"
  "last_error (fetch_succeeded K fs) = last_error fs"
  "etag (fetch_succeeded K fs) = etag fs"
  "last_modified (fetch_succeeded K fs) = last_modified fs"
  by (simp_all add: fetch_succeeded_def run_clear_def)

lemma run_fail_frame [status_frame]:
  "conditions (run_fail K p fs) = conditions fs"
  "fs_url (run_fail K p fs) = fs_url fs"
  "last_checked (run_fail K p fs) = last_checked fs"
  "initialized (run_fail K p fs) = initialized fs"
  "state_version (run_fail K p fs) = state_version fs"
  "last_seen_entry (run_fail K p fs) = last_seen_entry fs"
  "last_sent (run_fail K p fs) = last_sent fs"
  "last_error (run_fail K p fs) = last_error fs"
  "etag (run_fail K p fs) = etag fs"
  "last_modified (run_fail K p fs) = last_modified fs"
  by (simp_all add: run_fail_def Let_def run_clear_def)

lemma run_fail_delivery [run_simps]:
  "run_fail K phaseDelivery fs = fs\<lparr>retry_count := int32 (retry_count fs + 1)\<rparr>"
  by (simp add: run_fail_def)

lemma run_fail_fetch [run_simps]:
  "run_fail K phaseFetch fs =
     (if cond_is_true K (conditions fs) FeedConditionTypeReachable \<and> in_progress fs
      then fs\<lparr>backoff_until := [], retry_count := 1\<rparr>
      else fs\<lparr>retry_count := int32 (retry_count fs + 1)\<rparr>)"
  by (simp add: run_fail_def run_clear_def int32_id)


subsection \<open>Properties\<close>

text \<open>C27: The permanent-failure backoff is exactly \<open>base * 2 ^ max 1 n\<close> capped at six hours
  (and the cap for a non-positive base), for every count and base: the shift and the
  product, computed at 64 bits with wrap-around, never overflow into the result.\<close>

theorem permanent_backoff_exact:
  "permanentBackoffDuration n base =
     (if base \<le> 0 then maxPermanentBackoff
      else min maxPermanentBackoff (base * 2 ^ nat (max 1 n)))"
  by (rule permanentBackoff_formula)

lemma permanentBackoff_reaches: "\<exists>n \<ge> 1. permanentBackoffDuration n base = maxPermanentBackoff"
  by (intro exI [of _ 63]) (simp add: permanentBackoffDuration_def)

text \<open>Over the failures of one run (counts 1, 2, ...), \<open>extend\<close> reports \<open>firstCapped\<close> for
  exactly one count, whatever the base, so the caller's Event fires once per run.\<close>

theorem first_capped_once:
  "\<exists>!n. 1 \<le> n \<and> snd (run_extend base now (fs\<lparr>retry_count := n\<rparr>))"
proof -
  let ?d = "\<lambda>n. permanentBackoffDuration n base"
  let ?capped = "\<lambda>k. ?d (int k + 1) = maxPermanentBackoff"
  obtain m :: nat where m: "?capped m"
    using permanentBackoff_reaches [of base] by (metis add.commute le_add_diff_inverse zle_iff_zadd)
  define k where "k = (LEAST k. ?capped k)"
  have k: "?capped k" unfolding k_def by (rule LeastI [where P = ?capped, OF m])
  have below: "?d n < maxPermanentBackoff" if "1 \<le> n" "n \<le> int k" for n
  proof -
    have "\<not> ?capped (nat (n - 1))"
      using not_less_Least [of "nat (n - 1)" ?capped] that unfolding k_def by auto
    then show ?thesis using that permanentBackoff_range [of n base] by simp
  qed
  have above: "?d n = maxPermanentBackoff" if "int k + 1 \<le> n" for n
    using permanentBackoff_mono [OF that, of base] k permanentBackoff_range [of n base] by simp
  show ?thesis
  proof (rule ex1I [of _ "int k + 1"])
    show "1 \<le> int k + 1 \<and> snd (run_extend base now (fs\<lparr>retry_count := int k + 1\<rparr>))"
      using k below [of "int k"] by (cases k) (simp_all add: run_extend_flag)
    fix n assume n: "1 \<le> n \<and> snd (run_extend base now (fs\<lparr>retry_count := n\<rparr>))"
    then have "?d n = maxPermanentBackoff" "n \<le> 1 \<or> ?d (n - 1) < maxPermanentBackoff"
      by (simp_all add: run_extend_flag)
    then show "n = int k + 1"
      using n below [of n] above [of "n - 1"] by force
  qed
qed

text \<open>The persisted backoff means what was computed: after \<open>extend\<close> at \<open>now\<close>, the feed is in
  backoff at \<open>t\<close> exactly until \<open>now\<close> plus the backoff, cut to the second by the RFC 3339
  text it is stored as, which \<open>active\<close> parses back.\<close>

theorem extended_backoff_deadline:
  assumes "rfc3339_year (now + permanentBackoffDuration (retry_count fs) base)"
  shows "run_active (fst (run_extend base now fs)) t \<longleftrightarrow>
    t < unix (now + permanentBackoffDuration (retry_count fs) base) * second"
  unfolding run_extend_until by (rule run_active_until [OF assms])

lemma extended_backoff_deadline_witness:
  "run_active (fst (run_extend minute 1700000000500000000
     ((new_feed_status ''u'')\<lparr>retry_count := 1\<rparr>))) 1700000119999999999 \<and>
   \<not> run_active (fst (run_extend minute 1700000000500000000
     ((new_feed_status ''u'')\<lparr>retry_count := 1\<rparr>))) 1700000120000000000"
proof -
  let ?fs = "(new_feed_status ''u'')\<lparr>retry_count := 1\<rparr>"
  have d: "permanentBackoffDuration (retry_count ?fs) minute = 120000000000"
    by (simp add: permanentBackoff_formula max_backoff_val duration_units)
  have "rfc3339_year (1700000000500000000 + permanentBackoffDuration (retry_count ?fs) minute)"
    unfolding d by code_simp
  from extended_backoff_deadline [OF this] show ?thesis
    unfolding d by (simp add: unix_def second_def)
qed

end
