(* ===== verification/Schedule.thy ===== *)
theory Schedule
  imports Backoff Go_Format
begin

text \<open>
  When feeds are fetched and how long a reconcile waits: the last check of a feed
  (\<^verbatim>\<open>internal/controller/check.go\<close>), a group's timing (\<^verbatim>\<open>cadence.go\<close>) and the plan and
  requeue of a reconcile (\<^verbatim>\<open>schedule.go\<close>).  The one parameter is \<^verbatim>\<open>wait.Jitter\<close> of
  \<^verbatim>\<open>k8s.io/apimachinery\<close>, which is random.
\<close>

subsection \<open>The last check of a feed\<close>

definition check_failed :: "feed_status \<Rightarrow> bool" where
  "check_failed fs \<longleftrightarrow> last_error fs \<noteq> []"

definition failed_or_retrying :: "feed_status \<Rightarrow> bool" where
  "failed_or_retrying fs \<longleftrightarrow> check_failed fs \<or> outstanding fs"

definition check_last_checked :: "feed_status \<Rightarrow> int option" where
  "check_last_checked fs = parse_rfc3339 (last_checked fs)"

definition until_due :: "feed_status \<Rightarrow> int \<Rightarrow> int \<Rightarrow> int option" where
  "until_due fs interval now =
     (case check_last_checked fs of
        None \<Rightarrow> None
      | Some checked \<Rightarrow> Some (time_sub (checked + interval) now))"

subsection \<open>Cadence\<close>

definition minParsedInterval :: int where "minParsedInterval = 10 * second"
definition fallbackInterval :: int where "fallbackInterval = 30 * minute"
definition fallbackRetryInterval :: int where "fallbackRetryInterval = 5 * minute"

record cadence =
  poll :: int
  retry :: int
  maxRetries :: int
  cadence_err :: "go_error option"

definition parseDurationWithDefault ::
  "(int \<Rightarrow> bool) \<Rightarrow> string \<Rightarrow> int \<Rightarrow> int \<times> go_error option" where
  "parseDurationWithDefault p value fallback =
     (if trim_space value = [] then (fallback, None)
      else case parse_duration value of
             Inl e \<Rightarrow> (fallback, Some (WrapError
               (''invalid duration '' @ go_quote p value @ '': '' @ e) (PlainError e)))
           | Inr d \<Rightarrow> (max d minParsedInterval, None))"

definition cadence_wrap :: "string \<Rightarrow> go_error \<Rightarrow> go_error" where
  "cadence_wrap field e =
     WrapError (field @ '': '' @ err_text e @ ''; using the default instead'') e"

definition cadenceOf :: "(int \<Rightarrow> bool) \<Rightarrow> feed_group_spec \<Rightarrow> cadence" where
  "cadenceOf p spec =
     (let (poll, intervalErr) = parseDurationWithDefault p (sp_interval spec) fallbackInterval;
          (retry, retryErr) =
            parseDurationWithDefault p (sp_retry_interval spec) fallbackRetryInterval
      in \<lparr>poll = poll, retry = retry, maxRetries = max (sp_retries spec) 1,
          cadence_err =
            (case intervalErr of
               Some e \<Rightarrow> Some (cadence_wrap ''spec.interval'' e)
             | None \<Rightarrow> (case retryErr of
                 Some e \<Rightarrow> Some (cadence_wrap ''spec.retryInterval'' e)
               | None \<Rightarrow> None))\<rparr>)"

subsection \<open>Planning\<close>

definition feed_due :: "feed_status \<Rightarrow> int \<Rightarrow> int \<Rightarrow> bool \<Rightarrow> bool" where
  "feed_due fs interval now force =
     (if force \<or> failed_or_retrying fs then True
      else case until_due fs interval now of None \<Rightarrow> True | Some until \<Rightarrow> until \<le> 0)"

fun feed_status_for :: "feed_status list \<Rightarrow> string \<Rightarrow> feed_status option" where
  "feed_status_for [] url = None"
| "feed_status_for (fs # rest) url =
     (if fs_url fs = url then Some fs else feed_status_for rest url)"

record feed_plan =
  plan_active :: "feed_spec list"
  next_due :: int

definition plan_step ::
  "feed_status list \<Rightarrow> cadence \<Rightarrow> int \<Rightarrow> bool \<Rightarrow> feed_spec \<Rightarrow> feed_plan \<Rightarrow> feed_plan" where
  "plan_step statuses cad now force feed plan =
     (if rss_url feed = [] \<or> sp_paused feed then plan
      else case feed_status_for statuses (rss_url feed) of
        None \<Rightarrow> plan\<lparr>plan_active := plan_active plan @ [feed]\<rparr>
      | Some fs \<Rightarrow>
          if run_active fs now then plan
          else if \<not> feed_due fs (poll cad) now force then
            (case until_due fs (poll cad) now of
               Some until \<Rightarrow>
                 if next_due plan = 0 \<or> until < next_due plan
                 then plan\<lparr>next_due := until\<rparr> else plan
             | None \<Rightarrow> plan)
          else plan\<lparr>plan_active := plan_active plan @ [feed]\<rparr>)"

definition planFeeds :: "feed_group \<Rightarrow> cadence \<Rightarrow> int \<Rightarrow> bool \<Rightarrow> feed_plan" where
  "planFeeds g cad now force =
     fold (plan_step (gs_feeds (fg_status g)) cad now force)
       (sp_feeds (fg_spec g)) \<lparr>plan_active = [], next_due = 0\<rparr>"

record requeue_decision =
  rq_delay :: int
  rq_jitter :: bool
  rq_next_due :: int

definition retryRequeue :: "cadence \<Rightarrow> requeue_decision" where
  "retryRequeue cad = \<lparr>rq_delay = retry cad, rq_jitter = True, rq_next_due = 0\<rparr>"

definition plan_requeue :: "feed_plan \<Rightarrow> cadence \<Rightarrow> bool \<Rightarrow> int \<Rightarrow> requeue_decision" where
  "plan_requeue plan cad wantRetry retryAfter =
     (if retryAfter > 0 then \<lparr>rq_delay = retryAfter, rq_jitter = False, rq_next_due = 0\<rparr>
      else if wantRetry then (retryRequeue cad)\<lparr>rq_next_due := next_due plan\<rparr>
      else \<lparr>rq_delay = poll cad, rq_jitter = True, rq_next_due = next_due plan\<rparr>)"

definition jitterDuration :: "(int \<Rightarrow> int) \<Rightarrow> int \<Rightarrow> bool \<Rightarrow> int" where
  "jitterDuration jitter duration enabled = (if \<not> enabled then duration else jitter duration)"

definition rq_bound :: "requeue_decision \<Rightarrow> int \<Rightarrow> int" where
  "rq_bound d delay =
     (if rq_next_due d > 0 \<and> rq_next_due d < delay then max (rq_next_due d) minParsedInterval
      else delay)"

definition rq_wait :: "(int \<Rightarrow> int) \<Rightarrow> requeue_decision \<Rightarrow> int" where
  "rq_wait jitter d = rq_bound d (jitterDuration jitter (rq_delay d) (rq_jitter d))"

subsection \<open>What a cadence guarantees\<close>

lemma parseDurationWithDefault_floor:
  "minParsedInterval \<le> fallback \<Longrightarrow>
     minParsedInterval \<le> fst (parseDurationWithDefault p value fallback)"
  by (auto simp: parseDurationWithDefault_def split: sum.splits)

lemma cadence_floor:
  "minParsedInterval \<le> poll (cadenceOf p spec)" "minParsedInterval \<le> retry (cadenceOf p spec)"
  "1 \<le> maxRetries (cadenceOf p spec)"
  using parseDurationWithDefault_floor [of fallbackInterval p "sp_interval spec"]
    parseDurationWithDefault_floor [of fallbackRetryInterval p "sp_retry_interval spec"]
  by (auto simp: cadenceOf_def case_prod_beta minParsedInterval_def fallbackInterval_def
      fallbackRetryInterval_def duration_units)

subsection \<open>What a plan is\<close>

text \<open>A feed to fetch, and the time until a feed that is skipped as not yet due becomes due.\<close>

definition to_fetch :: "feed_status list \<Rightarrow> cadence \<Rightarrow> int \<Rightarrow> bool \<Rightarrow> feed_spec \<Rightarrow> bool" where
  "to_fetch statuses cad now force feed \<longleftrightarrow>
     rss_url feed \<noteq> [] \<and> \<not> sp_paused feed \<and>
     (case feed_status_for statuses (rss_url feed) of
        None \<Rightarrow> True
      | Some fs \<Rightarrow> \<not> run_active fs now \<and> feed_due fs (poll cad) now force)"

definition waiting :: "feed_status list \<Rightarrow> cadence \<Rightarrow> int \<Rightarrow> bool \<Rightarrow> feed_spec \<Rightarrow> int option" where
  "waiting statuses cad now force feed =
     (if rss_url feed = [] \<or> sp_paused feed then None
      else case feed_status_for statuses (rss_url feed) of
        None \<Rightarrow> None
      | Some fs \<Rightarrow> if run_active fs now \<or> feed_due fs (poll cad) now force then None
                   else until_due fs (poll cad) now)"

lemma waiting_pos: "waiting statuses cad now force feed = Some u \<Longrightarrow> 0 < u"
  by (auto simp: waiting_def feed_due_def split: if_splits option.splits)

lemma plan_step_effect:
  "plan_step statuses cad now force feed plan =
     \<lparr>plan_active = plan_active plan @ filter (to_fetch statuses cad now force) [feed],
      next_due = (case waiting statuses cad now force feed of
        None \<Rightarrow> next_due plan
      | Some u \<Rightarrow> if next_due plan = 0 \<or> u < next_due plan then u else next_due plan)\<rparr>"
  by (auto simp: plan_step_def to_fetch_def waiting_def split: option.splits)

definition soonest :: "int list \<Rightarrow> int" where
  "soonest us = (if us = [] then 0 else Min (set us))"

lemma soonest_pos: "us \<noteq> [] \<Longrightarrow> \<forall>u \<in> set us. 0 < u \<Longrightarrow> 0 < soonest us"
  by (simp add: soonest_def)

lemma soonest_snoc:
  assumes "\<forall>u \<in> set us. 0 < u"
  shows "soonest (us @ [u]) = (if soonest us = 0 \<or> u < soonest us then u else soonest us)"
proof (cases "us = []")
  case False
  have "0 < soonest us" by (rule soonest_pos [OF False assms])
  moreover have "soonest (us @ [u]) = min u (soonest us)"
    using False by (simp add: soonest_def)
  ultimately show ?thesis by (simp add: min_def)
qed (simp add: soonest_def)

lemma waiting_all_pos:
  "\<forall>u \<in> set (List.map_filter (waiting statuses cad now force) fs). 0 < u"
  by (auto simp: set_map_filter dest!: waiting_pos)

lemma plan_fold:
  "fold (plan_step statuses cad now force) feeds \<lparr>plan_active = [], next_due = 0\<rparr> =
     \<lparr>plan_active = filter (to_fetch statuses cad now force) feeds,
      next_due = soonest (List.map_filter (waiting statuses cad now force) feeds)\<rparr>"
proof (induction feeds rule: rev_induct)
  case Nil
  then show ?case by (simp add: soonest_def List.map_filter_simps)
next
  case (snoc f fs)
  then show ?case
    by (simp add: plan_step_effect map_filter_append List.map_filter_simps
        soonest_snoc [OF waiting_all_pos] split: option.splits)
qed

lemma plan_of_group:
  "planFeeds g cad now force =
     \<lparr>plan_active = filter (to_fetch (gs_feeds (fg_status g)) cad now force)
        (sp_feeds (fg_spec g)),
      next_due = soonest (List.map_filter (waiting (gs_feeds (fg_status g)) cad now force)
        (sp_feeds (fg_spec g)))\<rparr>"
  by (simp add: planFeeds_def plan_fold)

lemma soonest_waiting:
  assumes "f \<in> set feeds" "waiting statuses cad now force f = Some u"
  shows "0 < soonest (List.map_filter (waiting statuses cad now force) feeds)"
    and "soonest (List.map_filter (waiting statuses cad now force) feeds) \<le> u"
proof -
  let ?us = "List.map_filter (waiting statuses cad now force) feeds"
  have u: "u \<in> set ?us" using assms by (auto simp: set_map_filter)
  then have ne: "?us \<noteq> []" by auto
  show "0 < soonest ?us" by (rule soonest_pos [OF ne waiting_all_pos])
  show "soonest ?us \<le> u" using u ne by (simp add: soonest_def)
qed

subsection \<open>Properties\<close>

text \<open>C28: A reconcile fetches, in spec order, exactly the feeds with a URL that are not paused,
  not in backoff, and due; and the plan's \<open>nextDue\<close> is the least waiting time among the
  feeds skipped only because they are not due yet, zero when there is none.\<close>

theorem plan_feeds_exact:
  "planFeeds g cad now force =
     \<lparr>plan_active = filter (to_fetch (gs_feeds (fg_status g)) cad now force)
        (sp_feeds (fg_spec g)),
      next_due = soonest (List.map_filter (waiting (gs_feeds (fg_status g)) cad now force)
        (sp_feeds (fg_spec g)))\<rparr>"
  by (rule plan_of_group)

text \<open>C29: The wait before the next reconcile: Discord's \<open>Retry-After\<close> is waited exactly; any
  other wait, for a jitter that only lengthens, is at least ten seconds, and, for each feed that
  was skipped as not yet due, at most the time until it is due or that floor, whichever is more.\<close>

theorem requeue_wait_bounds:
  assumes jitter: "\<And>d. d \<le> jitter d"
    and wait: "w = rq_wait jitter (plan_requeue (planFeeds g (cadenceOf p spec) now force)
      (cadenceOf p spec) wantRetry retryAfter)"
  shows "if 0 < retryAfter then w = retryAfter
    else minParsedInterval \<le> w \<and>
      (\<forall>feed \<in> set (sp_feeds (fg_spec g)). \<forall>until.
         waiting (gs_feeds (fg_status g)) (cadenceOf p spec) now force feed = Some until \<longrightarrow>
         w \<le> max until minParsedInterval)"
proof (cases "0 < retryAfter")
  case True
  then show ?thesis
    by (simp add: wait rq_wait_def plan_requeue_def jitterDuration_def rq_bound_def)
next
  case False
  let ?cad = "cadenceOf p spec"
  let ?plan = "planFeeds g ?cad now force"
  have "minParsedInterval \<le> jitter (retry ?cad)" "minParsedInterval \<le> jitter (poll ?cad)"
    using jitter cadence_floor order_trans by blast+
  then have "minParsedInterval \<le> w"
    using False by (auto simp: wait rq_wait_def plan_requeue_def retryRequeue_def
        jitterDuration_def rq_bound_def)
  moreover have "w \<le> max until minParsedInterval"
    if f: "feed \<in> set (sp_feeds (fg_spec g))"
      and u: "waiting (gs_feeds (fg_status g)) ?cad now force feed = Some until" for feed until
  proof -
    have "0 < next_due ?plan" "next_due ?plan \<le> until"
      using soonest_waiting [OF f u] by (simp_all add: plan_of_group)
    then show ?thesis
      using False by (auto simp: wait rq_wait_def plan_requeue_def retryRequeue_def
          jitterDuration_def rq_bound_def)
  qed
  ultimately show ?thesis using False by simp
qed

lemma requeue_wait_bounds_witness:
  "let fs = (new_feed_status ''u'')\<lparr>last_checked := format_rfc3339 0\<rparr>;
       g = example_group [example_feed ''u''] [fs];
       cad = cadenceOf (\<lambda>r. True) (fg_spec g);
       w = rq_wait id (plan_requeue (planFeeds g cad (10 * minute) False) cad False 0)
   in minParsedInterval \<le> w \<and> w \<le> 20 * minute"
proof -
  let ?fs = "(new_feed_status ''u'')\<lparr>last_checked := format_rfc3339 0\<rparr>"
  let ?g = "example_group [example_feed ''u''] [?fs]"
  let ?cad = "cadenceOf (\<lambda>r. True) (fg_spec ?g)"
  have "waiting [?fs] ?cad (10 * minute) False (example_feed ''u'') = Some (20 * minute)"
    by code_simp
  moreover have "max (20 * minute) minParsedInterval = 20 * minute" by code_simp
  ultimately show ?thesis
    using requeue_wait_bounds [of id _ ?g "\<lambda>r. True" "fg_spec ?g" "10 * minute" False False 0,
        OF _ refl]
    by (simp add: Let_def example_group_def)
qed

end
