(* ===== verification/Go_Url.thy ===== *)
theory Go_Url
  imports Go_Text
begin

text \<open>
  What the source uses of \<^verbatim>\<open>net/url\<close> and of \<^verbatim>\<open>strings.ToLower\<close>: parsing a URL, printing it
  back, and parsing, filtering and encoding its query.  Three things are taken as
  arguments, gathered in the record \<open>go_env\<close>: the Unicode tables above Latin-1
  (lower case, printability), and what changed between releases of \<^verbatim>\<open>net/url\<close>, namely
  \<open>parseHost\<close> and the limit on the number of query parameters.
\<close>

record go_env =
  env_lower :: "int \<Rightarrow> int"
  env_print :: "int \<Rightarrow> bool"
  env_parse_host :: "string \<Rightarrow> string option"
  env_query_limit :: int

text \<open>An environment for the witnesses.\<close>

definition plain_env :: go_env where
  "plain_env = \<lparr>env_lower = id, env_print = (\<lambda>r. True), env_parse_host = Some,
     env_query_limit = 10000\<rparr>"

subsection \<open>Case\<close>

definition lower_ascii :: "char \<Rightarrow> char" where
  "lower_ascii c = (let b = of_char c :: int in if 65 \<le> b \<and> b \<le> 90 then char_of (b + 32) else c)"

definition to_lower :: "go_env \<Rightarrow> string \<Rightarrow> string" where
  "to_lower E s =
     (if \<forall>c \<in> set s. (of_char c :: int) < 128 then map lower_ascii s
      else of_runes (map (\<lambda>r. if r < 128 then of_char (lower_ascii (char_of r)) else env_lower E r)
             (runes s)))"

definition is_letter :: "char \<Rightarrow> bool" where
  "is_letter c \<longleftrightarrow> (let b = of_char (lower_ascii c) :: int in 97 \<le> b \<and> b \<le> 122)"

subsection \<open>Escaping\<close>

datatype encoding = encodePath | encodeUserPassword | encodeHost | encodeQueryComponent | encodeFragment

definition hex_value :: "char \<Rightarrow> int option" where
  "hex_value c =
     (let b = of_char c :: int in
      if 48 \<le> b \<and> b \<le> 57 then Some (b - 48)
      else if 97 \<le> b \<and> b \<le> 102 then Some (b - 87)
      else if 65 \<le> b \<and> b \<le> 70 then Some (b - 55) else None)"

text \<open>\<open>unescape\<close> of the modes other than host and zone.\<close>

fun unescape :: "encoding \<Rightarrow> string \<Rightarrow> string option" where
  "unescape m [] = Some []"
| "unescape m (c # s) =
     (if c = CHR ''%'' then
        (case s of
           h # l # s' \<Rightarrow>
             (case (hex_value h, hex_value l) of
                (Some x, Some y) \<Rightarrow> map_option ((#) (char_of (16 * x + y))) (unescape m s')
              | _ \<Rightarrow> None)
         | _ \<Rightarrow> None)
      else map_option ((#) (if c = CHR ''+'' \<and> m = encodeQueryComponent then CHR '' '' else c))
             (unescape m s))"

definition should_escape :: "encoding \<Rightarrow> char \<Rightarrow> bool" where
  "should_escape m c =
     (if is_letter c \<or> is_digit c then False
      else if m = encodeHost \<and> (c = CHR 0x27 \<or> c = CHR 0x22 \<or> c \<in> set ''!$&()*+,;=:[]<>'') then False
      else if c \<in> set ''-_.~'' then False
      else if c \<in> set ''$&+,/:;=?@'' then
        (case m of
           encodePath \<Rightarrow> c = CHR ''?''
         | encodeUserPassword \<Rightarrow> c \<in> set ''@/?:''
         | encodeQueryComponent \<Rightarrow> True
         | encodeFragment \<Rightarrow> False
         | encodeHost \<Rightarrow> True)
      else if m = encodeFragment \<and> c \<in> set ''!()*'' then False
      else True)"

definition upper_hex :: "int \<Rightarrow> char" where
  "upper_hex n = (if n < 10 then char_of (48 + n) else char_of (55 + n))"

definition escape_char :: "encoding \<Rightarrow> char \<Rightarrow> string" where
  "escape_char m c =
     (if should_escape m c then
        (if c = CHR '' '' \<and> m = encodeQueryComponent then ''+''
         else let b = of_char c :: int in [CHR ''%'', upper_hex (b div 16), upper_hex (b mod 16)])
      else [c])"

definition escape :: "encoding \<Rightarrow> string \<Rightarrow> string" where
  "escape m s = concat (map (escape_char m) s)"

definition valid_encoded :: "encoding \<Rightarrow> string \<Rightarrow> bool" where
  "valid_encoded m s \<longleftrightarrow>
     (\<forall>c \<in> set s. c = CHR 0x27 \<or> c \<in> set ''!$&()*+,;=:@[]%'' \<or> \<not> should_escape m c)"

text \<open>Go keeps a raw form only when escaping the decoded form would not give it back.\<close>

definition raw_hint :: "encoding \<Rightarrow> string \<Rightarrow> string \<Rightarrow> string" where
  "raw_hint m given decoded = (if given = escape m decoded then [] else given)"

definition escaped_with_hint :: "encoding \<Rightarrow> string \<Rightarrow> string \<Rightarrow> string" where
  "escaped_with_hint m decoded raw =
     (if raw \<noteq> [] \<and> valid_encoded m raw \<and> unescape m raw = Some decoded then raw
      else escape m decoded)"

subsection \<open>URLs\<close>

record url =
  scheme :: string
  opaque :: string
  user :: "(string \<times> string option) option"
  host :: string
  path :: string
  raw_path :: string
  omit_host :: bool
  force_query :: bool
  raw_query :: string
  fragment :: string
  raw_fragment :: string

definition empty_url :: url where
  "empty_url = \<lparr>scheme = [], opaque = [], user = None, host = [], path = [], raw_path = [],
     omit_host = False, force_query = False, raw_query = [], fragment = [], raw_fragment = []\<rparr>"

text \<open>\<open>getScheme\<close>; \<open>None\<close> for a missing scheme.\<close>

fun get_scheme :: "string \<Rightarrow> string \<Rightarrow> string \<Rightarrow> (string \<times> string) option" where
  "get_scheme raw done [] = Some ([], raw)"
| "get_scheme raw done (c # s) =
     (if is_letter c then get_scheme raw (done @ [c]) s
      else if is_digit c \<or> c \<in> set ''+-.'' then
        (if done = [] then Some ([], raw) else get_scheme raw (done @ [c]) s)
      else if c = CHR '':'' then (if done = [] then None else Some (done, s))
      else Some ([], raw))"

text \<open>\<open>strings.LastIndex\<close> of \<open>@\<close>: what is before and after it.\<close>

definition split_last :: "char \<Rightarrow> string \<Rightarrow> (string \<times> string) option" where
  "split_last sep s =
     (if sep \<in> set s
      then Some (rev (tl (dropWhile (\<lambda>c. c \<noteq> sep) (rev s))), rev (takeWhile (\<lambda>c. c \<noteq> sep) (rev s)))
      else None)"

definition valid_userinfo :: "string \<Rightarrow> bool" where
  "valid_userinfo s \<longleftrightarrow>
     (\<forall>c \<in> set s. is_letter c \<or> is_digit c \<or> c = CHR 0x27 \<or> c \<in> set ''-._:~!$&()*+,;=%@'')"

definition parse_user :: "string \<Rightarrow> (string \<times> string option) option" where
  "parse_user s =
     (if \<not> valid_userinfo s then None
      else if CHR '':'' \<notin> set s then map_option (\<lambda>u. (u, None)) (unescape encodeUserPassword s)
      else let (u, p, _) = cut_at CHR '':'' s in
        do {
          u' \<leftarrow> unescape encodeUserPassword u;
          p' \<leftarrow> unescape encodeUserPassword p;
          Some (u', Some p')
        })"

definition parse_authority ::
  "go_env \<Rightarrow> string \<Rightarrow> ((string \<times> string option) option \<times> string) option" where
  "parse_authority E s =
     (case split_last CHR ''@'' s of
        None \<Rightarrow> map_option (\<lambda>h. (None, h)) (env_parse_host E s)
      | Some (ui, hs) \<Rightarrow>
          do {
            h \<leftarrow> env_parse_host E hs;
            u \<leftarrow> parse_user ui;
            Some (Some u, h)
          })"

definition set_path :: "string \<Rightarrow> url \<Rightarrow> url option" where
  "set_path p u =
     map_option (\<lambda>d. u\<lparr>path := d, raw_path := raw_hint encodePath p d\<rparr>) (unescape encodePath p)"

definition set_fragment :: "string \<Rightarrow> url \<Rightarrow> url option" where
  "set_fragment f u =
     map_option (\<lambda>d. u\<lparr>fragment := d, raw_fragment := raw_hint encodeFragment f d\<rparr>)
       (unescape encodeFragment f)"

text \<open>\<open>parse\<close>, for a text without fragment: the query is cut off, then the rest is opaque,
  or an authority and a path, or a path.\<close>

definition split_query :: "string \<Rightarrow> bool \<times> string \<times> string" where
  "split_query rest =
     (if rest \<noteq> [] \<and> last rest = CHR ''?'' \<and> CHR ''?'' \<notin> set (butlast rest)
      then (True, butlast rest, [])
      else (False, fst (cut_at CHR ''?'' rest), fst (snd (cut_at CHR ''?'' rest))))"

definition parse_hier :: "go_env \<Rightarrow> bool \<Rightarrow> string \<Rightarrow> url \<Rightarrow> url option" where
  "parse_hier E via_request rest u =
     (if \<not> has_prefix rest ''/'' \<and> scheme u \<noteq> [] then Some (u\<lparr>opaque := rest\<rparr>)
      else if \<not> has_prefix rest ''/'' \<and> via_request then None
      else if \<not> has_prefix rest ''/'' \<and> CHR '':'' \<in> set (fst (cut_at CHR ''/'' rest)) then None
      else if (scheme u \<noteq> [] \<or> \<not> via_request \<and> \<not> has_prefix rest ''///'') \<and> has_prefix rest ''//''
      then (case parse_authority E (takeWhile (\<lambda>c. c \<noteq> CHR ''/'') (drop 2 rest)) of
              None \<Rightarrow> None
            | Some (usr, h) \<Rightarrow>
                set_path (dropWhile (\<lambda>c. c \<noteq> CHR ''/'') (drop 2 rest)) (u\<lparr>user := usr, host := h\<rparr>))
      else set_path rest (u\<lparr>omit_host := (scheme u \<noteq> [] \<and> has_prefix rest ''/'')\<rparr>))"

definition parse_no_fragment :: "go_env \<Rightarrow> bool \<Rightarrow> string \<Rightarrow> url option" where
  "parse_no_fragment E via_request raw =
     (if (\<exists>c \<in> set raw. (of_char c :: int) < 32 \<or> c = CHR 0x7F) then None
      else if raw = [] \<and> via_request then None
      else if raw = ''*'' then Some (empty_url\<lparr>path := ''*''\<rparr>)
      else case get_scheme raw [] raw of
        None \<Rightarrow> None
      | Some (sch, rest) \<Rightarrow>
          (case split_query rest of
             (force, rest', query) \<Rightarrow>
               parse_hier E via_request rest'
                 (empty_url\<lparr>scheme := map lower_ascii sch, force_query := force,
                            raw_query := query\<rparr>)))"

lemma set_path_frame:
  "set_path p u = Some v \<Longrightarrow> fragment v = fragment u \<and> raw_query v = raw_query u \<and> scheme v = scheme u"
  by (auto simp: set_path_def)

lemma parse_hier_frame:
  "parse_hier E b rest u = Some v \<Longrightarrow>
     fragment v = fragment u \<and> raw_query v = raw_query u \<and> scheme v = scheme u"
  unfolding parse_hier_def by (auto split: if_splits option.splits dest!: set_path_frame)

lemma parse_no_fragment_cases:
  assumes "parse_no_fragment E b s = Some u"
  shows "u = empty_url\<lparr>path := ''*''\<rparr> \<or>
    (\<exists>sch f r q. parse_hier E b r (empty_url\<lparr>scheme := sch, force_query := f, raw_query := q\<rparr>) = Some u)"
proof (cases "get_scheme s [] s")
  case None
  then show ?thesis using assms unfolding parse_no_fragment_def by (metis option.distinct(1) option.inject option.simps(4))
next
  case (Some sr)
  obtain sch rest f r q where "sr = (sch, rest)" "split_query rest = (f, r, q)"
    by (metis prod_cases3 surj_pair)
  then have "parse_no_fragment E b s =
      (if \<exists>c \<in> set s. (of_char c :: int) < 32 \<or> c = CHR 0x7F then None
       else if s = [] \<and> b then None
       else if s = ''*'' then Some (empty_url\<lparr>path := ''*''\<rparr>)
       else parse_hier E b r
         (empty_url\<lparr>scheme := map lower_ascii sch, force_query := f, raw_query := q\<rparr>))"
    using Some unfolding parse_no_fragment_def by (simp only: option.case prod.case)
  then show ?thesis using assms by (metis option.distinct(1) option.inject)
qed

lemma parse_no_fragment_fragment: "parse_no_fragment E b s = Some u \<Longrightarrow> fragment u = []"
  by (drule parse_no_fragment_cases) (auto simp: empty_url_def dest!: parse_hier_frame)

definition url_parse :: "go_env \<Rightarrow> string \<Rightarrow> url option" where
  "url_parse E raw =
     (let (front, frag, _) = cut_at CHR ''#'' raw in
      case parse_no_fragment E False front of
        None \<Rightarrow> None
      | Some u \<Rightarrow> if frag = [] then Some u else set_fragment frag u)"

definition user_string :: "string \<times> string option \<Rightarrow> string" where
  "user_string u =
     (case u of
        ([], Some []) \<Rightarrow> []
      | (n, None) \<Rightarrow> escape encodeUserPassword n
      | (n, Some p) \<Rightarrow> escape encodeUserPassword n @ '':'' @ escape encodeUserPassword p)"

definition escaped_path :: "url \<Rightarrow> string" where
  "escaped_path u =
     (if raw_path u \<noteq> [] \<and> valid_encoded encodePath (raw_path u)
         \<and> unescape encodePath (raw_path u) = Some (path u) then raw_path u
      else if path u = ''*'' then ''*'' else escape encodePath (path u))"

definition authority_string :: "url \<Rightarrow> string" where
  "authority_string u =
     (if (scheme u \<noteq> [] \<or> host u \<noteq> [] \<or> user u \<noteq> None)
         \<and> \<not> (omit_host u \<and> host u = [] \<and> user u = None)
      then (if host u \<noteq> [] \<or> path u \<noteq> [] \<or> user u \<noteq> None then ''//'' else [])
           @ (case user u of None \<Rightarrow> [] | Some ui \<Rightarrow> user_string ui @ ''@'')
           @ escape encodeHost (host u)
      else [])"

definition hier_string :: "url \<Rightarrow> string" where
  "hier_string u =
     (if opaque u \<noteq> [] then opaque u
      else let a = authority_string u; p = escaped_path u in
        a @ (if p \<noteq> [] \<and> hd p \<noteq> CHR ''/'' \<and> host u \<noteq> [] then ''/'' else [])
          @ (if scheme u = [] \<and> a = [] \<and> CHR '':'' \<in> set (fst (cut_at CHR ''/'' p)) then ''./'' else [])
          @ p)"

definition url_string :: "url \<Rightarrow> string" where
  "url_string u =
     (if scheme u \<noteq> [] then scheme u @ '':'' else [])
     @ hier_string u
     @ (if force_query u \<or> raw_query u \<noteq> [] then CHR ''?'' # raw_query u else [])
     @ (if fragment u \<noteq> [] then CHR ''#'' # escaped_with_hint encodeFragment (fragment u) (raw_fragment u)
        else [])"

lemma url_string_raw_fragment: "fragment u = [] \<Longrightarrow> url_string (u\<lparr>raw_fragment := r\<rparr>) = url_string u"
  by (simp add: url_string_def hier_string_def authority_string_def escaped_path_def)

lemma cut_at_append: "sep \<notin> set s \<Longrightarrow> cut_at sep (s @ sep # t) = (s, t, True)"
  by (induction s) auto

lemma cut_at_absent: "sep \<notin> set s \<Longrightarrow> cut_at sep s = (s, [], False)"
  by (induction s) auto

lemma url_parse_no_hash: "CHR ''#'' \<notin> set s \<Longrightarrow> url_parse E s = parse_no_fragment E False s"
  by (simp add: url_parse_def cut_at_absent split: option.splits)

lemma url_parse_fragment:
  assumes "CHR ''#'' \<notin> set s" "url_parse E s = Some u" "unescape encodeFragment f = Some d"
  shows "\<exists>r. url_parse E (s @ CHR ''#'' # f) = Some (u\<lparr>fragment := d, raw_fragment := r\<rparr>)"
proof -
  have u: "parse_no_fragment E False s = Some u" using assms url_parse_no_hash by simp
  then have "fragment u = []" by (rule parse_no_fragment_fragment)
  then have same: "u\<lparr>fragment := [], raw_fragment := raw_fragment u\<rparr> = u" by simp
  show ?thesis
  proof (cases "f = []")
    case True
    then have "url_parse E (s @ CHR ''#'' # f) = Some (u\<lparr>fragment := d, raw_fragment := raw_fragment u\<rparr>)"
      using u assms(1,3) same by (simp add: url_parse_def cut_at_append)
    then show ?thesis by blast
  next
    case False
    then show ?thesis using u assms(1,3) by (auto simp: url_parse_def cut_at_append set_fragment_def)
  qed
qed

subsection \<open>Queries\<close>

type_synonym values_map = "(string \<times> string list) list"

definition query_pair :: "string \<Rightarrow> (string \<times> string) option" where
  "query_pair kv =
     (if CHR '';'' \<in> set kv \<or> kv = [] then None
      else let (k, v, _) = cut_at CHR ''='' kv in
        do {
          k' \<leftarrow> unescape encodeQueryComponent k;
          v' \<leftarrow> unescape encodeQueryComponent v;
          Some (k', v')
        })"

definition add_value :: "string \<times> string \<Rightarrow> values_map \<Rightarrow> values_map" where
  "add_value kv m =
     AList.update (fst kv) ((case map_of m (fst kv) of None \<Rightarrow> [] | Some vs \<Rightarrow> vs) @ [snd kv]) m"

definition parse_query :: "go_env \<Rightarrow> string \<Rightarrow> values_map" where
  "parse_query E q =
     (if int (length (split_on CHR ''&'' q)) > env_query_limit E then []
      else fold add_value (List.map_filter query_pair (split_on CHR ''&'' q)) [])"

definition encode_query :: "values_map \<Rightarrow> string" where
  "encode_query m =
     str_join ''&'' (concat (map (\<lambda>(k, vs). map (\<lambda>v.
        escape encodeQueryComponent k @ ''='' @ escape encodeQueryComponent v) vs)
      (sort_key fst m)))"

end
