(* ===== verification/Identity.thy ===== *)
theory Identity
  imports Go_Url Go_Sha256 Go_Time Status_Text
begin

text \<open>
  Feed entries and their identities: the entry type and its content-derived ID
  (\<^verbatim>\<open>internal/rss/parse.go\<close>, \<^verbatim>\<open>identity.go\<close>), and how the controller normalizes an ID
  into the identity everything downstream is keyed by
  (\<^verbatim>\<open>internal/controller/identity.go\<close>), with the earlier identification of
  \<^verbatim>\<open>identity_migration.go\<close>.
\<close>

datatype id_source = IDFromGUID | IDFromLink | IDFromTitle | IDFromContent

record entry =
  en_id :: string
  en_source :: id_source
  en_previous_id :: string
  en_previous_source :: id_source
  en_title :: string
  en_link :: string
  en_description :: string
  en_content :: string
  en_image :: string
  en_author :: string
  en_categories :: "string list"
  en_published :: int
  en_feed_title :: string
  en_seq :: int

text \<open>An entry the witnesses vary.\<close>

definition example_entry :: entry where
  "example_entry = \<lparr>en_id = ''post-1'', en_source = IDFromGUID, en_previous_id = [],
     en_previous_source = IDFromGUID, en_title = ''Hello'', en_link = ''https://go.dev/blog/1'',
     en_description = [], en_content = [], en_image = [], en_author = [], en_categories = [],
     en_published = 0, en_feed_title = [], en_seq = 0\<rparr>"

subsection \<open>The parser's ID\<close>

definition contentIDPrefix :: string where "contentIDPrefix = ''content:sha256:''"

text \<open>\<open>t.UTC().Format(time.RFC3339Nano)\<close>.\<close>

definition format_rfc3339_nano :: "int \<Rightarrow> string" where
  "format_rfc3339_nano t = butlast (format_rfc3339 t) @ fraction_text 9 (t mod second) @ ''Z''"

definition ContentID :: "entry \<Rightarrow> string" where
  "ContentID e =
     (let published = (if en_published e = zero_time then [] else format_rfc3339_nano (en_published e))
      in contentIDPrefix @
         sha256_hex (concat (map (\<lambda>part. part @ [CHR 0x00])
           [en_description e, en_content e, en_image e, published])))"

definition withContentID :: "entry \<Rightarrow> entry" where
  "withContentID e =
     (if en_id e = [] then e\<lparr>en_id := ContentID e, en_source := IDFromContent\<rparr> else e)"

definition pickIdentity :: "string \<Rightarrow> string \<Rightarrow> string \<Rightarrow> string \<times> id_source" where
  "pickIdentity guid link title =
     (if trim_space guid \<noteq> [] then (trim_space guid, IDFromGUID)
      else if trim_space link \<noteq> [] then (trim_space link, IDFromLink)
      else (title, IDFromTitle))"

subsection \<open>Normalization\<close>

definition trackingQueryParams :: "string list" where
  "trackingQueryParams = [''fbclid'', ''gclid'', ''mc_eid'', ''mc_cid'', ''igshid'', ''ref_src'',
     ''ref'', ''mkt_tok'', ''_hsenc'', ''_hsmi'', ''spm'']"

definition schemeHTTP :: string where "schemeHTTP = ''http''"
definition schemeHTTPS :: string where "schemeHTTPS = ''https''"

text \<open>Whether a query parameter is removed.\<close>

definition drops_param :: "go_env \<Rightarrow> bool \<Rightarrow> string \<Rightarrow> bool" where
  "drops_param E keepTarget param =
     (let lower = to_lower E param in
      if keepTarget \<and> lower = ''ref'' then False
      else lower \<in> set trackingQueryParams \<or> has_prefix lower ''utm_'')"

definition normalizeURLIdentity :: "go_env \<Rightarrow> string \<Rightarrow> bool \<Rightarrow> string" where
  "normalizeURLIdentity E ident keepTarget =
     (if length ident < 7 \<or> map lower_ascii (take 4 ident) \<noteq> schemeHTTP then ident
      else case url_parse E ident of
        None \<Rightarrow> ident
      | Some u \<Rightarrow>
          if scheme u \<noteq> schemeHTTP \<and> scheme u \<noteq> schemeHTTPS then ident
          else
            let u = u\<lparr>scheme := to_lower E (scheme u), host := to_lower E (host u)\<rparr>;
                u = (if \<not> keepTarget then u\<lparr>fragment := []\<rparr> else u);
                query = parse_query E (raw_query u);
                u = (if query \<noteq> []
                     then u\<lparr>raw_query := encode_query
                            (filter (\<lambda>kv. \<not> drops_param E keepTarget (fst kv)) query)\<rparr>
                     else u)
            in url_string u)"

definition normalizeIdentity :: "go_env \<Rightarrow> string \<Rightarrow> string" where
  "normalizeIdentity E ident = normalizeURLIdentity E ident False"

definition normalizeLinkIdentity :: "go_env \<Rightarrow> string \<Rightarrow> string" where
  "normalizeLinkIdentity E ident = normalizeURLIdentity E ident True"

definition entryIdentity :: "go_env \<Rightarrow> entry \<Rightarrow> string" where
  "entryIdentity E e =
     (if en_id e = [] then ContentID e
      else if en_source e = IDFromLink then normalizeLinkIdentity E (en_id e)
      else normalizeIdentity E (en_id e))"

definition strippedLinkIdentity :: "go_env \<Rightarrow> entry \<Rightarrow> string" where
  "strippedLinkIdentity E e =
     (if en_source e \<noteq> IDFromLink \<or> en_id e = [] then [] else normalizeIdentity E (en_id e))"

definition previouslyIdentified :: "entry \<Rightarrow> entry \<times> bool" where
  "previouslyIdentified e =
     (if en_previous_id e = [] then (e, False)
      else (e\<lparr>en_id := en_previous_id e, en_source := en_previous_source e\<rparr>, True))"

subsection \<open>What identities guarantee\<close>

lemma url_string_scheme_nonempty: "scheme u \<noteq> [] \<Longrightarrow> url_string u \<noteq> []"
  by (simp add: url_string_def)

lemma lower_ascii_http: "scheme u = schemeHTTP \<or> scheme u = schemeHTTPS \<Longrightarrow> to_lower E (scheme u) = scheme u"
  by (auto simp: schemeHTTP_def schemeHTTPS_def to_lower_def lower_ascii_def)

lemma normalize_nonempty:
  assumes "ident \<noteq> []"
  shows "normalizeURLIdentity E ident k \<noteq> []"
proof -
  have "schemeHTTP \<noteq> []" "schemeHTTPS \<noteq> []"
    by (simp_all add: schemeHTTP_def schemeHTTPS_def)
  then show ?thesis
    using assms
    by (auto simp: normalizeURLIdentity_def Let_def lower_ascii_http split: option.splits
        intro!: url_string_scheme_nonempty)
qed

lemma ContentID_nonempty: "ContentID e \<noteq> []"
  by (simp add: ContentID_def contentIDPrefix_def Let_def)

lemma entryIdentity_nonempty [simp]: "entryIdentity E e \<noteq> []"
  by (simp add: entryIdentity_def normalizeLinkIdentity_def normalizeIdentity_def
      normalize_nonempty ContentID_nonempty)

lemma strippedLinkIdentity_link:
  "strippedLinkIdentity E e \<noteq> [] \<longleftrightarrow> en_source e = IDFromLink \<and> en_id e \<noteq> []"
  by (simp add: strippedLinkIdentity_def normalizeIdentity_def normalize_nonempty)


subsection \<open>Properties\<close>

text \<open>Rotating, adding or dropping the fragment of an http(s) permalink used as a GUID does
  not change the entry's identity, so the entry is not sent again.\<close>

theorem guid_fragment_ignored:
  assumes "CHR ''#'' \<notin> set s" "7 \<le> length s"
    and "url_parse E s = Some u" "scheme u = schemeHTTP \<or> scheme u = schemeHTTPS"
    and "unescape encodeFragment f = Some d" "map lower_ascii (take 4 s) = schemeHTTP"
    and "en_id e = s" "en_source e = IDFromGUID"
  shows "entryIdentity E (e\<lparr>en_id := s @ CHR ''#'' # f\<rparr>) = entryIdentity E e"
proof -
  obtain r where r: "url_parse E (s @ CHR ''#'' # f) = Some (u\<lparr>fragment := d, raw_fragment := r\<rparr>)"
    using url_parse_fragment assms by blast
  have "s \<noteq> []" using assms(2) by auto
  moreover have "normalizeIdentity E (s @ CHR ''#'' # f) = normalizeIdentity E s"
  proof -
    have same: "url_string (u\<lparr>raw_fragment := r, scheme := a, host := b, fragment := [], raw_query := q\<rparr>)
        = url_string (u\<lparr>scheme := a, host := b, fragment := [], raw_query := q\<rparr>)"
      and same': "url_string (u\<lparr>raw_fragment := r, scheme := a, host := b, fragment := []\<rparr>)
        = url_string (u\<lparr>scheme := a, host := b, fragment := []\<rparr>)" for a b q
      by (simp_all add: url_string_def hier_string_def authority_string_def escaped_path_def)
    from assms(4) show ?thesis
      by (elim disjE; use assms(1-3,5,6) r in
          \<open>simp add: normalizeIdentity_def normalizeURLIdentity_def Let_def same same'\<close>)
  qed
  ultimately show ?thesis using assms by (simp add: entryIdentity_def)
qed

lemma guid_fragment_ignored_witness:
  "entryIdentity plain_env (example_entry\<lparr>en_id := ''https://Go.dev/blog?b=1&utm_source=x#later''\<rparr>) =
   entryIdentity plain_env (example_entry\<lparr>en_id := ''https://Go.dev/blog?b=1&utm_source=x''\<rparr>)"
proof -
  let ?s = "''https://Go.dev/blog?b=1&utm_source=x''"
  have "url_parse plain_env ?s \<noteq> None \<and> scheme (the (url_parse plain_env ?s)) = schemeHTTPS"
    by code_simp
  then obtain u where "url_parse plain_env ?s = Some u" "scheme u = schemeHTTPS" by auto
  moreover have "unescape encodeFragment ''later'' = Some ''later''" by code_simp
  moreover have "CHR ''#'' \<notin> set ?s" "7 \<le> length ?s" "map lower_ascii (take 4 ?s) = schemeHTTP"
    by code_simp+
  ultimately show ?thesis
    using guid_fragment_ignored [of ?s plain_env u "''later''" "''later''" "example_entry\<lparr>en_id := ?s\<rparr>"]
    by (simp add: example_entry_def)
qed

end
