(* ===== verification/Ledger.thy ===== *)
theory Ledger
  imports Identity
begin

text \<open>
  A feed's delivery bookkeeping over one fetch (\<^verbatim>\<open>internal/controller/ledger.go\<close>) and the
  identity migration that runs on it (\<^verbatim>\<open>identity_migration.go\<close>).

  \<open>deliveryLedger\<close> holds a pointer to the FeedStatus it reads and writes, which the rest of
  a sync writes too.  The model keeps the two apart: a \<open>ledger\<close> is the part that never
  changes after construction (the entries, their records and the uniqueness counts), and
  every operation takes the status and returns it updated.  The Go maps that only count
  are functions, \<open>byRef\<close> is a partial function, \<open>LastSent\<close> an association list.
\<close>

definition maxLastSentPerFeed :: nat where "maxLastSentPerFeed = 50"

definition clampWatermark :: "string \<Rightarrow> string" where
  "clampWatermark ident =
     (if int (length ident) \<le> maxStatusTextBytes then ident else ''sha256:'' @ sha256_hex ident)"

definition hashIdentity :: "string \<Rightarrow> string" where
  "hashIdentity identity = sha256_hex identity"

definition computeEntryKey :: "go_env \<Rightarrow> entry \<Rightarrow> string" where
  "computeEntryKey E e = hashIdentity (entryIdentity E e)"

definition pruneLastSent :: "(string \<times> string) list \<Rightarrow> nat \<Rightarrow> (string \<times> string) list" where
  "pruneLastSent sent limit =
     (if length sent \<le> limit then sent
      else let keys = map fst (sort_key (\<lambda>(k, at). (at, k)) sent)
           in fold AList.delete (take (length keys - limit) keys) sent)"

definition strippedKeyPrefix :: string where "strippedKeyPrefix = ''stripped:''"

definition strippedKey :: "string \<Rightarrow> string" where
  "strippedKey s = hashIdentity (strippedKeyPrefix @ s)"

definition moveSentKey :: "string \<Rightarrow> string \<Rightarrow> (string \<times> string) list \<Rightarrow> (string \<times> string) list" where
  "moveSentKey from to sent =
     (case map_of sent from of
        None \<Rightarrow> sent
      | Some sentAt \<Rightarrow>
          let sent' = AList.delete from sent
          in if to = [] then sent'
             else if map_of sent' to = None then AList.update to sentAt sent' else sent')"

subsection \<open>Records\<close>

record identity_record =
  ir_identity :: string
  ir_mark :: string
  ir_key :: string
  ir_stripped :: string
  ir_unique :: string
  ir_keys :: "string list"
  ir_moved :: bool
  ir_previous :: string
  ir_previous_key :: string
  ir_previous_stripped :: string
  ir_previous_stripped_key :: string

definition describeEntry :: "go_env \<Rightarrow> entry \<Rightarrow> identity_record" where
  "describeEntry E e =
     (let ident = entryIdentity E e;
          (prev, moved) = previouslyIdentified e;
          prevIdent = (if moved then entryIdentity E prev else []);
          prevStripped = (if moved then strippedLinkIdentity E prev else [])
      in \<lparr>ir_identity = ident, ir_mark = clampWatermark ident, ir_key = hashIdentity ident,
          ir_stripped = strippedLinkIdentity E e, ir_unique = [], ir_keys = [],
          ir_moved = moved, ir_previous = prevIdent,
          ir_previous_key = (if moved then hashIdentity prevIdent else []),
          ir_previous_stripped = prevStripped,
          ir_previous_stripped_key = (if prevStripped \<noteq> [] then strippedKey prevStripped else [])\<rparr>)"

datatype entry_ref = EntryRef string string string id_source id_source

definition refOf :: "entry \<Rightarrow> entry_ref" where
  "refOf e = EntryRef (en_id e) (en_previous_id e)
     (if en_id e = [] then ContentID e else []) (en_source e) (en_previous_source e)"

datatype watermark_state = watermarkNone | watermarkFound | watermarkLost

record watermark_lookup =
  wl_state :: watermark_state
  wl_index :: int

record ledger =
  lg_entries :: "entry list"
  lg_ids :: "identity_record list"
  by_ref :: "entry_ref \<Rightarrow> nat option"
  claims :: "string \<Rightarrow> nat"
  identities :: "string \<Rightarrow> nat"
  previous_identities :: "string \<Rightarrow> nat"
  previous_stripped_count :: "string \<Rightarrow> nat"

definition bump :: "bool \<Rightarrow> string \<Rightarrow> (string \<Rightarrow> nat) \<Rightarrow> string \<Rightarrow> nat" where
  "bump b k f = (if b then f(k := f k + 1) else f)"

text \<open>The body of the first loop of \<open>newDeliveryLedger\<close>, for the entry at index \<open>i\<close>.\<close>

definition ledger_add :: "go_env \<Rightarrow> nat \<times> entry \<Rightarrow> ledger \<Rightarrow> ledger" where
  "ledger_add E ie l =
     (let (i, e) = ie; rec = describeEntry E e in
      l\<lparr>lg_ids := lg_ids l @ [rec],
        by_ref := (by_ref l)(refOf e \<mapsto> i),
        identities := bump True (ir_identity rec) (identities l),
        claims := bump (ir_identity rec \<noteq> ir_stripped rec) (ir_identity rec)
          (bump (ir_stripped rec \<noteq> []) (ir_stripped rec) (claims l)),
        previous_identities := bump (ir_moved rec) (ir_previous rec) (previous_identities l),
        previous_stripped_count := bump (ir_moved rec \<and> ir_previous_stripped rec \<noteq> [])
          (ir_previous_stripped rec) (previous_stripped_count l)\<rparr>)"

definition settle_record :: "ledger \<Rightarrow> identity_record \<Rightarrow> identity_record" where
  "settle_record l rec =
     (let u = (if ir_stripped rec \<noteq> [] \<and> claims l (ir_stripped rec) = 1 then ir_stripped rec
               else ir_unique rec)
      in rec\<lparr>ir_unique := u, ir_keys := ir_key rec # (if u \<noteq> [] then [strippedKey u] else [])\<rparr>)"

definition newDeliveryLedger :: "go_env \<Rightarrow> entry list \<Rightarrow> ledger" where
  "newDeliveryLedger E entries =
     (let l = fold (ledger_add E) (enumerate 0 entries)
            \<lparr>lg_entries = entries, lg_ids = [], by_ref = (\<lambda>_. None), claims = (\<lambda>_. 0),
             identities = (\<lambda>_. 0), previous_identities = (\<lambda>_. 0),
             previous_stripped_count = (\<lambda>_. 0)\<rparr>
      in l\<lparr>lg_ids := map (settle_record l) (lg_ids l)\<rparr>)"

definition ledger_record :: "ledger \<Rightarrow> nat \<Rightarrow> identity_record" where
  "ledger_record l i = lg_ids l ! i"

definition recordOf :: "go_env \<Rightarrow> ledger \<Rightarrow> entry \<Rightarrow> identity_record" where
  "recordOf E l e =
     (case by_ref l (refOf e) of
        Some i \<Rightarrow> lg_ids l ! i
      | None \<Rightarrow> settle_record l (describeEntry E e))"

subsection \<open>The watermark\<close>

definition hasWatermark :: "feed_status \<Rightarrow> bool" where
  "hasWatermark fs \<longleftrightarrow> last_seen_entry fs \<noteq> []"

text \<open>The first index, from \<open>i\<close> on, whose record satisfies \<open>P\<close>.\<close>

fun first_index :: "(identity_record \<Rightarrow> bool) \<Rightarrow> int \<Rightarrow> identity_record list \<Rightarrow> int option" where
  "first_index P i [] = None"
| "first_index P i (rec # recs) = (if P rec then Some i else first_index P (i + 1) recs)"

definition resume :: "go_env \<Rightarrow> ledger \<Rightarrow> feed_status \<Rightarrow> watermark_lookup" where
  "resume E l fs =
     (if \<not> hasWatermark fs then \<lparr>wl_state = watermarkNone, wl_index = -1\<rparr>
      else let watermark = last_seen_entry fs;
               lost = \<lparr>wl_state = watermarkLost, wl_index = -1\<rparr>
           in case first_index (\<lambda>r. ir_mark r = watermark) 0 (lg_ids l) of
                Some i \<Rightarrow> \<lparr>wl_state = watermarkFound, wl_index = i\<rparr>
              | None \<Rightarrow>
                  let stripped = normalizeIdentity E watermark
                  in if stripped = watermark then lost
                     else case first_index
                            (\<lambda>r. ir_unique r \<noteq> [] \<and> clampWatermark (ir_unique r) = clampWatermark stripped)
                            0 (lg_ids l) of
                       Some i \<Rightarrow> \<lparr>wl_state = watermarkFound, wl_index = i\<rparr>
                     | None \<Rightarrow> lost)"

definition setWatermark :: "ledger \<Rightarrow> nat \<Rightarrow> feed_status \<Rightarrow> feed_status" where
  "setWatermark l i fs = fs\<lparr>last_seen_entry := ir_mark (lg_ids l ! i)\<rparr>"

definition moveWatermark :: "ledger \<Rightarrow> string \<Rightarrow> nat \<Rightarrow> feed_status \<Rightarrow> feed_status \<times> bool" where
  "moveWatermark l from to fs =
     (if last_seen_entry fs \<noteq> clampWatermark from then (fs, False)
      else (setWatermark l to fs, True))"

text \<open>The fetch is not empty where it is called.\<close>

definition markNewest :: "ledger \<Rightarrow> feed_status \<Rightarrow> feed_status" where
  "markNewest l fs = setWatermark l (length (lg_entries l) - 1) fs"

subsection \<open>LastSent\<close>

definition sentAtKey :: "feed_status \<Rightarrow> string \<Rightarrow> string option" where
  "sentAtKey fs key = map_of (last_sent fs) key"

definition recordKey :: "string \<Rightarrow> string \<Rightarrow> feed_status \<Rightarrow> feed_status" where
  "recordKey key sentAt fs = fs\<lparr>last_sent := AList.update key sentAt (last_sent fs)\<rparr>"

definition recordSentAt :: "ledger \<Rightarrow> nat \<Rightarrow> string \<Rightarrow> string \<Rightarrow> feed_status \<Rightarrow> feed_status" where
  "recordSentAt l i sentAt stripped fs =
     (let rec = lg_ids l ! i; fs1 = recordKey (ir_key rec) sentAt fs
      in if stripped \<noteq> [] \<and> ir_unique rec = stripped
         then recordKey (strippedKey stripped) sentAt fs1 else fs1)"

definition moveSent :: "string \<Rightarrow> string \<Rightarrow> feed_status \<Rightarrow> feed_status" where
  "moveSent from to fs = fs\<lparr>last_sent := moveSentKey from to (last_sent fs)\<rparr>"

definition sent :: "go_env \<Rightarrow> ledger \<Rightarrow> feed_status \<Rightarrow> entry \<Rightarrow> bool" where
  "sent E l fs e \<longleftrightarrow> (\<exists>key \<in> set (ir_keys (recordOf E l e)). sentAtKey fs key \<noteq> None)"

definition markHandled :: "go_env \<Rightarrow> ledger \<Rightarrow> entry \<Rightarrow> string \<Rightarrow> feed_status \<Rightarrow> feed_status" where
  "markHandled E l e now fs =
     (let rec = recordOf E l e
      in (fold (\<lambda>key. recordKey key now) (ir_keys rec) fs)\<lparr>last_seen_entry := ir_mark rec\<rparr>)"

subsection \<open>Migration\<close>

definition ownsPrevious :: "ledger \<Rightarrow> nat \<Rightarrow> bool" where
  "ownsPrevious l i \<longleftrightarrow>
     (let s = ir_previous_stripped (lg_ids l ! i)
      in s \<noteq> [] \<and> previous_stripped_count l s = 1 \<and> claims l s = 0)"

definition carriesOver :: "ledger \<Rightarrow> nat \<Rightarrow> bool" where
  "carriesOver l i \<longleftrightarrow>
     (let rec = lg_ids l ! i
      in ir_moved rec \<and> ir_previous rec \<noteq> ir_identity rec \<and>
         previous_identities l (ir_previous rec) \<le> 1 \<and>
         identities l (ir_previous rec) = 0 \<and>
         identities l (ir_identity rec) \<le> 1)"

definition rekeySent :: "ledger \<Rightarrow> nat \<Rightarrow> feed_status \<Rightarrow> feed_status" where
  "rekeySent l i fs =
     (let rec = lg_ids l ! i; fs1 = moveSent (ir_previous_key rec) (ir_key rec) fs
      in if ir_previous_stripped_key rec \<noteq> []
         then moveSent (ir_previous_stripped_key rec)
                (if ir_unique rec \<noteq> [] then strippedKey (ir_unique rec)
                 else if ownsPrevious l i then ir_key rec else []) fs1
         else fs1)"

definition migrate_step :: "ledger \<Rightarrow> nat \<Rightarrow> feed_status \<Rightarrow> feed_status" where
  "migrate_step l i fs =
     (if carriesOver l i
      then rekeySent l i (fst (moveWatermark l (ir_previous (lg_ids l ! i)) i fs))
      else fs)"

definition migratePreviousIdentities :: "ledger \<Rightarrow> feed_status \<Rightarrow> feed_status" where
  "migratePreviousIdentities l fs = fold (migrate_step l) [0..<length (lg_entries l)] fs"

end
