(* ===== verification/Ledger_Laws.thy ===== *)
theory Ledger_Laws
  imports Ledger
begin

text \<open>
  What the delivery ledger guarantees.  Building it leaves, for every entry, the record
  computed from the entry and the uniqueness counts, which count the entries of the
  fetch; hence \<open>recordOf\<close> is the same function of the entry whether or not the index
  finds it.  The locale \<open>sent_store\<close> is the contract delivery relies on: marking an entry
  makes it sent, and a sent entry stays sent.
\<close>

subsection \<open>Building the ledger\<close>

lemma describeEntry_simps [ledger_simps]:
  "ir_identity (describeEntry E e) = entryIdentity E e"
  "ir_mark (describeEntry E e) = clampWatermark (entryIdentity E e)"
  "ir_key (describeEntry E e) = computeEntryKey E e"
  "ir_stripped (describeEntry E e) = strippedLinkIdentity E e"
  "ir_unique (describeEntry E e) = []"
  "ir_moved (describeEntry E e) \<longleftrightarrow> en_previous_id e \<noteq> []"
  by (auto simp: describeEntry_def previouslyIdentified_def computeEntryKey_def Let_def)

text \<open>The entry as earlier releases identified it.\<close>

definition previous_entry :: "entry \<Rightarrow> entry" where
  "previous_entry e = e\<lparr>en_id := en_previous_id e, en_source := en_previous_source e\<rparr>"

lemma describeEntry_previous [ledger_simps]:
  "ir_previous (describeEntry E e) =
     (if en_previous_id e = [] then [] else entryIdentity E (previous_entry e))"
  "ir_previous_key (describeEntry E e) =
     (if en_previous_id e = [] then [] else computeEntryKey E (previous_entry e))"
  "ir_previous_stripped (describeEntry E e) =
     (if en_previous_id e = [] then [] else strippedLinkIdentity E (previous_entry e))"
  "ir_previous_stripped_key (describeEntry E e) =
     (if en_previous_id e = [] \<or> strippedLinkIdentity E (previous_entry e) = [] then []
      else strippedKey (strippedLinkIdentity E (previous_entry e)))"
  by (simp_all add: describeEntry_def previouslyIdentified_def computeEntryKey_def Let_def
      previous_entry_def)

lemma refOf_describes:
  assumes "refOf e = refOf e'"
  shows "describeEntry E e = describeEntry E e'"
proof -
  have id: "en_id e = en_id e'" "en_source e = en_source e'"
    "en_previous_id e = en_previous_id e'" "en_previous_source e = en_previous_source e'"
    and content: "en_id e = [] \<Longrightarrow> ContentID e = ContentID e'"
    using assms by (auto simp: refOf_def)
  have "entryIdentity E e = entryIdentity E e'"
    using id content by (simp add: entryIdentity_def)
  moreover have "strippedLinkIdentity E e = strippedLinkIdentity E e'"
    using id by (simp add: strippedLinkIdentity_def)
  moreover have "entryIdentity E (previous_entry e) = entryIdentity E (previous_entry e')"
    "strippedLinkIdentity E (previous_entry e) = strippedLinkIdentity E (previous_entry e')"
    if "en_previous_id e \<noteq> []"
    using id that by (simp_all add: entryIdentity_def strippedLinkIdentity_def previous_entry_def)
  ultimately show ?thesis
    using id by (auto simp: describeEntry_def previouslyIdentified_def Let_def previous_entry_def)
qed

text \<open>The entries counted for a string: by full identity, by either form, and by the
  identity they had in earlier releases.\<close>

definition count_entries :: "(entry \<Rightarrow> bool) \<Rightarrow> entry list \<Rightarrow> nat" where
  "count_entries P es = length (filter P es)"

definition claims_identity :: "go_env \<Rightarrow> string \<Rightarrow> entry \<Rightarrow> bool" where
  "claims_identity E s e \<longleftrightarrow>
     (s \<noteq> [] \<and> strippedLinkIdentity E e = s) \<or> entryIdentity E e = s"

definition had_identity :: "go_env \<Rightarrow> string \<Rightarrow> entry \<Rightarrow> bool" where
  "had_identity E s e \<longleftrightarrow> en_previous_id e \<noteq> [] \<and> entryIdentity E (previous_entry e) = s"

definition had_stripped :: "go_env \<Rightarrow> string \<Rightarrow> entry \<Rightarrow> bool" where
  "had_stripped E s e \<longleftrightarrow>
     en_previous_id e \<noteq> [] \<and> s \<noteq> [] \<and> strippedLinkIdentity E (previous_entry e) = s"

abbreviation index_entries :: "go_env \<Rightarrow> nat \<Rightarrow> entry list \<Rightarrow> ledger \<Rightarrow> ledger" where
  "index_entries E k es l \<equiv> fold (ledger_add E) (enumerate k es) l"

lemma ledger_fold:
  "lg_entries (index_entries E k es l) = lg_entries l \<and>
   lg_ids (index_entries E k es l) = lg_ids l @ map (describeEntry E) es \<and>
   (\<forall>s. claims (index_entries E k es l) s = claims l s + count_entries (claims_identity E s) es) \<and>
   (\<forall>s. identities (index_entries E k es l) s =
      identities l s + count_entries (\<lambda>e. entryIdentity E e = s) es) \<and>
   (\<forall>s. previous_identities (index_entries E k es l) s =
      previous_identities l s + count_entries (had_identity E s) es) \<and>
   (\<forall>s. previous_stripped_count (index_entries E k es l) s =
      previous_stripped_count l s + count_entries (had_stripped E s) es)"
proof (induction es arbitrary: k l)
  case Nil
  then show ?case by (simp add: count_entries_def)
next
  case (Cons e es)
  let ?l = "ledger_add E (k, e) l"
  have step: "lg_entries ?l = lg_entries l" "lg_ids ?l = lg_ids l @ [describeEntry E e]"
    "claims ?l s = claims l s + count_entries (claims_identity E s) [e]"
    "identities ?l s = identities l s + count_entries (\<lambda>e. entryIdentity E e = s) [e]"
    "previous_identities ?l s = previous_identities l s + count_entries (had_identity E s) [e]"
    "previous_stripped_count ?l s =
       previous_stripped_count l s + count_entries (had_stripped E s) [e]" for s
    by (auto simp: ledger_add_def Let_def bump_def ledger_simps count_entries_def
        claims_identity_def had_identity_def had_stripped_def)
  have count: "count_entries P (e # es) = count_entries P [e] + count_entries P es" for P
    by (simp add: count_entries_def)
  have "index_entries E k (e # es) l = index_entries E (Suc k) es ?l" by simp
  then show ?case using Cons.IH [of "Suc k" ?l] by (simp add: step count)
qed

lemma by_ref_fold:
  "by_ref (index_entries E k es l) r = Some i \<Longrightarrow>
     by_ref l r = Some i \<or> (k \<le> i \<and> i < k + length es \<and> refOf (es ! (i - k)) = r)"
proof (induction es arbitrary: k l)
  case (Cons e es)
  from Cons.prems Cons.IH [of "Suc k" "ledger_add E (k, e) l"]
  have "by_ref (ledger_add E (k, e) l) r = Some i \<or>
      (Suc k \<le> i \<and> i < Suc k + length es \<and> refOf (es ! (i - Suc k)) = r)" by simp
  then show ?case
  proof
    assume "by_ref (ledger_add E (k, e) l) r = Some i"
    then show ?thesis by (auto simp: ledger_add_def Let_def split: if_splits)
  next
    assume *: "Suc k \<le> i \<and> i < Suc k + length es \<and> refOf (es ! (i - Suc k)) = r"
    then have "i - k = Suc (i - Suc k)" by (simp add: Suc_diff_Suc Suc_le_lessD)
    then show ?thesis using * by simp
  qed
qed simp

text \<open>The ledger of a fetch, in closed form.\<close>

definition the_record :: "go_env \<Rightarrow> ledger \<Rightarrow> entry \<Rightarrow> identity_record" where
  "the_record E l e = settle_record l (describeEntry E e)"

lemma newDeliveryLedger_spec:
  fixes es E defines "L \<equiv> newDeliveryLedger E es"
  shows "lg_entries L = es"
    and "lg_ids L = map (the_record E L) es"
    and "claims L s = count_entries (claims_identity E s) es"
    and "identities L s = count_entries (\<lambda>e. entryIdentity E e = s) es"
    and "previous_identities L s = count_entries (had_identity E s) es"
    and "previous_stripped_count L s = count_entries (had_stripped E s) es"
    and "by_ref L r = Some i \<Longrightarrow> i < length es \<and> refOf (es ! i) = r"
proof -
  let ?start = "\<lparr>lg_entries = es, lg_ids = [], by_ref = (\<lambda>_. None), claims = (\<lambda>_. 0),
    identities = (\<lambda>_. 0), previous_identities = (\<lambda>_. 0), previous_stripped_count = (\<lambda>_. 0)\<rparr>"
  let ?l = "index_entries E 0 es ?start"
  have L: "L = ?l\<lparr>lg_ids := map (settle_record ?l) (lg_ids ?l)\<rparr>"
    by (simp only: L_def newDeliveryLedger_def Let_def)
  have L_eq: "lg_entries L = lg_entries ?l" "claims L = claims ?l" "identities L = identities ?l"
    "previous_identities L = previous_identities ?l" "by_ref L = by_ref ?l"
    "previous_stripped_count L = previous_stripped_count ?l" by (simp_all add: L)
  have settle: "settle_record L = settle_record ?l"
    by (rule ext) (simp add: L settle_record_def)
  note facts = ledger_fold [of E 0 es ?start]
  show "lg_entries L = es" "claims L s = count_entries (claims_identity E s) es"
    "identities L s = count_entries (\<lambda>e. entryIdentity E e = s) es"
    "previous_identities L s = count_entries (had_identity E s) es"
    "previous_stripped_count L s = count_entries (had_stripped E s) es"
    using facts by (simp_all add: L_eq)
  have "lg_ids L = map (settle_record ?l) (map (describeEntry E) es)"
    using facts by (simp add: L)
  then show "lg_ids L = map (the_record E L) es"
    by (simp add: the_record_def settle)
  show "by_ref L r = Some i \<Longrightarrow> i < length es \<and> refOf (es ! i) = r"
    using by_ref_fold [of E 0 es ?start r i] by (simp add: L_eq)
qed

text \<open>Whether or not the index has the entry, its record is the one computed from it.\<close>

lemma recordOf_eq: "recordOf E (newDeliveryLedger E es) e = the_record E (newDeliveryLedger E es) e"
proof (cases "by_ref (newDeliveryLedger E es) (refOf e)")
  case None
  then show ?thesis by (simp add: recordOf_def the_record_def)
next
  case (Some i)
  have i: "i < length es" "refOf (es ! i) = refOf e"
    using newDeliveryLedger_spec(7) [OF Some] by simp_all
  then have "lg_ids (newDeliveryLedger E es) ! i = the_record E (newDeliveryLedger E es) (es ! i)"
    by (simp add: newDeliveryLedger_spec(2) [of E es])
  also have "\<dots> = the_record E (newDeliveryLedger E es) e"
    unfolding the_record_def by (simp add: refOf_describes [OF i(2)])
  finally show ?thesis using Some by (simp add: recordOf_def)
qed

subsection \<open>Sent entries\<close>

text \<open>The unique stripped identity of an entry, empty when it has none or it is shared.\<close>

definition unique_stripped :: "go_env \<Rightarrow> entry list \<Rightarrow> entry \<Rightarrow> string" where
  "unique_stripped E es e =
     (if strippedLinkIdentity E e \<noteq> []
         \<and> count_entries (claims_identity E (strippedLinkIdentity E e)) es = 1
      then strippedLinkIdentity E e else [])"

definition entry_keys :: "go_env \<Rightarrow> entry list \<Rightarrow> entry \<Rightarrow> string list" where
  "entry_keys E es e = computeEntryKey E e #
     (if unique_stripped E es e \<noteq> [] then [strippedKey (unique_stripped E es e)] else [])"

lemma the_record_simps [ledger_simps]:
  "ir_identity (the_record E L e) = entryIdentity E e"
  "ir_mark (the_record E L e) = clampWatermark (entryIdentity E e)"
  "ir_key (the_record E L e) = computeEntryKey E e"
  "ir_stripped (the_record E L e) = strippedLinkIdentity E e"
  "ir_moved (the_record E L e) = ir_moved (describeEntry E e)"
  "ir_previous (the_record E L e) = ir_previous (describeEntry E e)"
  "ir_previous_key (the_record E L e) = ir_previous_key (describeEntry E e)"
  "ir_previous_stripped (the_record E L e) = ir_previous_stripped (describeEntry E e)"
  "ir_previous_stripped_key (the_record E L e) = ir_previous_stripped_key (describeEntry E e)"
  by (simp_all add: the_record_def settle_record_def Let_def ledger_simps)

lemma the_record_keys [ledger_simps]:
  "ir_unique (the_record E (newDeliveryLedger E es) e) = unique_stripped E es e"
  "ir_keys (the_record E (newDeliveryLedger E es) e) = entry_keys E es e"
  by (simp_all add: the_record_def settle_record_def Let_def unique_stripped_def entry_keys_def
      newDeliveryLedger_spec(3) ledger_simps)

lemma sent_iff:
  "sent E (newDeliveryLedger E es) fs e \<longleftrightarrow> (\<exists>k \<in> set (entry_keys E es e). map_of (last_sent fs) k \<noteq> None)"
  by (simp add: sent_def sentAtKey_def recordOf_eq ledger_simps)

lemma recordKey_frame [status_frame]:
  "conditions (recordKey k t fs) = conditions fs"
  "fs_url (recordKey k t fs) = fs_url fs"
  "last_checked (recordKey k t fs) = last_checked fs"
  "initialized (recordKey k t fs) = initialized fs"
  "state_version (recordKey k t fs) = state_version fs"
  "last_seen_entry (recordKey k t fs) = last_seen_entry fs"
  "last_error (recordKey k t fs) = last_error fs"
  "etag (recordKey k t fs) = etag fs"
  "last_modified (recordKey k t fs) = last_modified fs"
  "retry_count (recordKey k t fs) = retry_count fs"
  "backoff_until (recordKey k t fs) = backoff_until fs"
  by (simp_all add: recordKey_def)

lemma map_of_recordKey [simp]:
  "map_of (last_sent (recordKey k t fs)) = (map_of (last_sent fs))(k \<mapsto> t)"
  by (simp add: recordKey_def)

lemma markHandled_eq:
  "markHandled E (newDeliveryLedger E es) e now fs =
     (fold (\<lambda>k. recordKey k now) (entry_keys E es e) fs)
       \<lparr>last_seen_entry := clampWatermark (entryIdentity E e)\<rparr>"
  by (simp add: markHandled_def Let_def recordOf_eq ledger_simps)

lemma fold_recordKey:
  "map_of (last_sent (fold (\<lambda>k. recordKey k now) ks fs)) x =
     (if x \<in> set ks then Some now else map_of (last_sent fs) x)"
  by (induction ks arbitrary: fs) auto

lemma markHandled_sent_map:
  "map_of (last_sent (markHandled E (newDeliveryLedger E es) e now fs)) x =
     (if x \<in> set (entry_keys E es e) then Some now else map_of (last_sent fs) x)"
  by (simp add: markHandled_eq fold_recordKey)

lemma fold_recordKey_frame: "\<exists>ls. fold (\<lambda>k. recordKey k now) ks fs = fs\<lparr>last_sent := ls\<rparr>"
proof (induction ks arbitrary: fs)
  case Nil
  show ?case by (intro exI [of _ "last_sent fs"]) simp
next
  case (Cons k ks)
  from Cons.IH [of "recordKey k now fs"] show ?case by (auto simp: recordKey_def)
qed

lemma markHandled_frame [status_frame]:
  "conditions (markHandled E l e now fs) = conditions fs"
  "fs_url (markHandled E l e now fs) = fs_url fs"
  "last_checked (markHandled E l e now fs) = last_checked fs"
  "initialized (markHandled E l e now fs) = initialized fs"
  "state_version (markHandled E l e now fs) = state_version fs"
  "last_error (markHandled E l e now fs) = last_error fs"
  "etag (markHandled E l e now fs) = etag fs"
  "last_modified (markHandled E l e now fs) = last_modified fs"
  "retry_count (markHandled E l e now fs) = retry_count fs"
  "backoff_until (markHandled E l e now fs) = backoff_until fs"
proof -
  obtain ls where "fold (\<lambda>k. recordKey k now) (ir_keys (recordOf E l e)) fs = fs\<lparr>last_sent := ls\<rparr>"
    using fold_recordKey_frame by blast
  then have "markHandled E l e now fs =
      fs\<lparr>last_sent := ls, last_seen_entry := ir_mark (recordOf E l e)\<rparr>"
    by (simp add: markHandled_def Let_def)
  then show "conditions (markHandled E l e now fs) = conditions fs"
    "fs_url (markHandled E l e now fs) = fs_url fs"
    "last_checked (markHandled E l e now fs) = last_checked fs"
    "initialized (markHandled E l e now fs) = initialized fs"
    "state_version (markHandled E l e now fs) = state_version fs"
    "last_error (markHandled E l e now fs) = last_error fs"
    "etag (markHandled E l e now fs) = etag fs"
    "last_modified (markHandled E l e now fs) = last_modified fs"
    "retry_count (markHandled E l e now fs) = retry_count fs"
    "backoff_until (markHandled E l e now fs) = backoff_until fs"
    by simp_all
qed

text \<open>The contract of a store of sent entries.\<close>

locale sent_store =
  fixes mark :: "'e \<Rightarrow> 's \<Rightarrow> 's" and is_sent :: "'s \<Rightarrow> 'e \<Rightarrow> bool"
  assumes mark_sent: "is_sent (mark e s) e"
    and mark_keeps: "is_sent s x \<Longrightarrow> is_sent (mark e s) x"
begin

lemma marks_keep: "is_sent s x \<Longrightarrow> is_sent (fold mark es s) x"
  by (induction es arbitrary: s) (auto intro: mark_keeps)

lemma marks_sent: "x \<in> set es \<Longrightarrow> is_sent (fold mark es s) x"
  by (induction es arbitrary: s) (auto intro: marks_keep mark_sent)

lemma marks_filter: "filter (\<lambda>x. \<not> is_sent (fold mark es s) x) es = []"
  by (intro filter_eq_NilI) (simp add: marks_sent)

end

interpretation ledger_store:
  sent_store "\<lambda>e. markHandled E (newDeliveryLedger E es) e now" "sent E (newDeliveryLedger E es)"
  for E es now
  by unfold_locales (auto simp: sent_iff markHandled_sent_map entry_keys_def)

subsection \<open>The watermark\<close>

lemma clampWatermark_nonempty: "ident \<noteq> [] \<Longrightarrow> clampWatermark ident \<noteq> []"
  by (simp add: clampWatermark_def)

lemma length_clampWatermark: "int (length (clampWatermark ident)) \<le> maxStatusTextBytes"
  by (simp add: clampWatermark_def maxStatusTextBytes_def)

lemma clampWatermark_idem: "clampWatermark (clampWatermark ident) = clampWatermark ident"
  using length_clampWatermark [of ident] by (simp add: clampWatermark_def [of "clampWatermark ident"])

lemma first_index_Some:
  "first_index P k recs = Some i \<longleftrightarrow>
     (\<exists>n < length recs. i = k + int n \<and> P (recs ! n) \<and> (\<forall>m < n. \<not> P (recs ! m)))"
proof (induction recs arbitrary: k)
  case (Cons r rs)
  show ?case
  proof (cases "P r")
    case True
    then show ?thesis by (auto simp: All_less_Suc2 Ex_less_Suc2)
  next
    case False
    then show ?thesis by (auto simp: Cons.IH All_less_Suc2 Ex_less_Suc2)
  qed
qed simp

lemma first_index_None: "first_index P k recs = None \<longleftrightarrow> (\<forall>r \<in> set recs. \<not> P r)"
  by (induction recs arbitrary: k) auto

lemma ledger_ids_nth [ledger_simps]:
  "i < length es \<Longrightarrow> lg_ids (newDeliveryLedger E es) ! i = the_record E (newDeliveryLedger E es) (es ! i)"
  "length (lg_ids (newDeliveryLedger E es)) = length es"
  "lg_entries (newDeliveryLedger E es) = es"
  by (simp_all add: newDeliveryLedger_spec(1,2))

lemma resume_at_mark:
  assumes "e \<in> set es" "last_seen_entry fs = clampWatermark (entryIdentity E e)"
  shows "\<exists>i < length es. resume E (newDeliveryLedger E es) fs = \<lparr>wl_state = watermarkFound, wl_index = int i\<rparr>
    \<and> clampWatermark (entryIdentity E (es ! i)) = clampWatermark (entryIdentity E e)
    \<and> (\<forall>j < i. clampWatermark (entryIdentity E (es ! j)) \<noteq> clampWatermark (entryIdentity E e))"
proof -
  let ?L = "newDeliveryLedger E es"
  let ?P = "\<lambda>r. ir_mark r = last_seen_entry fs"
  have "the_record E ?L e \<in> set (lg_ids ?L)"
    using assms(1) by (simp add: newDeliveryLedger_spec(2))
  then have "first_index ?P 0 (lg_ids ?L) \<noteq> None"
    unfolding first_index_None using assms(2) by (metis the_record_simps(2))
  then obtain i where i: "first_index ?P 0 (lg_ids ?L) = Some i" by blast
  then obtain n where n: "n < length es" "i = int n" "?P (lg_ids ?L ! n)" "\<forall>m < n. \<not> ?P (lg_ids ?L ! m)"
    by (auto simp: first_index_Some ledger_simps)
  have "hasWatermark fs" using assms(2) by (simp add: hasWatermark_def clampWatermark_nonempty)
  then have "resume E ?L fs = \<lparr>wl_state = watermarkFound, wl_index = int n\<rparr>"
    using i n(2) by (simp add: resume_def Let_def)
  moreover have "clampWatermark (entryIdentity E (es ! m)) = ir_mark (lg_ids ?L ! m)" if "m \<le> n" for m
    using that n(1) by (simp add: ledger_simps)
  ultimately show ?thesis using n assms(2) by (intro exI [of _ n]) (simp add: ledger_simps)
qed

subsection \<open>Pruning\<close>

lemma fold_delete: "fold AList.delete ks al = filter (\<lambda>kv. fst kv \<notin> set ks) al"
  by (induction ks arbitrary: al) (auto simp: AList.delete_eq filter_filter case_prod_beta intro!: filter_cong)

lemma prune_split:
  assumes "distinct (map fst al)" "limit < length al"
  defines "xs \<equiv> sort_key (\<lambda>(k, at). (at, k)) al"
  shows "pruneLastSent al limit = filter (\<lambda>kv. kv \<notin> set (take (length al - limit) xs)) al"
proof -
  let ?n = "length al - limit"
  have "distinct (map fst xs)" and len: "length xs = length al" and set: "set xs = set al"
    using assms(1) by (simp_all add: xs_def distinct_map)
  have "fst kv \<in> set (take ?n (map fst xs)) \<longleftrightarrow> kv \<in> set (take ?n xs)" if "kv \<in> set al" for kv
  proof
    assume "fst kv \<in> set (take ?n (map fst xs))"
    then obtain kv' where kv': "kv' \<in> set (take ?n xs)" "fst kv' = fst kv"
      by (auto simp: take_map)
    then have "kv' \<in> set al" using in_set_takeD [OF kv'(1)] set by simp
    then have "kv' = kv" using kv'(2) that assms(1) by (metis eq_key_imp_eq_value prod.collapse)
    then show "kv \<in> set (take ?n xs)" using kv' by simp
  qed (force simp: take_map)
  then show ?thesis
    using assms(2) by (simp add: pruneLastSent_def Let_def fold_delete xs_def [symmetric] len cong: filter_cong)
qed

lemma pruned_spec:
  assumes "distinct (map fst al)"
  shows "set (pruneLastSent al limit) \<subseteq> set al"
    and "length (pruneLastSent al limit) = min limit (length al)"
    and "(k, t) \<in> set al - set (pruneLastSent al limit) \<Longrightarrow>
      (k', t') \<in> set (pruneLastSent al limit) \<Longrightarrow> (t, k) < (t', k')"
proof -
  define xs where "xs = sort_key (\<lambda>(k, at). (at, k :: string)) al"
  let ?n = "length al - limit"
  have dist: "distinct xs" and set: "set xs = set al" and len: "length xs = length al"
    using assms by (simp_all add: xs_def distinct_map)
  have split: "pruneLastSent al limit = filter (\<lambda>kv. kv \<notin> set (take ?n xs)) al" if "limit < length al"
    unfolding xs_def by (rule prune_split [OF assms that])
  have id: "pruneLastSent al limit = al" if "\<not> limit < length al"
    using that by (simp add: pruneLastSent_def)
  show sub: "set (pruneLastSent al limit) \<subseteq> set al" using split id by (cases "limit < length al") auto
  show "length (pruneLastSent al limit) = min limit (length al)"
  proof (cases "limit < length al")
    case True
    have "set (pruneLastSent al limit) = set al - set (take ?n xs)" using split [OF True] by auto
    moreover have "set (take ?n xs) \<subseteq> set al" using set by (metis set_take_subset)
    moreover have "card (set (take ?n xs)) = ?n" "card (set al) = length al"
      using dist len assms by (simp_all add: distinct_card distinct_map)
    moreover have "distinct (pruneLastSent al limit)" using split [OF True] assms by (simp add: distinct_map)
    ultimately show ?thesis using True by (simp add: card_Diff_subset distinct_card [symmetric])
  qed (simp add: id)
  assume d: "(k, t) \<in> set al - set (pruneLastSent al limit)" and kept: "(k', t') \<in> set (pruneLastSent al limit)"
  then have lt: "limit < length al" using id by (cases "limit < length al") auto
  have "(k, t) \<in> set (take ?n xs)" "(k', t') \<notin> set (take ?n xs)" "(k', t') \<in> set xs"
    using d kept split [OF lt] set by auto
  then have "(k, t) \<in> set (take ?n xs)" "(k', t') \<in> set (drop ?n xs)"
    by (auto simp: set_append [symmetric] simp del: set_append) (metis Un_iff append_take_drop_id set_append)
  moreover have "\<forall>x \<in> set (take ?n xs). \<forall>y \<in> set (drop ?n xs). (snd x, fst x) \<le> (snd y, fst y)"
  proof -
    have "sorted (map (\<lambda>(k, at). (at, k)) (take ?n xs @ drop ?n xs))"
      by (simp only: append_take_drop_id) (simp add: xs_def)
    then show ?thesis unfolding map_append sorted_append by (auto simp: case_prod_beta)
  qed
  ultimately have "(t, k) \<le> (t', k')" by fastforce
  moreover have "(k, t) \<noteq> (k', t')" using d kept by auto
  ultimately show "(t, k) < (t', k')" by auto
qed

subsection \<open>Distinct entries are told apart\<close>

text \<open>
  LastSent stores digests, so two texts the ledger hashes could collide: either the hash
  does, or a GUID is literally the prefixed form of a link's stripped identity.
  \<open>key_clash\<close> says that this happens among the entries of a fetch; it is the one way a
  record of one entry can be mistaken for a record of another.
\<close>

definition hashed_texts :: "go_env \<Rightarrow> entry list \<Rightarrow> string list" where
  "hashed_texts E es =
     concat (map (\<lambda>e. [entryIdentity E e, strippedKeyPrefix @ strippedLinkIdentity E e]
       @ (if en_previous_id e = [] then []
          else [entryIdentity E (previous_entry e),
                strippedKeyPrefix @ strippedLinkIdentity E (previous_entry e)])) es)"

definition key_clash :: "go_env \<Rightarrow> entry list \<Rightarrow> bool" where
  "key_clash E es \<longleftrightarrow>
     (\<exists>a \<in> set (hashed_texts E es). \<exists>b \<in> set (hashed_texts E es).
        a \<noteq> b \<and> hashIdentity a = hashIdentity b) \<or>
     (\<exists>e \<in> set es. has_prefix (entryIdentity E e) strippedKeyPrefix \<or>
        en_previous_id e \<noteq> [] \<and> has_prefix (entryIdentity E (previous_entry e)) strippedKeyPrefix)"

lemma hashed_textsI:
  assumes "e \<in> set es"
  shows "entryIdentity E e \<in> set (hashed_texts E es)"
    and "strippedKeyPrefix @ strippedLinkIdentity E e \<in> set (hashed_texts E es)"
    and "en_previous_id e \<noteq> [] \<Longrightarrow> entryIdentity E (previous_entry e) \<in> set (hashed_texts E es)"
    and "en_previous_id e \<noteq> [] \<Longrightarrow>
      strippedKeyPrefix @ strippedLinkIdentity E (previous_entry e) \<in> set (hashed_texts E es)"
  using assms by (force simp: hashed_texts_def)+

lemma no_clash_hash:
  "\<not> key_clash E es \<Longrightarrow> a \<in> set (hashed_texts E es) \<Longrightarrow> b \<in> set (hashed_texts E es) \<Longrightarrow>
     hashIdentity a = hashIdentity b \<longleftrightarrow> a = b"
  by (auto simp: key_clash_def)

lemma no_clash_prefix:
  assumes "\<not> key_clash E es" "e \<in> set es"
  shows "entryIdentity E e \<noteq> strippedKeyPrefix @ x"
    and "en_previous_id e \<noteq> [] \<Longrightarrow> entryIdentity E (previous_entry e) \<noteq> strippedKeyPrefix @ x"
  using assms by (auto simp: key_clash_def has_prefix_def)

lemma count_one_same:
  assumes "count_entries P es = 1" "e \<in> set es" "P e" "e' \<in> set es" "P e'"
  shows "e = e'"
proof -
  have "length (filter P es) = 1" using assms(1) by (simp add: count_entries_def)
  then obtain x where "filter P es = [x]" by (auto simp: length_Suc_conv)
  moreover have "e \<in> set (filter P es)" "e' \<in> set (filter P es)" using assms(2-5) by auto
  ultimately show ?thesis by simp
qed

lemma count_zero: "count_entries P es = 0 \<longleftrightarrow> (\<forall>e \<in> set es. \<not> P e)"
  by (simp add: count_entries_def filter_empty_conv)

lemma count_index_le_one:
  assumes "count_entries P es \<le> 1" "i < length es" "j < length es" "P (es ! i)" "P (es ! j)"
  shows "i = j"
  using assms
proof (induction es arbitrary: i j)
  case (Cons e es)
  have count: "count_entries P (e # es) = (if P e then 1 else 0) + count_entries P es"
    by (simp add: count_entries_def)
  have none: "\<not> P (es ! k)" if "P e" "k < length es" for k
    using that Cons.prems(1) count count_zero [of P es] by auto
  show ?case
  proof (cases i)
    case 0
    then show ?thesis using Cons.prems none [of "j - 1"] by (cases j) auto
  next
    case (Suc i')
    then show ?thesis
      using Cons.prems none [of i'] count Cons.IH [of i' "j - 1"] by (cases j) auto
  qed
qed simp

lemma unique_strippedD:
  assumes "unique_stripped E es e \<noteq> []"
  shows "unique_stripped E es e = strippedLinkIdentity E e"
    and "count_entries (claims_identity E (strippedLinkIdentity E e)) es = 1"
    and "strippedLinkIdentity E e \<noteq> []"
  using assms by (auto simp: unique_stripped_def split: if_splits)

lemma unique_stripped_only:
  assumes "unique_stripped E es e = u" "u \<noteq> []" "e \<in> set es" "e' \<in> set es"
    and "strippedLinkIdentity E e' = u"
  shows "e' = e"
proof (rule count_one_same)
  show "count_entries (claims_identity E (strippedLinkIdentity E e)) es = 1"
    using unique_strippedD assms by metis
  have "strippedLinkIdentity E e = u" using unique_strippedD assms by metis
  then show "claims_identity E (strippedLinkIdentity E e) e'"
    "claims_identity E (strippedLinkIdentity E e) e"
    using assms by (auto simp: claims_identity_def)
qed (use assms in auto)

lemma entry_keys_apart:
  assumes "\<not> key_clash E es" "e \<in> set es" "e' \<in> set es" "entryIdentity E e \<noteq> entryIdentity E e'"
    and "k \<in> set (entry_keys E es e)"
  shows "k \<notin> set (entry_keys E es e')"
proof
  assume k': "k \<in> set (entry_keys E es e')"
  note hash = no_clash_hash [OF assms(1)] and pre = no_clash_prefix [OF assms(1)]
  have key: "k = computeEntryKey E x \<or>
      (unique_stripped E es x \<noteq> [] \<and> k = strippedKey (strippedLinkIdentity E x))"
    if "k \<in> set (entry_keys E es x)" for x
    using that unique_strippedD(1) by (auto simp: entry_keys_def split: if_splits)
  note unfold = computeEntryKey_def strippedKey_def
  show False
    using key [OF assms(5)] key [OF k'] unfolding unfold
  proof (elim disjE conjE)
    assume "k = hashIdentity (entryIdentity E e)" "k = hashIdentity (entryIdentity E e')"
    then show False using hash hashed_textsI(1) assms(2-4) by metis
  next
    assume "k = hashIdentity (entryIdentity E e)"
      "k = hashIdentity (strippedKeyPrefix @ strippedLinkIdentity E e')"
    then show False using hash hashed_textsI(1,2) assms(2,3) pre(1) by metis
  next
    assume "k = hashIdentity (strippedKeyPrefix @ strippedLinkIdentity E e)"
      "k = hashIdentity (entryIdentity E e')"
    then show False using hash hashed_textsI(1,2) assms(2,3) pre(1) by metis
  next
    assume "unique_stripped E es e \<noteq> []"
      and "k = hashIdentity (strippedKeyPrefix @ strippedLinkIdentity E e)"
        "k = hashIdentity (strippedKeyPrefix @ strippedLinkIdentity E e')"
    then have "strippedLinkIdentity E e' = unique_stripped E es e"
      using hash hashed_textsI(2) assms(2,3) unique_strippedD(1) by (metis same_append_eq)
    then have "e' = e"
      using unique_stripped_only [OF refl] \<open>unique_stripped E es e \<noteq> []\<close> assms(2,3) by metis
    then show False using assms(4) by simp
  qed
qed

subsection \<open>Migration\<close>

lemma map_of_moveSentKey:
  "map_of (moveSentKey from to al) k =
     (case map_of al from of
        None \<Rightarrow> map_of al k
      | Some t \<Rightarrow>
          if to \<noteq> [] \<and> k = to \<and> (map_of al to = None \<or> to = from) then Some t
          else if k = from then None else map_of al k)"
  by (auto simp: moveSentKey_def Let_def split: option.splits)

lemma distinct_moveSentKey:
  "distinct (map fst al) \<Longrightarrow> distinct (map fst (moveSentKey from to al))"
  by (auto simp: moveSentKey_def Let_def split: option.splits)

lemma moveSentKey_keeps:
  "map_of al k \<noteq> None \<Longrightarrow> k \<noteq> from \<Longrightarrow> map_of (moveSentKey from to al) k \<noteq> None"
  by (auto simp: map_of_moveSentKey split: option.splits)

lemma moveSentKey_moves:
  "map_of al from \<noteq> None \<Longrightarrow> to \<noteq> [] \<Longrightarrow> map_of (moveSentKey from to al) to \<noteq> None"
  by (auto simp: map_of_moveSentKey split: option.splits)

definition sent_keys :: "feed_status \<Rightarrow> string set" where
  "sent_keys fs = {k. map_of (last_sent fs) k \<noteq> None}"

lemma sent_keys_moveSent:
  "k \<in> sent_keys fs \<Longrightarrow> k \<noteq> from \<Longrightarrow> k \<in> sent_keys (moveSent from to fs)"
  "from \<in> sent_keys fs \<Longrightarrow> to \<noteq> [] \<Longrightarrow> to \<in> sent_keys (moveSent from to fs)"
  using moveSentKey_keeps [of "last_sent fs"] moveSentKey_moves [of "last_sent fs"]
  by (simp_all add: sent_keys_def moveSent_def)

lemma rekeySent_keeps:
  assumes "k \<in> sent_keys fs" "k \<noteq> ir_previous_key (lg_ids l ! i)"
    and "k \<noteq> ir_previous_stripped_key (lg_ids l ! i)"
  shows "k \<in> sent_keys (rekeySent l i fs)"
  using assms by (simp add: rekeySent_def Let_def sent_keys_moveSent(1))

lemma rekeySent_moves:
  assumes "ir_previous_key (lg_ids l ! i) \<in> sent_keys fs" "ir_key (lg_ids l ! i) \<noteq> []"
    and "ir_key (lg_ids l ! i) \<noteq> ir_previous_stripped_key (lg_ids l ! i)"
  shows "ir_key (lg_ids l ! i) \<in> sent_keys (rekeySent l i fs)"
  using assms by (simp add: rekeySent_def Let_def sent_keys_moveSent)

lemma moveWatermark_sent [simp]: "last_sent (fst (moveWatermark l from i fs)) = last_sent fs"
  by (simp add: moveWatermark_def setWatermark_def)

lemma sent_keys_moveWatermark [simp]: "sent_keys (fst (moveWatermark l from i fs)) = sent_keys fs"
  by (simp add: sent_keys_def)

lemma rekeySent_watermark [simp]: "last_seen_entry (rekeySent l i fs) = last_seen_entry fs"
  by (simp add: rekeySent_def Let_def moveSent_def)

lemma migrate_step_watermark:
  "last_seen_entry (migrate_step l i fs) =
     (if carriesOver l i \<and> last_seen_entry fs = clampWatermark (ir_previous (lg_ids l ! i))
      then ir_mark (lg_ids l ! i) else last_seen_entry fs)"
  by (simp add: migrate_step_def moveWatermark_def setWatermark_def)

text \<open>What \<open>carriesOver\<close> says of the entry and of the others.\<close>

lemma carriesOver_iff:
  assumes "i < length es"
  shows "carriesOver (newDeliveryLedger E es) i \<longleftrightarrow>
    en_previous_id (es ! i) \<noteq> [] \<and>
    entryIdentity E (previous_entry (es ! i)) \<noteq> entryIdentity E (es ! i) \<and>
    count_entries (had_identity E (entryIdentity E (previous_entry (es ! i)))) es \<le> 1 \<and>
    (\<forall>e \<in> set es. entryIdentity E e \<noteq> entryIdentity E (previous_entry (es ! i))) \<and>
    count_entries (\<lambda>e. entryIdentity E e = entryIdentity E (es ! i)) es \<le> 1"
  using assms
  by (auto simp: carriesOver_def Let_def ledger_simps newDeliveryLedger_spec(4,5) count_zero)

text \<open>The keys of a step of the migration, and what it must not touch.\<close>

lemma step_previous_keys:
  assumes "i < length es" "carriesOver (newDeliveryLedger E es) i"
  shows "ir_previous_key (lg_ids (newDeliveryLedger E es) ! i) =
      hashIdentity (entryIdentity E (previous_entry (es ! i)))"
    and "ir_previous_stripped_key (lg_ids (newDeliveryLedger E es) ! i) \<noteq> [] \<Longrightarrow>
      ir_previous_stripped_key (lg_ids (newDeliveryLedger E es) ! i) =
        hashIdentity (strippedKeyPrefix @ strippedLinkIdentity E (previous_entry (es ! i)))"
  using assms
  by (auto simp: carriesOver_iff ledger_simps computeEntryKey_def strippedKey_def split: if_splits)

lemma migrate_step_keeps:
  assumes "\<not> key_clash E es" "i < length es" "k \<in> sent_keys fs"
    and "k = hashIdentity t" "t \<in> set (hashed_texts E es)"
    and "\<And>x. t \<noteq> strippedKeyPrefix @ x"
    and "carriesOver (newDeliveryLedger E es) i \<Longrightarrow>
      t \<noteq> entryIdentity E (previous_entry (es ! i))"
  shows "k \<in> sent_keys (migrate_step (newDeliveryLedger E es) i fs)"
proof (cases "carriesOver (newDeliveryLedger E es) i")
  case False
  then show ?thesis using assms(3) by (simp add: migrate_step_def)
next
  case True
  let ?rec = "lg_ids (newDeliveryLedger E es) ! i"
  have moved: "en_previous_id (es ! i) \<noteq> []" "es ! i \<in> set es"
    using True assms(2) by (simp_all add: carriesOver_iff)
  have "k \<noteq> ir_previous_key ?rec"
    using no_clash_hash [OF assms(1,5) hashed_textsI(3) [OF moved(2,1)]] assms(4,7) True
      step_previous_keys(1) [OF assms(2) True] by simp
  moreover have "k \<noteq> ir_previous_stripped_key ?rec"
  proof (cases "ir_previous_stripped_key ?rec = []")
    case True
    then show ?thesis using assms(4) by (simp add: hashIdentity_def)
  next
    case False
    then show ?thesis
      using no_clash_hash [OF assms(1,5) hashed_textsI(4) [OF moved(2,1)]] assms(4,6)
        step_previous_keys(2) [OF assms(2) True] by simp
  qed
  ultimately show ?thesis using assms(3) True by (simp add: migrate_step_def rekeySent_keeps)
qed

lemma migrate_steps_keep:
  assumes "\<not> key_clash E es" "set is \<subseteq> {..<length es}" "hashIdentity t \<in> sent_keys fs"
    and "t \<in> set (hashed_texts E es)" "\<And>x. t \<noteq> strippedKeyPrefix @ x"
    and "\<And>i. i \<in> set is \<Longrightarrow> carriesOver (newDeliveryLedger E es) i \<Longrightarrow>
      t \<noteq> entryIdentity E (previous_entry (es ! i))"
  shows "hashIdentity t \<in> sent_keys (fold (migrate_step (newDeliveryLedger E es)) is fs)"
  using assms(2,3,6)
proof (induction "is" arbitrary: fs)
  case (Cons i js)
  have "hashIdentity t \<in> sent_keys (migrate_step (newDeliveryLedger E es) i fs)"
    by (rule migrate_step_keeps [OF assms(1)]) (use Cons.prems assms(4,5) in auto)
  then show ?case using Cons by simp
qed simp

lemma upt_split: "i < n \<Longrightarrow> [0..<n] = [0..<i] @ i # [Suc i..<n]"
  using upt_add_eq_append [of 0 i "n - i"] by (simp add: upt_conv_Cons)

lemma migration_keeps_own:
  assumes "\<not> key_clash E es" "e \<in> set es" "computeEntryKey E e \<in> sent_keys fs"
    and "set is \<subseteq> {..<length es}"
  shows "computeEntryKey E e \<in> sent_keys (fold (migrate_step (newDeliveryLedger E es)) is fs)"
  unfolding computeEntryKey_def
proof (rule migrate_steps_keep [OF assms(1,4)])
  show "hashIdentity (entryIdentity E e) \<in> sent_keys fs" using assms(3) by (simp add: computeEntryKey_def)
  show "entryIdentity E e \<in> set (hashed_texts E es)" by (rule hashed_textsI [OF assms(2)])
  show "entryIdentity E e \<noteq> strippedKeyPrefix @ x" for x by (rule no_clash_prefix [OF assms(1,2)])
  show "entryIdentity E e \<noteq> entryIdentity E (previous_entry (es ! i))"
    if "i \<in> set is" "carriesOver (newDeliveryLedger E es) i" for i
  proof -
    have "i < length es" using that(1) assms(4) by auto
    then show ?thesis using that(2) assms(2) by (auto simp: carriesOver_iff)
  qed
qed

lemma carried_over_once:
  assumes "i < length es" "j < length es" "carriesOver (newDeliveryLedger E es) i"
    and "carriesOver (newDeliveryLedger E es) j"
    and "entryIdentity E (previous_entry (es ! j)) = entryIdentity E (previous_entry (es ! i))"
  shows "j = i"
proof (rule count_index_le_one)
  let ?P = "had_identity E (entryIdentity E (previous_entry (es ! i)))"
  show "count_entries ?P es \<le> 1" using assms(1,3) by (simp add: carriesOver_iff)
  show "?P (es ! j)" "?P (es ! i)"
    using assms by (auto simp: carriesOver_iff had_identity_def)
qed (use assms in auto)

lemma migration_moves_record:
  assumes "\<not> key_clash E es" "i < length es" "carriesOver (newDeliveryLedger E es) i"
    and "computeEntryKey E (previous_entry (es ! i)) \<in> sent_keys fs"
  shows "computeEntryKey E (es ! i) \<in> sent_keys (migratePreviousIdentities (newDeliveryLedger E es) fs)"
proof -
  let ?L = "newDeliveryLedger E es" and ?e = "es ! i" and ?rec = "lg_ids (newDeliveryLedger E es) ! i"
  let ?t = "entryIdentity E (previous_entry ?e)"
  have moved: "en_previous_id ?e \<noteq> []" and e: "?e \<in> set es"
    using assms(2,3) by (simp_all add: carriesOver_iff)
  have "hashIdentity ?t \<in> sent_keys (fold (migrate_step ?L) [0..<i] fs)"
  proof (rule migrate_steps_keep [OF assms(1)])
    show "hashIdentity ?t \<in> sent_keys fs" using assms(4) by (simp add: computeEntryKey_def)
    show "?t \<in> set (hashed_texts E es)" by (rule hashed_textsI(3) [OF e moved])
    show "?t \<noteq> strippedKeyPrefix @ x" for x by (rule no_clash_prefix(2) [OF assms(1) e moved])
    show "?t \<noteq> entryIdentity E (previous_entry (es ! j))"
      if "j \<in> set [0..<i]" "carriesOver ?L j" for j
      using carried_over_once [OF assms(2) _ assms(3) that(2)] that(1) assms(2) by force
  qed (use assms(2) in auto)
  moreover have "ir_key ?rec = computeEntryKey E ?e" "ir_key ?rec \<noteq> []"
    using assms(2) by (simp_all add: ledger_simps computeEntryKey_def hashIdentity_def)
  moreover have "ir_key ?rec \<noteq> ir_previous_stripped_key ?rec"
  proof (cases "ir_previous_stripped_key ?rec = []")
    case False
    show ?thesis
      using no_clash_hash [OF assms(1) hashed_textsI(1) [OF e] hashed_textsI(4) [OF e moved]]
        no_clash_prefix(1) [OF assms(1) e] step_previous_keys(2) [OF assms(2,3) False] assms(2)
      by (simp add: ledger_simps computeEntryKey_def)
  qed (use calculation(3) in auto)
  ultimately have "computeEntryKey E ?e \<in> sent_keys (migrate_step ?L i (fold (migrate_step ?L) [0..<i] fs))"
    using assms(3) step_previous_keys(1) [OF assms(2,3)] rekeySent_moves [of ?L i]
    by (simp add: migrate_step_def)
  then have "computeEntryKey E ?e \<in> sent_keys (fold (migrate_step ?L) [Suc i..<length es]
      (migrate_step ?L i (fold (migrate_step ?L) [0..<i] fs)))"
    by (rule migration_keeps_own [OF assms(1) e]) auto
  then show ?thesis
    by (simp add: migratePreviousIdentities_def ledger_simps upt_split [OF assms(2)])
qed

text \<open>The same for records under stripped keys, which a step takes away when the entry it migrates had
  the stripped identity earlier, unless it still has it and keeps it as its own.\<close>

abbreviation previous_stripped :: "go_env \<Rightarrow> entry list \<Rightarrow> nat \<Rightarrow> string" where
  "previous_stripped E es i \<equiv> strippedLinkIdentity E (previous_entry (es ! i))"

lemma step_stripped_key:
  assumes "i < length es" "carriesOver (newDeliveryLedger E es) i"
  shows "ir_previous_stripped_key (lg_ids (newDeliveryLedger E es) ! i) =
      (if previous_stripped E es i = [] then [] else strippedKey (previous_stripped E es i))"
    and "ir_previous_stripped (lg_ids (newDeliveryLedger E es) ! i) = previous_stripped E es i"
  using assms by (simp_all add: carriesOver_iff ledger_simps)

lemma stripped_key_apart:
  assumes "\<not> key_clash E es" "strippedKeyPrefix @ s \<in> set (hashed_texts E es)" "e \<in> set es"
  shows "strippedKey s \<noteq> computeEntryKey E e"
    and "en_previous_id e \<noteq> [] \<Longrightarrow> strippedKey s \<noteq> computeEntryKey E (previous_entry e)"
    and "strippedKey s = strippedKey (strippedLinkIdentity E e) \<longleftrightarrow> s = strippedLinkIdentity E e"
    and "en_previous_id e \<noteq> [] \<Longrightarrow>
      strippedKey s = strippedKey (strippedLinkIdentity E (previous_entry e)) \<longleftrightarrow> s = strippedLinkIdentity E (previous_entry e)"
  using no_clash_hash [OF assms(1,2)] hashed_textsI [OF assms(3)] no_clash_prefix [OF assms(1,3)]
  unfolding strippedKey_def computeEntryKey_def by (metis same_append_eq)+

lemma keys_nonempty [simp]: "strippedKey s \<noteq> []" "computeEntryKey E e \<noteq> []"
  by (simp_all add: strippedKey_def computeEntryKey_def hashIdentity_def)

lemma sent_keys_moveSent_eq:
  "sent_keys (moveSent from to fs) =
     (if from \<in> sent_keys fs then sent_keys fs - {from} \<union> {k. k = to \<and> to \<noteq> []} else sent_keys fs)"
  by (auto simp: sent_keys_def moveSent_def map_of_moveSentKey split: option.splits if_splits)

lemma sent_iff_keys:
  "sent E (newDeliveryLedger E es) fs e \<longleftrightarrow> (\<exists>k \<in> set (entry_keys E es e). k \<in> sent_keys fs)"
  by (simp add: sent_iff sent_keys_def)

lemma migrate_step_keys:
  assumes "i < length es" "carriesOver (newDeliveryLedger E es) i"
  defines "u \<equiv> unique_stripped E es (es ! i)"
  shows "sent_keys (migrate_step (newDeliveryLedger E es) i fs) =
    (let fs1 = moveSent (computeEntryKey E (previous_entry (es ! i))) (computeEntryKey E (es ! i)) fs
     in if previous_stripped E es i = [] then sent_keys fs1
        else sent_keys (moveSent (strippedKey (previous_stripped E es i))
          (if u \<noteq> [] then strippedKey u
           else if ownsPrevious (newDeliveryLedger E es) i then computeEntryKey E (es ! i) else []) fs1))"
proof -
  have "last_sent (migrate_step (newDeliveryLedger E es) i fs) = last_sent (rekeySent (newDeliveryLedger E es) i fs)"
    using assms(2) by (simp add: migrate_step_def rekeySent_def Let_def moveSent_def)
  then have "sent_keys (migrate_step (newDeliveryLedger E es) i fs) = sent_keys (rekeySent (newDeliveryLedger E es) i fs)"
    by (simp add: sent_keys_def)
  then show ?thesis
    using assms(1,2) by (simp add: rekeySent_def Let_def ledger_simps u_def carriesOver_iff)
qed

text \<open>Entry \<open>j\<close>'s migration takes a record under the stripped identity \<open>s\<close>.\<close>

definition takes_stripped :: "go_env \<Rightarrow> entry list \<Rightarrow> nat \<Rightarrow> string \<Rightarrow> bool" where
  "takes_stripped E es j s \<longleftrightarrow> j < length es \<and> carriesOver (newDeliveryLedger E es) j \<and> s \<noteq> [] \<and> previous_stripped E es j = s"

lemma migrate_step_keeps_stripped:
  assumes "\<not> key_clash E es" "j < length es" "strippedKey s \<in> sent_keys fs"
    and "strippedKeyPrefix @ s \<in> set (hashed_texts E es)" "s \<noteq> []"
    and "takes_stripped E es j s \<Longrightarrow> unique_stripped E es (es ! j) = s"
  shows "strippedKey s \<in> sent_keys (migrate_step (newDeliveryLedger E es) j fs)"
proof (cases "carriesOver (newDeliveryLedger E es) j")
  case True
  have moved: "en_previous_id (es ! j) \<noteq> []" "es ! j \<in> set es"
    using True assms(2) by (simp_all add: carriesOver_iff)
  note apart = stripped_key_apart [OF assms(1,4) moved(2)]
  show ?thesis
    using apart(2,4) [OF moved(1)] assms(2,3,5,6) True
    unfolding migrate_step_keys [OF assms(2) True] Let_def
    by (auto simp: sent_keys_moveSent_eq takes_stripped_def)
qed (use assms(3) in \<open>simp add: migrate_step_def\<close>)

lemma migrate_steps_keep_stripped:
  assumes "\<not> key_clash E es" "set is \<subseteq> {..<length es}" "strippedKey s \<in> sent_keys fs"
    and "strippedKeyPrefix @ s \<in> set (hashed_texts E es)" "s \<noteq> []"
    and "\<And>j. j \<in> set is \<Longrightarrow> takes_stripped E es j s \<Longrightarrow> unique_stripped E es (es ! j) = s"
  shows "strippedKey s \<in> sent_keys (fold (migrate_step (newDeliveryLedger E es)) is fs)"
  using assms(2,3,6)
proof (induction "is" arbitrary: fs)
  case (Cons j js)
  have "strippedKey s \<in> sent_keys (migrate_step (newDeliveryLedger E es) j fs)"
    by (rule migrate_step_keeps_stripped [OF assms(1) _ _ assms(4,5)]) (use Cons.prems in auto)
  then show ?case using Cons by simp
qed simp

text \<open>A record under the stripped identity a migrating entry had moves to one of its own keys.\<close>

lemma migration_moves_stripped:
  assumes "\<not> key_clash E es" "takes_stripped E es i s" "strippedKey s \<in> sent_keys fs"
    and "\<And>j. takes_stripped E es j s \<Longrightarrow> j = i"
    and "if unique_stripped E es (es ! i) \<noteq> []
      then \<forall>j. takes_stripped E es j (unique_stripped E es (es ! i)) \<longrightarrow> j = i
      else ownsPrevious (newDeliveryLedger E es) i"
  shows "\<exists>k \<in> set (entry_keys E es (es ! i)). k \<in> sent_keys (migratePreviousIdentities (newDeliveryLedger E es) fs)"
proof -
  let ?L = "newDeliveryLedger E es" and ?e = "es ! i" and ?u = "unique_stripped E es (es ! i)"
  let ?fs1 = "fold (migrate_step ?L) [0..<i] fs"
  have i: "i < length es" "carriesOver ?L i" "s \<noteq> []" "previous_stripped E es i = s"
    using assms(2) by (simp_all add: takes_stripped_def)
  then have e: "?e \<in> set es" "en_previous_id ?e \<noteq> []" by (simp_all add: carriesOver_iff)
  have hashed: "strippedKeyPrefix @ s \<in> set (hashed_texts E es)" using hashed_textsI(4) [OF e, of E] i(4) by simp
  have "strippedKey s \<in> sent_keys ?fs1"
    using assms(4) by (intro migrate_steps_keep_stripped [OF assms(1) _ assms(3) hashed i(3)]) (use i in force)+
  then have moved: "(if ?u \<noteq> [] then strippedKey ?u else computeEntryKey E ?e) \<in> sent_keys (migrate_step ?L i ?fs1)"
    using assms(5) i stripped_key_apart(2) [OF assms(1) hashed e] unfolding migrate_step_keys [OF i(1,2)] Let_def
    by (auto simp: sent_keys_moveSent_eq)
  have result: "migratePreviousIdentities ?L fs = fold (migrate_step ?L) [Suc i..<length es] (migrate_step ?L i ?fs1)"
    by (simp add: migratePreviousIdentities_def ledger_simps upt_split [OF i(1)])
  have rest: "set [Suc i..<length es] \<subseteq> {..<length es}" by auto
  show ?thesis
  proof (cases "?u = []")
    case True
    with migration_keeps_own [OF assms(1) e(1) _ rest] moved show ?thesis
      unfolding result by (auto simp: entry_keys_def)
  next
    case False
    have "strippedKeyPrefix @ ?u \<in> set (hashed_texts E es)"
      using hashed_textsI(2) [OF e(1)] unique_strippedD(1) [OF False] by simp
    from migrate_steps_keep_stripped [OF assms(1) rest _ this False] moved assms(5) False
    show ?thesis unfolding result by (auto simp: entry_keys_def)
  qed
qed

text \<open>What the steps add: keys of entries they migrate, whose earlier keys were there.\<close>

lemma migrate_step_adds:
  assumes "\<not> key_clash E es" "j < length es" "k \<in> sent_keys (migrate_step (newDeliveryLedger E es) j fs)" "k \<notin> sent_keys fs"
  shows "carriesOver (newDeliveryLedger E es) j \<and> k \<in> set (entry_keys E es (es ! j)) \<and>
    (computeEntryKey E (previous_entry (es ! j)) \<in> sent_keys fs \<or>
     previous_stripped E es j \<noteq> [] \<and> strippedKey (previous_stripped E es j) \<in> sent_keys fs)"
proof -
  have c: "carriesOver (newDeliveryLedger E es) j" using assms(3,4) by (auto simp: migrate_step_def split: if_splits)
  then have e: "es ! j \<in> set es" "en_previous_id (es ! j) \<noteq> []" using assms(2) by (simp_all add: carriesOver_iff)
  have "strippedKey (previous_stripped E es j) \<noteq> computeEntryKey E (es ! j)"
    by (rule stripped_key_apart(1) [OF assms(1) hashed_textsI(4) [OF e] e(1)])
  then show ?thesis
    using c assms(3,4) unfolding migrate_step_keys [OF assms(2) c] Let_def
    by (auto simp: sent_keys_moveSent_eq entry_keys_def split: if_splits)
qed

lemma migrate_steps_add:
  assumes "\<not> key_clash E es" "n \<le> length es" "k \<in> sent_keys (fold (migrate_step (newDeliveryLedger E es)) [0..<n] fs)"
    and "k \<notin> sent_keys fs"
  shows "\<exists>j < n. let fs1 = fold (migrate_step (newDeliveryLedger E es)) [0..<j] fs in
    carriesOver (newDeliveryLedger E es) j \<and> k \<in> set (entry_keys E es (es ! j)) \<and>
    (computeEntryKey E (previous_entry (es ! j)) \<in> sent_keys fs1 \<or>
     previous_stripped E es j \<noteq> [] \<and> strippedKey (previous_stripped E es j) \<in> sent_keys fs1)"
  using assms(2,3)
proof (induction n)
  case (Suc n)
  show ?case
  proof (cases "k \<in> sent_keys (fold (migrate_step (newDeliveryLedger E es)) [0..<n] fs)")
    case True
    then show ?thesis using Suc.IH [OF Suc_leD [OF Suc.prems(1)]] less_SucI by blast
  next
    case False
    then show ?thesis using migrate_step_adds [OF assms(1), of n k] Suc.prems by (auto simp: Let_def)
  qed
qed (use assms(4) in simp)

lemma migration_adds:
  assumes "\<not> key_clash E es" "i < length es" "k \<in> set (entry_keys E es (es ! i))"
    and "k \<in> sent_keys (migratePreviousIdentities (newDeliveryLedger E es) fs)" "k \<notin> sent_keys fs"
  shows "carriesOver (newDeliveryLedger E es) i \<and>
    (computeEntryKey E (previous_entry (es ! i)) \<in> sent_keys fs \<or>
     previous_stripped E es i \<noteq> [] \<and>
       (strippedKey (previous_stripped E es i) \<in> sent_keys fs \<or>
        (\<exists>j < length es. j \<noteq> i \<and> unique_stripped E es (es ! j) = previous_stripped E es i)))"
proof -
  let ?L = "newDeliveryLedger E es"
  obtain j where j: "j < length es" "carriesOver ?L j" "k \<in> set (entry_keys E es (es ! j))"
    and src: "computeEntryKey E (previous_entry (es ! j)) \<in> sent_keys (fold (migrate_step ?L) [0..<j] fs) \<or>
      previous_stripped E es j \<noteq> [] \<and> strippedKey (previous_stripped E es j) \<in> sent_keys (fold (migrate_step ?L) [0..<j] fs)"
    using migrate_steps_add [OF assms(1) order_refl, of k fs] assms(4,5)
    by (auto simp: migratePreviousIdentities_def ledger_simps Let_def)
  have "entryIdentity E (es ! i) = entryIdentity E (es ! j)"
    using entry_keys_apart [OF assms(1) nth_mem [OF assms(2)] nth_mem [OF j(1)] _ assms(3)] j(3) by blast
  then have ji: "j = i" using count_index_le_one [of "\<lambda>e. entryIdentity E e = entryIdentity E (es ! j)" es j i] j(1,2) assms(2)
    by (simp add: carriesOver_iff)
  note c = j(2) [unfolded ji]
  have e: "es ! i \<in> set es" "en_previous_id (es ! i) \<noteq> []" using assms(2) c by (simp_all add: carriesOver_iff)
  have added: "\<exists>j < i. x \<in> set (entry_keys E es (es ! j))"
    if "x \<in> sent_keys (fold (migrate_step ?L) [0..<i] fs)" "x \<notin> sent_keys fs" for x
    using migrate_steps_add [OF assms(1) less_imp_le [OF assms(2)] that] by (auto simp: Let_def)
  from src [unfolded ji] show ?thesis
  proof (elim disjE conjE)
    assume at: "computeEntryKey E (previous_entry (es ! i)) \<in> sent_keys (fold (migrate_step ?L) [0..<i] fs)"
    have "computeEntryKey E (previous_entry (es ! i)) \<notin> set (entry_keys E es (es ! j))" if "j < i" for j
    proof -
      have m: "es ! j \<in> set es" using that assms(2) by simp
      have "entryIdentity E (es ! j) \<noteq> entryIdentity E (previous_entry (es ! i))"
        using c m assms(2) by (simp add: carriesOver_iff)
      then have "computeEntryKey E (es ! j) \<noteq> computeEntryKey E (previous_entry (es ! i))"
        using no_clash_hash [OF assms(1) hashed_textsI(1) [OF m] hashed_textsI(3) [OF e]] by (simp add: computeEntryKey_def)
      then show ?thesis
        using stripped_key_apart(2) [OF assms(1) hashed_textsI(2) [OF m] e] unique_strippedD(1) [of E es "es ! j"]
        by (cases "unique_stripped E es (es ! j) = []") (simp_all add: entry_keys_def)
    qed
    then show ?thesis using added [OF at] c by blast
  next
    assume at: "previous_stripped E es i \<noteq> []" "strippedKey (previous_stripped E es i) \<in> sent_keys (fold (migrate_step ?L) [0..<i] fs)"
    have "unique_stripped E es (es ! j) = previous_stripped E es i"
      if "j < i" "strippedKey (previous_stripped E es i) \<in> set (entry_keys E es (es ! j))" for j
      using that stripped_key_apart(1,3) [OF assms(1) hashed_textsI(4) [OF e], of "es ! j"] unique_strippedD(1) [of E es "es ! j"] assms(2)
      by (auto simp: entry_keys_def split: if_splits)
    then show ?thesis using added [OF at(2)] at(1) c assms(2) by (metis less_trans nat_neq_iff)
  qed
qed

text \<open>Watermarks are compared clamped; \<open>mark_clash\<close> says that clamping confuses two identities.\<close>

definition mark_texts :: "go_env \<Rightarrow> entry list \<Rightarrow> string list" where
  "mark_texts E es =
     concat (map (\<lambda>e. [entryIdentity E e, entryIdentity E (previous_entry e)]) es)"

definition mark_clash :: "go_env \<Rightarrow> entry list \<Rightarrow> bool" where
  "mark_clash E es \<longleftrightarrow>
     (\<exists>a \<in> set (mark_texts E es). \<exists>b \<in> set (mark_texts E es).
        a \<noteq> b \<and> clampWatermark a = clampWatermark b)"

lemma no_mark_clash:
  "\<not> mark_clash E es \<Longrightarrow> a \<in> set (mark_texts E es) \<Longrightarrow> b \<in> set (mark_texts E es) \<Longrightarrow>
     clampWatermark a = clampWatermark b \<longleftrightarrow> a = b"
  by (auto simp: mark_clash_def)

lemma mark_textsI:
  "e \<in> set es \<Longrightarrow> entryIdentity E e \<in> set (mark_texts E es)"
  "e \<in> set es \<Longrightarrow> entryIdentity E (previous_entry e) \<in> set (mark_texts E es)"
  by (force simp: mark_texts_def)+

lemma migrate_watermark_stays:
  assumes "set is \<subseteq> {..<length es}"
    and "\<And>i. i \<in> set is \<Longrightarrow> carriesOver (newDeliveryLedger E es) i \<Longrightarrow>
      last_seen_entry fs \<noteq> clampWatermark (entryIdentity E (previous_entry (es ! i)))"
  shows "last_seen_entry (fold (migrate_step (newDeliveryLedger E es)) is fs) = last_seen_entry fs"
  using assms
proof (induction "is" arbitrary: fs)
  case (Cons i js)
  have "i < length es" using Cons.prems(1) by simp
  then have "last_seen_entry (migrate_step (newDeliveryLedger E es) i fs) = last_seen_entry fs"
    using Cons.prems(2) [of i] by (auto simp: migrate_step_watermark ledger_simps carriesOver_iff)
  then show ?case using Cons by simp
qed simp

lemma migration_moves_mark:
  assumes "\<not> mark_clash E es" "i < length es" "carriesOver (newDeliveryLedger E es) i"
    and "last_seen_entry fs = clampWatermark (entryIdentity E (previous_entry (es ! i)))"
  shows "last_seen_entry (migratePreviousIdentities (newDeliveryLedger E es) fs) =
    clampWatermark (entryIdentity E (es ! i))"
proof -
  let ?L = "newDeliveryLedger E es" and ?step = "migrate_step (newDeliveryLedger E es)"
  note same = no_mark_clash [OF assms(1)] and texts = mark_textsI [OF nth_mem]
  have "last_seen_entry (fold ?step [0..<i] fs) = last_seen_entry fs"
  proof (rule migrate_watermark_stays)
    fix j assume j: "j \<in> set [0..<i]" "carriesOver ?L j"
    then have "j < length es" "j \<noteq> i" using assms(2) by auto
    then show "last_seen_entry fs \<noteq> clampWatermark (entryIdentity E (previous_entry (es ! j)))"
      using assms(2-4) j(2) same [OF texts(2) texts(2)] carried_over_once by metis
  qed (use assms(2) in auto)
  then have *: "last_seen_entry (?step i (fold ?step [0..<i] fs)) = clampWatermark (entryIdentity E (es ! i))"
    using assms by (simp add: migrate_step_watermark ledger_simps carriesOver_iff)
  have "last_seen_entry (fold ?step [Suc i..<length es] (?step i (fold ?step [0..<i] fs))) =
      last_seen_entry (?step i (fold ?step [0..<i] fs))"
  proof (rule migrate_watermark_stays)
    fix j assume j: "j \<in> set [Suc i..<length es]" "carriesOver ?L j"
    then have "j < length es" by simp
    then have "entryIdentity E (es ! i) \<noteq> entryIdentity E (previous_entry (es ! j))"
      using j(2) assms(2) by (auto simp: carriesOver_iff)
    then show "last_seen_entry (?step i (fold ?step [0..<i] fs)) \<noteq>
        clampWatermark (entryIdentity E (previous_entry (es ! j)))"
      using same [OF texts(1) texts(2)] \<open>j < length es\<close> assms(2) by (simp add: *)
  qed auto
  then show ?thesis
    by (simp add: migratePreviousIdentities_def ledger_simps upt_split [OF assms(2)] *)
qed

lemma moveSent_frame [status_frame]:
  "conditions (moveSent a b fs) = conditions fs"
  "fs_url (moveSent a b fs) = fs_url fs"
  "last_checked (moveSent a b fs) = last_checked fs"
  "initialized (moveSent a b fs) = initialized fs"
  "state_version (moveSent a b fs) = state_version fs"
  "last_error (moveSent a b fs) = last_error fs"
  "etag (moveSent a b fs) = etag fs"
  "last_modified (moveSent a b fs) = last_modified fs"
  "retry_count (moveSent a b fs) = retry_count fs"
  "backoff_until (moveSent a b fs) = backoff_until fs"
  by (simp_all add: moveSent_def)

lemma migrate_step_frame [status_frame]:
  "conditions (migrate_step l i fs) = conditions fs"
  "fs_url (migrate_step l i fs) = fs_url fs"
  "last_checked (migrate_step l i fs) = last_checked fs"
  "initialized (migrate_step l i fs) = initialized fs"
  "state_version (migrate_step l i fs) = state_version fs"
  "last_error (migrate_step l i fs) = last_error fs"
  "etag (migrate_step l i fs) = etag fs"
  "last_modified (migrate_step l i fs) = last_modified fs"
  "retry_count (migrate_step l i fs) = retry_count fs"
  "backoff_until (migrate_step l i fs) = backoff_until fs"
  by (simp_all add: migrate_step_def rekeySent_def Let_def status_frame moveWatermark_def
      setWatermark_def)

lemma fold_frame: "(\<And>x s. f (g x s) = f s) \<Longrightarrow> f (fold g xs s) = f s"
  by (induction xs arbitrary: s) simp_all

lemma migrate_frame [status_frame]:
  "conditions (migratePreviousIdentities l fs) = conditions fs"
  "fs_url (migratePreviousIdentities l fs) = fs_url fs"
  "last_checked (migratePreviousIdentities l fs) = last_checked fs"
  "initialized (migratePreviousIdentities l fs) = initialized fs"
  "state_version (migratePreviousIdentities l fs) = state_version fs"
  "last_error (migratePreviousIdentities l fs) = last_error fs"
  "etag (migratePreviousIdentities l fs) = etag fs"
  "last_modified (migratePreviousIdentities l fs) = last_modified fs"
  "retry_count (migratePreviousIdentities l fs) = retry_count fs"
  "backoff_until (migratePreviousIdentities l fs) = backoff_until fs"
  by (simp_all add: migratePreviousIdentities_def fold_frame status_frame)

lemma distinct_markHandled:
  assumes "distinct (map fst (last_sent fs))"
  shows "distinct (map fst (last_sent (markHandled E l e now fs)))"
proof -
  have "distinct (map fst (last_sent (fold (\<lambda>k. recordKey k now) ks fs)))" for ks
    using assms
  proof (induction ks arbitrary: fs)
    case (Cons k ks)
    have "distinct (map fst (last_sent (recordKey k now fs)))"
      using distinct_keys_update [OF Cons.prems] by (simp add: recordKey_def)
    from Cons.IH [OF this] show ?case by simp
  qed simp
  then show ?thesis by (simp add: markHandled_def Let_def)
qed

lemma distinct_migrate:
  assumes "distinct (map fst (last_sent fs))"
  shows "distinct (map fst (last_sent (migratePreviousIdentities l fs)))"
proof -
  have "distinct (map fst (last_sent (migrate_step l i fs)))"
    if "distinct (map fst (last_sent fs))" for i and fs :: feed_status
    using that by (simp add: migrate_step_def rekeySent_def Let_def moveSent_def distinct_moveSentKey)
  then have "distinct (map fst (last_sent (fold (migrate_step l) is fs)))" for "is"
    using assms by (induction "is" arbitrary: fs) auto
  then show ?thesis by (simp add: migratePreviousIdentities_def)
qed

subsection \<open>Properties\<close>

text \<open>Recording one entry as handled never makes a different entry of the fetch look sent,
  unless two of the texts the ledger hashes clash: an entry is only ever skipped because
  it, and not a sibling sharing its link up to a fragment, was delivered.\<close>

theorem handled_marks_only_itself:
  assumes "e \<in> set es" "e' \<in> set es" "entryIdentity E e' \<noteq> entryIdentity E e"
    and "sent E (newDeliveryLedger E es) (markHandled E (newDeliveryLedger E es) e now fs) e'"
  shows "sent E (newDeliveryLedger E es) fs e' \<or> key_clash E es"
proof (rule disjCI)
  assume "\<not> key_clash E es"
  then have "k \<notin> set (entry_keys E es e)" if "k \<in> set (entry_keys E es e')" for k
    using entry_keys_apart [OF _ assms(2,1)] assms(3) that by metis
  then show "sent E (newDeliveryLedger E es) fs e'"
    using assms(4) by (auto simp: sent_iff markHandled_sent_map split: if_splits)
qed

lemma handled_marks_only_itself_witness:
  "let a = example_entry; b = example_entry\<lparr>en_id := ''post-2''\<rparr>; L = newDeliveryLedger plain_env [a, b];
       fs = markHandled plain_env L b ''2024'' (new_feed_status ''u'')
   in sent plain_env L fs b \<or> key_clash plain_env [a, b]"
proof -
  let ?a = "example_entry" and ?b = "example_entry\<lparr>en_id := ''post-2''\<rparr>"
  have "entryIdentity plain_env ?a = ''post-1''" "entryIdentity plain_env ?b = ''post-2''"
    by (simp_all add: example_entry_def entryIdentity_def normalizeIdentity_def
        normalizeURLIdentity_def lower_ascii_def schemeHTTP_def)
  moreover have "sent plain_env (newDeliveryLedger plain_env [?a, ?b])
      (markHandled plain_env (newDeliveryLedger plain_env [?a, ?b]) ?a ''2024''
        (markHandled plain_env (newDeliveryLedger plain_env [?a, ?b]) ?b ''2024'' (new_feed_status ''u''))) ?b"
    by (intro ledger_store.mark_keeps ledger_store.mark_sent)
  ultimately show ?thesis
    using handled_marks_only_itself [of ?a "[?a, ?b]" ?b plain_env "''2024''"
        "markHandled plain_env (newDeliveryLedger plain_env [?a, ?b]) ?b ''2024'' (new_feed_status ''u'')"]
    by (simp add: Let_def)
qed

text \<open>C12: A handled entry is still found in a later fetch, whatever else that fetch contains: when
  it comes back under the same identity, and also when only the fragment or ref of its
  link rotated, as long as its stripped identity is unique in both fetches.\<close>

theorem handled_found_in_later_fetch:
  assumes "entryIdentity E e' = entryIdentity E e \<or>
    unique_stripped E es e \<noteq> [] \<and> unique_stripped E es' e' = unique_stripped E es e"
  shows "sent E (newDeliveryLedger E es') (markHandled E (newDeliveryLedger E es) e now fs) e'"
  using assms
proof
  assume "entryIdentity E e' = entryIdentity E e"
  then show ?thesis
    by (simp add: sent_iff markHandled_sent_map entry_keys_def computeEntryKey_def)
next
  assume "unique_stripped E es e \<noteq> [] \<and> unique_stripped E es' e' = unique_stripped E es e"
  then show ?thesis by (auto simp: sent_iff markHandled_sent_map entry_keys_def)
qed

lemma handled_found_in_later_fetch_witness:
  "let link = example_entry\<lparr>en_source := IDFromLink, en_id := ''https://go.dev/x#one''\<rparr>;
       link' = link\<lparr>en_id := ''https://go.dev/x#two''\<rparr>
   in sent plain_env (newDeliveryLedger plain_env [link'])
        (markHandled plain_env (newDeliveryLedger plain_env [link]) link ''2024'' (new_feed_status ''u'')) link'"
proof -
  let ?e = "example_entry\<lparr>en_source := IDFromLink, en_id := ''https://go.dev/x#one''\<rparr>"
  let ?e' = "?e\<lparr>en_id := ''https://go.dev/x#two''\<rparr>"
  have "unique_stripped plain_env [?e] ?e = ''https://go.dev/x''"
    "unique_stripped plain_env [?e'] ?e' = ''https://go.dev/x''" by code_simp+
  then show ?thesis
    using handled_found_in_later_fetch [of plain_env ?e' ?e "[?e]" "[?e']" "''2024''" "new_feed_status ''u''"]
    by (simp add: Let_def)
qed

text \<open>After an entry is handled, the next lookup of the watermark in a fetch that still has
  the entry finds it, at the first entry with its watermark form, so the next scan
  resumes just behind it.\<close>

theorem watermark_resumes_after_handled:
  assumes "e \<in> set es"
  shows "\<exists>i < length es.
    resume E (newDeliveryLedger E es) (markHandled E (newDeliveryLedger E es') e now fs) =
      \<lparr>wl_state = watermarkFound, wl_index = int i\<rparr> \<and>
    clampWatermark (entryIdentity E (es ! i)) = clampWatermark (entryIdentity E e) \<and>
    (\<forall>j < i. clampWatermark (entryIdentity E (es ! j)) \<noteq> clampWatermark (entryIdentity E e))"
  by (rule resume_at_mark [OF assms]) (simp add: markHandled_eq)

lemma watermark_resumes_after_handled_witness:
  "\<exists>i < 1. resume plain_env (newDeliveryLedger plain_env [example_entry])
     (markHandled plain_env (newDeliveryLedger plain_env []) example_entry ''2024'' (new_feed_status ''u'')) =
     \<lparr>wl_state = watermarkFound, wl_index = int i\<rparr>"
  using watermark_resumes_after_handled [of example_entry "[example_entry]" plain_env "[]" "''2024''"
      "new_feed_status ''u''"] by auto

text \<open>Pruning caps LastSent at the limit and drops the oldest records only: every dropped
  record is older, by send time and then key, than every record kept.\<close>

theorem prune_keeps_newest:
  assumes "distinct (map fst al)"
  shows "set (pruneLastSent al limit) \<subseteq> set al \<and>
    length (pruneLastSent al limit) = min limit (length al) \<and>
    (\<forall>(k, t) \<in> set al - set (pruneLastSent al limit). \<forall>(k', t') \<in> set (pruneLastSent al limit).
       (t, k) < (t', k'))"
  using pruned_spec [OF assms] by blast

lemma prune_keeps_newest_witness:
  "pruneLastSent [(''a'', ''2024''), (''b'', ''2023''), (''c'', ''2024'')] 2 = [(''a'', ''2024''), (''c'', ''2024'')] \<and>
   length (pruneLastSent [(''a'', ''2024''), (''b'', ''2023''), (''c'', ''2024'')] 2) = 2"
  using prune_keeps_newest [of "[(''a'', ''2024''), (''b'', ''2023''), (''c'', ''2024'')]" 2] by code_simp

text \<open>C13: Which entries are sent after the identity migration, unless hashed texts clash.  An entry is
  if there was a record of it under its own key; one under its unique stripped identity,
  unless another entry takes it, whose identity moved from one with that stripped form
  (\<open>takes_stripped\<close>); when its new identity takes over the earlier one, a record
  under the earlier key; and then also one under the earlier identity's stripped form, if no other
  entry takes that one nor, when the entry has a unique stripped identity now, this one, and
  with no unique stripped identity if \<open>ownsPrevious\<close> holds.  Conversely an entry that is sent
  after the migration was sent before, or its new identity took over the earlier one and that was
  recorded, in full or stripped, or the earlier stripped form is the unique stripped identity of
  another entry.  \<open>migration_takes_record\<close> below shows that the exception is real.\<close>

theorem migration_keeps_sent:
  assumes "i < length es" "\<not> key_clash E es"
  shows "let L = newDeliveryLedger E es; fs' = migratePreviousIdentities L fs; e = es ! i;
      u = unique_stripped E es e; s = strippedLinkIdentity E (previous_entry e);
      only = (\<lambda>x. \<forall>j. takes_stripped E es j x \<longrightarrow> j = i);
      recorded = (\<lambda>k. map_of (last_sent fs) k \<noteq> None)
    in (recorded (computeEntryKey E e) \<or>
        u \<noteq> [] \<and> recorded (strippedKey u) \<and> only u \<or>
        carriesOver L i \<and> recorded (computeEntryKey E (previous_entry e)) \<or>
        carriesOver L i \<and> s \<noteq> [] \<and> recorded (strippedKey s) \<and> only s \<and>
          (if u \<noteq> [] then only u else ownsPrevious L i) \<longrightarrow>
        sent E L fs' e) \<and>
       (sent E L fs' e \<longrightarrow> sent E L fs e \<or> carriesOver L i \<and>
         (recorded (computeEntryKey E (previous_entry e)) \<or>
          s \<noteq> [] \<and> (recorded (strippedKey s) \<or>
            (\<exists>j < length es. j \<noteq> i \<and> unique_stripped E es (es ! j) = s))))"
proof -
  let ?L = "newDeliveryLedger E es" and ?e = "es ! i" and ?u = "unique_stripped E es (es ! i)"
    and ?s = "previous_stripped E es i" and ?ks = "entry_keys E es (es ! i)"
  let ?fs' = "migratePreviousIdentities ?L fs"
  let ?only = "\<lambda>x. \<forall>j. takes_stripped E es j x \<longrightarrow> j = i"
  note e = nth_mem [OF assms(1)]
  have all: "set [0..<length es] \<subseteq> {..<length es}" by auto
  have "\<exists>k \<in> set ?ks. k \<in> sent_keys ?fs'" if "computeEntryKey E ?e \<in> sent_keys fs"
    using migration_keeps_own [OF assms(2) e that all]
    by (simp add: migratePreviousIdentities_def ledger_simps entry_keys_def)
  moreover have "\<exists>k \<in> set ?ks. k \<in> sent_keys ?fs'" if "?u \<noteq> []" "strippedKey ?u \<in> sent_keys fs" "?only ?u"
  proof -
    have "strippedKeyPrefix @ ?u \<in> set (hashed_texts E es)"
      using hashed_textsI(2) [OF e] unique_strippedD(1) [OF that(1)] by simp
    from migrate_steps_keep_stripped [OF assms(2) all that(2) this that(1)] that(1,3) show ?thesis
      by (auto simp: migratePreviousIdentities_def ledger_simps entry_keys_def)
  qed
  moreover have "\<exists>k \<in> set ?ks. k \<in> sent_keys ?fs'"
    if "carriesOver ?L i" "computeEntryKey E (previous_entry ?e) \<in> sent_keys fs"
    using migration_moves_record [OF assms(2,1) that] by (auto simp: entry_keys_def)
  moreover have "\<exists>k \<in> set ?ks. k \<in> sent_keys ?fs'"
    if "carriesOver ?L i" "?s \<noteq> []" "strippedKey ?s \<in> sent_keys fs" "?only ?s"
      "if ?u \<noteq> [] then ?only ?u else ownsPrevious ?L i"
  proof (rule migration_moves_stripped [OF assms(2) _ that(3) _ that(5)])
    show "takes_stripped E es i ?s" using that(1,2) assms(1) by (simp add: takes_stripped_def)
  qed (use that(4) in blast)
  moreover have "sent E ?L fs ?e \<or> carriesOver ?L i \<and>
      (computeEntryKey E (previous_entry ?e) \<in> sent_keys fs \<or>
       ?s \<noteq> [] \<and> (strippedKey ?s \<in> sent_keys fs \<or> (\<exists>j < length es. j \<noteq> i \<and> unique_stripped E es (es ! j) = ?s)))"
    if "sent E ?L ?fs' ?e"
    using that migration_adds [OF assms(2,1), of _ fs] unfolding sent_iff_keys by blast
  ultimately show ?thesis unfolding Let_def sent_iff_keys sent_keys_def mem_Collect_eq by blast
qed

lemma migration_keeps_sent_witness:
  "let e = example_entry\<lparr>en_previous_id := ''old-1''\<rparr>; L = newDeliveryLedger plain_env [e];
       fs = recordKey (computeEntryKey plain_env (previous_entry e)) ''2024'' (new_feed_status ''u'')
   in sent plain_env L (migratePreviousIdentities L fs) e \<or> key_clash plain_env [e]"
proof -
  let ?e = "example_entry\<lparr>en_previous_id := ''old-1''\<rparr>"
  let ?fs = "recordKey (computeEntryKey plain_env (previous_entry ?e)) ''2024'' (new_feed_status ''u'')"
  have "entryIdentity plain_env ?e = ''post-1''" "entryIdentity plain_env (previous_entry ?e) = ''old-1''"
    by (simp_all add: example_entry_def previous_entry_def entryIdentity_def normalizeIdentity_def
        normalizeURLIdentity_def lower_ascii_def schemeHTTP_def)
  then have "carriesOver (newDeliveryLedger plain_env [?e]) 0"
    by (subst carriesOver_iff) (auto simp: count_entries_def had_identity_def)
  moreover have "map_of (last_sent ?fs) (computeEntryKey plain_env (previous_entry ?e)) \<noteq> None" by simp
  ultimately show ?thesis
    using migration_keeps_sent [of 0 "[?e]" plain_env ?fs] by (auto simp: Let_def)
qed

text \<open>The exception is real: when one entry's earlier link and another entry's link differ in their fragment
  only, the record under the stripped link moves to the first, whichever of the two it was made for.
  Here the second entry, whose fragment has rotated, counts as sent before the migration and the
  first does not; afterwards it is the other way round.\<close>

definition migrating_entry :: entry where
  "migrating_entry = example_entry\<lparr>en_id := ''https://go.dev/q'', en_source := IDFromLink,
     en_previous_id := ''https://go.dev/p#a'', en_previous_source := IDFromLink\<rparr>"

definition rotated_entry :: entry where
  "rotated_entry = example_entry\<lparr>en_id := ''https://go.dev/p#b'', en_source := IDFromLink\<rparr>"

lemma migrating_identities:
  "entryIdentity plain_env migrating_entry = ''https://go.dev/q''"
  "strippedLinkIdentity plain_env migrating_entry = ''https://go.dev/q''"
  "entryIdentity plain_env (previous_entry migrating_entry) = ''https://go.dev/p#a''"
  "strippedLinkIdentity plain_env (previous_entry migrating_entry) = ''https://go.dev/p''"
  "entryIdentity plain_env rotated_entry = ''https://go.dev/p#b''"
  "strippedLinkIdentity plain_env rotated_entry = ''https://go.dev/p''"
  "en_previous_id migrating_entry \<noteq> []" "en_previous_id rotated_entry = []"
  by code_simp+

lemma migration_takes_record:
  "let es = [migrating_entry, rotated_entry]; L = newDeliveryLedger plain_env es;
       fs = recordKey (strippedKey ''https://go.dev/p'') ''2024'' (new_feed_status ''u'');
       fs' = migratePreviousIdentities L fs
   in \<not> sent plain_env L fs migrating_entry \<and> sent plain_env L fs rotated_entry \<and>
      sent plain_env L fs' migrating_entry \<and> \<not> sent plain_env L fs' rotated_entry \<or> key_clash plain_env es"
proof -
  let ?es = "[migrating_entry, rotated_entry]" and ?fs = "recordKey (strippedKey ''https://go.dev/p'') ''2024'' (new_feed_status ''u'')"
  let ?L = "newDeliveryLedger plain_env ?es"
  note ids = migrating_identities
  have unique: "unique_stripped plain_env ?es migrating_entry = ''https://go.dev/q''"
    "unique_stripped plain_env ?es rotated_entry = ''https://go.dev/p''"
    by (simp_all add: unique_stripped_def count_entries_def claims_identity_def ids)
  have c: "carriesOver ?L 0"
    using carriesOver_iff [of 0 ?es plain_env] by (simp add: ids count_entries_def had_identity_def)
  have n: "\<not> carriesOver ?L (Suc 0)" using carriesOver_iff [of "Suc 0" ?es plain_env] by (simp add: ids)
  have fs: "sent_keys ?fs = {strippedKey ''https://go.dev/p''}"
    by (auto simp: sent_keys_def new_feed_status_def)
  have ?thesis if ok: "\<not> key_clash plain_env ?es"
  proof -
    have a: "computeEntryKey plain_env migrating_entry \<noteq> strippedKey ''https://go.dev/p''"
      "computeEntryKey plain_env rotated_entry \<noteq> strippedKey ''https://go.dev/p''"
      "strippedKey ''https://go.dev/q'' \<noteq> strippedKey ''https://go.dev/p''"
      "computeEntryKey plain_env (previous_entry migrating_entry) \<noteq> strippedKey ''https://go.dev/p''"
      "computeEntryKey plain_env rotated_entry \<noteq> strippedKey ''https://go.dev/q''"
      using stripped_key_apart [OF ok, of "''https://go.dev/p''"] stripped_key_apart [OF ok, of "''https://go.dev/q''"]
        hashed_textsI(2) [of _ ?es plain_env] ids by fastforce+
    have "sent_keys (migratePreviousIdentities ?L ?fs) = sent_keys (migrate_step ?L 0 ?fs)"
      using n by (simp add: migratePreviousIdentities_def ledger_simps migrate_step_def)
    also have "\<dots> = {strippedKey ''https://go.dev/q''}"
      using migrate_step_keys [OF _ c] a by (simp add: Let_def ids unique sent_keys_moveSent_eq fs)
    finally show ?thesis
      using a by (simp add: sent_iff_keys entry_keys_def unique Let_def fs)
  qed
  then show ?thesis by (auto simp: Let_def)
qed

text \<open>The migration carries the watermark along: when the stored watermark is the earlier
  identity of an entry whose new identity takes it over, the lookup after the migration
  finds exactly that entry.\<close>

theorem migration_moves_watermark:
  assumes "\<not> mark_clash E es" "i < length es" "carriesOver (newDeliveryLedger E es) i"
    and "last_seen_entry fs = clampWatermark (entryIdentity E (previous_entry (es ! i)))"
  shows "resume E (newDeliveryLedger E es) (migratePreviousIdentities (newDeliveryLedger E es) fs) =
    \<lparr>wl_state = watermarkFound, wl_index = int i\<rparr>"
proof -
  let ?id = "entryIdentity E (es ! i)"
  obtain j where j: "j < length es"
    "resume E (newDeliveryLedger E es) (migratePreviousIdentities (newDeliveryLedger E es) fs) =
      \<lparr>wl_state = watermarkFound, wl_index = int j\<rparr>"
    "clampWatermark (entryIdentity E (es ! j)) = clampWatermark ?id"
    using resume_at_mark [OF nth_mem [OF assms(2)] migration_moves_mark [OF assms]] by blast
  have "entryIdentity E (es ! j) = ?id"
    using no_mark_clash [OF assms(1) mark_textsI(1) mark_textsI(1)] j(1,3) assms(2) nth_mem by metis
  moreover have "count_entries (\<lambda>e. entryIdentity E e = ?id) es \<le> 1"
    using assms(2,3) by (simp add: carriesOver_iff)
  ultimately have "j = i" using count_index_le_one j(1) assms(2) by blast
  then show ?thesis using j(2) by simp
qed

lemma migration_moves_watermark_witness:
  "let e = example_entry\<lparr>en_previous_id := ''old-1''\<rparr>; L = newDeliveryLedger plain_env [e];
       fs = (new_feed_status ''u'')\<lparr>last_seen_entry := ''old-1''\<rparr>
   in resume plain_env L (migratePreviousIdentities L fs) = \<lparr>wl_state = watermarkFound, wl_index = 0\<rparr>"
proof -
  let ?e = "example_entry\<lparr>en_previous_id := ''old-1''\<rparr>"
  have ids: "entryIdentity plain_env ?e = ''post-1''" "entryIdentity plain_env (previous_entry ?e) = ''old-1''"
    by (simp_all add: example_entry_def previous_entry_def entryIdentity_def normalizeIdentity_def
        normalizeURLIdentity_def lower_ascii_def schemeHTTP_def)
  then have "carriesOver (newDeliveryLedger plain_env [?e]) 0"
    by (subst carriesOver_iff) (auto simp: count_entries_def had_identity_def)
  moreover have "\<not> mark_clash plain_env [?e]"
    by (simp add: mark_clash_def mark_texts_def ids clampWatermark_def maxStatusTextBytes_def)
  ultimately show ?thesis
    using migration_moves_watermark [of plain_env "[?e]" 0 "(new_feed_status ''u'')\<lparr>last_seen_entry := ''old-1''\<rparr>"]
    by (simp add: Let_def ids clampWatermark_def maxStatusTextBytes_def)
qed

end
