(* ===== verification/Attempt.thy ===== *)
theory Attempt
  imports Schedule Go_Url
begin

text \<open>
  Recording what happened in one step of processing a feed
  (\<^verbatim>\<open>internal/controller/attempt.go\<close>): the metric, the condition, LastError, the retry run,
  the Warning Events and the verdict, per kind of outcome.

  What a step does outside the status is a list of \<open>effect\<close>s, in order; the status, the
  list and the number of clock readings taken so far are the state.  An outcome carries
  the error \<open>record\<close> is passed with it, so that the kinds that have none cannot lack one.
\<close>

subsection \<open>Outcomes and verdicts\<close>

datatype attempt_outcome =
    attemptFetchSucceeded
  | attemptFetchFailed go_error
  | attemptRenderFailed go_error
  | attemptSendFailed go_error
  | attemptRateLimited go_error
  | attemptSent
  | attemptEntrySkipped string go_error
  | attemptBacklogSkipped int
  | attemptConfigError go_error

definition reasonRenderError :: string where "reasonRenderError = ''RenderError''"

definition no_class :: failure_class where
  "no_class = \<lparr>metric_reason = [], condition_reason = [], permanent = False\<rparr>"

definition fetchErrorOutcome :: "failure_class \<Rightarrow> string" where
  "fetchErrorOutcome c = ''fetch_error'' @ ''_'' @ metric_reason c"

definition sendErrorOutcome :: "failure_class \<Rightarrow> string" where
  "sendErrorOutcome c = ''send_error'' @ ''_'' @ metric_reason c"

fun metricLabel :: "attempt_outcome \<Rightarrow> failure_class \<Rightarrow> string" where
  "metricLabel (attemptFetchFailed e) c = fetchErrorOutcome c"
| "metricLabel (attemptSendFailed e) c = sendErrorOutcome c"
| "metricLabel (attemptRenderFailed e) c = ''render_error''"
| "metricLabel (attemptRateLimited e) c = ''rate_limited''"
| "metricLabel attemptSent c = ''sent''"
| "metricLabel (attemptEntrySkipped t e) c = ''skipped''"
| "metricLabel _ c = []"

fun resolve :: "attempt_outcome \<Rightarrow> attempt_outcome \<times> failure_class" where
  "resolve (attemptFetchFailed e) = (attemptFetchFailed e, classifyFetchError e)"
| "resolve (attemptSendFailed e) =
     (if as_type rate_limit_wait e \<noteq> None then (attemptRateLimited e, classRateLimited)
      else (attemptSendFailed e, classifySendError e))"
| "resolve (attemptRenderFailed e) =
     (attemptRenderFailed e, no_class\<lparr>condition_reason := reasonRenderError\<rparr>)"
| "resolve outc = (outc, no_class)"

record attempt_verdict =
  v_retry :: bool
  v_retry_after :: int
  v_pending :: bool

definition no_verdict :: attempt_verdict where
  "no_verdict = \<lparr>v_retry = False, v_retry_after = 0, v_pending = False\<rparr>"

definition fold_verdict :: "attempt_verdict \<Rightarrow> attempt_verdict \<Rightarrow> attempt_verdict" where
  "fold_verdict v other =
     \<lparr>v_retry = (v_retry v \<or> v_retry other),
      v_retry_after = max (v_retry_after v) (v_retry_after other),
      v_pending = (v_pending v \<or> v_pending other)\<rparr>"

datatype sync_verdict =
    syncFetchFailed | syncNotModified | syncEmpty | syncConfigError | syncPending | syncAccountedFor

definition settlement :: "attempt_verdict \<Rightarrow> sync_verdict" where
  "settlement v = (if v_pending v then syncPending else syncAccountedFor)"

subsection \<open>State\<close>

text \<open>The effects of a sync: the metrics it writes, the Events it emits and, further on, the
  messages (of type \<open>'m\<close>) it posts.\<close>

datatype 'm effect =
    OperationMetric string string
  | CheckSucceededMetric int
  | OverflowMetric int
  | WarningEvent string string string
  | Post 'm

record 'm attempt_state =
  st_fs :: feed_status
  st_log :: "'m effect list"
  st_ticks :: nat

text \<open>\<open>feedAttempt\<close>: the feed's URL, the group's generation, the clocks, the cadence, whether
  there is a recorder, and the parameters of the model.  \<open>at_clock n\<close> is the \<open>n\<close>-th
  reading of the run's clock.\<close>

record feed_attempt =
  at_env :: go_env
  at_conditions :: condition_api
  at_generation :: int
  at_url :: string
  at_now :: int
  at_clock :: "nat \<Rightarrow> int"
  at_cadence :: cadence
  at_recorder :: bool

definition emit :: "'m effect \<Rightarrow> ('m, 'z) attempt_state_scheme \<Rightarrow> ('m, 'z) attempt_state_scheme" where
  "emit eff st = st\<lparr>st_log := st_log st @ [eff]\<rparr>"

definition on_fs :: "(feed_status \<Rightarrow> feed_status) \<Rightarrow> ('m, 'z) attempt_state_scheme
    \<Rightarrow> ('m, 'z) attempt_state_scheme" where
  "on_fs f st = st\<lparr>st_fs := f (st_fs st)\<rparr>"

definition recordedAt :: "feed_attempt \<Rightarrow> ('m, 'z) attempt_state_scheme
    \<Rightarrow> int \<times> ('m, 'z) attempt_state_scheme" where
  "recordedAt a st = (at_clock a (st_ticks st), st\<lparr>st_ticks := st_ticks st + 1\<rparr>)"

definition at_setCondition :: "feed_attempt \<Rightarrow> string \<Rightarrow> condition_status \<Rightarrow> string \<Rightarrow> string
    \<Rightarrow> ('m, 'z) attempt_state_scheme \<Rightarrow> ('m, 'z) attempt_state_scheme \<times> bool" where
  "at_setCondition a ctype cst reason message st =
     (let (fs, changed) =
        setFeedCondition (at_conditions a) (st_fs st) ctype cst reason message (at_generation a)
      in (st\<lparr>st_fs := fs\<rparr>, changed))"

definition warn :: "feed_attempt \<Rightarrow> string \<Rightarrow> string \<Rightarrow> string \<Rightarrow> ('m, 'z) attempt_state_scheme
    \<Rightarrow> ('m, 'z) attempt_state_scheme" where
  "warn a reason action note st = (if at_recorder a then emit (WarningEvent reason action note) st else st)"

definition clearFailure :: "feed_status \<Rightarrow> feed_status" where
  "clearFailure fs = run_clear (fs\<lparr>last_error := []\<rparr>)"

subsection \<open>Failures\<close>

definition backOff :: "feed_attempt \<Rightarrow> string \<Rightarrow> go_error \<Rightarrow> ('m, 'z) attempt_state_scheme
    \<Rightarrow> ('m, 'z) attempt_state_scheme" where
  "backOff a reason e st =
     (let (now, st1) = recordedAt a st;
          (fs, firstCapped) = run_extend (retry (at_cadence a)) now (st_fs st1);
          st2 = st1\<lparr>st_fs := fs\<rparr>
      in if firstCapped
         then warn a reason ''BackoffCapped''
                (''feed '' @ at_url a @ '': still failing permanently, backoff now capped at ''
                 @ duration_string maxPermanentBackoff @ '': '' @ err_text e) st2
         else st2)"

definition failed :: "feed_attempt \<Rightarrow> retry_phase \<Rightarrow> failure_class \<Rightarrow> string \<Rightarrow> go_error
    \<Rightarrow> ('m, 'z) attempt_state_scheme \<Rightarrow> ('m, 'z) attempt_state_scheme \<times> attempt_verdict" where
  "failed a phase class eventReason e st =
     (let st1 = on_fs (\<lambda>fs. fs\<lparr>last_error := errText e\<rparr>) st;
          st2 = on_fs (run_fail (at_conditions a) phase) st1;
          condType = (if phase = phaseFetch then FeedConditionTypeReachable
                      else FeedConditionTypeDelivered);
          st3 = fst (at_setCondition a condType ConditionFalse (condition_reason class) (err_text e) st2)
      in if permanent class then (backOff a eventReason e st3, no_verdict)
         else if below_limit (st_fs st3) (maxRetries (at_cadence a))
         then (st3, no_verdict\<lparr>v_retry := True\<rparr>)
         else if exhausted_now (st_fs st3) (maxRetries (at_cadence a))
         then (warn a eventReason ''RetriesExhausted''
                 (''feed '' @ at_url a @ '': giving up after exhausting retries: '' @ err_text e) st3,
               no_verdict)
         else (st3, no_verdict))"

definition pastRetryLimit :: "feed_attempt \<Rightarrow> ('m, 'z) attempt_state_scheme \<Rightarrow> bool" where
  "pastRetryLimit a st = past_limit (st_fs st) (maxRetries (at_cadence a))"

subsection \<open>Recording an outcome\<close>

fun apply_outcome :: "feed_attempt \<Rightarrow> failure_class \<Rightarrow> attempt_outcome
    \<Rightarrow> ('m, 'z) attempt_state_scheme \<Rightarrow> ('m, 'z) attempt_state_scheme \<times> attempt_verdict" where
  "apply_outcome a class attemptFetchSucceeded st =
     (let st1 = on_fs (fetch_succeeded (at_conditions a)) st;
          st2 = on_fs (\<lambda>fs. fs\<lparr>last_checked := format_rfc3339 (at_now a)\<rparr>) st1;
          (now, st3) = recordedAt a st2;
          st4 = emit (CheckSucceededMetric (unix now)) st3
      in (fst (at_setCondition a FeedConditionTypeReachable ConditionTrue ''FetchSucceeded''
                 ''Feed fetched successfully'' st4), no_verdict))"
| "apply_outcome a class (attemptFetchFailed e) st = failed a phaseFetch class ''FetchFailed'' e st"
| "apply_outcome a class (attemptRenderFailed e) st =
     (let (st1, v) = failed a phaseDelivery class ''RenderFailed'' e st in (st1, v\<lparr>v_pending := True\<rparr>))"
| "apply_outcome a class (attemptSendFailed e) st =
     (let (st1, v) = failed a phaseDelivery class ''SendFailed'' e st in (st1, v\<lparr>v_pending := True\<rparr>))"
| "apply_outcome a class (attemptRateLimited e) st =
     (let st1 = on_fs (\<lambda>fs. fs\<lparr>last_error := errText e\<rparr>) st;
          st2 = fst (at_setCondition a FeedConditionTypeDelivered ConditionFalse ''RateLimited''
                       (err_text e) st1)
      in (st2, \<lparr>v_retry = True,
                v_retry_after = (case as_type rate_limit_wait e of Some d \<Rightarrow> d | None \<Rightarrow> 0),
                v_pending = True\<rparr>))"
| "apply_outcome a class attemptSent st =
     (let st1 = on_fs clearFailure st
      in (fst (at_setCondition a FeedConditionTypeDelivered ConditionTrue ''MessageSent''
                 ''Entry rendered and delivered to Discord'' st1), no_verdict))"
| "apply_outcome a class (attemptEntrySkipped title e) st =
     (let title = go_quote (env_print (at_env a)) (clampText title 100);
          st1 = on_fs clearFailure st;
          st2 = fst (at_setCondition a FeedConditionTypeDelivered ConditionFalse ''EntrySkipped''
                  (''skipped entry '' @ title @ '' after '' @ ''RenderFailed'' @ '': '' @ err_text e) st1)
      in (warn a ''EntrySkipped'' ''SkippedEntry''
            (''feed '' @ at_url a @ '': skipped entry '' @ title @ '' after exhausting retries (''
             @ ''RenderFailed'' @ ''): '' @ err_text e) st2, no_verdict))"
| "apply_outcome a class (attemptBacklogSkipped n) st =
     (fst (at_setCondition a FeedConditionTypeDelivered ConditionTrue ''BacklogSkipped''
             (''catchUpLimit is 0: skipped '' @ itoa n @ '' existing entries'') st), no_verdict)"
| "apply_outcome a class (attemptConfigError e) st =
     (let st1 = on_fs (\<lambda>fs. fs\<lparr>last_error := errText e\<rparr>) st;
          (st2, changed) = at_setCondition a FeedConditionTypeDelivered ConditionFalse ''ConfigError''
                             (err_text e) st1
      in (if changed
          then warn a ''ConfigError'' ''InvalidConfig'' (''feed '' @ at_url a @ '': '' @ err_text e) st2
          else st2, no_verdict))"

text \<open>\<open>feedAttempt.record\<close>.\<close>

definition record_outcome :: "feed_attempt \<Rightarrow> attempt_outcome
    \<Rightarrow> ('m, 'z) attempt_state_scheme \<Rightarrow> ('m, 'z) attempt_state_scheme \<times> attempt_verdict" where
  "record_outcome a outc st =
     (let (outc', class) = resolve outc; label = metricLabel outc' class;
          st1 = (if label \<noteq> [] then emit (OperationMetric (at_url a) label) st else st)
      in apply_outcome a class outc' st1)"

end
