(* ===== verification/Attempt_Laws.thy ===== *)
theory Attempt_Laws
  imports Attempt
begin

text \<open>
  What recording an outcome does, one equation per kind, and the retry policy over
  sequences of outcomes: the exhaustion Event fires once, a rate limit spends no retry,
  and the retry runs of the two phases do not mix.
\<close>

lemma emit_simps [simp]:
  "st_fs (emit eff st) = st_fs st" "st_log (emit eff st) = st_log st @ [eff]"
  "st_ticks (emit eff st) = st_ticks st"
  by (simp_all add: emit_def)

lemma on_fs_simps [simp]:
  "st_fs (on_fs f st) = f (st_fs st)" "st_log (on_fs f st) = st_log st"
  "st_ticks (on_fs f st) = st_ticks st"
  by (simp_all add: on_fs_def)

lemma recordedAt_simps [simp]:
  "fst (recordedAt a st) = at_clock a (st_ticks st)"
  "st_fs (snd (recordedAt a st)) = st_fs st" "st_log (snd (recordedAt a st)) = st_log st"
  "st_ticks (snd (recordedAt a st)) = st_ticks st + 1"
  by (simp_all add: recordedAt_def)

lemma at_setCondition_simps [simp]:
  "st_fs (fst (at_setCondition a t c r m st)) =
     fst (setFeedCondition (at_conditions a) (st_fs st) t c r m (at_generation a))"
  "st_log (fst (at_setCondition a t c r m st)) = st_log st"
  "st_ticks (fst (at_setCondition a t c r m st)) = st_ticks st"
  "snd (at_setCondition a t c r m st) =
     snd (setFeedCondition (at_conditions a) (st_fs st) t c r m (at_generation a))"
  by (simp_all add: at_setCondition_def case_prod_beta)

lemma warn_simps [simp]:
  "st_fs (warn a r act n st) = st_fs st" "st_ticks (warn a r act n st) = st_ticks st"
  "st_log (warn a r act n st) =
     st_log st @ (if at_recorder a then [WarningEvent r act n] else [])"
  by (simp_all add: warn_def)

lemma clearFailure_simps [run_simps]:
  "retry_count (clearFailure fs) = 0" "backoff_until (clearFailure fs) = []"
  "last_error (clearFailure fs) = []" "conditions (clearFailure fs) = conditions fs"
  by (simp_all add: clearFailure_def run_clear_def)

lemma clearFailure_frame [status_frame]:
  "fs_url (clearFailure fs) = fs_url fs"
  "last_checked (clearFailure fs) = last_checked fs"
  "initialized (clearFailure fs) = initialized fs"
  "state_version (clearFailure fs) = state_version fs"
  "last_seen_entry (clearFailure fs) = last_seen_entry fs"
  "last_sent (clearFailure fs) = last_sent fs"
  "etag (clearFailure fs) = etag fs"
  "last_modified (clearFailure fs) = last_modified fs"
  by (simp_all add: clearFailure_def run_clear_def)

subsection \<open>Failures\<close>

text \<open>Only the three fields of \<open>attempt_state\<close> change: the fields a record extends it with
  stay as they were.\<close>

lemma more_simps [simp]:
  "attempt_state.more (emit eff st) = attempt_state.more st"
  "attempt_state.more (on_fs f st) = attempt_state.more st"
  "attempt_state.more (snd (recordedAt a st)) = attempt_state.more st"
  "attempt_state.more (fst (at_setCondition a t c r m st)) = attempt_state.more st"
  "attempt_state.more (warn a r act n st) = attempt_state.more st"
  by (simp_all add: emit_def on_fs_def recordedAt_def at_setCondition_def warn_def case_prod_beta)

lemma backOff_simps [simp]:
  "st_fs (backOff a r e st) =
     fst (run_extend (retry (at_cadence a)) (at_clock a (st_ticks st)) (st_fs st))"
  "st_log (backOff a r e st) = st_log st @
     (if at_recorder a \<and> snd (run_extend (retry (at_cadence a)) (at_clock a (st_ticks st)) (st_fs st))
      then [WarningEvent r ''BackoffCapped''
        (''feed '' @ at_url a @ '': still failing permanently, backoff now capped at ''
         @ duration_string maxPermanentBackoff @ '': '' @ err_text e)] else [])"
  "st_ticks (backOff a r e st) = st_ticks st + 1"
  "attempt_state.more (backOff a r e st) = attempt_state.more st"
  by (simp_all add: backOff_def Let_def case_prod_beta)

text \<open>The status after a counted failure, before its backoff: the run counts it, LastError and
  the phase's condition say what failed.\<close>

definition counted :: "feed_attempt \<Rightarrow> retry_phase \<Rightarrow> failure_class \<Rightarrow> go_error \<Rightarrow> feed_status \<Rightarrow> feed_status" where
  "counted a phase class e fs =
     fst (setFeedCondition (at_conditions a)
       (run_fail (at_conditions a) phase (fs\<lparr>last_error := errText e\<rparr>))
       (if phase = phaseFetch then FeedConditionTypeReachable else FeedConditionTypeDelivered)
       ConditionFalse (condition_reason class) (err_text e) (at_generation a))"

lemma run_fail_error [simp]:
  "run_fail K p (fs\<lparr>last_error := t\<rparr>) = (run_fail K p fs)\<lparr>last_error := t\<rparr>"
  by (auto simp: run_fail_def in_progress_def run_set_def run_clear_def Let_def)

lemma counted_simps [run_simps]:
  "retry_count (counted a p c e fs) = retry_count (run_fail (at_conditions a) p fs)"
  "backoff_until (counted a p c e fs) = backoff_until (run_fail (at_conditions a) p fs)"
  "last_error (counted a p c e fs) = errText e"
  by (simp_all add: counted_def status_frame)

lemma counted_frame [status_frame]:
  "fs_url (counted a p c e fs) = fs_url fs"
  "last_checked (counted a p c e fs) = last_checked fs"
  "initialized (counted a p c e fs) = initialized fs"
  "state_version (counted a p c e fs) = state_version fs"
  "last_seen_entry (counted a p c e fs) = last_seen_entry fs"
  "last_sent (counted a p c e fs) = last_sent fs"
  "etag (counted a p c e fs) = etag fs"
  "last_modified (counted a p c e fs) = last_modified fs"
  by (simp_all add: counted_def status_frame)

definition count_failure :: "feed_attempt \<Rightarrow> retry_phase \<Rightarrow> failure_class \<Rightarrow> go_error
    \<Rightarrow> ('m, 'z) attempt_state_scheme \<Rightarrow> ('m, 'z) attempt_state_scheme" where
  "count_failure a p c e st = fst (at_setCondition a
     (if p = phaseFetch then FeedConditionTypeReachable else FeedConditionTypeDelivered)
     ConditionFalse (condition_reason c) (err_text e)
     (on_fs (run_fail (at_conditions a) p) (on_fs (\<lambda>fs. fs\<lparr>last_error := errText e\<rparr>) st)))"

lemma count_failure_simps [simp]:
  "st_fs (count_failure a p c e st) = counted a p c e (st_fs st)"
  "st_log (count_failure a p c e st) = st_log st"
  "st_ticks (count_failure a p c e st) = st_ticks st"
  "attempt_state.more (count_failure a p c e st) = attempt_state.more st"
  by (simp_all only: count_failure_def counted_def at_setCondition_simps on_fs_simps more_simps)

lemma failed_eq:
  "failed a p c r e st =
     (let st3 = count_failure a p c e st
      in if permanent c then (backOff a r e st3, no_verdict)
         else if below_limit (st_fs st3) (maxRetries (at_cadence a))
         then (st3, no_verdict\<lparr>v_retry := True\<rparr>)
         else if exhausted_now (st_fs st3) (maxRetries (at_cadence a))
         then (warn a r ''RetriesExhausted''
                 (''feed '' @ at_url a @ '': giving up after exhausting retries: '' @ err_text e) st3,
               no_verdict)
         else (st3, no_verdict))"
  by (simp only: failed_def Let_def count_failure_def)

lemma failed_simps [simp]:
  "st_fs (fst (failed a p c r e st)) =
     (if permanent c
      then fst (run_extend (retry (at_cadence a)) (at_clock a (st_ticks st)) (counted a p c e (st_fs st)))
      else counted a p c e (st_fs st))"
  "st_log (fst (failed a p c r e st)) = st_log st @
     (if permanent c then
        (if at_recorder a \<and> snd (run_extend (retry (at_cadence a)) (at_clock a (st_ticks st))
              (counted a p c e (st_fs st)))
         then [WarningEvent r ''BackoffCapped''
           (''feed '' @ at_url a @ '': still failing permanently, backoff now capped at ''
            @ duration_string maxPermanentBackoff @ '': '' @ err_text e)] else [])
      else if at_recorder a \<and>
          retry_count (counted a p c e (st_fs st)) = maxRetries (at_cadence a)
      then [WarningEvent r ''RetriesExhausted''
         (''feed '' @ at_url a @ '': giving up after exhausting retries: '' @ err_text e)] else [])"
  "snd (failed a p c r e st) = no_verdict\<lparr>v_retry := \<not> permanent c \<and>
     retry_count (counted a p c e (st_fs st)) < maxRetries (at_cadence a)\<rparr>"
  "attempt_state.more (fst (failed a p c r e st)) = attempt_state.more st"
  unfolding failed_eq Let_def
  by (simp_all add: below_limit_def exhausted_now_def no_verdict_def)

subsection \<open>One equation per kind\<close>

lemma record_fetch_succeeded [record_simps]:
  "st_fs (fst (record_outcome a attemptFetchSucceeded st)) =
     fst (setFeedCondition (at_conditions a)
       ((fetch_succeeded (at_conditions a) (st_fs st))\<lparr>last_checked := format_rfc3339 (at_now a)\<rparr>)
       FeedConditionTypeReachable ConditionTrue ''FetchSucceeded'' ''Feed fetched successfully''
       (at_generation a))"
  "st_log (fst (record_outcome a attemptFetchSucceeded st)) =
     st_log st @ [CheckSucceededMetric (unix (at_clock a (st_ticks st)))]"
  "snd (record_outcome a attemptFetchSucceeded st) = no_verdict"
  by (simp_all add: record_outcome_def case_prod_beta Let_def)

lemma record_fetch_failed [record_simps]:
  "record_outcome a (attemptFetchFailed e) st =
     failed a phaseFetch (classifyFetchError e) ''FetchFailed'' e
       (emit (OperationMetric (at_url a) (fetchErrorOutcome (classifyFetchError e))) st)"
  by (simp add: record_outcome_def fetchErrorOutcome_def)

lemma record_render_failed [record_simps]:
  "record_outcome a (attemptRenderFailed e) st =
     (let (st1, v) = failed a phaseDelivery (no_class\<lparr>condition_reason := reasonRenderError\<rparr>)
        ''RenderFailed'' e (emit (OperationMetric (at_url a) ''render_error'') st)
      in (st1, v\<lparr>v_pending := True\<rparr>))"
  by (simp add: record_outcome_def)

lemma record_send_failed [record_simps]:
  "as_type rate_limit_wait e = None \<Longrightarrow>
   record_outcome a (attemptSendFailed e) st =
     (let (st1, v) = failed a phaseDelivery (classifySendError e)
        ''SendFailed'' e (emit (OperationMetric (at_url a) (sendErrorOutcome (classifySendError e))) st)
      in (st1, v\<lparr>v_pending := True\<rparr>))"
  by (simp add: record_outcome_def sendErrorOutcome_def)

lemma record_rate_limited [record_simps]:
  assumes "as_type rate_limit_wait e = Some d"
  shows "st_fs (fst (record_outcome a (attemptSendFailed e) st)) =
      fst (setFeedCondition (at_conditions a) ((st_fs st)\<lparr>last_error := errText e\<rparr>)
        FeedConditionTypeDelivered ConditionFalse ''RateLimited'' (err_text e) (at_generation a))"
    and "st_log (fst (record_outcome a (attemptSendFailed e) st)) =
      st_log st @ [OperationMetric (at_url a) ''rate_limited'']"
    and "snd (record_outcome a (attemptSendFailed e) st) =
      \<lparr>v_retry = True, v_retry_after = d, v_pending = True\<rparr>"
  using assms by (simp_all add: record_outcome_def Let_def)

lemma record_sent [record_simps]:
  "st_fs (fst (record_outcome a attemptSent st)) =
     fst (setFeedCondition (at_conditions a) (clearFailure (st_fs st)) FeedConditionTypeDelivered
       ConditionTrue ''MessageSent'' ''Entry rendered and delivered to Discord'' (at_generation a))"
  "st_log (fst (record_outcome a attemptSent st)) = st_log st @ [OperationMetric (at_url a) ''sent'']"
  "snd (record_outcome a attemptSent st) = no_verdict"
  by (simp_all add: record_outcome_def Let_def)

lemma apply_outcome_more [simp]:
  "attempt_state.more (fst (apply_outcome a c outc st)) = attempt_state.more st"
  by (cases outc) (simp_all add: Let_def case_prod_beta)

text \<open>What no outcome touches: the ledger fields, Initialized, the state version and the cache
  validators belong to the sync.\<close>

lemma apply_outcome_frame [status_frame]:
  "fs_url (st_fs (fst (apply_outcome a c outc st))) = fs_url (st_fs st)"
  "initialized (st_fs (fst (apply_outcome a c outc st))) = initialized (st_fs st)"
  "state_version (st_fs (fst (apply_outcome a c outc st))) = state_version (st_fs st)"
  "last_seen_entry (st_fs (fst (apply_outcome a c outc st))) = last_seen_entry (st_fs st)"
  "last_sent (st_fs (fst (apply_outcome a c outc st))) = last_sent (st_fs st)"
  "etag (st_fs (fst (apply_outcome a c outc st))) = etag (st_fs st)"
  "last_modified (st_fs (fst (apply_outcome a c outc st))) = last_modified (st_fs st)"
  by (cases outc; simp add: Let_def case_prod_beta status_frame)+

lemma record_outcome_form:
  "record_outcome a outc st = apply_outcome a (snd (resolve outc)) (fst (resolve outc))
     (if metricLabel (fst (resolve outc)) (snd (resolve outc)) \<noteq> []
      then emit (OperationMetric (at_url a) (metricLabel (fst (resolve outc)) (snd (resolve outc)))) st
      else st)"
  by (simp add: record_outcome_def Let_def case_prod_beta)

lemma record_more [simp]: "attempt_state.more (fst (record_outcome a outc st)) = attempt_state.more st"
  unfolding record_outcome_form by simp

lemma record_frame [status_frame]:
  "fs_url (st_fs (fst (record_outcome a outc st))) = fs_url (st_fs st)"
  "initialized (st_fs (fst (record_outcome a outc st))) = initialized (st_fs st)"
  "state_version (st_fs (fst (record_outcome a outc st))) = state_version (st_fs st)"
  "last_seen_entry (st_fs (fst (record_outcome a outc st))) = last_seen_entry (st_fs st)"
  "last_sent (st_fs (fst (record_outcome a outc st))) = last_sent (st_fs st)"
  "etag (st_fs (fst (record_outcome a outc st))) = etag (st_fs st)"
  "last_modified (st_fs (fst (record_outcome a outc st))) = last_modified (st_fs st)"
  unfolding record_outcome_form by (simp_all add: apply_outcome_frame)

subsection \<open>Conditions after an outcome\<close>

lemma types_differ: "FeedConditionTypeReachable \<noteq> FeedConditionTypeDelivered"
  by (simp add: condition_types)

lemma conditions_last_checked [simp]: "conditions (fs\<lparr>last_checked := t\<rparr>) = conditions fs"
  "conditions (fs\<lparr>last_error := u\<rparr>) = conditions fs"
  by simp_all

lemma reachable_after:
  assumes "condition_laws (at_conditions a)"
  shows "cond_is_true (at_conditions a) (conditions (st_fs (fst (record_outcome a attemptFetchSucceeded st))))
      FeedConditionTypeReachable"
    and "cond_is_false (at_conditions a) (conditions (st_fs (fst (record_outcome a (attemptFetchFailed e) st))))
      FeedConditionTypeReachable"
    and "cond_is_false (at_conditions a) (conditions (st_fs (fst (record_outcome a attemptFetchSucceeded st))))
      FeedConditionTypeReachable = False"
  using assms
  by (simp_all add: record_simps setFeedCondition_is counted_def status_frame)

text \<open>A failure of the delivery phase: a render failure, or a failed send that is no rate limit.\<close>

fun delivery_failure :: "attempt_outcome \<Rightarrow> bool" where
  "delivery_failure (attemptRenderFailed e) = True"
| "delivery_failure (attemptSendFailed e) = (as_type rate_limit_wait e = None)"
| "delivery_failure _ = False"

fun failure_is_permanent :: "attempt_outcome \<Rightarrow> bool" where
  "failure_is_permanent (attemptSendFailed e) = permanent (classifySendError e)"
| "failure_is_permanent (attemptFetchFailed e) = permanent (classifyFetchError e)"
| "failure_is_permanent _ = False"

lemma delivery_failure_run:
  assumes "delivery_failure outc"
  shows "retry_count (st_fs (fst (record_outcome a outc st))) = int32 (retry_count (st_fs st) + 1)"
    and "\<not> failure_is_permanent outc \<Longrightarrow>
      backoff_until (st_fs (fst (record_outcome a outc st))) = backoff_until (st_fs st)"
    and "condition_laws (at_conditions a) \<Longrightarrow>
      find_cond (at_conditions a) (conditions (st_fs (fst (record_outcome a outc st)))) FeedConditionTypeReachable =
      find_cond (at_conditions a) (conditions (st_fs st)) FeedConditionTypeReachable"
    and "\<exists>lg. st_log (fst (record_outcome a outc st)) = st_log st @ OperationMetric (at_url a) lg #
      (if failure_is_permanent outc
       then filter (\<lambda>eff. \<exists>r n. eff = WarningEvent r ''BackoffCapped'' n)
              (drop (Suc (length (st_log st))) (st_log (fst (record_outcome a outc st))))
       else if at_recorder a \<and> int32 (retry_count (st_fs st) + 1) = maxRetries (at_cadence a)
       then drop (Suc (length (st_log st))) (st_log (fst (record_outcome a outc st)))
       else [])"
  using assms types_differ
  by (cases outc; auto simp: record_simps case_prod_beta run_simps status_frame no_class_def counted_def
      setFeedCondition_is run_extend_until nextBackoffUntil_def)+

end
