(* ===== verification/Attempt_Policy.thy ===== *)
theory Attempt_Policy
  imports Attempt_Laws
begin

text \<open>
  The retry policy of \<^verbatim>\<open>attempt.go\<close> over sequences of outcomes: what one failed send does,
  that giving up is announced once, that rate limits spend no retry, and that the runs of
  the two phases do not mix.
\<close>

text \<open>A feed's outcomes recorded one after the other, as successive reconciles do.\<close>

fun record_all :: "feed_attempt \<Rightarrow> attempt_outcome list
    \<Rightarrow> ('m, 'z) attempt_state_scheme \<Rightarrow> ('m, 'z) attempt_state_scheme" where
  "record_all a [] st = st"
| "record_all a (outc # outcs) st = record_all a outcs (fst (record_outcome a outc st))"

lemma record_all_append:
  "record_all a (xs @ ys) st = record_all a ys (record_all a xs st)"
  by (induction xs arbitrary: st) simp_all

fun is_exhausted_event :: "'m effect \<Rightarrow> bool" where
  "is_exhausted_event (WarningEvent r act n) = (act = ''RetriesExhausted'')"
| "is_exhausted_event _ = False"

text \<open>The number of times giving up was announced.\<close>

definition exhausted_events :: "('m, 'z) attempt_state_scheme \<Rightarrow> nat" where
  "exhausted_events st = length (filter is_exhausted_event (st_log st))"

fun transient_delivery_failure :: "attempt_outcome \<Rightarrow> bool" where
  "transient_delivery_failure (attemptSendFailed e) =
     (as_type rate_limit_wait e = None \<and> \<not> permanent (classifySendError e))"
| "transient_delivery_failure (attemptRenderFailed e) = True"
| "transient_delivery_failure _ = False"

text \<open>An example attempt and state for the witnesses.\<close>

definition example_attempt :: feed_attempt where
  "example_attempt = \<lparr>at_env = plain_env, at_conditions = list_conditions 0, at_generation = 1,
     at_url = ''https://go.dev/feed'', at_now = 1700000000000000000,
     at_clock = (\<lambda>n. 1700000000000000000 + int n * second),
     at_cadence = \<lparr>poll = 30 * minute, retry = minute, maxRetries = 2, cadence_err = None\<rparr>, at_recorder = True\<rparr>"

definition example_state :: "unit attempt_state" where
  "example_state = \<lparr>st_fs = new_feed_status ''https://go.dev/feed'', st_log = [], st_ticks = 0\<rparr>"

lemma example_laws: "condition_laws (at_conditions example_attempt)"
  by (simp add: example_attempt_def list_conditions_laws)

lemma example_reachable: "\<not> cond_is_false (at_conditions example_attempt) (conditions (st_fs example_state)) t"
  by (simp add: example_attempt_def example_state_def new_feed_status_def list_conditions_def)

lemma transient_step:
  assumes "transient_delivery_failure outc"
  shows "retry_count (st_fs (fst (record_outcome a outc st))) = int32 (retry_count (st_fs st) + 1)"
    and "backoff_until (st_fs (fst (record_outcome a outc st))) = backoff_until (st_fs st)"
    and "exhausted_events (fst (record_outcome a outc st)) = exhausted_events st +
      (if at_recorder a \<and> int32 (retry_count (st_fs st) + 1) = maxRetries (at_cadence a) then 1 else 0)"
  using assms
  by (cases outc; simp add: record_simps case_prod_beta run_simps status_frame exhausted_events_def
      no_class_def)+

lemma fetch_success_step:
  assumes "condition_laws (at_conditions a)"
  shows "\<not> cond_is_false (at_conditions a) (conditions (st_fs st)) FeedConditionTypeReachable \<Longrightarrow>
      retry_count (st_fs (fst (record_outcome a attemptFetchSucceeded st))) = retry_count (st_fs st)"
    and "exhausted_events (fst (record_outcome a attemptFetchSucceeded st)) = exhausted_events st"
    and "\<not> cond_is_false (at_conditions a)
      (conditions (st_fs (fst (record_outcome a attemptFetchSucceeded st)))) FeedConditionTypeReachable"
  using reachable_after(3) [OF assms, of st]
  by (simp_all add: record_simps status_frame exhausted_events_def fetch_succeeded_def)

text \<open>The failures of a sequence of outcomes.\<close>

abbreviation failures :: "attempt_outcome list \<Rightarrow> nat" where
  "failures outcs \<equiv> length (filter transient_delivery_failure outcs)"

lemma transient_keeps_reachable:
  assumes "condition_laws (at_conditions a)" "transient_delivery_failure outc"
  shows "cond_is_false (at_conditions a) (conditions (st_fs (fst (record_outcome a outc st))))
      FeedConditionTypeReachable =
    cond_is_false (at_conditions a) (conditions (st_fs st)) FeedConditionTypeReachable"
proof -
  have "delivery_failure outc" using assms(2) by (cases outc) simp_all
  from delivery_failure_run(3) [OF this assms(1), of st] show ?thesis
    by (simp add: condition_laws_is [OF assms(1)])
qed

lemma one_cycle_step:
  assumes "condition_laws (at_conditions a)"
    and "outc = attemptFetchSucceeded \<or> transient_delivery_failure outc"
    and "\<not> cond_is_false (at_conditions a) (conditions (st_fs st)) FeedConditionTypeReachable"
    and "0 \<le> retry_count (st_fs st)" "retry_count (st_fs st) + 1 < 2 ^ 31"
  shows "retry_count (st_fs (fst (record_outcome a outc st))) =
      retry_count (st_fs st) + (if transient_delivery_failure outc then 1 else 0)"
    and "exhausted_events (fst (record_outcome a outc st)) = exhausted_events st +
      (if transient_delivery_failure outc \<and> at_recorder a \<and>
          retry_count (st_fs st) + 1 = maxRetries (at_cadence a) then 1 else 0)"
    and "\<not> cond_is_false (at_conditions a) (conditions (st_fs (fst (record_outcome a outc st))))
      FeedConditionTypeReachable"
proof -
  have wrap: "int32 (retry_count (st_fs st) + 1) = retry_count (st_fs st) + 1"
    using assms(4,5) by (intro int32_id) simp_all
  consider (ok) "outc = attemptFetchSucceeded" | (bad) "transient_delivery_failure outc"
    using assms(2) by auto
  note cases = this
  show "retry_count (st_fs (fst (record_outcome a outc st))) =
      retry_count (st_fs st) + (if transient_delivery_failure outc then 1 else 0)"
    using cases by cases (simp_all add: fetch_success_step(1) [OF assms(1,3)] transient_step wrap)
  show "exhausted_events (fst (record_outcome a outc st)) = exhausted_events st +
      (if transient_delivery_failure outc \<and> at_recorder a \<and>
          retry_count (st_fs st) + 1 = maxRetries (at_cadence a) then 1 else 0)"
    using cases by cases (simp_all add: fetch_success_step(2) [OF assms(1)] transient_step wrap)
  show "\<not> cond_is_false (at_conditions a) (conditions (st_fs (fst (record_outcome a outc st))))
      FeedConditionTypeReachable"
    using cases assms(3)
    by cases (simp_all add: fetch_success_step(3) [OF assms(1)] transient_keeps_reachable [OF assms(1)])
qed

lemma run_of_failures:
  assumes "condition_laws (at_conditions a)"
    and "\<forall>outc \<in> set outcs. outc = attemptFetchSucceeded \<or> transient_delivery_failure outc"
    and "\<not> cond_is_false (at_conditions a) (conditions (st_fs st)) FeedConditionTypeReachable"
    and "0 \<le> retry_count (st_fs st)" "retry_count (st_fs st) + int (failures outcs) < 2 ^ 31"
  shows "exhausted_events (record_all a outcs st) = exhausted_events st +
      (if at_recorder a \<and> retry_count (st_fs st) < maxRetries (at_cadence a)
          \<and> maxRetries (at_cadence a) \<le> retry_count (st_fs st) + int (failures outcs) then 1 else 0)"
  using assms(2-)
proof (induction outcs arbitrary: st)
  case (Cons outc outcs)
  show ?case
  proof (cases "transient_delivery_failure outc")
    case True
    then have "retry_count (st_fs st) + 1 < 2 ^ 31" using Cons.prems(4) by simp
    note s = one_cycle_step [OF assms(1) _ Cons.prems(2,3) this, of outc]
    show ?thesis using Cons.IH [of "fst (record_outcome a outc st)"] Cons.prems True s by auto
  next
    case False
    then have outc: "outc = attemptFetchSucceeded" using Cons.prems(1) by simp
    show ?thesis
      using Cons.IH [of "fst (record_outcome a outc st)"] Cons.prems False
        fetch_success_step [OF assms(1), of st] unfolding outc by simp
  qed
qed simp

text \<open>C31: Giving up on a feed is announced exactly once: over any number of successive cycles in
  which the fetch succeeds and the delivery fails transiently (a render failure or a failed
  send that is no rate limit), one RetriesExhausted Event is emitted when the failures
  reach the retry limit, and none before or after.\<close>

theorem retries_exhausted_once:
  assumes "condition_laws (at_conditions a)" "at_recorder a"
    and "\<forall>outc \<in> set outcs. outc = attemptFetchSucceeded \<or> transient_delivery_failure outc"
    and "\<not> cond_is_false (at_conditions a) (conditions (st_fs st)) FeedConditionTypeReachable"
    and "retry_count (st_fs st) = 0" "int (failures outcs) < 2 ^ 31" "1 \<le> maxRetries (at_cadence a)"
  shows "exhausted_events (record_all a outcs st) = exhausted_events st +
    (if maxRetries (at_cadence a) \<le> int (failures outcs) then 1 else 0)"
  using run_of_failures [of a outcs st] assms by simp

lemma retries_exhausted_once_witness:
  "exhausted_events (record_all example_attempt
     [attemptFetchSucceeded, attemptRenderFailed (PlainError ''x''), attemptFetchSucceeded,
      attemptSendFailed (DiscordHTTPStatusError 503 ''503'' []), attemptRenderFailed (PlainError ''y'')]
     example_state) = 1"
proof -
  have send: "transient_delivery_failure (attemptSendFailed (DiscordHTTPStatusError 503 s []))" for s
    by (simp add: as_type_def classifySendError_def List.map_filter_simps isTLSCertificateError_def
        classifyHTTPStatus_def class_defs)
  let ?outcs = "[attemptFetchSucceeded, attemptRenderFailed (PlainError ''x''), attemptFetchSucceeded,
      attemptSendFailed (DiscordHTTPStatusError 503 ''503'' []), attemptRenderFailed (PlainError ''y'')]"
  have "exhausted_events (record_all example_attempt ?outcs example_state) =
    exhausted_events example_state + (if maxRetries (at_cadence example_attempt) \<le> int (failures ?outcs) then 1 else 0)"
    by (rule retries_exhausted_once)
      (use send in \<open>simp_all add: example_laws example_reachable, simp_all add: example_attempt_def
        example_state_def new_feed_status_def\<close>)
  then show ?thesis
    using send by (simp add: example_attempt_def example_state_def exhausted_events_def)
qed

lemma failed_ticks [simp]:
  "st_ticks (fst (failed a p c r e st)) = st_ticks st + (if permanent c then 1 else 0)"
  unfolding failed_eq Let_def by simp

lemma setFeedCondition_finds:
  assumes "condition_laws K" "fs' = fst (setFeedCondition K fs t st r m g)"
  shows "\<exists>c. find_cond K (conditions fs') t = Some c \<and>
    same_condition c \<lparr>cond_type = t, cond_status = st, cond_reason = r,
      cond_message = clampText m maxConditionMessageBytes, cond_generation = g, cond_transition = zero_time\<rparr>"
  using condition_laws_find(1) [OF assms(1), of "conditions fs"
      "\<lparr>cond_type = t, cond_status = st, cond_reason = r, cond_message = clampText m maxConditionMessageBytes,
        cond_generation = g, cond_transition = zero_time\<rparr>"] assms(2)
  by (simp add: setFeedCondition_def case_prod_beta)

lemma counted_whole:
  "counted a p c e fs = (run_fail (at_conditions a) p fs)\<lparr>last_error := errText e, conditions := conditions (counted a p c e fs)\<rparr>"
  by (simp add: counted_def setFeedCondition_def case_prod_beta)

text \<open>The Warning Event of a failed send whose class is \<open>c\<close> and which is the \<open>n\<close>-th failure of
  its run, as the Event's action and text: the first permanent failure whose backoff is capped
  and the transient one that exhausts the retries have one.\<close>

definition failure_warning :: "feed_attempt \<Rightarrow> failure_class \<Rightarrow> int \<Rightarrow> go_error \<Rightarrow> (string \<times> string) option" where
  "failure_warning a c n e =
     (let backoff = (\<lambda>k. permanentBackoffDuration k (retry (at_cadence a)))
      in if permanent c then
           (if backoff n = maxPermanentBackoff \<and> (n \<le> 1 \<or> backoff (n - 1) < maxPermanentBackoff)
            then Some (''BackoffCapped'', ''feed '' @ at_url a @ '': still failing permanently, backoff now capped at ''
              @ duration_string maxPermanentBackoff @ '': '' @ err_text e) else None)
         else if n = maxRetries (at_cadence a)
         then Some (''RetriesExhausted'', ''feed '' @ at_url a @ '': giving up after exhausting retries: '' @ err_text e)
         else None)"

text \<open>C32: A failed send that is no rate limit does exactly this.  Of the feed's status, LastError becomes
  the (clamped) error, the retry count goes up by one at 32 bits, a permanent class starts the
  backoff its new count gives from the clock's reading while a transient one leaves the backoff
  alone, and the conditions change; every other field, the records of what was sent, the watermark
  and the validators among them, is what it was.  Of the conditions, the Delivered one is False,
  with the class's reason, the (clamped) error as its message and the group's generation, and no
  other type's changes.  One send_error metric of the class is counted and, where there is a
  recorder, the one Warning Event \<open>failure_warning\<close> gives is emitted, if any; nothing else is
  logged, and the clock is read for a permanent failure only.  The verdict asks for a retry only of a
  transient failure below the limit and always leaves the entry pending.\<close>

theorem send_failure_policy:
  assumes "condition_laws (at_conditions a)" "as_type rate_limit_wait e = None"
  shows "let (st', v) = record_outcome a (attemptSendFailed e) st;
             K = at_conditions a; fs = st_fs st; fs' = st_fs st';
             class = classifySendError e;
             n = int32 (retry_count fs + 1);
             transient = (\<not> permanent class)
    in fs' = fs\<lparr>last_error := clampText (err_text e) maxStatusTextBytes, retry_count := n,
         backoff_until := (if transient then backoff_until fs
           else nextBackoffUntil (at_clock a (st_ticks st)) (permanentBackoffDuration n (retry (at_cadence a)))),
         conditions := conditions fs'\<rparr> \<and>
       (\<exists>c. find_cond K (conditions fs') FeedConditionTypeDelivered = Some c \<and>
         cond_status c = ConditionFalse \<and> cond_reason c = condition_reason class \<and>
         cond_message c = clampText (err_text e) maxConditionMessageBytes \<and> cond_generation c = at_generation a) \<and>
       cond_is_false K (conditions fs') FeedConditionTypeDelivered \<and>
       (\<forall>t. t \<noteq> FeedConditionTypeDelivered \<longrightarrow> find_cond K (conditions fs') t = find_cond K (conditions fs) t) \<and>
       st_log st' = st_log st @ [OperationMetric (at_url a) (''send_error_'' @ metric_reason class)] @
         (case failure_warning a class n e of
            Some (act, txt) \<Rightarrow> if at_recorder a then [WarningEvent ''SendFailed'' act txt] else []
          | None \<Rightarrow> []) \<and>
       st_ticks st' = st_ticks st + (if transient then 0 else 1) \<and>
       attempt_state.more st' = attempt_state.more st \<and>
       v = \<lparr>v_retry = (transient \<and> n < maxRetries (at_cadence a)), v_retry_after = 0, v_pending = True\<rparr>"
proof -
  let ?r = "record_outcome a (attemptSendFailed e) st" and ?K = "at_conditions a" and ?c = "classifySendError e"
  let ?fs' = "st_fs (fst ?r)" and ?n = "int32 (retry_count (st_fs st) + 1)"
  let ?counted = "counted a phaseDelivery ?c e (st_fs st)"
  have fs': "?fs' = (if permanent ?c then fst (run_extend (retry (at_cadence a)) (at_clock a (st_ticks st)) ?counted) else ?counted)"
    by (simp add: record_simps assms(2) case_prod_beta)
  have conds: "conditions ?fs' = conditions ?counted" by (simp add: fs' status_frame)
  have n: "retry_count ?counted = ?n" by (simp add: run_simps)
  have "?fs' = (st_fs st)\<lparr>last_error := clampText (err_text e) maxStatusTextBytes, retry_count := ?n,
      backoff_until := (if \<not> permanent ?c then backoff_until (st_fs st)
        else nextBackoffUntil (at_clock a (st_ticks st)) (permanentBackoffDuration ?n (retry (at_cadence a)))),
      conditions := conditions ?fs'\<rparr>"
    unfolding conds unfolding fs' by (cases "permanent ?c"; simp add: run_extend_until n)
      (subst counted_whole, simp add: run_simps errText_def)+
  moreover have "\<exists>c. find_cond ?K (conditions ?fs') FeedConditionTypeDelivered = Some c \<and>
      cond_status c = ConditionFalse \<and> cond_reason c = condition_reason ?c \<and>
      cond_message c = clampText (err_text e) maxConditionMessageBytes \<and> cond_generation c = at_generation a"
    using setFeedCondition_finds [OF assms(1) counted_def [of a phaseDelivery ?c e "st_fs st"]]
    unfolding conds by (auto simp: same_condition_def)
  moreover have "\<forall>t. t \<noteq> FeedConditionTypeDelivered \<longrightarrow>
      find_cond ?K (conditions ?fs') t = find_cond ?K (conditions (st_fs st)) t"
    unfolding conds by (simp add: counted_def setFeedCondition_is(3) [OF assms(1)] status_frame)
  moreover have "cond_is_false ?K (conditions ?fs') FeedConditionTypeDelivered"
    unfolding conds by (simp add: counted_def setFeedCondition_is(1) [OF assms(1)])
  moreover have "st_log (fst ?r) = st_log st @ [OperationMetric (at_url a) (''send_error_'' @ metric_reason ?c)] @
      (case failure_warning a ?c ?n e of
         Some (act, txt) \<Rightarrow> if at_recorder a then [WarningEvent ''SendFailed'' act txt] else [] | None \<Rightarrow> [])"
    by (cases "permanent ?c"; cases "at_recorder a")
      (auto simp: record_simps assms(2) case_prod_beta failure_warning_def Let_def run_extend_flag n sendErrorOutcome_def)
  moreover have "st_ticks (fst ?r) = st_ticks st + (if \<not> permanent ?c then 0 else 1)"
    by (simp add: record_simps assms(2) case_prod_beta)
  moreover have "attempt_state.more (fst ?r) = attempt_state.more st" by simp
  moreover have "snd ?r = \<lparr>v_retry = (\<not> permanent ?c \<and> ?n < maxRetries (at_cadence a)), v_retry_after = 0, v_pending = True\<rparr>"
    by (simp add: record_simps assms(2) case_prod_beta n no_verdict_def)
  ultimately show ?thesis unfolding Let_def case_prod_beta by blast
qed

lemma send_failure_policy_witness:
  "snd (record_outcome example_attempt (attemptSendFailed (DiscordHTTPStatusError 404 ''404'' [])) example_state)
   = \<lparr>v_retry = False, v_retry_after = 0, v_pending = True\<rparr>"
proof -
  note example_laws
  moreover have none: "as_type rate_limit_wait (DiscordHTTPStatusError 404 ''404'' []) = None"
    by (simp add: as_type_def List.map_filter_simps)
  moreover have "permanent (classifySendError (DiscordHTTPStatusError 404 ''404'' []))"
    by (simp add: classifySendError_def none) (simp add: as_type_def List.map_filter_simps class_defs)
  ultimately show ?thesis
    using send_failure_policy [of example_attempt "DiscordHTTPStatusError 404 ''404'' []" example_state]
    by (simp add: Let_def case_prod_beta)
qed

subsection \<open>Rate limits\<close>

text \<open>Two states that agree on what drives retries and backoff: the retry run, the backoff,
  whether the feed counts as reachable, and how often the clock was read.\<close>

definition same_run :: "feed_attempt \<Rightarrow> ('m, 'z) attempt_state_scheme \<Rightarrow> ('m, 'z) attempt_state_scheme \<Rightarrow> bool" where
  "same_run a st st' \<longleftrightarrow>
     retry_count (st_fs st) = retry_count (st_fs st') \<and>
     backoff_until (st_fs st) = backoff_until (st_fs st') \<and>
     cond_is_true (at_conditions a) (conditions (st_fs st)) FeedConditionTypeReachable =
       cond_is_true (at_conditions a) (conditions (st_fs st')) FeedConditionTypeReachable \<and>
     cond_is_false (at_conditions a) (conditions (st_fs st)) FeedConditionTypeReachable =
       cond_is_false (at_conditions a) (conditions (st_fs st')) FeedConditionTypeReachable \<and>
     st_ticks st = st_ticks st'"

definition rate_limited :: "attempt_outcome \<Rightarrow> bool" where
  "rate_limited outc = (case outc of attemptSendFailed e \<Rightarrow> as_type rate_limit_wait e \<noteq> None | _ \<Rightarrow> False)"

lemma rate_limit_same_run:
  assumes "condition_laws (at_conditions a)" "rate_limited outc"
  shows "same_run a (fst (record_outcome a outc st)) st"
proof -
  obtain e d where "outc = attemptSendFailed e" "as_type rate_limit_wait e = Some d"
    using assms(2) by (cases outc) (auto simp: rate_limited_def)
  then show ?thesis
    using types_differ
    by (simp add: same_run_def record_rate_limited(1) status_frame setFeedCondition_is [OF assms(1)])
      (simp add: record_outcome_def Let_def)
qed

text \<open>What an outcome does to the run, the reachability and the clock depends on nothing else.\<close>

lemma run_fail_cong:
  assumes "retry_count fs = retry_count fs'" "backoff_until fs = backoff_until fs'"
    "cond_is_true K (conditions fs) FeedConditionTypeReachable = cond_is_true K (conditions fs') FeedConditionTypeReachable"
    "cond_is_false K (conditions fs) FeedConditionTypeReachable = cond_is_false K (conditions fs') FeedConditionTypeReachable"
  shows "retry_count (run_fail K p fs) = retry_count (run_fail K p fs')"
    and "backoff_until (run_fail K p fs) = backoff_until (run_fail K p fs')"
    and "retry_count (fetch_succeeded K fs) = retry_count (fetch_succeeded K fs')"
    and "backoff_until (fetch_succeeded K fs) = backoff_until (fetch_succeeded K fs')"
  using assms
  by (simp_all only: run_fail_def fetch_succeeded_def in_progress_def run_set_def run_clear_def Let_def)
    auto

lemma failed_run_cong:
  assumes K: "condition_laws (at_conditions a)" and "same_run a st st'"
  shows "same_run a (fst (failed a p c r e st)) (fst (failed a p c r e st'))"
  using assms(2) types_differ run_fail_cong [of "st_fs st" "st_fs st'" "at_conditions a"]
  by (cases p) (simp_all add: same_run_def run_extend_until counted_simps counted_def status_frame
      setFeedCondition_is [OF K])

lemma same_run_emit [simp]:
  "same_run a (emit x st) st' = same_run a st st'" "same_run a st (emit x st') = same_run a st st'"
  by (simp_all add: same_run_def)

lemma apply_outcome_run_cong:
  assumes K: "condition_laws (at_conditions a)" and same: "same_run a st st'"
  shows "same_run a (fst (apply_outcome a c outc st)) (fst (apply_outcome a c outc st'))"
proof (cases outc)
  case attemptFetchSucceeded
  then show ?thesis
    using same run_fail_cong(3,4) [of "st_fs st" "st_fs st'" "at_conditions a"]
    by (simp add: same_run_def Let_def case_prod_beta status_frame setFeedCondition_is [OF K])
next
  case (attemptFetchFailed e)
  then show ?thesis using failed_run_cong [OF K same] by simp
next
  case (attemptRenderFailed e)
  then show ?thesis using failed_run_cong [OF K same] by (simp add: Let_def case_prod_beta)
next
  case (attemptSendFailed e)
  then show ?thesis using failed_run_cong [OF K same] by (simp add: Let_def case_prod_beta)
qed (use same types_differ in \<open>simp_all add: same_run_def Let_def case_prod_beta status_frame run_simps
  setFeedCondition_is [OF K]\<close>)

lemma record_outcome_run_cong:
  assumes "condition_laws (at_conditions a)" "same_run a st st'"
  shows "same_run a (fst (record_outcome a outc st)) (fst (record_outcome a outc st'))"
  unfolding record_outcome_form by (simp add: apply_outcome_run_cong assms)

lemma record_all_run_cong:
  assumes "condition_laws (at_conditions a)" "same_run a st st'"
  shows "same_run a (record_all a outcs st) (record_all a (filter (\<lambda>x. \<not> rate_limited x) outcs) st')"
  using assms(2)
proof (induction outcs arbitrary: st st')
  case (Cons outc outcs)
  show ?case
  proof (cases "rate_limited outc")
    case True
    then have "same_run a (fst (record_outcome a outc st)) st'"
      using rate_limit_same_run [OF assms(1) True, of st] Cons.prems by (simp add: same_run_def)
    then show ?thesis using True Cons.IH by simp
  next
    case False
    then show ?thesis using Cons.IH [OF record_outcome_run_cong [OF assms(1) Cons.prems]] by simp
  qed
qed simp

text \<open>Being rate limited by Discord spends no retry: over any sequence of outcomes, of whatever
  kinds, dropping the rate-limited sends changes neither the retry count, the backoff, nor
  whether the feed counts as reachable at the end.\<close>

theorem rate_limits_spend_no_retry:
  assumes "condition_laws (at_conditions a)"
  shows "let st1 = record_all a outcs st; st2 = record_all a (filter (\<lambda>x. \<not> rate_limited x) outcs) st
    in retry_count (st_fs st1) = retry_count (st_fs st2) \<and>
       backoff_until (st_fs st1) = backoff_until (st_fs st2) \<and>
       cond_is_false (at_conditions a) (conditions (st_fs st1)) FeedConditionTypeReachable =
       cond_is_false (at_conditions a) (conditions (st_fs st2)) FeedConditionTypeReachable"
proof -
  have "same_run a st st" by (simp add: same_run_def)
  from record_all_run_cong [OF assms this] show ?thesis by (simp add: same_run_def Let_def)
qed

lemma rate_limits_spend_no_retry_witness:
  "retry_count (st_fs (record_all example_attempt
     [attemptRenderFailed (PlainError ''x''), attemptSendFailed (RateLimitError 1000)] example_state)) = 1"
proof -
  have rl: "rate_limited (attemptSendFailed (RateLimitError 1000))"
    "\<not> rate_limited (attemptRenderFailed (PlainError ''x''))"
    by (simp_all add: rate_limited_def as_type_def List.map_filter_simps)
  show ?thesis
    using rate_limits_spend_no_retry [OF example_laws, of
        "[attemptRenderFailed (PlainError ''x''), attemptSendFailed (RateLimitError 1000)]" example_state]
      transient_step(1) [of "attemptRenderFailed (PlainError ''x'')" example_attempt example_state]
    by (simp add: rl Let_def) (simp add: example_state_def new_feed_status_def int32_id)
qed

subsection \<open>The runs of the two phases\<close>

lemma fetch_failure_ended:
  assumes K: "condition_laws (at_conditions a)"
    and "0 \<le> retry_count (st_fs st)" "retry_count (st_fs st) < 2 ^ 31 - 1"
  shows "retry_count (st_fs (fst (record_outcome a attemptFetchSucceeded
       (fst (record_outcome a (attemptFetchFailed e) st))))) = 0"
    and "backoff_until (st_fs (fst (record_outcome a attemptFetchSucceeded
       (fst (record_outcome a (attemptFetchFailed e) st))))) = []"
proof -
  let ?st = "fst (record_outcome a (attemptFetchFailed e) st)"
  have "0 < retry_count (st_fs ?st)"
    using assms(2,3) int32_id [of "retry_count (st_fs st) + 1"]
    by (simp add: record_simps run_simps status_frame)
  then have "in_progress (st_fs ?st)" by (simp add: in_progress_def)
  then show "retry_count (st_fs (fst (record_outcome a attemptFetchSucceeded ?st))) = 0"
    "backoff_until (st_fs (fst (record_outcome a attemptFetchSucceeded ?st))) = []"
    using reachable_after(2) [OF K, of e st]
    by (simp_all add: record_fetch_succeeded status_frame run_simps fetch_succeeded_def)
qed

lemma delivery_run_kept:
  assumes K: "condition_laws (at_conditions a)"
    and "cond_is_true (at_conditions a) (conditions (st_fs st)) FeedConditionTypeReachable"
  shows "retry_count (st_fs (fst (record_outcome a attemptFetchSucceeded st))) = retry_count (st_fs st)"
    and "backoff_until (st_fs (fst (record_outcome a attemptFetchSucceeded st))) = backoff_until (st_fs st)"
    and "0 < retry_count (st_fs st) \<Longrightarrow>
      retry_count (st_fs (fst (record_outcome a (attemptFetchFailed e) st))) = 1"
    and "0 < retry_count (st_fs st) \<Longrightarrow> \<not> permanent (classifyFetchError e) \<Longrightarrow>
      backoff_until (st_fs (fst (record_outcome a (attemptFetchFailed e) st))) = []"
  using assms(2)
  by (auto simp: record_simps status_frame run_simps fetch_succeeded_def in_progress_def
      condition_laws_is [OF K] split: option.splits)

lemma reachable_kept:
  assumes K: "condition_laws (at_conditions a)" and "delivery_failure d"
  shows "cond_is_true (at_conditions a)
     (conditions (st_fs (fst (record_outcome a d (fst (record_outcome a attemptFetchSucceeded st))))))
     FeedConditionTypeReachable"
  using delivery_failure_run(3) [OF assms(2) K, of "fst (record_outcome a attemptFetchSucceeded st)"]
    reachable_after(1) [OF K, of st]
  by (simp add: condition_laws_is [OF K])

text \<open>The fetch and the delivery phase do not share a retry run.  A fetch that succeeds after
  one that failed ends the run, backoff included.  A fetch that succeeds while deliveries are
  failing leaves their run alone, and a fetch failure on such a feed starts counting at one,
  without the backoff the deliveries had earned.\<close>

theorem retry_runs_do_not_mix:
  fixes st :: "('m, 'z) attempt_state_scheme"
  assumes "condition_laws (at_conditions a)" "delivery_failure d"
    and "0 \<le> retry_count (st_fs st)" "retry_count (st_fs st) < 2 ^ 31 - 1"
  shows "let ok = (\<lambda>st. fst (record_outcome a attemptFetchSucceeded st));
             failing = (\<lambda>st. fst (record_outcome a (attemptFetchFailed e) st));
             delivering = fst (record_outcome a d (ok (ok (failing st))))
    in retry_count (st_fs (ok (failing st))) = 0 \<and> backoff_until (st_fs (ok (failing st))) = [] \<and>
       retry_count (st_fs delivering) = 1 \<and>
       retry_count (st_fs (ok delivering)) = 1 \<and>
       backoff_until (st_fs (ok delivering)) = backoff_until (st_fs delivering) \<and>
       retry_count (st_fs (failing delivering)) = 1 \<and>
       (permanent (classifyFetchError e) \<or> backoff_until (st_fs (failing delivering)) = [])"
proof -
  define ok where "ok = (\<lambda>st::('m, 'z) attempt_state_scheme. fst (record_outcome a attemptFetchSucceeded st))"
  define failing where "failing = (\<lambda>st::('m, 'z) attempt_state_scheme. fst (record_outcome a (attemptFetchFailed e) st))"
  define st1 where "st1 = ok (failing st)"
  define delivering where "delivering = fst (record_outcome a d (ok st1))"
  have ended: "retry_count (st_fs st1) = 0" "backoff_until (st_fs st1) = []"
    unfolding st1_def ok_def failing_def using fetch_failure_ended [OF assms(1,3,4)] by simp_all
  have up: "cond_is_true (at_conditions a) (conditions (st_fs st1)) FeedConditionTypeReachable"
    unfolding st1_def ok_def by (rule reachable_after(1) [OF assms(1)])
  have up2: "cond_is_true (at_conditions a) (conditions (st_fs delivering)) FeedConditionTypeReachable"
    unfolding delivering_def ok_def by (rule reachable_kept [OF assms(1,2)])
  have "retry_count (st_fs (ok st1)) = 0"
    using delivery_run_kept(1) [OF assms(1) up] ended unfolding ok_def by simp
  then have one: "retry_count (st_fs delivering) = 1"
    unfolding delivering_def using delivery_failure_run(1) [OF assms(2), of a "ok st1"] by (simp add: int32_id)
  show ?thesis
    unfolding Let_def ok_def [symmetric] failing_def [symmetric] st1_def [symmetric] delivering_def [symmetric]
    using ended one delivery_run_kept [OF assms(1) up2] unfolding ok_def failing_def by auto
qed

lemma retry_runs_do_not_mix_witness:
  "let e = PlainError ''x'';
       ok = (\<lambda>st. fst (record_outcome example_attempt attemptFetchSucceeded st));
       failing = (\<lambda>st. fst (record_outcome example_attempt (attemptFetchFailed e) st))
   in retry_count (st_fs (failing (fst (record_outcome example_attempt (attemptRenderFailed e)
        (ok (ok (failing example_state))))))) = 1"
  using retry_runs_do_not_mix [OF example_laws, of "attemptRenderFailed (PlainError ''x'')" example_state
      "PlainError ''x''"]
  by (simp add: Let_def) (simp add: example_state_def new_feed_status_def)

end
