(* ===== verification/Delivery.thy ===== *)
theory Delivery
  imports Ledger Attempt
begin

text \<open>
  What a sync delivers: the plan (\<^verbatim>\<open>internal/controller/delivery_plan.go\<close>) and the send loop
  (\<^verbatim>\<open>internal/controller/delivery.go\<close>).

  The renderer is a record of its two operations and the sender a function on the state
  \<open>'s\<close> of the world behind the webhook: both are ports of the code.  Either may panic, which
  the loop does not recover: its result is then \<open>Panicked\<close>, with the state as the panic left
  it.
\<close>

subsection \<open>The plan\<close>

definition defaultCatchUpLimit :: int where "defaultCatchUpLimit = 5"

definition catchUpLimitOf :: "feed_group_spec \<Rightarrow> int" where
  "catchUpLimitOf spec =
     (case sp_catch_up_limit spec of Some limit \<Rightarrow> limit | None \<Rightarrow> defaultCatchUpLimit)"

definition limitCatchUp :: "entry list \<Rightarrow> int \<Rightarrow> entry list" where
  "limitCatchUp es limit =
     (let limit = (if limit \<le> 0 then defaultCatchUpLimit else limit)
      in if int (length es) \<le> limit then es else drop (nat (int (length es) - limit)) es)"

record delivery_inputs =
  di_entries :: "entry list"
  di_watermark :: watermark_lookup
  di_catchUpLimit :: int
  di_wasInitialized :: bool

record delivery_plan =
  dp_scan :: "entry list"
  dp_resumeAt :: int
  dp_skipBacklog :: bool

definition plan_of :: "entry list \<Rightarrow> delivery_plan" where
  "plan_of es = \<lparr>dp_scan = es, dp_resumeAt = 0, dp_skipBacklog = False\<rparr>"

definition plan_entries :: "delivery_plan \<Rightarrow> entry list" where
  "plan_entries p = drop (nat (dp_resumeAt p)) (dp_scan p)"

definition renderEvidence :: "delivery_plan \<Rightarrow> entry list" where
  "renderEvidence p = dp_scan p"

definition planDelivery :: "delivery_inputs \<Rightarrow> delivery_plan" where
  "planDelivery i =
     (if wl_state (di_watermark i) = watermarkFound
      then (plan_of (di_entries i))\<lparr>dp_resumeAt := wl_index (di_watermark i) + 1\<rparr>
      else if di_catchUpLimit i = 0 \<and> wl_state (di_watermark i) = watermarkNone
      then if \<not> di_wasInitialized i then (plan_of [])\<lparr>dp_skipBacklog := True\<rparr>
           else plan_of (di_entries i)
      else plan_of (limitCatchUp (di_entries i) (di_catchUpLimit i)))"

subsection \<open>Ports and state\<close>

datatype go_panic = RuntimePanic string | OtherPanic string

datatype 'a result = Returned 'a | Panicked go_panic

datatype 'm built = Built 'm int | BuildError go_error | BuildPanic go_panic

datatype send_result = SendOk | SendError go_error | SendPanic go_panic

record 'm renderer =
  rd_matches :: "entry \<Rightarrow> bool"
  rd_build :: "entry \<Rightarrow> 'm built"

type_synonym ('m, 's) message_sender = "'m \<Rightarrow> 's \<Rightarrow> send_result \<times> 's"

text \<open>The mutable part of a \<open>feedSync\<close> beside the status, the effects and the clock: the world
  behind the sender, how many entries were handled, and whether \<open>close\<close> has started.\<close>

record ('m, 's) sync_state = "'m attempt_state" +
  sy_world :: 's
  sy_handled :: nat
  sy_closing :: bool

record fetch_result =
  fr_entries :: "entry list"
  fr_feed_title :: string
  fr_etag :: string
  fr_last_modified :: string
  fr_not_modified :: bool

text \<open>The part of a \<open>feedSync\<close> that stays as it is once \<open>begin\<close> has run.\<close>

record feed_sync =
  fy_fetch :: fetch_result
  fy_catchUpLimit :: int
  fy_now :: int
  fy_wasInitialized :: bool
  fy_ledger :: ledger
  fy_plan :: delivery_plan
  fy_skippedBacklog :: int

record ('m, 's) entry_delivery =
  dl_renderer :: "'m renderer"
  dl_syncer :: feed_sync
  dl_attempt :: feed_attempt
  dl_sender :: "('m, 's) message_sender"

text \<open>\<open>feedSync.sent\<close> and \<open>feedSync.markHandled\<close>.\<close>

definition sync_sent :: "go_env \<Rightarrow> feed_sync \<Rightarrow> ('m, 's) sync_state \<Rightarrow> entry \<Rightarrow> bool" where
  "sync_sent E s st e = sent E (fy_ledger s) (st_fs st) e"

definition sync_markHandled :: "go_env \<Rightarrow> feed_sync \<Rightarrow> entry \<Rightarrow> ('m, 's) sync_state
    \<Rightarrow> ('m, 's) sync_state" where
  "sync_markHandled E s e st =
     (on_fs (markHandled E (fy_ledger s) e (format_rfc3339 (fy_now s))) st)
       \<lparr>sy_handled := sy_handled st + 1\<rparr>"

subsection \<open>The send loop\<close>

definition dl_env :: "('m, 's) entry_delivery \<Rightarrow> go_env" where
  "dl_env d = at_env (dl_attempt d)"

fun other_renders :: "('m, 's) entry_delivery \<Rightarrow> entry \<Rightarrow> entry list \<Rightarrow> bool result" where
  "other_renders d skip [] = Returned False"
| "other_renders d skip (other # others) =
     (if entryIdentity (dl_env d) other = entryIdentity (dl_env d) skip
         \<or> \<not> rd_matches (dl_renderer d) other
      then other_renders d skip others
      else case rd_build (dl_renderer d) other of
             Built m ov \<Rightarrow> Returned True
           | BuildError e \<Rightarrow> other_renders d skip others
           | BuildPanic p \<Rightarrow> Panicked p)"

definition otherEntryRenders :: "('m, 's) entry_delivery \<Rightarrow> entry \<Rightarrow> bool result" where
  "otherEntryRenders d skip = other_renders d skip (renderEvidence (fy_plan (dl_syncer d)))"

definition renderFailed :: "('m, 's) entry_delivery \<Rightarrow> entry \<Rightarrow> go_error \<Rightarrow> ('m, 's) sync_state
    \<Rightarrow> ('m, 's) sync_state \<times> (attempt_verdict \<times> bool) result" where
  "renderFailed d e err st =
     (let (st1, verdict) = record_outcome (dl_attempt d) (attemptRenderFailed err) st
      in if pastRetryLimit (dl_attempt d) st1
         then case otherEntryRenders d e of
                Panicked p \<Rightarrow> (st1, Panicked p)
              | Returned False \<Rightarrow> (st1, Returned (verdict, False))
              | Returned True \<Rightarrow>
                  let st2 = sync_markHandled (dl_env d) (dl_syncer d) e st1;
                      (st3, _) = record_outcome (dl_attempt d) (attemptEntrySkipped (en_title e) err) st2
                  in (st3, Returned (no_verdict, True))
         else (st1, Returned (verdict, False)))"

text \<open>A call of the sender: the message is posted, and the world says how it went.\<close>

definition send_message :: "('m, 's) entry_delivery \<Rightarrow> 'm \<Rightarrow> ('m, 's) sync_state
    \<Rightarrow> ('m, 's) sync_state \<times> send_result" where
  "send_message d m st =
     (let (res, w) = dl_sender d m (sy_world st)
      in ((emit (Post m) st)\<lparr>sy_world := w\<rparr>, res))"

fun delivery_run :: "('m, 's) entry_delivery \<Rightarrow> entry list \<Rightarrow> ('m, 's) sync_state
    \<Rightarrow> ('m, 's) sync_state \<times> attempt_verdict result" where
  "delivery_run d [] st = (st, Returned no_verdict)"
| "delivery_run d (e # es) st =
     (if sync_sent (dl_env d) (dl_syncer d) st e then delivery_run d es st
      else if \<not> rd_matches (dl_renderer d) e then delivery_run d es st
      else case rd_build (dl_renderer d) e of
        BuildPanic p \<Rightarrow> (st, Panicked p)
      | BuildError err \<Rightarrow>
          (case renderFailed d e err st of
             (st1, Panicked p) \<Rightarrow> (st1, Panicked p)
           | (st1, Returned (verdict, skipped)) \<Rightarrow>
               if skipped then delivery_run d es st1 else (st1, Returned verdict))
      | Built m overflow \<Rightarrow>
          let st1 = (if overflow > 0 then emit (OverflowMetric overflow) st else st);
              (st2, res) = send_message d m st1
          in case res of
               SendPanic p \<Rightarrow> (st2, Panicked p)
             | SendError err \<Rightarrow>
                 (let (st3, verdict) = record_outcome (dl_attempt d) (attemptSendFailed err) st2
                  in (st3, Returned verdict))
             | SendOk \<Rightarrow>
                 let st3 = sync_markHandled (dl_env d) (dl_syncer d) e st2;
                     (st4, _) = record_outcome (dl_attempt d) attemptSent st3
                 in delivery_run d es st4)"

text \<open>\<open>entryDelivery.run\<close>.\<close>

definition run_delivery :: "('m, 's) entry_delivery \<Rightarrow> ('m, 's) sync_state
    \<Rightarrow> ('m, 's) sync_state \<times> attempt_verdict result" where
  "run_delivery d st = delivery_run d (plan_entries (fy_plan (dl_syncer d))) st"

end
