(* ===== verification/Delivery_Laws.thy ===== *)
theory Delivery_Laws
  imports Delivery Ledger_Laws Attempt_Policy
    "HOL-Library.Sublist"
begin

text \<open>
  What the send loop guarantees, by rule induction on \<open>delivers\<close>, its runs told apart by
  what became of each entry: \<open>hs\<close> are the entries handled, \<open>ps\<close> the ones posted, and \<open>rs\<close>
  the rest of the scan from the entry it stopped at.
\<close>

definition posts :: "'m effect list \<Rightarrow> 'm list" where
  "posts effs = List.map_filter (\<lambda>eff. case eff of Post m \<Rightarrow> Some m | _ \<Rightarrow> None) effs"

lemma posts_simps [simp]:
  "posts [] = []" "posts (xs @ ys) = posts xs @ posts ys" "posts (Post m # xs) = m # posts xs"
  "posts (OperationMetric u l # xs) = posts xs" "posts (CheckSucceededMetric n # xs) = posts xs"
  "posts (OverflowMetric n # xs) = posts xs" "posts (WarningEvent x y z # xs) = posts xs"
  by (simp_all add: posts_def List.map_filter_def)

lemma apply_outcome_posts [simp]:
  "posts (st_log (fst (apply_outcome a c outc st))) = posts (st_log st)"
  by (cases outc) (simp_all add: Let_def case_prod_beta)

lemma record_posts [simp]:
  "posts (st_log (fst (record_outcome a outc st))) = posts (st_log st)"
  unfolding record_outcome_form by simp

lemma same_more:
  fixes st st' :: "('m, 's) sync_state"
  assumes "attempt_state.more st = attempt_state.more st'"
  shows "sy_world st = sy_world st'" "sy_handled st = sy_handled st'" "sy_closing st = sy_closing st'"
  using assms by (cases st; cases st'; simp)+

lemmas record_same_more [simp] = same_more [OF record_more]

lemma sync_markHandled_simps [simp]:
  "st_fs (sync_markHandled E s e st) = markHandled E (fy_ledger s) e (format_rfc3339 (fy_now s)) (st_fs st)"
  "st_log (sync_markHandled E s e st) = st_log st"
  "sy_handled (sync_markHandled E s e st) = sy_handled st + 1"
  "sy_world (sync_markHandled E s e st) = sy_world st"
  "sy_closing (sync_markHandled E s e st) = sy_closing st"
  by (simp_all add: sync_markHandled_def on_fs_def)

lemma send_message_simps [simp]:
  "st_fs (fst (send_message d m st)) = st_fs st"
  "st_log (fst (send_message d m st)) = st_log st @ [Post m]"
  "sy_handled (fst (send_message d m st)) = sy_handled st"
  "sy_closing (fst (send_message d m st)) = sy_closing st"
  by (simp_all add: send_message_def case_prod_beta emit_def)

lemma emit_sync_simps [simp]:
  fixes st :: "('m, 's) sync_state"
  shows "sy_handled (emit eff st) = sy_handled st" "sy_closing (emit eff st) = sy_closing st"
    "sy_world (emit eff st) = sy_world st"
  by (simp_all add: emit_def)

subsection \<open>Runs\<close>

text \<open>The states an entry passes through on the two branches that handle it.\<close>

definition observed :: "int \<Rightarrow> ('m, 's) sync_state \<Rightarrow> ('m, 's) sync_state" where
  "observed overflow st = (if overflow > 0 then emit (OverflowMetric overflow) st else st)"

definition after_sent :: "('m, 's) entry_delivery \<Rightarrow> entry \<Rightarrow> ('m, 's) sync_state \<Rightarrow> ('m, 's) sync_state" where
  "after_sent d e st =
     fst (record_outcome (dl_attempt d) attemptSent (sync_markHandled (dl_env d) (dl_syncer d) e st))"

inductive delivers :: "('m, 's) entry_delivery \<Rightarrow> entry list \<Rightarrow> ('m, 's) sync_state \<Rightarrow> entry list
    \<Rightarrow> entry list \<Rightarrow> entry list \<Rightarrow> ('m, 's) sync_state \<Rightarrow> attempt_verdict result \<Rightarrow> bool"
  for d where
  scanned: "delivers d [] st [] [] [] st (Returned no_verdict)"
| already_sent: "sync_sent (dl_env d) (dl_syncer d) st e \<Longrightarrow> delivers d es st hs ps rs st' r
    \<Longrightarrow> delivers d (e # es) st hs ps rs st' r"
| filtered_out: "\<not> sync_sent (dl_env d) (dl_syncer d) st e \<Longrightarrow> \<not> rd_matches (dl_renderer d) e
    \<Longrightarrow> delivers d es st hs ps rs st' r \<Longrightarrow> delivers d (e # es) st hs ps rs st' r"
| skipped: "\<not> sync_sent (dl_env d) (dl_syncer d) st e \<Longrightarrow> rd_matches (dl_renderer d) e
    \<Longrightarrow> rd_build (dl_renderer d) e = BuildError err
    \<Longrightarrow> renderFailed d e err st = (st1, Returned (v, True))
    \<Longrightarrow> delivers d es st1 hs ps rs st' r \<Longrightarrow> delivers d (e # es) st (e # hs) ps rs st' r"
| render_stops: "\<not> sync_sent (dl_env d) (dl_syncer d) st e \<Longrightarrow> rd_matches (dl_renderer d) e
    \<Longrightarrow> rd_build (dl_renderer d) e = BuildError err
    \<Longrightarrow> renderFailed d e err st = (st1, Returned (v, False))
    \<Longrightarrow> delivers d (e # es) st [] [] (e # es) st1 (Returned v)"
| evidence_panics: "\<not> sync_sent (dl_env d) (dl_syncer d) st e \<Longrightarrow> rd_matches (dl_renderer d) e
    \<Longrightarrow> rd_build (dl_renderer d) e = BuildError err
    \<Longrightarrow> renderFailed d e err st = (st1, Panicked p)
    \<Longrightarrow> delivers d (e # es) st [] [] (e # es) st1 (Panicked p)"
| build_panics: "\<not> sync_sent (dl_env d) (dl_syncer d) st e \<Longrightarrow> rd_matches (dl_renderer d) e
    \<Longrightarrow> rd_build (dl_renderer d) e = BuildPanic p
    \<Longrightarrow> delivers d (e # es) st [] [] (e # es) st (Panicked p)"
| posted: "\<not> sync_sent (dl_env d) (dl_syncer d) st e \<Longrightarrow> rd_matches (dl_renderer d) e
    \<Longrightarrow> rd_build (dl_renderer d) e = Built m overflow
    \<Longrightarrow> send_message d m (observed overflow st) = (st1, SendOk)
    \<Longrightarrow> delivers d es (after_sent d e st1) hs ps rs st' r
    \<Longrightarrow> delivers d (e # es) st (e # hs) (e # ps) rs st' r"
| send_stops: "\<not> sync_sent (dl_env d) (dl_syncer d) st e \<Longrightarrow> rd_matches (dl_renderer d) e
    \<Longrightarrow> rd_build (dl_renderer d) e = Built m overflow
    \<Longrightarrow> send_message d m (observed overflow st) = (st1, SendError err)
    \<Longrightarrow> record_outcome (dl_attempt d) (attemptSendFailed err) st1 = (st2, v)
    \<Longrightarrow> delivers d (e # es) st [] [e] (e # es) st2 (Returned v)"
| send_panics: "\<not> sync_sent (dl_env d) (dl_syncer d) st e \<Longrightarrow> rd_matches (dl_renderer d) e
    \<Longrightarrow> rd_build (dl_renderer d) e = Built m overflow
    \<Longrightarrow> send_message d m (observed overflow st) = (st1, SendPanic p)
    \<Longrightarrow> delivers d (e # es) st [] [e] (e # es) st1 (Panicked p)"

lemma run_delivers:
  "\<exists>hs ps rs. delivers d es st hs ps rs (fst (delivery_run d es st)) (snd (delivery_run d es st))"
proof (induction es arbitrary: st)
  case Nil
  show ?case by (auto intro: scanned)
next
  case (Cons e es)
  note IH = Cons.IH
  consider (known) "sync_sent (dl_env d) (dl_syncer d) st e"
    | (off) "\<not> sync_sent (dl_env d) (dl_syncer d) st e" "\<not> rd_matches (dl_renderer d) e"
    | (live) "\<not> sync_sent (dl_env d) (dl_syncer d) st e" "rd_matches (dl_renderer d) e" by blast
  then show ?case
  proof cases
    case known
    then show ?thesis using IH [of st] by (auto intro: already_sent)
  next
    case off
    then show ?thesis using IH [of st] by (auto intro: filtered_out)
  next
    case live
    show ?thesis
    proof (cases "rd_build (dl_renderer d) e")
      case (BuildPanic p)
      then show ?thesis using live by (auto intro: build_panics)
    next
      case (BuildError err)
      obtain st1 q where rf: "renderFailed d e err st = (st1, q)" by fastforce
      show ?thesis
      proof (cases q)
        case (Panicked p)
        then show ?thesis using live BuildError rf by (auto intro: evidence_panics)
      next
        case (Returned vs)
        obtain v s where vs: "vs = (v, s)" by fastforce
        show ?thesis
          using live BuildError rf Returned vs IH [of st1]
          by (cases s) (auto intro: skipped render_stops)
      qed
    next
      case (Built m overflow)
      obtain st1 res where sm: "send_message d m (observed overflow st) = (st1, res)" by fastforce
      have eq: "delivery_run d (e # es) st =
         (case res of SendPanic p \<Rightarrow> (st1, Panicked p)
          | SendError err \<Rightarrow> (let (st3, verdict) = record_outcome (dl_attempt d) (attemptSendFailed err) st1
                              in (st3, Returned verdict))
          | SendOk \<Rightarrow> delivery_run d es (after_sent d e st1))"
        using live Built sm
        by (simp add: observed_def [symmetric] after_sent_def Let_def case_prod_beta split: send_result.split)
      show ?thesis
      proof (cases res)
        case SendOk
        then show ?thesis
          unfolding eq using live Built sm IH [of "after_sent d e st1"] by (auto intro: posted)
      next
        case (SendError err)
        obtain st2 v where "record_outcome (dl_attempt d) (attemptSendFailed err) st1 = (st2, v)" by fastforce
        then show ?thesis
          unfolding eq using live Built sm SendError by (auto intro: send_stops)
      next
        case (SendPanic p)
        then show ?thesis unfolding eq using live Built sm by (auto intro: send_panics)
      qed
    qed
  qed
qed

inductive_cases delivers_NilE: "delivers d [] st hs ps rs st' r"
inductive_cases delivers_ConsE: "delivers d (e # es) st hs ps rs st' r"

text \<open>A run has one account of its entries.\<close>

lemma delivers_unique:
  "delivers d es st hs ps rs st' r \<Longrightarrow> delivers d es st hs' ps' rs' st'' r' \<Longrightarrow>
     hs' = hs \<and> ps' = ps \<and> rs' = rs \<and> st'' = st' \<and> r' = r"
proof (induction arbitrary: hs' ps' rs' st'' r' rule: delivers.induct)
  case (scanned st)
  then show ?case by (auto elim: delivers_NilE)
next
  case (already_sent st e es hs ps rs st' r)
  from already_sent.prems show ?case by (cases rule: delivers_ConsE) (use already_sent.hyps in \<open>auto dest!: already_sent.IH\<close>)
next
  case (filtered_out st e es hs ps rs st' r)
  from filtered_out.prems show ?case by (cases rule: delivers_ConsE) (use filtered_out.hyps in \<open>auto dest!: filtered_out.IH\<close>)
next
  case (skipped st e err st1 v es hs ps rs st' r)
  from skipped.prems show ?case by (cases rule: delivers_ConsE) (use skipped.hyps in \<open>auto dest!: skipped.IH\<close>)
next
  case (posted st e m overflow st1 es hs ps rs st' r)
  from posted.prems show ?case by (cases rule: delivers_ConsE) (use posted.hyps in \<open>auto dest!: posted.IH\<close>)
next
  case (render_stops st e err st1 v es)
  from render_stops.prems show ?case by (cases rule: delivers_ConsE) (use render_stops.hyps in auto)
next
  case (evidence_panics st e err st1 p es)
  from evidence_panics.prems show ?case by (cases rule: delivers_ConsE) (use evidence_panics.hyps in auto)
next
  case (build_panics st e p es)
  from build_panics.prems show ?case by (cases rule: delivers_ConsE) (use build_panics.hyps in auto)
next
  case (send_stops st e m overflow st1 err st2 v es)
  from send_stops.prems show ?case by (cases rule: delivers_ConsE) (use send_stops.hyps in auto)
next
  case (send_panics st e m overflow st1 p es)
  from send_panics.prems show ?case by (cases rule: delivers_ConsE) (use send_panics.hyps in auto)
qed

subsection \<open>What each step changes\<close>

lemma observed_world [simp]: "sy_world (observed ov st) = sy_world st"
  by (simp add: observed_def)

text \<open>The status fields the loop never writes.\<close>

definition loop_frame :: "feed_status \<Rightarrow> string \<times> string \<times> bool \<times> int \<times> string \<times> string" where
  "loop_frame fs = (fs_url fs, last_checked fs, initialized fs, state_version fs, etag fs, last_modified fs)"

definition sent_now :: "('m, 's) entry_delivery \<Rightarrow> string" where
  "sent_now d = format_rfc3339 (fy_now (dl_syncer d))"

abbreviation ledger_for :: "('m, 's) entry_delivery \<Rightarrow> entry list \<Rightarrow> bool" where
  "ledger_for d all \<equiv> fy_ledger (dl_syncer d) = newDeliveryLedger (dl_env d) all"

text \<open>The records of \<open>st'\<close> are those of \<open>st\<close> after handling \<open>hs\<close> in order.\<close>

definition handled_from :: "('m, 's) entry_delivery \<Rightarrow> entry list \<Rightarrow> entry list \<Rightarrow> ('m, 's) sync_state
    \<Rightarrow> ('m, 's) sync_state \<Rightarrow> bool" where
  "handled_from d all hs st st' \<longleftrightarrow>
     (\<forall>k. map_of (last_sent (st_fs st')) k =
        (if \<exists>h \<in> set hs. k \<in> set (entry_keys (dl_env d) all h) then Some (sent_now d)
         else map_of (last_sent (st_fs st)) k)) \<and>
     last_seen_entry (st_fs st') = (if hs = [] then last_seen_entry (st_fs st)
        else clampWatermark (entryIdentity (dl_env d) (hs ! (length hs - 1)))) \<and>
     sy_handled st' = sy_handled st + length hs \<and>
     sy_closing st' = sy_closing st \<and> loop_frame (st_fs st') = loop_frame (st_fs st)"

lemma handled_from_refl: "handled_from d all [] st st"
  by (simp add: handled_from_def)

lemma handled_from_Cons:
  assumes "handled_from d all [e] st st1" "handled_from d all hs st1 st'"
  shows "handled_from d all (e # hs) st st'"
  using assms by (cases hs) (auto simp: handled_from_def)

lemma handled_from_Nil_trans:
  assumes "handled_from d all [] st st1" "handled_from d all hs st1 st'"
  shows "handled_from d all hs st st'"
  using assms by (auto simp: handled_from_def)

lemma apply_last_checked [status_frame]:
  "outc \<noteq> attemptFetchSucceeded \<Longrightarrow>
   last_checked (st_fs (fst (apply_outcome a c outc st))) = last_checked (st_fs st)"
  by (cases outc) (simp_all add: Let_def case_prod_beta status_frame)

lemma resolve_fetched: "fst (resolve outc) = attemptFetchSucceeded \<Longrightarrow> outc = attemptFetchSucceeded"
  by (cases outc) (auto split: if_splits)

lemma record_last_checked [status_frame]:
  assumes "outc \<noteq> attemptFetchSucceeded"
  shows "last_checked (st_fs (fst (record_outcome a outc st))) = last_checked (st_fs st)"
proof -
  have "fst (resolve outc) \<noteq> attemptFetchSucceeded" using assms resolve_fetched by blast
  then show ?thesis unfolding record_outcome_form by (simp add: apply_last_checked)
qed

lemma record_handles_nothing:
  fixes st :: "('m, 's) sync_state"
  assumes "outc \<noteq> attemptFetchSucceeded"
  shows "handled_from d all [] st (fst (record_outcome a outc st))"
  using assms by (simp add: handled_from_def loop_frame_def status_frame)

lemma mark_handles:
  assumes "ledger_for d all"
  shows "handled_from d all [e] st (sync_markHandled (dl_env d) (dl_syncer d) e st)"
  using assms
  by (simp add: handled_from_def loop_frame_def status_frame markHandled_sent_map sent_now_def)
    (simp add: markHandled_eq)

lemma render_failed_cases:
  assumes "renderFailed d e err st = (st1, q)"
  obtains (stops) v where "q = Returned (v, False)" "v_pending v"
      "st1 = fst (record_outcome (dl_attempt d) (attemptRenderFailed err) st)"
  | (panics) p where "q = Panicked p" "otherEntryRenders d e = Panicked p"
      "st1 = fst (record_outcome (dl_attempt d) (attemptRenderFailed err) st)"
  | (skips) "q = Returned (no_verdict, True)" "otherEntryRenders d e = Returned True"
      "pastRetryLimit (dl_attempt d) (fst (record_outcome (dl_attempt d) (attemptRenderFailed err) st))"
      "st1 = fst (record_outcome (dl_attempt d) (attemptEntrySkipped (en_title e) err)
         (sync_markHandled (dl_env d) (dl_syncer d) e
           (fst (record_outcome (dl_attempt d) (attemptRenderFailed err) st))))"
proof -
  have pend: "v_pending (snd (record_outcome (dl_attempt d) (attemptRenderFailed err) st))"
    by (simp add: record_render_failed case_prod_beta)
  show thesis
  proof (cases "pastRetryLimit (dl_attempt d) (fst (record_outcome (dl_attempt d) (attemptRenderFailed err) st))")
    case False
    then show ?thesis using assms pend
      by (intro stops [of "snd (record_outcome (dl_attempt d) (attemptRenderFailed err) st)"])
        (auto simp: renderFailed_def Let_def case_prod_beta)
  next
    case True
    show ?thesis
    proof (cases "otherEntryRenders d e")
      case (Panicked p)
      then show ?thesis using assms True
        by (intro panics [of p]) (auto simp: renderFailed_def Let_def case_prod_beta)
    next
      case (Returned b)
      show ?thesis
      proof (cases b)
        case True
        then show ?thesis using assms Returned \<open>pastRetryLimit _ _\<close>
          by (intro skips) (auto simp: renderFailed_def Let_def case_prod_beta)
      next
        case False
        then show ?thesis using assms Returned True pend
          by (intro stops [of "snd (record_outcome (dl_attempt d) (attemptRenderFailed err) st)"])
            (auto simp: renderFailed_def Let_def case_prod_beta)
      qed
    qed
  qed
qed

lemma render_failed_posts:
  assumes "renderFailed d e err st = (st1, q)"
  shows "posts (st_log st1) = posts (st_log st)"
  using assms by (cases rule: render_failed_cases) simp_all

lemma render_failed_world: "renderFailed d e err st = (st1, q) \<Longrightarrow> sy_world st1 = sy_world st"
  by (erule render_failed_cases) simp_all

lemma render_failed_handles:
  assumes "ledger_for d all" "renderFailed d e err st = (st1, q)"
  shows "handled_from d all (if \<exists>v. q = Returned (v, True) then [e] else []) st st1"
  using assms(2)
proof (cases rule: render_failed_cases)
  case skips
  let ?st = "fst (record_outcome (dl_attempt d) (attemptRenderFailed err) st)"
  have "handled_from d all [e] ?st (sync_markHandled (dl_env d) (dl_syncer d) e ?st)"
    by (rule mark_handles [OF assms(1)])
  from handled_from_Cons [OF this record_handles_nothing]
  have "handled_from d all [e] ?st st1" unfolding skips(4) by simp
  from handled_from_Nil_trans [OF record_handles_nothing this] show ?thesis using skips(1) by simp
qed (simp_all add: record_handles_nothing)

lemma send_handles_nothing:
  assumes "send_message d m (observed ov st) = (st1, res)"
  shows "handled_from d all [] st st1" and "posts (st_log st1) = posts (st_log st) @ [m]"
proof -
  have "st1 = fst (send_message d m (observed ov st))" using assms by simp
  then show "handled_from d all [] st st1" "posts (st_log st1) = posts (st_log st) @ [m]"
    by (simp_all add: handled_from_def observed_def loop_frame_def)
qed

lemma sent_handles:
  assumes "ledger_for d all"
  shows "handled_from d all [e] st (after_sent d e st)" and "posts (st_log (after_sent d e st)) = posts (st_log st)"
proof -
  have "handled_from d all [e] st (sync_markHandled (dl_env d) (dl_syncer d) e st)"
    by (rule mark_handles [OF assms])
  from handled_from_Cons [OF this record_handles_nothing]
  show "handled_from d all [e] st (after_sent d e st)" unfolding after_sent_def by simp
qed (simp add: after_sent_def)

lemma delivers_handles:
  assumes "delivers d es st hs ps rs st' r" "ledger_for d all"
  shows "handled_from d all hs st st'"
  using assms(1)
proof (induction rule: delivers.induct)
  case (skipped st e err st1 v es hs ps rs st' r)
  then show ?case using render_failed_handles [OF assms(2)] handled_from_Cons by fastforce
next
  case (posted st e m ov st1 es hs ps rs st' r)
  then show ?case
    using send_handles_nothing(1) sent_handles(1) [OF assms(2)] handled_from_Cons handled_from_Nil_trans
    by metis
next
  case (send_stops st e m ov st1 err st2 v es)
  then show ?case
    using send_handles_nothing(1) record_handles_nothing handled_from_Nil_trans attempt_outcome.distinct
    by (metis fst_conv)
qed (use render_failed_handles [OF assms(2)] send_handles_nothing(1) in
  \<open>auto simp: handled_from_refl dest: render_failed_handles [OF assms(2)]\<close>)

subsection \<open>What a run leaves behind\<close>

abbreviation known :: "('m, 's) entry_delivery \<Rightarrow> ('m, 's) sync_state \<Rightarrow> entry \<Rightarrow> bool" where
  "known d st e \<equiv> sync_sent (dl_env d) (dl_syncer d) st e"

lemma known_after:
  assumes "handled_from d all hs st st'" "ledger_for d all"
  shows "known d st' x \<longleftrightarrow> known d st x \<or>
    (\<exists>h \<in> set hs. set (entry_keys (dl_env d) all x) \<inter> set (entry_keys (dl_env d) all h) \<noteq> {})"
  using assms by (auto simp: sync_sent_def sent_iff handled_from_def)

lemma known_mono:
  assumes "delivers d es st hs ps rs st' r" "ledger_for d all" "known d st x"
  shows "known d st' x"
  using known_after [OF delivers_handles [OF assms(1,2)] assms(2)] assms(3) by blast

lemma handled_known:
  assumes "handled_from d all hs st st'" "ledger_for d all" "h \<in> set hs"
  shows "known d st' h"
  using known_after [OF assms(1,2), of h] assms(3) by (auto simp: entry_keys_def)

lemma delivers_parts:
  assumes "delivers d es st hs ps rs st' r" "ledger_for d all"
  shows "\<exists>xs. es = xs @ rs \<and> (\<forall>x \<in> set xs. known d st' x \<or> \<not> rd_matches (dl_renderer d) x)"
  using assms(1)
proof (induction rule: delivers.induct)
  case (already_sent st e es hs ps rs st' r)
  then obtain xs where "es = xs @ rs" "\<forall>x \<in> set xs. known d st' x \<or> \<not> rd_matches (dl_renderer d) x" by blast
  moreover have "known d st' e" using known_mono [OF already_sent(2) assms(2)] already_sent(1) .
  ultimately show ?case by (intro exI [of _ "e # xs"]) simp
next
  case (filtered_out st e es hs ps rs st' r)
  then obtain xs where "es = xs @ rs" "\<forall>x \<in> set xs. known d st' x \<or> \<not> rd_matches (dl_renderer d) x" by blast
  then show ?case using filtered_out(2) by (intro exI [of _ "e # xs"]) simp
next
  case (skipped st e err st1 v es hs ps rs st' r)
  then obtain xs where "es = xs @ rs" "\<forall>x \<in> set xs. known d st' x \<or> \<not> rd_matches (dl_renderer d) x" by blast
  moreover have "known d st' e"
    using handled_known [OF delivers_handles [OF delivers.skipped [OF skipped(1-5)] assms(2)] assms(2)] by simp
  ultimately show ?case by (intro exI [of _ "e # xs"]) simp
next
  case (posted st e m ov st1 es hs ps rs st' r)
  then obtain xs where "es = xs @ rs" "\<forall>x \<in> set xs. known d st' x \<or> \<not> rd_matches (dl_renderer d) x" by blast
  moreover have "known d st' e"
    using handled_known [OF delivers_handles [OF delivers.posted [OF posted(1-5)] assms(2)] assms(2)] by simp
  ultimately show ?case by (intro exI [of _ "e # xs"]) simp
qed simp_all

text \<open>The entry the scan stopped at is still to be delivered.\<close>

lemma known_same:
  assumes "handled_from d all [] st st1" "ledger_for d all"
  shows "known d st1 x = known d st x"
  using known_after [OF assms] by simp

lemma delivers_stops:
  assumes "delivers d es st hs ps rs st' r" "ledger_for d all" "rs \<noteq> []"
  shows "rd_matches (dl_renderer d) (hd rs) \<and> \<not> known d st' (hd rs)"
  using assms(1,3)
proof (induction rule: delivers.induct)
  case (render_stops st e err st1 v es)
  then show ?case using known_same [OF _ assms(2)] render_failed_handles [OF assms(2) render_stops(4)] by simp
next
  case (evidence_panics st e err st1 p es)
  then show ?case using known_same [OF _ assms(2)] render_failed_handles [OF assms(2) evidence_panics(4)] by simp
next
  case (send_stops st e m ov st1 err st2 v es)
  have "handled_from d all [] st1 st2"
    using record_handles_nothing [of "attemptSendFailed err" d all st1 "dl_attempt d"] send_stops(5) by simp
  then show ?case
    using send_stops(1,2) known_same [OF _ assms(2), of st1 st2 e]
      known_same [OF send_handles_nothing(1) [OF send_stops(4)] assms(2), of e] by simp
next
  case (send_panics st e m ov st1 p es)
  then show ?case using known_same [OF send_handles_nothing(1) [OF send_panics(4)] assms(2)] by simp
qed simp_all

lemma rate_limit_or_pending: "v_pending (snd (record_outcome a (attemptSendFailed e) st))"
  by (cases "as_type rate_limit_wait e") (simp_all add: record_simps case_prod_beta)

lemma delivers_pending:
  assumes "delivers d es st hs ps rs st' r" "r = Returned v"
  shows "v_pending v \<longleftrightarrow> rs \<noteq> []"
  using assms
proof (induction rule: delivers.induct)
  case (render_stops st e err st1 v' es)
  then show ?case by (elim render_failed_cases) auto
next
  case (send_stops st e m ov st1 err st2 v' es)
  then show ?case using rate_limit_or_pending [of "dl_attempt d" err st1] by simp
qed (auto simp: no_verdict_def)

subsection \<open>What a run posts\<close>

definition message_of :: "('m, 's) entry_delivery \<Rightarrow> entry \<Rightarrow> 'm" where
  "message_of d e = (case rd_build (dl_renderer d) e of Built m ov \<Rightarrow> m)"

lemma delivers_posts:
  assumes "delivers d es st hs ps rs st' r"
  shows "posts (st_log st') = posts (st_log st) @ map (message_of d) ps"
  using assms
proof (induction rule: delivers.induct)
  case (skipped st e err st1 v es hs ps rs st' r)
  then show ?case using render_failed_posts by simp
next
  case (posted st e m ov st1 es hs ps rs st' r)
  then show ?case
    using send_handles_nothing(2) [OF posted(4)] by (simp add: message_of_def after_sent_def)
next
  case (send_stops st e m ov st1 err st2 v es)
  have "posts (st_log st2) = posts (st_log st1)"
    using record_posts [of "dl_attempt d" "attemptSendFailed err" st1] send_stops(5) by simp
  then show ?case using send_handles_nothing(2) [OF send_stops(4)] send_stops(3) by (simp add: message_of_def)
next
  case (send_panics st e m ov st1 p es)
  then show ?case using send_handles_nothing(2) [OF send_panics(4)] by (simp add: message_of_def)
qed (use render_failed_posts in \<open>fastforce+\<close>)

lemma delivers_only_due:
  assumes "delivers d es st hs ps rs st' r" "ledger_for d all"
  shows "\<forall>p \<in> set ps. \<not> known d st p \<and> rd_matches (dl_renderer d) p \<and>
      (\<exists>m ov. rd_build (dl_renderer d) p = Built m ov)"
  using assms(1)
proof (induction rule: delivers.induct)
  case (skipped st e err st1 v es hs ps rs st' r)
  then show ?case
    using known_after [OF render_failed_handles [OF assms(2) skipped(4)] assms(2)] by blast
next
  case (posted st e m ov st1 es hs ps rs st' r)
  have "known d (after_sent d e st1) p" if "known d st p" for p
    using that known_after [OF sent_handles(1) [OF assms(2)] assms(2)]
      known_same [OF send_handles_nothing(1) [OF posted(4)] assms(2)] by blast
  then show ?case using posted by auto
qed auto

lemma delivers_order:
  assumes "delivers d es st hs ps rs st' r"
  shows "subseq ps es" "subseq hs es"
  using assms by (induction rule: delivers.induct) (auto intro: list_emb_Nil)

lemma delivers_once:
  assumes "delivers d es st hs ps rs st' r" "ledger_for d all"
  shows "distinct (map (entryIdentity (dl_env d)) ps)"
  using assms(1)
proof (induction rule: delivers.induct)
  case (posted st e m ov st1 es hs ps rs st' r)
  have "known d (after_sent d e st1) e"
    by (rule handled_known [OF sent_handles(1) [OF assms(2)] assms(2)]) simp
  moreover have "known d (after_sent d e st1) p"
    if "known d (after_sent d e st1) e" "entryIdentity (dl_env d) p = entryIdentity (dl_env d) e" for p
    using that(2) known_after [OF sent_handles(1) [OF assms(2), of e st1] assms(2), of p]
    by (auto simp: entry_keys_def computeEntryKey_def)
  ultimately have "\<forall>p \<in> set ps. entryIdentity (dl_env d) p \<noteq> entryIdentity (dl_env d) e"
    using delivers_only_due [OF posted(5) assms(2)] by blast
  then show ?case using posted.IH by (simp add: image_iff) metis
qed simp_all

end
