(* ===== verification/Feed_Sync.thy ===== *)
theory Feed_Sync
  imports Delivery
begin

text \<open>
  The sync of one feed (\<^verbatim>\<open>internal/controller/feed_sync.go\<close>) and \<open>processFeed\<close> of
  \<^verbatim>\<open>feedgroup_controller.go\<close>: the order in which a fetch is applied to the feed's status, what
  its end settles, and what a panic leaves behind.
\<close>

definition currentStateVersion :: int where "currentStateVersion = 1"

record feed_sync_spec =
  fss_catchUpLimit :: int
  fss_now :: int

definition feedSyncSpecFor :: "feed_group \<Rightarrow> int \<Rightarrow> feed_sync_spec" where
  "feedSyncSpecFor g now =
     \<lparr>fss_catchUpLimit = catchUpLimitOf (fg_spec g), fss_now = now\<rparr>"

fun verdict_string :: "sync_verdict \<Rightarrow> string" where
  "verdict_string syncFetchFailed = ''fetchFailed''"
| "verdict_string syncNotModified = ''notModified''"
| "verdict_string syncEmpty = ''empty''"
| "verdict_string syncConfigError = ''configError''"
| "verdict_string syncPending = ''pending''"
| "verdict_string syncAccountedFor = ''accountedFor''"

text \<open>The ledger and the plan of a sync are nil until \<open>begin\<close>; nothing reads them before.\<close>

definition empty_ledger :: ledger where
  "empty_ledger = \<lparr>lg_entries = [], lg_ids = [], by_ref = (\<lambda>_. None), claims = (\<lambda>_. 0),
     identities = (\<lambda>_. 0), previous_identities = (\<lambda>_. 0), previous_stripped_count = (\<lambda>_. 0)\<rparr>"

definition openFeedSync :: "feed_status \<Rightarrow> fetch_result \<Rightarrow> feed_sync_spec \<Rightarrow> feed_sync" where
  "openFeedSync fs fetch spec =
     \<lparr>fy_fetch = fetch, fy_catchUpLimit = fss_catchUpLimit spec, fy_now = fss_now spec,
      fy_wasInitialized = initialized fs, fy_ledger = empty_ledger, fy_plan = plan_of [],
      fy_skippedBacklog = 0\<rparr>"

definition withoutEntries :: "feed_sync \<Rightarrow> sync_verdict option" where
  "withoutEntries s =
     (if fr_not_modified (fy_fetch s) then Some syncNotModified
      else if fr_entries (fy_fetch s) = [] then Some syncEmpty
      else None)"

subsection \<open>Begin\<close>

text \<open>The order of the scan: publication time, and for equal times the reverse of the document
  order.  It is a linear order on the two keys, so that \<open>sort_key\<close>, which is stable, is
  \<open>slices.SortStableFunc\<close> with the comparison of the code.\<close>

datatype recency = Recency (published_at: int) (doc_seq: int)

instantiation recency :: linorder
begin

definition less_eq_recency :: "recency \<Rightarrow> recency \<Rightarrow> bool" where
  "a \<le> b \<longleftrightarrow> published_at a < published_at b \<or> published_at a = published_at b \<and> doc_seq b \<le> doc_seq a"

definition less_recency :: "recency \<Rightarrow> recency \<Rightarrow> bool" where
  "(a::recency) < b \<longleftrightarrow> a \<le> b \<and> \<not> b \<le> a"

instance
  by standard (auto simp: less_eq_recency_def less_recency_def recency.expand)

end

definition recency_of :: "entry \<Rightarrow> recency" where
  "recency_of e = Recency (en_published e) (en_seq e)"

definition sorted_entries :: "fetch_result \<Rightarrow> entry list" where
  "sorted_entries fetch =
     sort_key recency_of (map (\<lambda>e. e\<lparr>en_feed_title := fr_feed_title fetch\<rparr>) (fr_entries fetch))"

definition skipBacklog :: "entry list \<Rightarrow> feed_sync \<Rightarrow> feed_status \<Rightarrow> feed_sync \<times> feed_status" where
  "skipBacklog es s fs = (s\<lparr>fy_skippedBacklog := int (length es)\<rparr>, markNewest (fy_ledger s) fs)"

definition begin_sync :: "go_env \<Rightarrow> feed_sync \<Rightarrow> feed_status \<Rightarrow> feed_sync \<times> feed_status" where
  "begin_sync E s fs =
     (let es = sorted_entries (fy_fetch s);
          s1 = s\<lparr>fy_fetch := (fy_fetch s)\<lparr>fr_entries := es\<rparr>, fy_ledger := newDeliveryLedger E es\<rparr>;
          fs1 = migratePreviousIdentities (fy_ledger s1) fs;
          s2 = s1\<lparr>fy_plan := planDelivery
                 \<lparr>di_entries = es, di_watermark = resume E (fy_ledger s1) fs1,
                  di_catchUpLimit = fy_catchUpLimit s, di_wasInitialized = fy_wasInitialized s\<rparr>\<rparr>
      in if dp_skipBacklog (fy_plan s2) then skipBacklog es s2 fs1 else (s2, fs1))"

subsection \<open>Settlement\<close>

definition persistValidators :: "feed_sync \<Rightarrow> feed_status \<Rightarrow> feed_status" where
  "persistValidators s fs =
     (let fs1 = (if fr_etag (fy_fetch s) \<noteq> [] then fs\<lparr>etag := fr_etag (fy_fetch s)\<rparr> else fs)
      in if fr_last_modified (fy_fetch s) \<noteq> []
         then fs1\<lparr>last_modified := fr_last_modified (fy_fetch s)\<rparr> else fs1)"

definition prune_sync :: "feed_status \<Rightarrow> feed_status" where
  "prune_sync fs = fs\<lparr>last_sent := pruneLastSent (last_sent fs) maxLastSentPerFeed\<rparr>"

text \<open>The settlement of a verdict.\<close>

fun settle_verdict :: "feed_sync \<Rightarrow> sync_verdict \<Rightarrow> feed_status \<Rightarrow> feed_status" where
  "settle_verdict s syncFetchFailed fs = fs"
| "settle_verdict s syncConfigError fs = fs"
| "settle_verdict s syncNotModified fs =
     (clearFailure (persistValidators s (fs\<lparr>initialized := True\<rparr>)))\<lparr>state_version := currentStateVersion\<rparr>"
| "settle_verdict s syncEmpty fs =
     (clearFailure (persistValidators s (fs\<lparr>initialized := True\<rparr>)))\<lparr>state_version := currentStateVersion\<rparr>"
| "settle_verdict s syncPending fs =
     (prune_sync (fs\<lparr>initialized := True\<rparr>))\<lparr>state_version := currentStateVersion\<rparr>"
| "settle_verdict s syncAccountedFor fs =
     (prune_sync (clearFailure (persistValidators s (fs\<lparr>initialized := True\<rparr>))))
       \<lparr>state_version := currentStateVersion\<rparr>"

definition close_sync :: "feed_sync \<Rightarrow> sync_verdict \<Rightarrow> ('m, 's) sync_state \<Rightarrow> ('m, 's) sync_state" where
  "close_sync s verdict st = on_fs (settle_verdict s verdict) (st\<lparr>sy_closing := True\<rparr>)"

subsection \<open>Apply\<close>

record fetch_outcome =
  fo_result :: fetch_result
  fo_err :: "go_error option"

text \<open>\<open>feedRun\<close>: the group, the feed and its fetch, the sender, the timing, the recorder and
  the clocks, and the parameters of the model.  \<open>fn_renderer\<close> is \<open>newFeedRenderer\<close>.\<close>

record ('m, 's) feed_run =
  fn_group :: feed_group
  fn_feed :: feed_spec
  fn_fetched :: fetch_outcome
  fn_sender :: "('m, 's) message_sender"
  fn_cadence :: cadence
  fn_recorder :: bool
  fn_now :: int
  fn_clock :: "nat \<Rightarrow> int"
  fn_env :: go_env
  fn_conditions :: condition_api
  fn_renderer :: "feed_group \<Rightarrow> feed_spec \<Rightarrow> go_error + 'm renderer"

definition newAttempt :: "('m, 's) feed_run \<Rightarrow> feed_attempt" where
  "newAttempt run =
     \<lparr>at_env = fn_env run, at_conditions = fn_conditions run,
      at_generation = fg_generation (fn_group run), at_url = rss_url (fn_feed run),
      at_now = fn_now run, at_clock = fn_clock run, at_cadence = fn_cadence run,
      at_recorder = fn_recorder run\<rparr>"

text \<open>The send loop of a sync that has begun, and its settlement.\<close>

definition deliver_and_close :: "('m, 's) feed_run \<Rightarrow> 'm renderer \<Rightarrow> feed_sync
    \<Rightarrow> ('m, 's) sync_state \<Rightarrow> ('m, 's) sync_state \<times> attempt_verdict result" where
  "deliver_and_close run rend s st =
     (let attempt = newAttempt run;
          st1 = (if fy_skippedBacklog s > 0
                 then fst (record_outcome attempt (attemptBacklogSkipped (fy_skippedBacklog s)) st)
                 else st)
      in case run_delivery
             \<lparr>dl_renderer = rend, dl_syncer = s, dl_attempt = attempt, dl_sender = fn_sender run\<rparr> st1 of
           (st2, Panicked p) \<Rightarrow> (st2, Panicked p)
         | (st2, Returned verdict) \<Rightarrow>
             (close_sync s (settlement verdict) st2, Returned verdict))"

definition apply_sync :: "('m, 's) feed_run \<Rightarrow> feed_sync \<Rightarrow> ('m, 's) sync_state
    \<Rightarrow> ('m, 's) sync_state \<times> attempt_verdict result" where
  "apply_sync run s st =
     (let attempt = newAttempt run in
      case fo_err (fn_fetched run) of
        Some err \<Rightarrow>
          (let (st1, verdict) = record_outcome attempt (attemptFetchFailed err) st
           in (close_sync s syncFetchFailed st1, Returned verdict))
      | None \<Rightarrow>
          let st1 = fst (record_outcome attempt attemptFetchSucceeded st) in
          case withoutEntries s of
            Some v \<Rightarrow> (close_sync s v st1, Returned no_verdict)
          | None \<Rightarrow>
              case fn_renderer run (fn_group run) (fn_feed run) of
                Inl err \<Rightarrow>
                  (let (st2, verdict) = record_outcome attempt (attemptConfigError err) st1
                   in (close_sync s syncConfigError st2, Returned verdict))
              | Inr rend \<Rightarrow>
                  let (s1, fs1) = begin_sync (fn_env run) s (st_fs st1)
                  in deliver_and_close run rend s1 (st1\<lparr>st_fs := fs1\<rparr>))"

subsection \<open>Panics\<close>

definition errDeliveryPanicked :: go_error where
  "errDeliveryPanicked = PlainError ''delivery interrupted by a panic''"

definition secureAfterPanic :: "feed_sync \<Rightarrow> feed_status \<Rightarrow> feed_attempt \<Rightarrow> go_error
    \<Rightarrow> ('m, 's) sync_state \<Rightarrow> ('m, 's) sync_state" where
  "secureAfterPanic s fs0 attempt err st =
     (if sy_closing st then st
      else if sy_handled st = 0 then st\<lparr>st_fs := fs0\<rparr>
      else close_sync s syncPending (fst (record_outcome attempt (attemptSendFailed err) st)))"

datatype feed_panic = FeedPanic (fp_url: string) (fp_value: go_panic) (fp_stack: string)

text \<open>What a reconcile threads through the feeds: the group, whose status the syncs write, the
  effects, the clock readings and the world behind the sender.\<close>

record ('m, 's) pass_state =
  ps_group :: feed_group
  ps_log :: "'m effect list"
  ps_ticks :: nat
  ps_world :: 's

text \<open>\<open>feedStatusFor\<close> returns a pointer to the first status with the URL; this is the write
  through it.\<close>

fun put_status :: "string \<Rightarrow> feed_status \<Rightarrow> feed_status list \<Rightarrow> feed_status list" where
  "put_status url fs [] = []"
| "put_status url fs (x # xs) = (if fs_url x = url then fs # xs else x # put_status url fs xs)"

definition sync_state_of :: "feed_status \<Rightarrow> ('m, 's) pass_state \<Rightarrow> ('m, 's) sync_state" where
  "sync_state_of fs ps =
     \<lparr>st_fs = fs, st_log = ps_log ps, st_ticks = ps_ticks ps, sy_world = ps_world ps,
      sy_handled = 0, sy_closing = False\<rparr>"

definition write_back :: "string \<Rightarrow> ('m, 's) sync_state \<Rightarrow> ('m, 's) pass_state \<Rightarrow> ('m, 's) pass_state" where
  "write_back url st ps =
     (let g = ps_group ps; gs = fg_status g
      in \<lparr>ps_group = g\<lparr>fg_status := gs\<lparr>gs_feeds := put_status url (st_fs st) (gs_feeds gs)\<rparr>\<rparr>,
          ps_log = st_log st, ps_ticks = st_ticks st, ps_world = sy_world st\<rparr>)"

text \<open>How a feed's processing ends: with a verdict, with a panic secured and re-raised as a
  \<open>*feedPanic\<close>, or with any other panic (here the nil dereference of a feed without status).\<close>

datatype 'a process_result = Processed 'a | FeedPanicked feed_panic | Crashed go_panic

definition nil_dereference :: go_panic where
  "nil_dereference = RuntimePanic ''runtime error: invalid memory address or nil pointer dereference''"

definition processFeed :: "string \<Rightarrow> ('m, 's) feed_run \<Rightarrow> ('m, 's) pass_state
    \<Rightarrow> ('m, 's) pass_state \<times> attempt_verdict process_result" where
  "processFeed stack run ps =
     (let url = rss_url (fn_feed run) in
      case feed_status_for (gs_feeds (fg_status (ps_group ps))) url of
        None \<Rightarrow> (ps, Crashed nil_dereference)
      | Some fs \<Rightarrow>
          let syncer = openFeedSync fs (fo_result (fn_fetched run))
                         (feedSyncSpecFor (fn_group run) (fn_now run))
          in case apply_sync run syncer (sync_state_of fs ps) of
               (st, Returned verdict) \<Rightarrow> (write_back url st ps, Processed verdict)
             | (st, Panicked p) \<Rightarrow>
                 (write_back url (secureAfterPanic syncer fs (newAttempt run) errDeliveryPanicked st) ps,
                  FeedPanicked (FeedPanic url p stack)))"

text \<open>What is logged and what is persisted of a panic.\<close>

definition panic_detail :: "feed_panic \<Rightarrow> string" where
  "panic_detail p = (case fp_value p of
     RuntimePanic text \<Rightarrow> text
   | OtherPanic typ \<Rightarrow> ''a '' @ typ @ '' value (withheld)'')"

definition panic_error :: "feed_panic \<Rightarrow> string" where
  "panic_error p = ''panic while processing feed '' @ fp_url p @ '': '' @ panic_detail p
     @ [CHR 0x0A] @ fp_stack p"

definition panic_summary :: "feed_panic \<Rightarrow> string" where
  "panic_summary p =
     (case fp_value p of RuntimePanic text \<Rightarrow> ''a runtime error'' | OtherPanic typ \<Rightarrow> ''a panic'')
     @ '' interrupted processing feed '' @ fp_url p @ ''; see the controller log for the details''"

end
