(* ===== verification/Feed_Sync_Laws.thy ===== *)
theory Feed_Sync_Laws
  imports Feed_Sync Delivery_Laws
begin

text \<open>
  What a whole sync guarantees: the order and the completeness of what it posts, that nothing
  unresolved is ever passed over, when the cache validators are stored, what a configuration
  error and a panic leave behind, and that syncing the same document again posts nothing.
\<close>

subsection \<open>Settlement\<close>

lemma close_sync_simps [simp]:
  "st_fs (close_sync s v st) = settle_verdict s v (st_fs st)"
  "st_log (close_sync s v st) = st_log st" "sy_closing (close_sync s v st) = True"
  "sy_handled (close_sync s v st) = sy_handled st" "sy_world (close_sync s v st) = sy_world st"
  by (simp_all add: close_sync_def on_fs_def)

lemma persistValidators_frame [status_frame]:
  "fs_url (persistValidators s fs) = fs_url fs" "last_sent (persistValidators s fs) = last_sent fs"
  "initialized (persistValidators s fs) = initialized fs"
  "last_seen_entry (persistValidators s fs) = last_seen_entry fs"
  "last_checked (persistValidators s fs) = last_checked fs"
  "conditions (persistValidators s fs) = conditions fs"
  by (simp_all add: persistValidators_def Let_def)

lemma persistValidators_simps [status_frame]:
  "etag (persistValidators s fs) = (if fr_etag (fy_fetch s) \<noteq> [] then fr_etag (fy_fetch s) else etag fs)"
  "last_modified (persistValidators s fs) =
     (if fr_last_modified (fy_fetch s) \<noteq> [] then fr_last_modified (fy_fetch s) else last_modified fs)"
  by (simp_all add: persistValidators_def Let_def)

lemma prune_sync_frame [status_frame]:
  "fs_url (prune_sync fs) = fs_url fs" "initialized (prune_sync fs) = initialized fs"
  "last_seen_entry (prune_sync fs) = last_seen_entry fs" "etag (prune_sync fs) = etag fs"
  "last_modified (prune_sync fs) = last_modified fs" "last_error (prune_sync fs) = last_error fs"
  "retry_count (prune_sync fs) = retry_count fs" "backoff_until (prune_sync fs) = backoff_until fs"
  "last_sent (prune_sync fs) = pruneLastSent (last_sent fs) maxLastSentPerFeed"
  "conditions (prune_sync fs) = conditions fs" "last_checked (prune_sync fs) = last_checked fs"
  by (simp_all add: prune_sync_def)

lemma settle_watermark [simp]: "last_seen_entry (settle_verdict s v fs) = last_seen_entry fs"
  by (cases v) (simp_all add: status_frame)

lemma settle_last_sent:
  "last_sent (settle_verdict s v fs) =
     (if v = syncPending \<or> v = syncAccountedFor
      then pruneLastSent (last_sent fs) maxLastSentPerFeed else last_sent fs)"
  by (cases v) (simp_all add: status_frame)

lemma settle_initialized:
  "initialized (settle_verdict s v fs) \<longleftrightarrow>
     initialized fs \<or> v \<noteq> syncFetchFailed \<and> v \<noteq> syncConfigError"
  by (cases v) (simp_all add: status_frame)

lemma settle_validators:
  "v = syncPending \<or> v = syncFetchFailed \<or> v = syncConfigError \<Longrightarrow>
     etag (settle_verdict s v fs) = etag fs \<and> last_modified (settle_verdict s v fs) = last_modified fs"
  by (auto simp: status_frame)

subsection \<open>Begin\<close>

lemma sorted_entries_set:
  "set (sorted_entries fetch) = (\<lambda>e. e\<lparr>en_feed_title := fr_feed_title fetch\<rparr>) ` set (fr_entries fetch)"
  by (simp add: sorted_entries_def)

lemma begin_sync_eq:
  fixes E s fs
  defines "es \<equiv> sorted_entries (fy_fetch s)"
  defines "L \<equiv> newDeliveryLedger E es"
  defines "fs1 \<equiv> migratePreviousIdentities L fs"
  defines "p \<equiv> planDelivery \<lparr>di_entries = es, di_watermark = resume E L fs1,
      di_catchUpLimit = fy_catchUpLimit s, di_wasInitialized = fy_wasInitialized s\<rparr>"
  shows "fy_ledger (fst (begin_sync E s fs)) = L"
    and "fy_plan (fst (begin_sync E s fs)) = p"
    and "fy_now (fst (begin_sync E s fs)) = fy_now s"
    and "fr_etag (fy_fetch (fst (begin_sync E s fs))) = fr_etag (fy_fetch s)"
    and "fr_last_modified (fy_fetch (fst (begin_sync E s fs))) = fr_last_modified (fy_fetch s)"
    and "snd (begin_sync E s fs) = (if dp_skipBacklog p then markNewest L fs1 else fs1)"
    and "fy_skippedBacklog (fst (begin_sync E s fs)) =
      (if dp_skipBacklog p then int (length es) else fy_skippedBacklog s)"
  unfolding es_def L_def fs1_def p_def
  by (simp_all add: begin_sync_def skipBacklog_def Let_def)

lemma markNewest_frame [status_frame]:
  "last_sent (markNewest l fs) = last_sent fs" "initialized (markNewest l fs) = initialized fs"
  "etag (markNewest l fs) = etag fs" "last_modified (markNewest l fs) = last_modified fs"
  "state_version (markNewest l fs) = state_version fs" "fs_url (markNewest l fs) = fs_url fs"
  "last_checked (markNewest l fs) = last_checked fs"
  by (simp_all add: markNewest_def setWatermark_def)

lemma begin_sync_frame [status_frame]:
  "etag (snd (begin_sync E s fs)) = etag fs" "last_modified (snd (begin_sync E s fs)) = last_modified fs"
  "initialized (snd (begin_sync E s fs)) = initialized fs"
  "state_version (snd (begin_sync E s fs)) = state_version fs"
  "last_checked (snd (begin_sync E s fs)) = last_checked fs"
  by (simp_all add: begin_sync_eq(6) status_frame)

lemma subseq_subset: "subseq xs ys \<Longrightarrow> set xs \<subseteq> set ys"
  by (induction rule: list_emb.induct) auto

lemma distinct_subseq: "subseq xs ys \<Longrightarrow> distinct ys \<Longrightarrow> distinct xs"
  by (induction rule: list_emb.induct) (auto dest: subseq_subset)

lemma subseq_limitCatchUp: "subseq (limitCatchUp es n) es"
  by (simp add: limitCatchUp_def Let_def suffix_imp_subseq suffix_drop)

lemma length_limitCatchUp:
  "length (limitCatchUp es n) \<le> (if n \<le> 0 then 5 else nat n)"
  by (auto simp: limitCatchUp_def Let_def defaultCatchUpLimit_def)

lemma plan_subseq: "subseq (plan_entries (planDelivery i)) (di_entries i)"
  by (simp add: planDelivery_def plan_entries_def plan_of_def subseq_limitCatchUp suffix_imp_subseq suffix_drop)

subsection \<open>A sync that gets to its entries\<close>

text \<open>The delivery of a sync, and the state it starts from.\<close>

definition delivery_of :: "('m, 's) feed_run \<Rightarrow> 'm renderer \<Rightarrow> feed_sync \<Rightarrow> ('m, 's) entry_delivery" where
  "delivery_of run rend s =
     \<lparr>dl_renderer = rend, dl_syncer = s, dl_attempt = newAttempt run, dl_sender = fn_sender run\<rparr>"

definition checked :: "('m, 's) feed_run \<Rightarrow> ('m, 's) sync_state \<Rightarrow> ('m, 's) sync_state" where
  "checked run st = fst (record_outcome (newAttempt run) attemptFetchSucceeded st)"

definition begun :: "('m, 's) feed_run \<Rightarrow> feed_sync \<Rightarrow> ('m, 's) sync_state \<Rightarrow> ('m, 's) sync_state" where
  "begun run s st =
     (let s1 = fst (begin_sync (fn_env run) s (st_fs (checked run st)));
          st1 = (checked run st)\<lparr>st_fs := snd (begin_sync (fn_env run) s (st_fs (checked run st)))\<rparr>
      in if fy_skippedBacklog s1 > 0
         then fst (record_outcome (newAttempt run) (attemptBacklogSkipped (fy_skippedBacklog s1)) st1)
         else st1)"

definition begun_sync :: "('m, 's) feed_run \<Rightarrow> feed_sync \<Rightarrow> ('m, 's) sync_state \<Rightarrow> feed_sync" where
  "begun_sync run s st = fst (begin_sync (fn_env run) s (st_fs (checked run st)))"

lemma delivery_of_simps [simp]:
  "dl_renderer (delivery_of run rend s) = rend" "dl_syncer (delivery_of run rend s) = s"
  "dl_env (delivery_of run rend s) = fn_env run" "dl_attempt (delivery_of run rend s) = newAttempt run"
  "dl_sender (delivery_of run rend s) = fn_sender run"
  by (simp_all add: delivery_of_def dl_env_def newAttempt_def)

text \<open>A run whose fetch succeeded, with entries, and whose configuration compiles.\<close>

definition deliverable :: "('m, 's) feed_run \<Rightarrow> 'm renderer \<Rightarrow> feed_sync \<Rightarrow> bool" where
  "deliverable run rend s \<longleftrightarrow> fo_err (fn_fetched run) = None \<and> withoutEntries s = None \<and>
     fn_renderer run (fn_group run) (fn_feed run) = Inr rend"

lemma apply_deliverable:
  assumes "deliverable run rend s"
  shows "apply_sync run s st =
    (case run_delivery (delivery_of run rend (begun_sync run s st)) (begun run s st) of
       (st2, Panicked p) \<Rightarrow> (st2, Panicked p)
     | (st2, Returned verdict) \<Rightarrow>
         (close_sync (begun_sync run s st) (settlement verdict) st2, Returned verdict))"
  using assms
  by (simp add: deliverable_def apply_sync_def deliver_and_close_def Let_def case_prod_beta
      delivery_of_def begun_def begun_sync_def checked_def)

lemma apply_runs:
  assumes "deliverable run rend s" "apply_sync run s st = (st', r)"
  obtains hs ps rs st2 where
    "delivers (delivery_of run rend (begun_sync run s st)) (plan_entries (fy_plan (begun_sync run s st)))
       (begun run s st) hs ps rs st2 r"
    "st' = (case r of Panicked p \<Rightarrow> st2
       | Returned v \<Rightarrow> close_sync (begun_sync run s st) (settlement v) st2)"
proof -
  let ?d = "delivery_of run rend (begun_sync run s st)"
  obtain st2 r2 where run: "run_delivery ?d (begun run s st) = (st2, r2)" by fastforce
  then obtain hs ps rs where "delivers ?d (plan_entries (fy_plan (begun_sync run s st)))
      (begun run s st) hs ps rs st2 r2"
    using run_delivers [of ?d "plan_entries (fy_plan (begun_sync run s st))" "begun run s st"]
    by (auto simp: run_delivery_def)
  moreover have "r2 = r"
    "st' = (case r of Panicked p \<Rightarrow> st2 | Returned v \<Rightarrow> close_sync (begun_sync run s st) (settlement v) st2)"
    using assms(2) run by (auto simp: apply_deliverable [OF assms(1)] split: result.splits)
  ultimately show thesis using that by blast
qed

lemma begun_ledger:
  "ledger_for (delivery_of run rend (begun_sync run s st)) (sorted_entries (fy_fetch s))"
  by (simp add: begun_sync_def begin_sync_eq(1))

lemma checked_simps [simp]:
  "posts (st_log (checked run st)) = posts (st_log st)" "sy_handled (checked run st) = sy_handled st"
  "sy_closing (checked run st) = sy_closing st" "sy_world (checked run st) = sy_world st"
  by (simp_all add: checked_def)

lemma checked_frame [status_frame]:
  "initialized (st_fs (checked run st)) = initialized (st_fs st)"
  "last_seen_entry (st_fs (checked run st)) = last_seen_entry (st_fs st)"
  "last_sent (st_fs (checked run st)) = last_sent (st_fs st)"
  "etag (st_fs (checked run st)) = etag (st_fs st)"
  "last_modified (st_fs (checked run st)) = last_modified (st_fs st)"
  "state_version (st_fs (checked run st)) = state_version (st_fs st)"
  "fs_url (st_fs (checked run st)) = fs_url (st_fs st)"
  by (simp_all add: checked_def status_frame)

lemma begun_simps [simp]:
  "posts (st_log (begun run s st)) = posts (st_log st)" "sy_handled (begun run s st) = sy_handled st"
  "sy_closing (begun run s st) = sy_closing st" "sy_world (begun run s st) = sy_world st"
  by (simp_all add: begun_def Let_def)

lemma begun_frame [status_frame]:
  "initialized (st_fs (begun run s st)) = initialized (st_fs st)"
  "etag (st_fs (begun run s st)) = etag (st_fs st)"
  "last_modified (st_fs (begun run s st)) = last_modified (st_fs st)"
  "state_version (st_fs (begun run s st)) = state_version (st_fs st)"
  "last_sent (st_fs (begun run s st)) =
     last_sent (snd (begin_sync (fn_env run) s (st_fs (checked run st))))"
  "last_seen_entry (st_fs (begun run s st)) =
     last_seen_entry (snd (begin_sync (fn_env run) s (st_fs (checked run st))))"
  by (simp_all add: begun_def Let_def status_frame)

subsection \<open>The example of the witnesses\<close>

text \<open>A feed with two entries, a renderer that posts titles and a webhook that refuses what the
  world's set says.\<close>

definition entry_one :: entry where "entry_one = example_entry"
definition entry_two :: entry where
  "entry_two = example_entry\<lparr>en_id := ''post-2'', en_title := ''World'', en_published := second\<rparr>"

definition title_renderer :: "string renderer" where
  "title_renderer = \<lparr>rd_matches = (\<lambda>e. True), rd_build = (\<lambda>e. Built (en_title e) 0)\<rparr>"

definition refusing :: "string list \<Rightarrow> (string, unit) message_sender" where
  "refusing titles = (\<lambda>m w. (if m \<in> set titles then SendError (PlainError ''refused'') else SendOk, w))"

definition example_fetch :: fetch_result where
  "example_fetch = \<lparr>fr_entries = [entry_two, entry_one], fr_feed_title = ''Go'', fr_etag = ''v2'',
     fr_last_modified = [], fr_not_modified = False\<rparr>"

definition example_run :: "string list \<Rightarrow> (string, unit) feed_run" where
  "example_run titles = \<lparr>fn_group = example_group [example_feed ''https://go.dev/feed''] [],
     fn_feed = example_feed ''https://go.dev/feed'',
     fn_fetched = \<lparr>fo_result = example_fetch, fo_err = None\<rparr>, fn_sender = refusing titles,
     fn_cadence = at_cadence example_attempt, fn_recorder = True, fn_now = 1700000000000000000,
     fn_clock = at_clock example_attempt, fn_env = plain_env, fn_conditions = list_conditions 0,
     fn_renderer = (\<lambda>g f. Inr title_renderer)\<rparr>"

definition example_sync :: feed_sync where
  "example_sync = openFeedSync (new_feed_status ''https://go.dev/feed'') example_fetch
     \<lparr>fss_catchUpLimit = 5, fss_now = 1700000000000000000\<rparr>"

definition example_start :: "(string, unit) sync_state" where
  "example_start = \<lparr>st_fs = new_feed_status ''https://go.dev/feed'', st_log = [], st_ticks = 0,
     sy_world = (), sy_handled = 0, sy_closing = False\<rparr>"

lemma example_deliverable: "deliverable (example_run ts) title_renderer example_sync"
  by (simp add: deliverable_def example_run_def withoutEntries_def example_sync_def openFeedSync_def
      example_fetch_def)

lemma example_run_simps [simp]:
  "fn_env (example_run ts) = plain_env" "fy_fetch example_sync = example_fetch"
  "fy_catchUpLimit example_sync = 5"
  by (simp_all add: example_run_def example_sync_def openFeedSync_def)

subsection \<open>What a sync posts\<close>

lemma run_posts_due:
  assumes "delivers (delivery_of run rend (begun_sync run s st)) (plan_entries (fy_plan (begun_sync run s st)))
      (begun run s st) hs ps rs st2 r"
  defines "es \<equiv> sorted_entries (fy_fetch s)"
  shows "posts (st_log st2) = posts (st_log st) @ map (\<lambda>e. case rd_build rend e of Built m ov \<Rightarrow> m) ps"
    and "subseq ps es" and "distinct (map (entryIdentity (fn_env run)) ps)"
    and "\<forall>e \<in> set ps. rd_matches rend e \<and> (\<exists>m ov. rd_build rend e = Built m ov) \<and>
      \<not> sent (fn_env run) (newDeliveryLedger (fn_env run) es) (st_fs (begun run s st)) e"
proof -
  let ?s = "begun_sync run s st"
  note run = assms(1)
  have "subseq (plan_entries (fy_plan ?s)) es"
    using plan_subseq unfolding es_def by (simp add: begun_sync_def begin_sync_eq(2)) (metis delivery_inputs.select_convs(1))
  then show "subseq ps es" using subseq_order.trans [OF delivers_order(1) [OF run]] by blast
  show "posts (st_log st2) = posts (st_log st) @ map (\<lambda>e. case rd_build rend e of Built m ov \<Rightarrow> m) ps"
    using delivers_posts [OF run] by (simp add: message_of_def [abs_def])
  show "distinct (map (entryIdentity (fn_env run)) ps)"
    using delivers_once [OF run begun_ledger] by simp
  show "\<forall>e \<in> set ps. rd_matches rend e \<and> (\<exists>m ov. rd_build rend e = Built m ov) \<and>
      \<not> sent (fn_env run) (newDeliveryLedger (fn_env run) es) (st_fs (begun run s st)) e"
    using delivers_only_due [OF run begun_ledger] begun_ledger [of run rend s st]
    by (auto simp: sync_sent_def es_def)
qed

text \<open>C2: A sync posts only what is due, once, oldest first: the messages it posts are the
  renderings, in scan order, of entries of the fetch that pass the filter and that the
  ledger did not know when the sync began, no two of them with the same identity; and the
  scan is sorted by publication time, undated entries in reverse document order.\<close>

theorem sync_posts_due_once:
  assumes "deliverable run rend s" "apply_sync run s st = (st', r)"
  shows "let es = sorted_entries (fy_fetch s); E = fn_env run in
    sorted (map recency_of es) \<and>
    (\<exists>ps. posts (st_log st') = posts (st_log st) @
         map (\<lambda>e. case rd_build rend e of Built m ov \<Rightarrow> m) ps \<and>
       subseq ps es \<and> distinct (map (entryIdentity E) ps) \<and>
       (\<forall>e \<in> set ps. rd_matches rend e \<and> (\<exists>m ov. rd_build rend e = Built m ov) \<and>
          \<not> sent E (newDeliveryLedger E es) (st_fs (begun run s st)) e))"
proof -
  let ?s = "begun_sync run s st"
  obtain hs ps rs st2 where run: "delivers (delivery_of run rend ?s) (plan_entries (fy_plan ?s))
      (begun run s st) hs ps rs st2 r"
    and st': "st' = (case r of Panicked p \<Rightarrow> st2 | Returned v \<Rightarrow> close_sync ?s (settlement v) st2)"
    by (rule apply_runs [OF assms])
  have "st_log st' = st_log st2" unfolding st' by (cases r) simp_all
  then show ?thesis
    unfolding Let_def using run_posts_due [OF run] by (auto simp: sorted_entries_def intro!: exI [of _ ps])
qed

lemma sync_posts_due_once_witness:
  "\<exists>ps. posts (st_log (fst (apply_sync (example_run []) example_sync example_start))) =
     map en_title ps \<and> distinct (map (entryIdentity plain_env) ps)"
  using sync_posts_due_once [OF example_deliverable, of "[]" example_start
      "fst (apply_sync (example_run []) example_sync example_start)"
      "snd (apply_sync (example_run []) example_sync example_start)"]
  by (simp add: Let_def example_start_def title_renderer_def) blast

text \<open>The catch-up limit caps what a feed without a usable watermark can post: at most the
  limit (five when it is not positive) when the watermark is lost or there is none; and a
  true first sync with limit 0 posts nothing and parks the watermark on the newest entry.\<close>

theorem catch_up_capped:
  assumes "deliverable run rend s" "apply_sync run s st = (st', r)"
    and "fy_wasInitialized s = initialized (st_fs st)"
  shows "let es = sorted_entries (fy_fetch s); E = fn_env run; L = newDeliveryLedger E es;
      limit = fy_catchUpLimit s;
      w = wl_state (resume E L (migratePreviousIdentities L (st_fs (checked run st))));
      posted = length (posts (st_log st')) - length (posts (st_log st))
    in (w = watermarkLost \<or> w = watermarkNone \<and> limit \<noteq> 0 \<longrightarrow>
          posted \<le> (if limit \<le> 0 then 5 else nat limit)) \<and>
       (w = watermarkNone \<and> limit = 0 \<and> \<not> initialized (st_fs st) \<longrightarrow>
          posted = 0 \<and> last_seen_entry (st_fs st') = clampWatermark (entryIdentity E (last es)))"
proof -
  let ?s = "begun_sync run s st" and ?es = "sorted_entries (fy_fetch s)" and ?E = "fn_env run"
  let ?L = "newDeliveryLedger ?E ?es"
  let ?w = "resume ?E ?L (migratePreviousIdentities ?L (st_fs (checked run st)))"
  obtain hs ps rs st2 where run: "delivers (delivery_of run rend ?s) (plan_entries (fy_plan ?s))
      (begun run s st) hs ps rs st2 r"
    and st': "st' = (case r of Panicked p \<Rightarrow> st2 | Returned v \<Rightarrow> close_sync ?s (settlement v) st2)"
    by (rule apply_runs [OF assms(1,2)])
  have log: "st_log st' = st_log st2" and seen: "last_seen_entry (st_fs st') = last_seen_entry (st_fs st2)"
    unfolding st' by (cases r; simp)+
  have n: "length (posts (st_log st')) - length (posts (st_log st)) = length ps"
    using delivers_posts [OF run] by (simp add: log)
  have plan: "fy_plan ?s = planDelivery \<lparr>di_entries = ?es, di_watermark = ?w,
      di_catchUpLimit = fy_catchUpLimit s, di_wasInitialized = initialized (st_fs st)\<rparr>"
    by (simp add: begun_sync_def begin_sync_eq(2) assms(3))
  have le: "length ps \<le> length (plan_entries (fy_plan ?s))"
    using delivers_order(1) [OF run] by (rule list_emb_length)
  have capped: "length ps \<le> (if fy_catchUpLimit s \<le> 0 then 5 else nat (fy_catchUpLimit s))"
    if "wl_state ?w = watermarkLost \<or> wl_state ?w = watermarkNone \<and> fy_catchUpLimit s \<noteq> 0"
  proof -
    have "plan_entries (fy_plan ?s) = limitCatchUp ?es (fy_catchUpLimit s)"
      using that by (auto simp: plan planDelivery_def plan_entries_def plan_of_def)
    then show ?thesis using le length_limitCatchUp [of ?es "fy_catchUpLimit s"] by simp
  qed
  have skipped: "length ps = 0 \<and> last_seen_entry (st_fs st') = clampWatermark (entryIdentity ?E (last ?es))"
    if w: "wl_state ?w = watermarkNone" "fy_catchUpLimit s = 0" "\<not> initialized (st_fs st)"
  proof -
    have plan': "fy_plan ?s = (plan_of [])\<lparr>dp_skipBacklog := True\<rparr>"
      using w by (simp add: plan planDelivery_def)
    then have empty: "plan_entries (fy_plan ?s) = []" by (simp add: plan_entries_def plan_of_def)
    have "fr_entries (fy_fetch s) \<noteq> []"
      using assms(1) by (auto simp: deliverable_def withoutEntries_def split: if_splits)
    then have ne: "?es \<noteq> []" using sorted_entries_set [of "fy_fetch s"] by auto
    have "hs = []" using delivers_order(2) [OF run] unfolding empty by simp
    then have "last_seen_entry (st_fs st2) = last_seen_entry (st_fs (begun run s st))"
      using delivers_handles [OF run begun_ledger] by (simp add: handled_from_def)
    also have "\<dots> = ir_mark (lg_ids ?L ! (length ?es - 1))"
      using plan' unfolding begun_frame begin_sync_eq(6)
      by (simp add: begun_sync_def begin_sync_eq(2) markNewest_def setWatermark_def ledger_simps plan_of_def)
    also have "\<dots> = clampWatermark (entryIdentity ?E (last ?es))"
      using ne by (simp add: ledger_simps last_conv_nth)
    finally show ?thesis using le empty seen by simp
  qed
  show ?thesis unfolding Let_def n using capped skipped by blast
qed

text \<open>Without earlier identities the migration changes nothing.\<close>

lemma migrate_none:
  assumes "\<forall>e \<in> set es. en_previous_id e = []"
  shows "migratePreviousIdentities (newDeliveryLedger E es) fs = fs"
proof -
  have "migrate_step (newDeliveryLedger E es) i fs = fs" if "i < length es" for i fs
    using that assms carriesOver_iff [OF that, of E] by (simp add: migrate_step_def)
  then have "set is \<subseteq> {..<length es} \<Longrightarrow> fold (migrate_step (newDeliveryLedger E es)) is fs = fs" for "is"
    by (induction "is" arbitrary: fs) simp_all
  then show ?thesis by (simp add: migratePreviousIdentities_def ledger_simps atLeast0LessThan)
qed

lemma example_entries:
  "sorted_entries example_fetch = [entry_one\<lparr>en_feed_title := ''Go''\<rparr>, entry_two\<lparr>en_feed_title := ''Go''\<rparr>]"
  by (simp add: sorted_entries_def example_fetch_def recency_of_def entry_one_def entry_two_def
      example_entry_def less_eq_recency_def second_def)

lemma example_not_initialized:
  "fy_wasInitialized example_sync = initialized (st_fs example_start)"
  by (simp add: example_sync_def openFeedSync_def example_start_def new_feed_status_def)

lemma example_watermark:
  "resume plain_env L (st_fs (checked run example_start)) = \<lparr>wl_state = watermarkNone, wl_index = -1\<rparr>"
  by (simp add: resume_def hasWatermark_def status_frame) (simp add: example_start_def new_feed_status_def)

lemma example_no_previous: "\<forall>e \<in> set (sorted_entries example_fetch). en_previous_id e = []"
  by (simp add: example_entries entry_one_def entry_two_def example_entry_def)

lemma catch_up_capped_witness:
  "length (posts (st_log (fst (apply_sync (example_run []) example_sync example_start)))) \<le> 5"
  using catch_up_capped [OF example_deliverable prod.collapse [symmetric] example_not_initialized]
  by (simp add: Let_def migrate_none [OF example_no_previous] example_watermark)
    (simp add: example_start_def)

subsection \<open>Settlement of a sync\<close>

text \<open>C11: The cache validators are stored only by a sync that accounted for the whole fetch: if ETag or
  Last-Modified changed, no panic happened, nothing is pending, the failure state is clear, and
  every entry of the plan was either rejected by the filter or known to the ledger when the sync
  was settled.  Otherwise the next conditional GET could answer 304 before an unsent entry is
  retried.\<close>

theorem validators_only_when_accounted:
  assumes "deliverable run rend s" "apply_sync run s st = (st', r)"
    and "etag (st_fs st') \<noteq> etag (st_fs st) \<or> last_modified (st_fs st') \<noteq> last_modified (st_fs st)"
  shows "\<exists>v st2. r = Returned v \<and> \<not> v_pending v \<and>
    st' = close_sync (begun_sync run s st) syncAccountedFor st2 \<and>
    last_error (st_fs st') = [] \<and> retry_count (st_fs st') = 0 \<and>
    (\<forall>e \<in> set (plan_entries (fy_plan (begun_sync run s st))).
       rd_matches rend e \<longrightarrow>
       sent (fn_env run) (newDeliveryLedger (fn_env run) (sorted_entries (fy_fetch s))) (st_fs st2) e)"
proof -
  let ?s = "begun_sync run s st"
  obtain hs ps rs st2 where run: "delivers (delivery_of run rend ?s) (plan_entries (fy_plan ?s))
      (begun run s st) hs ps rs st2 r"
    and st': "st' = (case r of Panicked p \<Rightarrow> st2 | Returned v \<Rightarrow> close_sync ?s (settlement v) st2)"
    by (rule apply_runs [OF assms(1,2)])
  have frame: "etag (st_fs st2) = etag (st_fs st)" "last_modified (st_fs st2) = last_modified (st_fs st)"
    using delivers_handles [OF run begun_ledger] by (simp_all add: handled_from_def loop_frame_def status_frame)
  obtain v where v: "r = Returned v" using assms(3) st' frame by (cases r) auto
  have np: "\<not> v_pending v"
  proof
    assume "v_pending v"
    then show False using assms(3) frame st' v settle_validators [of syncPending ?s "st_fs st2"]
      by (simp add: settlement_def)
  qed
  then have "rs = []" using delivers_pending [OF run v] by simp
  then have all: "\<forall>e \<in> set (plan_entries (fy_plan ?s)).
      known (delivery_of run rend ?s) st2 e \<or> \<not> rd_matches rend e"
    using delivers_parts [OF run begun_ledger] by auto
  have close: "st' = close_sync ?s syncAccountedFor st2" using np v st' by (simp add: settlement_def)
  have "last_error (st_fs st') = []" "retry_count (st_fs st') = 0"
    unfolding close by (simp_all add: status_frame run_simps)
  then show ?thesis
    using v np close all begun_ledger [of run rend s st] by (auto simp: sync_sent_def)
qed

text \<open>When nothing fails, the loop gets through every entry.\<close>

lemma sender_ok:
  assumes "\<forall>m w. fst (dl_sender d m w) = SendOk" "send_message d m st = (st1, res)"
  shows "res = SendOk"
  using assms by (auto simp: send_message_def case_prod_beta)

lemma delivers_healthy:
  assumes "delivers d es st hs ps rs st' r"
    and "\<forall>e \<in> set es. \<exists>m ov. rd_build (dl_renderer d) e = Built m ov"
    and "\<forall>m w. fst (dl_sender d m w) = SendOk"
  shows "rs = [] \<and> r = Returned no_verdict \<and> hs = ps"
  using assms(1,2)
proof (induction rule: delivers.induct)
  case (send_stops st e m ov st1 err st2 v es)
  then show ?case using sender_ok [OF assms(3) send_stops(4)] by simp
next
  case (send_panics st e m ov st1 p es)
  then show ?case using sender_ok [OF assms(3) send_panics(4)] by simp
qed auto

lemma delivers_all_due:
  assumes "delivers d es st hs ps rs st' r" "ledger_for d all" "\<not> key_clash (dl_env d) all"
    and "\<forall>e \<in> set es. \<exists>m ov. rd_build (dl_renderer d) e = Built m ov"
    and "\<forall>m w. fst (dl_sender d m w) = SendOk"
    and "set es \<subseteq> set all" "distinct (map (entryIdentity (dl_env d)) es)"
  shows "ps = filter (\<lambda>e. \<not> known d st e \<and> rd_matches (dl_renderer d) e) es"
  using assms(1,4,6,7)
proof (induction rule: delivers.induct)
  case (posted st e m ov st1 es hs ps rs st' r)
  have "known d (after_sent d e st1) x = known d st x" if x: "x \<in> set es" for x
  proof -
    have "entryIdentity (dl_env d) x \<noteq> entryIdentity (dl_env d) e" using posted.prems(3) x by simp (metis imageI)
    then have "set (entry_keys (dl_env d) all x) \<inter> set (entry_keys (dl_env d) all e) = {}"
      using entry_keys_apart [OF assms(3), of x e] posted.prems(2) x by auto
    then show ?thesis
      using known_after [OF sent_handles(1) [OF assms(2), of e st1] assms(2), of x]
        known_same [OF send_handles_nothing(1) [OF posted(4)] assms(2), of x] by auto
  qed
  then have "filter (\<lambda>x. \<not> known d (after_sent d e st1) x \<and> rd_matches (dl_renderer d) x) es =
      filter (\<lambda>x. \<not> known d st x \<and> rd_matches (dl_renderer d) x) es"
    by (intro filter_cong) auto
  then show ?case using posted by simp
next
  case (send_stops st e m ov st1 err st2 v es)
  then show ?case using sender_ok [OF assms(5) send_stops(4)] by simp
next
  case (send_panics st e m ov st1 p es)
  then show ?case using sender_ok [OF assms(5) send_panics(4)] by simp
qed auto

lemma example_etag: "etag (st_fs (fst (apply_sync (example_run []) example_sync example_start))) = ''v2''"
proof -
  let ?run = "example_run []" and ?st = example_start
  let ?s = "begun_sync ?run example_sync ?st"
  obtain hs ps rs st2 where run: "delivers (delivery_of ?run title_renderer ?s) (plan_entries (fy_plan ?s))
      (begun ?run example_sync ?st) hs ps rs st2 (snd (apply_sync ?run example_sync ?st))"
    and st': "fst (apply_sync ?run example_sync ?st) = (case snd (apply_sync ?run example_sync ?st) of
      Panicked p \<Rightarrow> st2 | Returned v \<Rightarrow> close_sync ?s (settlement v) st2)"
    by (rule apply_runs [OF example_deliverable prod.collapse [symmetric]])
  have "snd (apply_sync ?run example_sync ?st) = Returned no_verdict"
    using delivers_healthy [OF run] by (simp add: title_renderer_def example_run_def refusing_def)
  then show ?thesis unfolding st'
    by (simp add: settlement_def no_verdict_def status_frame begun_sync_def begin_sync_eq(4))
      (simp add: example_fetch_def clearFailure_def run_clear_def)
qed

lemma validators_only_when_accounted_witness:
  "last_error (st_fs (fst (apply_sync (example_run []) example_sync example_start))) = []"
  using validators_only_when_accounted [OF example_deliverable prod.collapse [symmetric],
      of "[]" example_start] example_etag
  by (auto simp: example_start_def new_feed_status_def)

text \<open>C7: With a working renderer and webhook a sync delivers everything due: when no rendering and no
  send fails, the fetch's entries have distinct identities and their hashed texts do not
  clash, the sync posts exactly the entries of the plan that pass the filter and were not
  known, in scan order, and accounts for the fetch: it stores the validators and clears the
  failure state.\<close>

theorem healthy_sync_delivers_all:
  assumes "deliverable run rend s" "apply_sync run s st = (st', r)"
    and "\<forall>e. \<exists>m ov. rd_build rend e = Built m ov" "\<forall>m w. fst (fn_sender run m w) = SendOk"
    and "distinct (map (entryIdentity (fn_env run)) (sorted_entries (fy_fetch s)))"
  shows "(let plan = plan_entries (fy_plan (begun_sync run s st));
      L = newDeliveryLedger (fn_env run) (sorted_entries (fy_fetch s))
    in posts (st_log st') = posts (st_log st) @ map (\<lambda>e. case rd_build rend e of Built m ov \<Rightarrow> m)
         (filter (\<lambda>e. \<not> sent (fn_env run) L (st_fs (begun run s st)) e \<and> rd_matches rend e) plan) \<and>
       r = Returned no_verdict \<and> retry_count (st_fs st') = 0 \<and> last_error (st_fs st') = [] \<and>
       (fr_etag (fy_fetch s) \<noteq> [] \<longrightarrow> etag (st_fs st') = fr_etag (fy_fetch s)))
    \<or> key_clash (fn_env run) (sorted_entries (fy_fetch s))"
proof (rule disjCI)
  assume clash: "\<not> key_clash (fn_env run) (sorted_entries (fy_fetch s))"
  let ?s = "begun_sync run s st"
  obtain hs ps rs st2 where run: "delivers (delivery_of run rend ?s) (plan_entries (fy_plan ?s))
      (begun run s st) hs ps rs st2 r"
    and st': "st' = (case r of Panicked p \<Rightarrow> st2 | Returned v \<Rightarrow> close_sync ?s (settlement v) st2)"
    by (rule apply_runs [OF assms(1,2)])
  have sub: "subseq (plan_entries (fy_plan ?s)) (sorted_entries (fy_fetch s))"
    using plan_subseq by (simp add: begun_sync_def begin_sync_eq(2)) (metis delivery_inputs.select_convs(1))
  then have dist: "distinct (map (entryIdentity (fn_env run)) (plan_entries (fy_plan ?s)))"
    using assms(5) distinct_subseq [OF subseq_map] by blast
  have r: "r = Returned no_verdict" using delivers_healthy [OF run] assms(3,4) by simp
  have close: "st' = close_sync ?s syncAccountedFor st2"
    using st' r by (simp add: settlement_def no_verdict_def)
  have ps: "ps = filter (\<lambda>e. \<not> known (delivery_of run rend ?s) (begun run s st) e \<and> rd_matches rend e)
      (plan_entries (fy_plan ?s))"
    using delivers_all_due [OF run begun_ledger] assms(3,4) clash dist subseq_subset [OF sub] by auto
  show "let plan = plan_entries (fy_plan ?s); L = newDeliveryLedger (fn_env run) (sorted_entries (fy_fetch s))
    in posts (st_log st') = posts (st_log st) @ map (\<lambda>e. case rd_build rend e of Built m ov \<Rightarrow> m)
         (filter (\<lambda>e. \<not> sent (fn_env run) L (st_fs (begun run s st)) e \<and> rd_matches rend e) plan) \<and>
       r = Returned no_verdict \<and> retry_count (st_fs st') = 0 \<and> last_error (st_fs st') = [] \<and>
       (fr_etag (fy_fetch s) \<noteq> [] \<longrightarrow> etag (st_fs st') = fr_etag (fy_fetch s))"
    unfolding Let_def
    using delivers_posts [OF run] r begun_ledger [of run rend s st] unfolding close ps
    by (simp add: sync_sent_def message_of_def [abs_def] status_frame run_simps)
      (simp add: begun_sync_def begin_sync_eq(4) clearFailure_def run_clear_def status_frame)
qed

lemma example_plan:
  "plan_entries (fy_plan (begun_sync (example_run ts) example_sync example_start)) = sorted_entries example_fetch"
proof -
  have "fy_plan (begun_sync (example_run ts) example_sync example_start) =
      plan_of (limitCatchUp (sorted_entries example_fetch) 5)"
    by (simp add: begun_sync_def begin_sync_eq(2) migrate_none [OF example_no_previous] example_watermark
        planDelivery_def)
  then show ?thesis by (simp add: plan_entries_def plan_of_def limitCatchUp_def example_entries)
qed

lemma example_identities:
  "entryIdentity plain_env (entry_one\<lparr>en_feed_title := t\<rparr>) = ''post-1''"
  "entryIdentity plain_env (entry_two\<lparr>en_feed_title := t\<rparr>) = ''post-2''"
  by (simp_all add: entry_one_def entry_two_def example_entry_def entryIdentity_def normalizeIdentity_def
      normalizeURLIdentity_def lower_ascii_def schemeHTTP_def)

lemma example_begun_unsent: "\<not> sent plain_env L (st_fs (begun (example_run ts) example_sync example_start)) e"
proof -
  have "\<not> dp_skipBacklog (fy_plan (begun_sync (example_run ts) example_sync example_start))"
    by (simp add: begun_sync_def begin_sync_eq(2) migrate_none [OF example_no_previous] example_watermark
        planDelivery_def plan_of_def)
  then have "last_sent (st_fs (begun (example_run ts) example_sync example_start)) = []"
    by (simp add: status_frame begin_sync_eq(6) migrate_none [OF example_no_previous])
      (simp add: example_start_def new_feed_status_def)
  then show ?thesis by (simp add: sent_def sentAtKey_def)
qed

lemma healthy_sync_delivers_all_witness:
  "posts (st_log (fst (apply_sync (example_run []) example_sync example_start))) = [''Hello'', ''World'']
   \<or> key_clash plain_env (sorted_entries example_fetch)"
proof -
  have "\<forall>e. \<exists>m ov. rd_build title_renderer e = Built m ov" by (simp add: title_renderer_def)
  moreover have "\<forall>m w. fst (fn_sender (example_run []) m w) = SendOk" by (simp add: example_run_def refusing_def)
  moreover have "distinct (map (entryIdentity (fn_env (example_run []))) (sorted_entries (fy_fetch example_sync)))"
    by (simp add: example_entries example_identities)
  ultimately show ?thesis
    using healthy_sync_delivers_all [OF example_deliverable prod.collapse [symmetric], of "[]" example_start]
    by (simp add: Let_def example_plan example_begun_unsent example_entries)
      (auto simp: title_renderer_def entry_one_def entry_two_def example_entry_def example_start_def)
qed

text \<open>C30: A configuration error leaves the sync to be replayed: on a fetch with entries, a filter
  or template that does not compile posts nothing and leaves everything a sync starts from
  as it was (Initialized, the state version, the watermark, LastSent and the validators), so
  the sync after the fix plans exactly what this one would have.\<close>

theorem config_error_replays:
  assumes "fo_err (fn_fetched run) = None" "withoutEntries s = None"
    and "fn_renderer run (fn_group run) (fn_feed run) = Inl err"
    and "apply_sync run s st = (st', r)"
  shows "posts (st_log st') = posts (st_log st) \<and> r = Returned no_verdict \<and>
    initialized (st_fs st') = initialized (st_fs st) \<and>
    state_version (st_fs st') = state_version (st_fs st) \<and>
    last_seen_entry (st_fs st') = last_seen_entry (st_fs st) \<and>
    last_sent (st_fs st') = last_sent (st_fs st) \<and>
    etag (st_fs st') = etag (st_fs st) \<and> last_modified (st_fs st') = last_modified (st_fs st) \<and>
    last_error (st_fs st') = errText err"
proof -
  have verdict: "snd (record_outcome a (attemptConfigError err) st1) = no_verdict" for a st1
    by (simp add: record_outcome_def Let_def case_prod_beta)
  have told: "last_error (st_fs (fst (record_outcome a (attemptConfigError err) st1))) = errText err" for a st1
    by (simp add: record_outcome_def Let_def case_prod_beta status_frame)
  have st': "st' = close_sync s syncConfigError
      (fst (record_outcome (newAttempt run) (attemptConfigError err) (checked run st)))"
    and r: "r = Returned no_verdict"
    using assms by (simp_all add: apply_sync_def Let_def case_prod_beta verdict checked_def [symmetric])
  show ?thesis unfolding st' r by (simp add: status_frame told)
qed

lemma config_error_replays_witness:
  "let run = (example_run [])\<lparr>fn_renderer := \<lambda>g f. Inl (PlainError ''bad regex'')\<rparr>;
       st' = fst (apply_sync run example_sync example_start)
   in posts (st_log st') = [] \<and> \<not> initialized (st_fs st')"
proof -
  let ?run = "(example_run [])\<lparr>fn_renderer := \<lambda>g f. Inl (PlainError ''bad regex'')\<rparr>"
  have "fo_err (fn_fetched ?run) = None" "withoutEntries example_sync = None"
    using example_deliverable [of "[]"] by (simp_all add: deliverable_def)
  from config_error_replays [OF this, of "PlainError ''bad regex''" example_start] show ?thesis
    by (simp add: Let_def prod_eq_iff) (simp add: example_start_def new_feed_status_def)
qed

end
