(* ===== verification/Resync.thy ===== *)
theory Resync
  imports Feed_Sync_Laws
begin

text \<open>
  Syncs one after the other: the entry a sync stopped at is scanned again by the next one, and
  syncing an accounted-for document again posts nothing.
\<close>

lemma delivers_handled_part:
  assumes "delivers d es st hs ps rs st' r"
  shows "\<exists>xs. es = xs @ rs \<and> set hs \<subseteq> set xs"
  using assms
proof (induction rule: delivers.induct)
  case (already_sent st e es hs ps rs st' r)
  then obtain xs where "es = xs @ rs" "set hs \<subseteq> set xs" by blast
  then show ?case by (intro exI [of _ "e # xs"]) auto
next
  case (filtered_out st e es hs ps rs st' r)
  then obtain xs where "es = xs @ rs" "set hs \<subseteq> set xs" by blast
  then show ?case by (intro exI [of _ "e # xs"]) auto
next
  case (skipped st e err st1 v es hs ps rs st' r)
  then obtain xs where "es = xs @ rs" "set hs \<subseteq> set xs" by blast
  then show ?case by (intro exI [of _ "e # xs"]) auto
next
  case (posted st e m ov st1 es hs ps rs st' r)
  then obtain xs where "es = xs @ rs" "set hs \<subseteq> set xs" by blast
  then show ?case by (intro exI [of _ "e # xs"]) auto
qed simp_all

lemma prune_keys: "map_of (pruneLastSent al n) k \<noteq> None \<Longrightarrow> map_of al k \<noteq> None"
  by (auto simp: pruneLastSent_def Let_def fold_delete map_of_eq_None_iff split: if_splits)

lemma unpruned:
  assumes "distinct (map fst al)" "length (pruneLastSent al n) < n"
  shows "pruneLastSent al n = al"
  using pruned_spec(2) [OF assms(1), of n] assms(2) by (auto simp: pruneLastSent_def)

subsection \<open>LastSent keys stay distinct\<close>

definition keys_distinct :: "('m, 'z) attempt_state_scheme \<Rightarrow> bool" where
  "keys_distinct st \<longleftrightarrow> distinct (map fst (last_sent (st_fs st)))"

lemma keys_distinct_record [simp]: "keys_distinct (fst (record_outcome a outc st)) = keys_distinct st"
  by (simp add: keys_distinct_def status_frame)

lemma keys_distinct_mark: "keys_distinct st \<Longrightarrow> keys_distinct (sync_markHandled E s e st)"
  by (simp add: keys_distinct_def distinct_markHandled)

lemma keys_distinct_rendered:
  "renderFailed d e err st = (st1, q) \<Longrightarrow> keys_distinct st \<Longrightarrow> keys_distinct st1"
  by (elim render_failed_cases) (simp_all add: keys_distinct_mark)

lemma keys_distinct_posted:
  "send_message d m (observed ov st) = (st1, res) \<Longrightarrow> keys_distinct st1 = keys_distinct st"
  using send_message_simps(1) [of d m "observed ov st"] by (simp add: keys_distinct_def observed_def)

lemma delivers_keys_distinct:
  assumes "delivers d es st hs ps rs st' r"
  shows "keys_distinct st \<Longrightarrow> keys_distinct st'"
  using assms
proof (induction rule: delivers.induct)
  case (posted st e m ov st1 es hs ps rs st' r)
  then show ?case
    using keys_distinct_posted [OF posted(4)] by (simp add: after_sent_def keys_distinct_mark)
next
  case (send_stops st e m ov st1 err st2 v es)
  then show ?case
    using keys_distinct_posted [OF send_stops(4)]
      keys_distinct_record [of "dl_attempt d" "attemptSendFailed err" st1] by simp
qed (simp_all add: keys_distinct_rendered keys_distinct_posted)

lemma begun_keys_distinct: "keys_distinct st \<Longrightarrow> keys_distinct (begun run s st)"
  by (simp add: keys_distinct_def status_frame begin_sync_eq(6) distinct_migrate)

subsection \<open>The plan of the next sync\<close>

lemma resume_cong:
  "last_seen_entry fs = last_seen_entry fs' \<Longrightarrow> resume E L fs = resume E L fs'"
  by (simp add: resume_def hasWatermark_def)

definition plan_for :: "go_env \<Rightarrow> entry list \<Rightarrow> int \<Rightarrow> bool \<Rightarrow> feed_status \<Rightarrow> delivery_plan" where
  "plan_for E es limit init fs = planDelivery
     \<lparr>di_entries = es, di_watermark = resume E (newDeliveryLedger E es) fs, di_catchUpLimit = limit,
      di_wasInitialized = init\<rparr>"

lemma begun_plan:
  assumes "\<forall>e \<in> set (sorted_entries (fy_fetch s)). en_previous_id e = []"
  shows "fy_plan (begun_sync run s st) = plan_for (fn_env run) (sorted_entries (fy_fetch s))
    (fy_catchUpLimit s) (fy_wasInitialized s) (st_fs st)"
  using resume_cong [of "st_fs (checked run st)" "st_fs st"]
  by (simp add: begun_sync_def begin_sync_eq(2) migrate_none [OF assms] plan_for_def status_frame)

lemma begun_last_sent:
  assumes "\<forall>e \<in> set (sorted_entries (fy_fetch s)). en_previous_id e = []"
  shows "last_sent (st_fs (begun run s st)) = last_sent (st_fs st)"
  by (simp add: status_frame begin_sync_eq(6) migrate_none [OF assms])

lemma begun_last_seen:
  assumes "\<forall>e \<in> set (sorted_entries (fy_fetch s)). en_previous_id e = []"
  shows "last_seen_entry (st_fs (begun run s st)) =
    (if dp_skipBacklog (fy_plan (begun_sync run s st))
     then ir_mark (lg_ids (newDeliveryLedger (fn_env run) (sorted_entries (fy_fetch s)))
       ! (length (sorted_entries (fy_fetch s)) - 1))
     else last_seen_entry (st_fs st))"
  by (simp add: status_frame begun_sync_def begin_sync_eq(2,6) migrate_none [OF assms] markNewest_def
      setWatermark_def ledger_simps)

text \<open>The plan is a suffix of the fetch; after a handled entry the next plan starts right behind
  the first entry with its watermark, and otherwise it is the plan it was.\<close>

lemma plan_suffix:
  "plan_entries (plan_for E es limit init fs) \<noteq> [] \<Longrightarrow>
   \<exists>zs. es = zs @ plan_entries (plan_for E es limit init fs)"
  unfolding plan_for_def planDelivery_def plan_entries_def plan_of_def limitCatchUp_def Let_def
  by (auto intro: append_take_drop_id [symmetric] split: if_splits)

lemma plan_after_handled:
  assumes "h \<in> set es" "last_seen_entry fs = clampWatermark (entryIdentity E h)"
  obtains i where "i < length es" "plan_entries (plan_for E es limit init fs) = drop (Suc i) es"
    "clampWatermark (entryIdentity E (es ! i)) = clampWatermark (entryIdentity E h)"
    "\<forall>j < i. clampWatermark (entryIdentity E (es ! j)) \<noteq> clampWatermark (entryIdentity E h)"
  using resume_at_mark [OF assms] that
  by (auto simp: plan_for_def planDelivery_def plan_entries_def plan_of_def nat_add_distrib)

lemma plan_unmoved:
  assumes "last_seen_entry fs' = last_seen_entry fs" "\<not> dp_skipBacklog (plan_for E es limit init fs)"
    and "init \<longrightarrow> init'"
  shows "plan_for E es limit init' fs' = plan_for E es limit init fs"
  using assms resume_cong [OF assms(1)] by (auto simp: plan_for_def planDelivery_def plan_of_def split: if_splits)

lemma skip_plan_empty:
  "dp_skipBacklog (plan_for E es limit init fs) \<Longrightarrow> plan_entries (plan_for E es limit init fs) = []"
  by (auto simp: plan_for_def planDelivery_def plan_of_def plan_entries_def split: if_splits)

subsection \<open>Properties\<close>

text \<open>The next sync of a feed: opened on the status the previous one left, for the same document.\<close>

definition next_sync :: "feed_sync \<Rightarrow> ('m, 's) sync_state \<Rightarrow> int \<Rightarrow> feed_sync" where
  "next_sync s st now = openFeedSync (st_fs st) (fy_fetch s)
     \<lparr>fss_catchUpLimit = fy_catchUpLimit s, fss_now = now\<rparr>"

lemma next_sync_simps [simp]:
  "fy_fetch (next_sync s st now) = fy_fetch s" "fy_catchUpLimit (next_sync s st now) = fy_catchUpLimit s"
  "fy_wasInitialized (next_sync s st now) = initialized (st_fs st)"
  by (simp_all add: next_sync_def openFeedSync_def)

lemma pending_close:
  assumes "deliverable run rend s" "apply_sync run s st = (st1, Returned v)"
  obtains hs ps rs st2 where
    "delivers (delivery_of run rend (begun_sync run s st)) (plan_entries (fy_plan (begun_sync run s st)))
       (begun run s st) hs ps rs st2 (Returned v)"
    "st1 = close_sync (begun_sync run s st) (settlement v) st2"
    "initialized (st_fs st1)" "last_seen_entry (st_fs st1) = last_seen_entry (st_fs st2)"
    "last_sent (st_fs st1) = pruneLastSent (last_sent (st_fs st2)) maxLastSentPerFeed"
    "v_pending v \<longleftrightarrow> rs \<noteq> []"
proof -
  obtain hs ps rs st2 where run: "delivers (delivery_of run rend (begun_sync run s st))
      (plan_entries (fy_plan (begun_sync run s st))) (begun run s st) hs ps rs st2 (Returned v)"
    and st1: "st1 = close_sync (begun_sync run s st) (settlement v) st2"
    by (rule apply_runs [OF assms]) simp
  show thesis
    by (rule that [OF run st1])
      (simp_all add: st1 settle_initialized settle_last_sent settlement_def delivers_pending [OF run])
qed

lemma delivers_nothing_seen:
  assumes "delivers (delivery_of run rend (begun_sync run s st)) es (begun run s st) hs ps rs st2 r"
  shows "last_seen_entry (st_fs st2) = (if hs = [] then last_seen_entry (st_fs (begun run s st))
    else clampWatermark (entryIdentity (fn_env run) (hs ! (length hs - 1))))"
  using delivers_handles [OF assms begun_ledger] by (simp add: handled_from_def)

text \<open>Where a sync leaves the watermark: on the last entry it handled, on the newest one when it
  skipped the backlog, and where it was otherwise.\<close>

abbreviation mark_of :: "go_env \<Rightarrow> entry \<Rightarrow> string" where
  "mark_of E e \<equiv> clampWatermark (entryIdentity E e)"

definition watermark_after :: "go_env \<Rightarrow> entry list \<Rightarrow> delivery_plan \<Rightarrow> feed_status \<Rightarrow> entry list \<Rightarrow> string" where
  "watermark_after E es plan fs hs =
     (if hs \<noteq> [] then mark_of E (hs ! (length hs - 1))
      else if dp_skipBacklog plan then mark_of E (es ! (length es - 1)) else last_seen_entry fs)"

lemma delivers_watermark:
  assumes "deliverable run rend s"
    and "delivers (delivery_of run rend (begun_sync run s st)) entries (begun run s st) hs ps rs st2 r"
    and prev: "\<forall>e \<in> set (sorted_entries (fy_fetch s)). en_previous_id e = []"
  shows "last_seen_entry (st_fs st2) =
    watermark_after (fn_env run) (sorted_entries (fy_fetch s)) (fy_plan (begun_sync run s st)) (st_fs st) hs"
proof -
  have "fr_entries (fy_fetch s) \<noteq> []"
    using assms(1) by (auto simp: deliverable_def withoutEntries_def split: if_splits)
  then have "sorted_entries (fy_fetch s) \<noteq> []" using sorted_entries_set [of "fy_fetch s"] by auto
  then show ?thesis
    using delivers_nothing_seen [OF assms(2)]
      ledger_ids_nth(1) [of "length (sorted_entries (fy_fetch s)) - 1" "sorted_entries (fy_fetch s)" "fn_env run"]
    by (simp add: watermark_after_def begun_last_seen [OF prev] the_record_simps)
qed

text \<open>An entry behind the handled ones stays in the plan; and when no two entries share a watermark,
  the next plan has no entry this one has not.\<close>

lemma next_plan_keeps:
  assumes "plan_entries (plan_for E es limit init fs) = xs @ e # ys" "set hs \<subseteq> set xs"
    and "last_seen_entry fs' = watermark_after E es (plan_for E es limit init fs) fs hs"
  shows "e \<in> set (plan_entries (plan_for E es limit True fs'))"
proof -
  let ?plan = "plan_for E es limit init fs"
  have noskip: "\<not> dp_skipBacklog ?plan" using skip_plan_empty assms(1) by fastforce
  obtain zs where es: "es = zs @ xs @ e # ys"
    using plan_suffix assms(1) by (metis append_is_Nil_conv list.distinct(1))
  show ?thesis
  proof (cases "hs = []")
    case True
    then have "last_seen_entry fs' = last_seen_entry fs" using assms(3) noskip by (simp add: watermark_after_def)
    from plan_unmoved [OF this noskip, of True] show ?thesis using assms(1) by simp
  next
    case False
    let ?h = "hs ! (length hs - 1)"
    have h: "?h \<in> set xs" using False assms(2) by auto
    then have mem: "?h \<in> set es" by (simp add: es)
    have "last_seen_entry fs' = mark_of E ?h" using assms(3) False by (simp add: watermark_after_def)
    from plan_after_handled [OF mem this] obtain i where i: "plan_entries (plan_for E es limit True fs') = drop (Suc i) es"
      "\<forall>j < i. mark_of E (es ! j) \<noteq> mark_of E ?h" by blast
    obtain k where k: "k < length xs" "xs ! k = ?h" using h by (auto simp: in_set_conv_nth)
    then have "es ! (length zs + k) = ?h" unfolding es by (simp add: nth_append)
    then have "i \<le> length zs + k" using i(2) by (metis not_le_imp_less)
    then have "e \<in> set (drop (Suc i) es)" using k(1) by (subst es) simp
    then show ?thesis unfolding i(1) .
  qed
qed

lemma next_plan_subset:
  assumes "distinct (map (mark_of E) es)" "es \<noteq> []" "set hs \<subseteq> set (plan_entries (plan_for E es limit init fs))"
    and "last_seen_entry fs' = watermark_after E es (plan_for E es limit init fs) fs hs"
  shows "set (plan_entries (plan_for E es limit True fs')) \<subseteq> set (plan_entries (plan_for E es limit init fs))"
proof -
  let ?plan = "plan_for E es limit init fs" and ?next = "plan_for E es limit True fs'"
  have after: "plan_entries ?next = drop (Suc j) es" if "j < length es" "last_seen_entry fs' = mark_of E (es ! j)" for j
  proof -
    have mem: "es ! j \<in> set es" using that(1) by simp
    obtain i where i: "i < length es" "plan_entries ?next = drop (Suc i) es" "mark_of E (es ! i) = mark_of E (es ! j)"
      using plan_after_handled [OF mem \<open>last_seen_entry fs' = mark_of E (es ! j)\<close>] by blast
    then have "i = j" using assms(1) that(1) by (simp add: distinct_conv_nth) (metis nth_map)
    then show ?thesis using i(2) by simp
  qed
  show ?thesis
  proof (cases "hs = []")
    case True
    show ?thesis
    proof (cases "dp_skipBacklog ?plan")
      case False
      then have "last_seen_entry fs' = last_seen_entry fs" using assms(4) True by (simp add: watermark_after_def)
      from plan_unmoved [OF this False, of True] show ?thesis by simp
    next
      case skip: True
      then have "last_seen_entry fs' = mark_of E (es ! (length es - 1))"
        using assms(4) True by (simp add: watermark_after_def)
      then show ?thesis using after [of "length es - 1"] assms(2) by simp
    qed
  next
    case False
    let ?h = "hs ! (length hs - 1)"
    have h: "?h \<in> set (plan_entries ?plan)" using False assms(3) by auto
    then obtain zs where es: "es = zs @ plan_entries ?plan"
      using plan_suffix [of E es limit init fs] by fastforce
    obtain k where k: "k < length (plan_entries ?plan)" "plan_entries ?plan ! k = ?h"
      using h by (auto simp: in_set_conv_nth)
    have k': "length zs + k < length es" "es ! (length zs + k) = ?h" using k by (subst es, simp)+
    then have "plan_entries ?next = drop (Suc (length zs + k)) es"
      using assms(4) False by (intro after) (simp_all add: watermark_after_def)
    then have "plan_entries ?next = drop (Suc k) (plan_entries ?plan)" by (subst (asm) (2) es) simp
    then show ?thesis by (simp add: set_drop_subset)
  qed
qed

text \<open>C5: An unresolved entry is never passed over: when a sync ends pending, the entry it stopped
  at (one that passes the filter and was not delivered) is in the plan of the next sync of
  the same document, and the ledger still does not know it, so it is attempted again.  The
  entries are assumed to carry no earlier identity.\<close>

theorem unresolved_entry_scanned_again:
  assumes "deliverable run rend s" "apply_sync run s st = (st1, Returned v)" "v_pending v"
    and "\<forall>e \<in> set (sorted_entries (fy_fetch s)). en_previous_id e = []"
    and "fy_wasInitialized s = initialized (st_fs st)"
  shows "\<exists>e \<in> set (plan_entries (fy_plan (begun_sync run s st))).
    e \<in> set (plan_entries (fy_plan (begun_sync run (next_sync s st1 now) st1))) \<and> rd_matches rend e \<and>
    \<not> sent (fn_env run) (newDeliveryLedger (fn_env run) (sorted_entries (fy_fetch s)))
        (st_fs (begun run (next_sync s st1 now) st1)) e"
proof -
  let ?s = "begun_sync run s st" and ?es = "sorted_entries (fy_fetch s)" and ?E = "fn_env run"
  let ?plan = "plan_for ?E ?es (fy_catchUpLimit s) (initialized (st_fs st)) (st_fs st)"
  let ?next = "plan_for ?E ?es (fy_catchUpLimit s) (initialized (st_fs st1)) (st_fs st1)"
  obtain hs ps rs st2 where run: "delivers (delivery_of run rend ?s) (plan_entries (fy_plan ?s))
      (begun run s st) hs ps rs st2 (Returned v)"
    and fs: "initialized (st_fs st1)" "last_seen_entry (st_fs st1) = last_seen_entry (st_fs st2)"
      "last_sent (st_fs st1) = pruneLastSent (last_sent (st_fs st2)) maxLastSentPerFeed"
      "v_pending v \<longleftrightarrow> rs \<noteq> []"
    by (rule pending_close [OF assms(1,2)])
  have plans: "fy_plan ?s = ?plan" "fy_plan (begun_sync run (next_sync s st1 now) st1) = ?next"
    using assms(4,5) by (simp_all add: begun_plan)
  obtain e ys where rs: "rs = e # ys" using fs(4) assms(3) by (cases rs) auto
  obtain xs where xs: "plan_entries ?plan = xs @ e # ys" "set hs \<subseteq> set xs"
    using delivers_handled_part [OF run] rs plans(1) by auto
  have stop: "rd_matches rend e" "\<not> known (delivery_of run rend ?s) st2 e"
    using delivers_stops [OF run begun_ledger] rs by simp_all
  have "e \<in> set (plan_entries ?next)"
    using next_plan_keeps [OF xs] delivers_watermark [OF assms(1) run assms(4)] fs(1,2) plans(1) by simp
  moreover have "\<not> sent ?E (newDeliveryLedger ?E ?es) (st_fs (begun run (next_sync s st1 now) st1)) e"
  proof -
    have "last_sent (st_fs (begun run (next_sync s st1 now) st1)) =
        pruneLastSent (last_sent (st_fs st2)) maxLastSentPerFeed"
      using begun_last_sent [of "next_sync s st1 now" run st1] assms(4) fs(3) by simp
    then show ?thesis
      using stop(2) prune_keys [of "last_sent (st_fs st2)" maxLastSentPerFeed] begun_ledger [of run rend s st]
      unfolding sync_sent_def sent_def sentAtKey_def by (metis delivery_of_simps(2,3))
  qed
  ultimately show ?thesis using xs(1) stop(1) plans by auto
qed

text \<open>The example's webhook refusing every message: the first entry stays pending.\<close>

lemma example_refused:
  "\<exists>v. snd (apply_sync (example_run [''Hello'', ''World'']) example_sync example_start) = Returned v \<and> v_pending v"
proof -
  let ?run = "example_run [''Hello'', ''World'']" and ?st = example_start
  let ?s = "begun_sync ?run example_sync ?st"
  let ?e = "entry_one\<lparr>en_feed_title := ''Go''\<rparr>" and ?d = "delivery_of ?run title_renderer (begun_sync ?run example_sync ?st)"
  have title: "en_title ?e = ''Hello''" by (simp add: entry_one_def example_entry_def)
  have built: "rd_build title_renderer ?e = Built ''Hello'' 0" using title by (simp add: title_renderer_def)
  have unknown: "\<not> known ?d (begun ?run example_sync ?st) ?e"
    using example_begun_unsent by (simp add: sync_sent_def)
  have refused: "snd (send_message ?d ''Hello'' st) = SendError (PlainError ''refused'')" for st
    by (simp add: send_message_def case_prod_beta) (simp add: example_run_def refusing_def)
  have "snd (delivery_run ?d (?e # es) (begun ?run example_sync ?st)) =
      Returned (snd (record_outcome (newAttempt ?run) (attemptSendFailed (PlainError ''refused''))
        (fst (send_message ?d ''Hello'' (begun ?run example_sync ?st)))))" for es
    using unknown built refused by (simp add: title_renderer_def Let_def case_prod_beta)
  then have "snd (run_delivery ?d (begun ?run example_sync ?st)) =
      Returned (snd (record_outcome (newAttempt ?run) (attemptSendFailed (PlainError ''refused''))
        (fst (send_message ?d ''Hello'' (begun ?run example_sync ?st)))))"
    by (simp only: run_delivery_def delivery_of_simps example_plan) (simp only: example_entries)
  then show ?thesis
    using rate_limit_or_pending by (auto simp: apply_deliverable [OF example_deliverable] split: prod.splits)
qed

lemma unresolved_entry_scanned_again_witness:
  "let run = example_run [''Hello'', ''World''];
       st1 = fst (apply_sync run example_sync example_start)
   in \<exists>e \<in> set (sorted_entries example_fetch).
     e \<in> set (plan_entries (fy_plan (begun_sync run (next_sync example_sync st1 0) st1)))"
proof -
  obtain v where "apply_sync (example_run [''Hello'', ''World'']) example_sync example_start =
      (fst (apply_sync (example_run [''Hello'', ''World'']) example_sync example_start), Returned v)" "v_pending v"
    using example_refused by (metis prod.collapse)
  from unresolved_entry_scanned_again [OF example_deliverable this, of 0] show ?thesis
    using example_no_previous example_not_initialized by (auto simp: Let_def example_plan)
qed

text \<open>C6: Syncing a document again posts nothing: after a sync that accounted for the fetch, the
  sync of the same document on the status it left posts no message, whatever renderer and
  webhook answer, as long as its entries are told apart (distinct watermark forms of their
  identities, no earlier ones) and LastSent has not reached its cap.\<close>

theorem resync_posts_nothing:
  assumes "deliverable run rend s" "apply_sync run s st = (st1, Returned v)" "\<not> v_pending v"
    and "\<forall>e \<in> set (sorted_entries (fy_fetch s)). en_previous_id e = []"
    and "distinct (map (\<lambda>e. clampWatermark (entryIdentity (fn_env run) e)) (sorted_entries (fy_fetch s)))"
    and "fy_wasInitialized s = initialized (st_fs st)" "distinct (map fst (last_sent (st_fs st)))"
    and "length (last_sent (st_fs st1)) < maxLastSentPerFeed"
    and "apply_sync run (next_sync s st1 now) st1 = (st2, r)"
  shows "posts (st_log st2) = posts (st_log st1)"
proof -
  let ?s = "begun_sync run s st" and ?es = "sorted_entries (fy_fetch s)" and ?E = "fn_env run"
  let ?s2 = "begun_sync run (next_sync s st1 now) st1" and ?d = "delivery_of run rend (begun_sync run s st)"
  let ?plan = "plan_for ?E ?es (fy_catchUpLimit s) (initialized (st_fs st)) (st_fs st)"
  let ?next = "plan_for ?E ?es (fy_catchUpLimit s) (initialized (st_fs st1)) (st_fs st1)"
  obtain hs ps rs stc where run: "delivers ?d (plan_entries (fy_plan ?s)) (begun run s st) hs ps rs stc (Returned v)"
    and fs: "initialized (st_fs st1)" "last_seen_entry (st_fs st1) = last_seen_entry (st_fs stc)"
      "last_sent (st_fs st1) = pruneLastSent (last_sent (st_fs stc)) maxLastSentPerFeed"
      "v_pending v \<longleftrightarrow> rs \<noteq> []"
    by (rule pending_close [OF assms(1,2)])
  have "keys_distinct stc"
    by (rule delivers_keys_distinct [OF run begun_keys_distinct]) (simp add: keys_distinct_def assms(7))
  then have kept: "last_sent (st_fs st1) = last_sent (st_fs stc)"
    using unpruned [of "last_sent (st_fs stc)" maxLastSentPerFeed] fs(3) assms(8) by (simp add: keys_distinct_def)
  have plans: "fy_plan ?s = ?plan" "fy_plan ?s2 = ?next" using assms(4,6) by (simp_all add: begun_plan)
  have "?es \<noteq> []" "set hs \<subseteq> set (plan_entries ?plan)"
    using assms(1) sorted_entries_set [of "fy_fetch s"] delivers_handled_part [OF run] plans(1)
    by (auto simp: deliverable_def withoutEntries_def split: if_splits)
  then have sub: "set (plan_entries ?next) \<subseteq> set (plan_entries ?plan)"
    using next_plan_subset [OF assms(5)] delivers_watermark [OF assms(1) run assms(4)] fs(1,2) plans(1) by simp
  have resolved: "\<forall>x \<in> set (plan_entries ?plan). known ?d stc x \<or> \<not> rd_matches rend x"
    using delivers_parts [OF run begun_ledger] fs(4) assms(3) plans(1) by auto
  have "deliverable run rend (next_sync s st1 now)"
    using assms(1) by (auto simp: deliverable_def withoutEntries_def split: if_splits)
  from apply_runs [OF this assms(9)] obtain hs' ps' rs' st' where
    run': "delivers (delivery_of run rend ?s2) (plan_entries (fy_plan ?s2))
      (begun run (next_sync s st1 now) st1) hs' ps' rs' st' r"
    and st2: "st2 = (case r of Panicked p \<Rightarrow> st' | Returned v \<Rightarrow> close_sync ?s2 (settlement v) st')"
    by blast
  have "last_sent (st_fs (begun run (next_sync s st1 now) st1)) = last_sent (st_fs stc)"
    using begun_last_sent [of "next_sync s st1 now" run st1] assms(4) kept by simp
  then have "known (delivery_of run rend ?s2) (begun run (next_sync s st1 now) st1) x = known ?d stc x" for x
    using begun_ledger [of run rend s st] begun_ledger [of run rend "next_sync s st1 now" st1]
    by (simp add: sync_sent_def sent_def sentAtKey_def)
  then have "ps' = []"
    using delivers_only_due [OF run' begun_ledger] subseq_subset [OF delivers_order(1) [OF run']] sub resolved plans(2)
    by (cases ps') auto
  then show ?thesis using delivers_posts [OF run'] unfolding st2 by (cases r) simp_all
qed

lemma example_accounted:
  "snd (apply_sync (example_run []) example_sync example_start) = Returned no_verdict"
proof -
  let ?run = "example_run []" and ?s = "begun_sync (example_run []) example_sync example_start"
  obtain hs ps rs st2 where run: "delivers (delivery_of ?run title_renderer ?s) (plan_entries (fy_plan ?s))
      (begun ?run example_sync example_start) hs ps rs st2 (snd (apply_sync ?run example_sync example_start))"
    by (rule apply_runs [OF example_deliverable prod.collapse [symmetric]])
  show ?thesis using delivers_healthy [OF run] by (simp add: title_renderer_def example_run_def refusing_def)
qed

lemma few_records:
  assumes "handled_from d all hs st st'" "keys_distinct st'" "last_sent (st_fs st) = []"
  shows "length (last_sent (st_fs st')) \<le> 2 * length hs"
proof -
  have "set (map fst (last_sent (st_fs st'))) \<subseteq> set (concat (map (entry_keys (dl_env d) all) hs))"
  proof
    fix k assume "k \<in> set (map fst (last_sent (st_fs st')))"
    then have "map_of (last_sent (st_fs st')) k \<noteq> None" by (simp add: map_of_eq_None_iff)
    then show "k \<in> set (concat (map (entry_keys (dl_env d) all) hs))"
      using assms(1,3) by (auto simp: handled_from_def split: if_splits)
  qed
  then have "card (set (map fst (last_sent (st_fs st')))) \<le>
      card (set (concat (map (entry_keys (dl_env d) all) hs)))" by (rule card_mono [rotated]) simp
  also have "\<dots> \<le> length (concat (map (entry_keys (dl_env d) all) hs))" by (rule card_length)
  also have "\<dots> \<le> 2 * length hs" by (induction hs) (simp_all add: entry_keys_def)
  finally show ?thesis
    using distinct_card [of "map fst (last_sent (st_fs st'))"] assms(2) by (simp add: keys_distinct_def)
qed

lemma resync_posts_nothing_witness:
  "let run = example_run []; st1 = fst (apply_sync run example_sync example_start)
   in posts (st_log (fst (apply_sync run (next_sync example_sync st1 0) st1))) = posts (st_log st1)"
proof -
  let ?run = "example_run []" and ?st1 = "fst (apply_sync (example_run []) example_sync example_start)"
  have r: "apply_sync ?run example_sync example_start = (?st1, Returned no_verdict)"
    using example_accounted by (metis prod.collapse)
  obtain hs ps rs st2 where run: "delivers (delivery_of ?run title_renderer (begun_sync ?run example_sync example_start))
      (plan_entries (fy_plan (begun_sync ?run example_sync example_start)))
      (begun ?run example_sync example_start) hs ps rs st2 (Returned no_verdict)"
    and last: "last_sent (st_fs ?st1) = pruneLastSent (last_sent (st_fs st2)) maxLastSentPerFeed"
    by (rule pending_close [OF example_deliverable r])
  have start: "last_sent (st_fs example_start) = []" by (simp add: example_start_def new_feed_status_def)
  have begun: "last_sent (st_fs (begun ?run example_sync example_start)) = []"
    using begun_last_sent [of example_sync ?run example_start] example_no_previous start by simp
  have "keys_distinct st2"
    by (rule delivers_keys_distinct [OF run begun_keys_distinct]) (simp add: keys_distinct_def start)
  from few_records [OF delivers_handles [OF run begun_ledger] this begun]
  have "length (last_sent (st_fs st2)) \<le> 2 * length hs" .
  moreover have "length hs \<le> 2"
    using list_emb_length [OF delivers_order(2) [OF run]] by (simp add: example_plan example_entries)
  ultimately have "length (last_sent (st_fs ?st1)) < maxLastSentPerFeed"
    by (simp add: last maxLastSentPerFeed_def pruneLastSent_def)
  moreover have "distinct (map (\<lambda>e. clampWatermark (entryIdentity plain_env e)) (sorted_entries example_fetch))"
    by (simp add: example_entries example_identities clampWatermark_def maxStatusTextBytes_def)
  ultimately show ?thesis
    using resync_posts_nothing [OF example_deliverable r, of 0 _ _, OF _ _ _ _ _ _ prod.collapse [symmetric]]
      example_no_previous example_not_initialized start
    by (simp add: Let_def no_verdict_def example_entries example_identities)
qed

subsection \<open>A repeated identity\<close>

text \<open>The lookup stops at the first entry with the watermark, so distinctness matters: when the
  newest entry of a skipped backlog repeats an older identity, the next scan starts behind the
  older copy, and not, as \<open>skipBacklog\<close> is described, right behind the newest.\<close>

lemma repeated_identity_rescans_backlog:
  "let a = entry_one; b = entry_two; c = entry_one\<lparr>en_published := 2 * second\<rparr>; es = [a, b, c];
       fs = new_feed_status ''u''; L = newDeliveryLedger plain_env es
   in dp_skipBacklog (plan_for plain_env es 0 False fs) \<and>
      plan_entries (plan_for plain_env es 0 True (markNewest L fs)) = [b, c]"
proof -
  let ?c = "entry_one\<lparr>en_published := 2 * second\<rparr>" let ?es = "[entry_one, entry_two, ?c]"
  let ?fs = "markNewest (newDeliveryLedger plain_env ?es) (new_feed_status ''u'')"
  have ids: "entryIdentity plain_env entry_one = ''post-1''" "entryIdentity plain_env ?c = ''post-1''"
    by (simp_all add: entry_one_def entry_two_def example_entry_def entryIdentity_def normalizeIdentity_def
      normalizeURLIdentity_def lower_ascii_def schemeHTTP_def)
  have "lg_ids (newDeliveryLedger plain_env ?es) ! 2 = the_record plain_env (newDeliveryLedger plain_env ?es) (?es ! 2)"
    by (rule ledger_ids_nth(1)) simp
  then have seen: "last_seen_entry ?fs = clampWatermark (entryIdentity plain_env ?c)"
    by (simp add: markNewest_def setWatermark_def ledger_ids_nth(3) the_record_simps numeral_2_eq_2)
  have mem: "?c \<in> set ?es" by simp
  obtain i where i: "i < length ?es" "plan_entries (plan_for plain_env ?es 0 True ?fs) = drop (Suc i) ?es"
    "\<forall>j < i. clampWatermark (entryIdentity plain_env (?es ! j)) \<noteq> clampWatermark (entryIdentity plain_env ?c)"
    by (rule plan_after_handled [OF mem seen])
  have "i = 0" using i(3) ids by (cases i) auto
  then have "plan_entries (plan_for plain_env ?es 0 True ?fs) = [entry_two, ?c]" using i(2) by simp
  moreover have "dp_skipBacklog (plan_for plain_env ?es 0 False (new_feed_status ''u''))"
    by (simp add: plan_for_def planDelivery_def plan_of_def resume_def hasWatermark_def new_feed_status_def)
  ultimately show ?thesis by (simp add: Let_def)
qed

end
