(* ===== verification/Send_Answers.thy ===== *)
theory Send_Answers
  imports Resync
begin

text \<open>
  What became of the messages a run posted: the answers the webhook gave and the worlds it went
  through, and the records of the accepted ones, which pruning keeps as long as LastSent has room.
\<close>

section \<open>Answers\<close>

text \<open>The answers to a sequence of messages and the world it leaves.\<close>

fun sender_answers :: "('m, 's) message_sender \<Rightarrow> 's \<Rightarrow> 'm list \<Rightarrow> send_result list" where
  "sender_answers f w [] = []"
| "sender_answers f w (m # ms) = (case f m w of (a, w') \<Rightarrow> a # sender_answers f w' ms)"

fun world_after :: "('m, 's) message_sender \<Rightarrow> 's \<Rightarrow> 'm list \<Rightarrow> 's" where
  "world_after f w [] = w"
| "world_after f w (m # ms) = world_after f (snd (f m w)) ms"

lemma sender_answers_append: "sender_answers f w (xs @ ys) = sender_answers f w xs @ sender_answers f (world_after f w xs) ys"
  by (induction xs arbitrary: w) (simp_all split: prod.split)

lemma world_after_append: "world_after f w (xs @ ys) = world_after f (world_after f w xs) ys"
  by (induction xs arbitrary: w) simp_all

lemma length_sender_answers [simp]: "length (sender_answers f w ms) = length ms"
  by (induction ms arbitrary: w) (simp_all split: prod.split)

lemma send_world:
  assumes "send_message d m (observed ov st) = (st1, res)"
  shows "dl_sender d m (sy_world st) = (res, sy_world st1)"
  using assms by (auto simp: send_message_def split: prod.splits)

text \<open>An entry whose message was accepted was handled.\<close>

definition accepted_handled :: "('m, 's) entry_delivery \<Rightarrow> 's \<Rightarrow> entry list \<Rightarrow> entry list \<Rightarrow> bool" where
  "accepted_handled d w ps hs \<longleftrightarrow>
     (\<forall>(e, a) \<in> set (zip ps (sender_answers (dl_sender d) w (map (message_of d) ps))). a = SendOk \<longrightarrow> e \<in> set hs)"

lemma delivers_answered:
  assumes "delivers d es st hs ps rs st' r"
  shows "sy_world st' = world_after (dl_sender d) (sy_world st) (map (message_of d) ps) \<and>
    accepted_handled d (sy_world st) ps hs"
  using assms
proof (induction rule: delivers.induct)
  case (skipped st e err st1 v es hs ps rs st' r)
  then show ?case using render_failed_world [OF skipped(4)] by (auto simp: accepted_handled_def)
next
  case (posted st e m ov st1 es hs ps rs st' r)
  have "sy_world (after_sent d e st1) = sy_world st1" by (simp add: after_sent_def)
  then show ?case
    using posted.IH send_world [OF posted(4)] posted(3) by (auto simp: accepted_handled_def message_of_def)
next
  case (send_stops st e m ov st1 err st2 v es)
  have "sy_world st2 = sy_world st1" using send_stops(5) record_same_more(1) by (metis fst_conv)
  then show ?case
    using send_world [OF send_stops(4)] send_stops(3) by (simp add: accepted_handled_def message_of_def)
next
  case (send_panics st e m ov st1 p es)
  then show ?case using send_world [OF send_panics(4)] by (simp add: accepted_handled_def message_of_def)
qed (simp_all add: accepted_handled_def render_failed_world)

section \<open>Records\<close>

text \<open>LastSent holds as many records as it may and none of them is older than the text \<open>now\<close>.\<close>

definition crowded :: "string \<Rightarrow> feed_status \<Rightarrow> bool" where
  "crowded now fs \<longleftrightarrow> length (last_sent fs) = maxLastSentPerFeed \<and> list_all (\<lambda>(k, t). now \<le> t) (last_sent fs)"

definition kept_in :: "go_env \<Rightarrow> string \<Rightarrow> feed_status \<Rightarrow> entry \<Rightarrow> bool" where
  "kept_in E now fs e \<longleftrightarrow> sentAtKey fs (computeEntryKey E e) \<noteq> None \<or> crowded now fs"

lemma pruned_kept:
  assumes "distinct (map fst m)" "map_of m k = Some t"
  shows "map_of (pruneLastSent m maxLastSentPerFeed) k \<noteq> None \<or>
    length (pruneLastSent m maxLastSentPerFeed) = maxLastSentPerFeed \<and>
    list_all (\<lambda>(k', t'). t \<le> t') (pruneLastSent m maxLastSentPerFeed)"
proof (cases "map_of (pruneLastSent m maxLastSentPerFeed) k")
  case None
  let ?p = "pruneLastSent m maxLastSentPerFeed"
  have kt: "(k, t) \<in> set m - set ?p" using assms(2) None by (force simp: map_of_eq_None_iff dest: map_of_SomeD)
  have "t \<le> t'" if "(k', t') \<in> set ?p" for k' t'
    using pruned_spec(3) [OF assms(1) kt that] by (auto simp: less_le)
  moreover have "length ?p = maxLastSentPerFeed"
  proof -
    have "?p \<noteq> m" using kt by (metis Diff_cancel empty_iff)
    then have "maxLastSentPerFeed \<le> length m" by (auto simp: pruneLastSent_def split: if_splits)
    then show ?thesis using pruned_spec(2) [OF assms(1), of maxLastSentPerFeed] by simp
  qed
  ultimately show ?thesis by (auto simp: list_all_iff)
qed simp

lemma handled_kept:
  assumes "handled_from d all hs st st2" "keys_distinct st2" "h \<in> set hs"
    and "last_sent fs = pruneLastSent (last_sent (st_fs st2)) maxLastSentPerFeed"
  shows "kept_in (dl_env d) (sent_now d) fs h"
proof -
  have "computeEntryKey (dl_env d) h \<in> set (entry_keys (dl_env d) all h)" by (simp add: entry_keys_def)
  then have "map_of (last_sent (st_fs st2)) (computeEntryKey (dl_env d) h) = Some (sent_now d)"
    using assms(1,3) unfolding handled_from_def by metis
  from pruned_kept [OF _ this] show ?thesis
    using assms(2,4) by (simp add: keys_distinct_def kept_in_def crowded_def sentAtKey_def)
qed

end
