(* ===== verification/Panics.thy ===== *)
theory Panics
  imports Send_Answers
begin

text \<open>
  A panic while a feed is processed: \<open>processFeed\<close> secures the feed's status before it re-raises
  the panic, so that the group's status can be written and nothing posted is posted again.
\<close>

lemma delivers_posts_at_most:
  assumes "delivers d es st hs ps rs st' r"
  shows "length ps \<le> length hs + (if rs = [] then 0 else 1)"
  using assms by (induction rule: delivers.induct) auto

lemma put_status_found:
  assumes "feed_status_for xs url = Some fs" "fs_url fs' = url"
  shows "feed_status_for (put_status url fs' xs) url = Some fs'"
  using assms by (induction xs) (auto split: if_splits)

lemma put_status_others:
  assumes "url' \<noteq> url" "fs_url fs' = url"
  shows "feed_status_for (put_status url fs' xs) url' = feed_status_for xs url'"
  using assms by (induction xs) auto

lemma feed_status_for_url: "feed_status_for xs url = Some fs \<Longrightarrow> fs_url fs = url"
  by (induction xs) (auto split: if_splits)

lemma write_back_simps [simp]:
  "gs_feeds (fg_status (ps_group (write_back url st ps))) =
     put_status url (st_fs st) (gs_feeds (fg_status (ps_group ps)))"
  "ps_log (write_back url st ps) = st_log st" "ps_world (write_back url st ps) = sy_world st"
  "fg_spec (ps_group (write_back url st ps)) = fg_spec (ps_group ps)"
  "fg_generation (ps_group (write_back url st ps)) = fg_generation (ps_group ps)"
  by (simp_all add: write_back_def Let_def)

lemma sync_state_of_simps [simp]:
  "st_fs (sync_state_of fs ps) = fs" "st_log (sync_state_of fs ps) = ps_log ps"
  "sy_handled (sync_state_of fs ps) = 0" "sy_closing (sync_state_of fs ps) = False"
  "sy_world (sync_state_of fs ps) = ps_world ps"
  by (simp_all add: sync_state_of_def)

lemma settle_pending_simps:
  "etag (settle_verdict s syncPending fs) = etag fs"
  "last_modified (settle_verdict s syncPending fs) = last_modified fs"
  "fs_url (settle_verdict s syncPending fs) = fs_url fs"
  "last_error (settle_verdict s syncPending fs) = last_error fs"
  by (simp_all add: status_frame)

lemma send_failed_error:
  "last_error (st_fs (fst (record_outcome a (attemptSendFailed e) st))) = errText e"
  by (cases "as_type rate_limit_wait e")
    (simp_all add: record_simps case_prod_beta status_frame run_simps)

lemma panicked_run:
  assumes "processFeed stack run ps = (ps', FeedPanicked p)"
    and "feed_status_for (gs_feeds (fg_status (ps_group ps))) (rss_url (fn_feed run)) = Some fs"
  defines "s \<equiv> openFeedSync fs (fo_result (fn_fetched run)) (feedSyncSpecFor (fn_group run) (fn_now run))"
    and "st \<equiv> sync_state_of fs ps"
  obtains rend hs posted rs st1 pv where "deliverable run rend s" "p = FeedPanic (rss_url (fn_feed run)) pv stack"
    "delivers (delivery_of run rend (begun_sync run s st)) (plan_entries (fy_plan (begun_sync run s st)))
       (begun run s st) hs posted rs st1 (Panicked pv)"
    "ps' = write_back (rss_url (fn_feed run)) (secureAfterPanic s fs (newAttempt run) errDeliveryPanicked st1) ps"
proof -
  obtain st1 pv where ap: "apply_sync run s st = (st1, Panicked pv)" and p: "p = FeedPanic (rss_url (fn_feed run)) pv stack"
    and ps': "ps' = write_back (rss_url (fn_feed run)) (secureAfterPanic s fs (newAttempt run) errDeliveryPanicked st1) ps"
    using assms(1,2) unfolding s_def st_def
    by (auto simp: processFeed_def Let_def split: prod.splits result.splits)
  have "\<exists>rend. deliverable run rend s"
    using ap by (auto simp: apply_sync_def deliverable_def Let_def split: option.splits prod.splits sum.splits)
  then obtain rend where del: "deliverable run rend s" ..
  obtain hs posted rs where "delivers (delivery_of run rend (begun_sync run s st)) (plan_entries (fy_plan (begun_sync run s st)))
      (begun run s st) hs posted rs st1 (Panicked pv)"
    by (rule apply_runs [OF del ap]) auto
  then show thesis using that del p ps' by blast
qed

text \<open>What \<open>secureAfterPanic\<close> leaves: the old status when nothing was handled, and otherwise the
  records so far with the failure noted.\<close>

lemma secured_nothing:
  "sy_handled st = 0 \<Longrightarrow> \<not> sy_closing st \<Longrightarrow> st_fs (secureAfterPanic s fs a err st) = fs"
  by (simp add: secureAfterPanic_def)

lemma secured_something:
  assumes "sy_handled st \<noteq> 0" "\<not> sy_closing st"
    and "fs' = st_fs (secureAfterPanic s fs a errDeliveryPanicked st)"
  shows "etag fs' = etag (st_fs st)" "last_modified fs' = last_modified (st_fs st)" "fs_url fs' = fs_url (st_fs st)"
    "last_error fs' = ''delivery interrupted by a panic''" "last_seen_entry fs' = last_seen_entry (st_fs st)"
    "last_sent fs' = pruneLastSent (last_sent (st_fs st)) maxLastSentPerFeed"
proof -
  have "fs' = settle_verdict s syncPending (st_fs (fst (record_outcome a (attemptSendFailed errDeliveryPanicked) st)))"
    using assms by (simp add: secureAfterPanic_def)
  then show "etag fs' = etag (st_fs st)" "last_modified fs' = last_modified (st_fs st)" "fs_url fs' = fs_url (st_fs st)"
    "last_error fs' = ''delivery interrupted by a panic''" "last_seen_entry fs' = last_seen_entry (st_fs st)"
    "last_sent fs' = pruneLastSent (last_sent (st_fs st)) maxLastSentPerFeed"
    by (simp_all add: settle_pending_simps settle_last_sent send_failed_error status_frame)
      (simp add: errText_def errDeliveryPanicked_def clampText_def maxStatusTextBytes_def)
qed

lemma secured_world: "sy_world (secureAfterPanic s fs a err st) = sy_world st"
  by (simp add: secureAfterPanic_def)

lemma secured_posts: "posts (st_log (secureAfterPanic s fs a err st)) = posts (st_log st)"
  by (simp add: secureAfterPanic_def)

text \<open>What a run leaves in the feed's status, whether it returned or panicked.\<close>

definition secured_run :: "('m, 's) feed_run \<Rightarrow> feed_sync \<Rightarrow> feed_status \<Rightarrow> ('m, 's) sync_state
    \<Rightarrow> attempt_verdict result \<Rightarrow> ('m, 's) sync_state" where
  "secured_run run s fs st r = (case r of Returned v \<Rightarrow> st
     | Panicked p \<Rightarrow> secureAfterPanic s fs (newAttempt run) errDeliveryPanicked st)"

lemma run_kept:
  assumes "delivers (delivery_of run rend (begun_sync run s st)) (plan_entries (fy_plan (begun_sync run s st)))
      (begun run s st) hs ps rs st2 r"
    and "st' = (case r of Panicked p \<Rightarrow> st2 | Returned v \<Rightarrow> close_sync (begun_sync run s st) (settlement v) st2)"
    and "keys_distinct st" "sy_handled st = 0" "\<not> sy_closing st" "h \<in> set hs"
  shows "kept_in (fn_env run) (format_rfc3339 (fy_now s)) (st_fs (secured_run run s' fs st' r)) h"
proof -
  note h = delivers_handles [OF assms(1) begun_ledger]
  have now: "sent_now (delivery_of run rend (begun_sync run s st)) = format_rfc3339 (fy_now s)"
    by (simp add: sent_now_def begun_sync_def begin_sync_eq(3))
  have "keys_distinct st2" by (rule delivers_keys_distinct [OF assms(1) begun_keys_distinct [OF assms(3)]])
  note kept = handled_kept [OF h this assms(6), unfolded now delivery_of_simps]
  show ?thesis
  proof (cases r)
    case (Returned v)
    then show ?thesis using assms(2) by (intro kept) (simp add: secured_run_def settle_last_sent settlement_def)
  next
    case (Panicked p)
    have "sy_handled st2 \<noteq> 0" "\<not> sy_closing st2" using h assms(4-6) by (auto simp: handled_from_def)
    from secured_something(6) [OF this refl] show ?thesis
      using assms(2) Panicked by (intro kept) (simp add: secured_run_def)
  qed
qed


lemma processFeed_panicked:
  assumes "feed_status_for (gs_feeds (fg_status (ps_group ps))) (rss_url (fn_feed run)) = Some fs"
    and "snd (apply_sync run (openFeedSync fs (fo_result (fn_fetched run))
      (feedSyncSpecFor (fn_group run) (fn_now run))) (sync_state_of fs ps)) = Panicked p"
  shows "snd (processFeed stack run ps) = FeedPanicked (FeedPanic (rss_url (fn_feed run)) p stack)"
  using assms by (simp add: processFeed_def Let_def case_prod_beta)

definition panicking_run :: "(string, unit) feed_run" where
  "panicking_run = (example_run [])\<lparr>fn_sender := \<lambda>m w. (SendPanic (OtherPanic ''string''), w)\<rparr>"

lemma panicking_deliverable: "deliverable panicking_run title_renderer example_sync"
  using example_deliverable [of "[]"] by (simp add: deliverable_def panicking_run_def)

lemma panicking_panics:
  "snd (apply_sync panicking_run example_sync st) = Panicked (OtherPanic ''string'')"
  if st: "st_fs st = new_feed_status ''https://go.dev/feed''"
proof -
  let ?s = "begun_sync panicking_run example_sync st"
  let ?d = "delivery_of panicking_run title_renderer ?s"
  have env: "fn_env panicking_run = plain_env" by (simp add: panicking_run_def)
  have seen: "last_seen_entry (st_fs (checked panicking_run st)) = []"
    "last_sent (st_fs (checked panicking_run st)) = []"
    by (simp_all add: status_frame st) (simp_all add: new_feed_status_def)
  have w: "resume plain_env L (st_fs (checked panicking_run st)) = \<lparr>wl_state = watermarkNone, wl_index = -1\<rparr>" for L
    by (simp add: resume_def hasWatermark_def seen)
  have plan: "fy_plan ?s = plan_of (limitCatchUp (sorted_entries example_fetch) 5)"
    by (simp add: begun_sync_def begin_sync_eq(2) env migrate_none [OF example_no_previous] w planDelivery_def)
  then have entries: "plan_entries (fy_plan ?s) = sorted_entries example_fetch"
    by (simp add: plan_entries_def plan_of_def limitCatchUp_def example_entries)
  have "last_sent (st_fs (begun panicking_run example_sync st)) = []"
    using begun_last_sent [of example_sync panicking_run st] example_no_previous st
    by (simp add: new_feed_status_def)
  then have unknown: "\<not> known ?d (begun panicking_run example_sync st) e" for e
    by (simp add: sync_sent_def sent_def sentAtKey_def)
  have "snd (send_message ?d m st) = SendPanic (OtherPanic ''string'')" for m st
    by (simp add: send_message_def case_prod_beta) (simp add: panicking_run_def)
  then have "snd (delivery_run ?d (e # es) (begun panicking_run example_sync st)) = Panicked (OtherPanic ''string'')" for e es
    using unknown by (simp add: title_renderer_def Let_def case_prod_beta)
  then have "snd (run_delivery ?d (begun panicking_run example_sync st)) = Panicked (OtherPanic ''string'')"
    by (simp only: run_delivery_def delivery_of_simps entries) (simp only: example_entries)
  then show ?thesis
    by (auto simp: apply_deliverable [OF panicking_deliverable] split: prod.splits)
qed


end
