(* ===== verification/Discord_Fit.thy ===== *)
theory Discord_Fit
  imports Status_Text
begin

text \<open>
  Discord's messages and their length limits (\<^verbatim>\<open>internal/discord/fit.go\<close>, with the message
  types of \<^verbatim>\<open>client.go\<close>).  A text is a byte string, its length for Discord the number of
  runes it decodes to.
\<close>

record embed =
  eb_title :: string
  eb_description :: string
  eb_url :: string
  eb_color :: int
  eb_timestamp :: string
  eb_thumbnail_url :: string
  eb_image_url :: string
  eb_author_name :: string
  eb_footer_text :: string

record message =
  msg_content :: string
  msg_embed :: "embed option"
  msg_thread_name :: string
  msg_thread_id :: string
  msg_username :: string
  msg_avatar_url :: string

definition MaxContentLength :: int where "MaxContentLength = 2000"
definition MaxEmbedTitleLength :: int where "MaxEmbedTitleLength = 256"
definition MaxEmbedDescriptionLength :: int where "MaxEmbedDescriptionLength = 4096"
definition MaxEmbedAuthorNameLength :: int where "MaxEmbedAuthorNameLength = 256"
definition MaxEmbedFooterTextLength :: int where "MaxEmbedFooterTextLength = 2048"
definition MaxUsernameLength :: int where "MaxUsernameLength = 80"
definition MaxThreadNameLength :: int where "MaxThreadNameLength = 100"
definition MaxEmbedTotalLength :: int where "MaxEmbedTotalLength = 6000"

lemmas limit_defs = MaxContentLength_def MaxEmbedTitleLength_def MaxEmbedDescriptionLength_def
  MaxEmbedAuthorNameLength_def MaxEmbedFooterTextLength_def MaxUsernameLength_def
  MaxThreadNameLength_def MaxEmbedTotalLength_def

definition rune_count :: "string \<Rightarrow> int" where
  "rune_count s = int (length (runes s))"

definition Truncate :: "string \<Rightarrow> int \<Rightarrow> string \<times> int" where
  "Truncate s limit =
     (if int (length s) \<le> limit then (s, 0)
      else let rs = runes s in
        if int (length rs) \<le> limit then (s, 0)
        else let overflow = int (length rs) - limit in
          if limit \<le> 0 then ([], overflow)
          else if limit = 1 then (of_runes (take 1 rs), overflow)
          else (of_runes (take (nat (limit - 1)) rs) @ ellipsis, overflow))"

definition embed_total :: "embed \<Rightarrow> int" where
  "embed_total e = rune_count (eb_title e) + rune_count (eb_description e)
     + rune_count (eb_footer_text e) + rune_count (eb_author_name e)"

definition clampEmbedTotalLength :: "embed \<Rightarrow> embed \<times> int" where
  "clampEmbedTotalLength e =
     (let total = embed_total e in
      if total \<le> MaxEmbedTotalLength then (e, 0)
      else let descLen = rune_count (eb_description e) in
        (e\<lparr>eb_description := fst (Truncate (eb_description e)
             (max (descLen - (total - MaxEmbedTotalLength)) 0))\<rparr>,
         min (total - MaxEmbedTotalLength) descLen))"

definition fit_embed :: "embed \<Rightarrow> embed \<times> int" where
  "fit_embed e =
     (let (title, n1) = Truncate (eb_title e) MaxEmbedTitleLength;
          (desc, n2) = Truncate (eb_description e) MaxEmbedDescriptionLength;
          (author, n3) = Truncate (eb_author_name e) MaxEmbedAuthorNameLength;
          (footer, n4) = Truncate (eb_footer_text e) MaxEmbedFooterTextLength;
          (e', n5) = clampEmbedTotalLength
            (e\<lparr>eb_title := title, eb_description := desc, eb_author_name := author,
               eb_footer_text := footer\<rparr>)
      in (e', n1 + n2 + n3 + n4 + n5))"

definition Fit :: "message \<Rightarrow> message \<times> int" where
  "Fit m =
     (let (content, n1) = Truncate (msg_content m) MaxContentLength;
          (username, n2) = Truncate (msg_username m) MaxUsernameLength;
          (emb, n3) = (case msg_embed m of
             None \<Rightarrow> (None, 0)
           | Some e \<Rightarrow> (let (e', n) = fit_embed e in (Some e', n)));
          (thread, n4) = Truncate (msg_thread_name m) MaxThreadNameLength
      in (m\<lparr>msg_content := content, msg_username := username, msg_embed := emb,
            msg_thread_name := thread\<rparr>, n1 + n2 + n3 + n4))"

subsection \<open>Truncation\<close>

lemma runes_of_take: "runes (of_runes (take n (runes s))) = take n (runes s)"
proof (rule runes_of_runes)
  show "\<forall>r \<in> set (take n (runes s)). valid_rune r"
    using runes_valid [of s] set_take_subset [of n "runes s"] by blast
qed

lemma runes_of_cut: "runes (of_runes (take n (runes s)) @ ellipsis) = take n (runes s) @ [8230]"
proof -
  have "runes (of_runes (take n (runes s) @ [8230])) = take n (runes s) @ [8230]"
  proof (rule runes_of_runes)
    have "\<forall>r \<in> set (take n (runes s)). valid_rune r"
      using runes_valid [of s] set_take_subset [of n "runes s"] by blast
    then show "\<forall>r \<in> set (take n (runes s) @ [8230]). valid_rune r" by (simp add: valid_rune_def)
  qed
  then show ?thesis by (simp add: ellipsis_runes)
qed

lemma Truncate_id: "rune_count s \<le> limit \<Longrightarrow> Truncate s limit = (s, 0)"
  by (simp add: Truncate_def Let_def rune_count_def)

lemma rune_count_nonneg [simp]: "0 \<le> rune_count s"
  by (simp add: rune_count_def)

lemma Truncate_runes:
  "runes (fst (Truncate s limit)) =
     (if rune_count s \<le> limit then runes s
      else if limit \<le> 0 then [] else if limit = 1 then take 1 (runes s)
      else take (nat (limit - 1)) (runes s) @ [8230])"
  using length_runes_le [of s] by (auto simp: Truncate_def Let_def rune_count_def runes_of_take runes_of_cut)

lemma Truncate_count: "rune_count (fst (Truncate s limit)) = (if rune_count s \<le> limit then rune_count s else max 0 limit)"
  using Truncate_runes [of s limit] by (auto simp: rune_count_def min_def)

lemma Truncate_overflow: "snd (Truncate s limit) = max 0 (rune_count s - limit)"
  using length_runes_le [of s] by (auto simp: Truncate_def Let_def rune_count_def)

lemma Truncate_le: "0 \<le> limit \<Longrightarrow> rune_count (fst (Truncate s limit)) \<le> limit"
  by (simp add: Truncate_count)

subsection \<open>The fitted message\<close>

definition embed_fits :: "embed \<Rightarrow> bool" where
  "embed_fits e \<longleftrightarrow> rune_count (eb_title e) \<le> MaxEmbedTitleLength \<and>
     rune_count (eb_description e) \<le> MaxEmbedDescriptionLength \<and>
     rune_count (eb_author_name e) \<le> MaxEmbedAuthorNameLength \<and>
     rune_count (eb_footer_text e) \<le> MaxEmbedFooterTextLength \<and> embed_total e \<le> MaxEmbedTotalLength"

definition message_fits :: "message \<Rightarrow> bool" where
  "message_fits m \<longleftrightarrow> rune_count (msg_content m) \<le> MaxContentLength \<and>
     rune_count (msg_username m) \<le> MaxUsernameLength \<and>
     rune_count (msg_thread_name m) \<le> MaxThreadNameLength \<and>
     (\<forall>e. msg_embed m = Some e \<longrightarrow> embed_fits e)"

definition embed_runes :: "embed \<Rightarrow> int" where
  "embed_runes e = embed_total e"

definition message_runes :: "message \<Rightarrow> int" where
  "message_runes m = rune_count (msg_content m) + rune_count (msg_username m)
     + rune_count (msg_thread_name m) + (case msg_embed m of None \<Rightarrow> 0 | Some e \<Rightarrow> embed_total e)"

lemma clampEmbed_frame [simp]:
  "eb_title (fst (clampEmbedTotalLength e)) = eb_title e"
  "eb_author_name (fst (clampEmbedTotalLength e)) = eb_author_name e"
  "eb_footer_text (fst (clampEmbedTotalLength e)) = eb_footer_text e"
  by (simp_all add: clampEmbedTotalLength_def Let_def)

lemma clampEmbed_description:
  "rune_count (eb_description (fst (clampEmbedTotalLength e))) =
     rune_count (eb_description e) - snd (clampEmbedTotalLength e)"
  "embed_total (fst (clampEmbedTotalLength e)) = embed_total e - snd (clampEmbedTotalLength e)"
  "0 \<le> snd (clampEmbedTotalLength e)"
  "rune_count (eb_title e) + rune_count (eb_author_name e) + rune_count (eb_footer_text e) \<le> MaxEmbedTotalLength
     \<Longrightarrow> embed_total (fst (clampEmbedTotalLength e)) \<le> MaxEmbedTotalLength"
  using rune_count_nonneg [of "eb_title e"] rune_count_nonneg [of "eb_description e"]
    rune_count_nonneg [of "eb_footer_text e"] rune_count_nonneg [of "eb_author_name e"]
  by (simp_all add: clampEmbedTotalLength_def Let_def embed_total_def Truncate_count max_def min_def, linarith+)

lemma fit_embed_fits: "embed_fits (fst (fit_embed e))"
proof -
  define e1 where "e1 = e\<lparr>eb_title := fst (Truncate (eb_title e) MaxEmbedTitleLength),
    eb_description := fst (Truncate (eb_description e) MaxEmbedDescriptionLength),
    eb_author_name := fst (Truncate (eb_author_name e) MaxEmbedAuthorNameLength),
    eb_footer_text := fst (Truncate (eb_footer_text e) MaxEmbedFooterTextLength)\<rparr>"
  have fit: "fst (fit_embed e) = fst (clampEmbedTotalLength e1)"
    by (simp add: fit_embed_def e1_def Let_def case_prod_beta)
  have le: "rune_count (eb_title e1) \<le> MaxEmbedTitleLength" "rune_count (eb_description e1) \<le> MaxEmbedDescriptionLength"
    "rune_count (eb_author_name e1) \<le> MaxEmbedAuthorNameLength" "rune_count (eb_footer_text e1) \<le> MaxEmbedFooterTextLength"
    unfolding e1_def by (simp_all add: Truncate_le limit_defs)
  then have "rune_count (eb_title e1) + rune_count (eb_author_name e1) + rune_count (eb_footer_text e1) \<le> MaxEmbedTotalLength"
    by (simp add: limit_defs)
  from clampEmbed_description(4) [OF this] show ?thesis
    unfolding fit embed_fits_def using le clampEmbed_description(1,3) [of e1] by simp
qed

lemma fit_embed_id: "embed_fits e \<Longrightarrow> fit_embed e = (e, 0)"
  by (simp add: fit_embed_def embed_fits_def Truncate_id clampEmbedTotalLength_def)

lemma truncated_count: "rune_count (fst (Truncate s limit)) = rune_count s - snd (Truncate s limit)" if "0 \<le> limit"
  using that by (simp add: Truncate_count Truncate_overflow)

lemma fit_embed_runes: "embed_total (fst (fit_embed e)) = embed_total e - snd (fit_embed e)"
proof -
  define e1 where "e1 = e\<lparr>eb_title := fst (Truncate (eb_title e) MaxEmbedTitleLength),
    eb_description := fst (Truncate (eb_description e) MaxEmbedDescriptionLength),
    eb_author_name := fst (Truncate (eb_author_name e) MaxEmbedAuthorNameLength),
    eb_footer_text := fst (Truncate (eb_footer_text e) MaxEmbedFooterTextLength)\<rparr>"
  have fit: "fst (fit_embed e) = fst (clampEmbedTotalLength e1)"
    "snd (fit_embed e) = snd (Truncate (eb_title e) MaxEmbedTitleLength)
      + snd (Truncate (eb_description e) MaxEmbedDescriptionLength)
      + snd (Truncate (eb_author_name e) MaxEmbedAuthorNameLength)
      + snd (Truncate (eb_footer_text e) MaxEmbedFooterTextLength) + snd (clampEmbedTotalLength e1)"
    by (simp_all add: fit_embed_def e1_def Let_def case_prod_beta)
  have "embed_total e1 = embed_total e - (snd (fit_embed e) - snd (clampEmbedTotalLength e1))"
    unfolding fit(2) by (simp add: e1_def embed_total_def truncated_count limit_defs)
  then show ?thesis unfolding fit(1) clampEmbed_description(2) by simp
qed

subsection \<open>Properties\<close>

text \<open>C35: \<open>Fit\<close> makes any message acceptable to Discord: the result keeps every per-field limit and
  the combined embed limit, the reported overflow is exactly how many runes shorter it is,
  the thread ID and the avatar are untouched, and fitting the result again changes nothing and
  reports no overflow.\<close>

theorem fit_respects_limits:
  "message_fits (fst (Fit m)) \<and>
   message_runes (fst (Fit m)) = message_runes m - snd (Fit m) \<and>
   msg_thread_id (fst (Fit m)) = msg_thread_id m \<and> msg_avatar_url (fst (Fit m)) = msg_avatar_url m \<and>
   Fit (fst (Fit m)) = (fst (Fit m), 0)"
proof -
  let ?m = "fst (Fit m)"
  have parts: "msg_content ?m = fst (Truncate (msg_content m) MaxContentLength)"
    "msg_username ?m = fst (Truncate (msg_username m) MaxUsernameLength)"
    "msg_thread_name ?m = fst (Truncate (msg_thread_name m) MaxThreadNameLength)"
    "msg_embed ?m = map_option (\<lambda>e. fst (fit_embed e)) (msg_embed m)"
    "snd (Fit m) = snd (Truncate (msg_content m) MaxContentLength) + snd (Truncate (msg_username m) MaxUsernameLength)
       + (case msg_embed m of None \<Rightarrow> 0 | Some e \<Rightarrow> snd (fit_embed e))
       + snd (Truncate (msg_thread_name m) MaxThreadNameLength)"
    by (simp_all add: Fit_def Let_def case_prod_beta split: option.split)
  have fits: "message_fits ?m"
    by (auto simp: message_fits_def parts Truncate_le limit_defs fit_embed_fits)
  have runes: "message_runes ?m = message_runes m - snd (Fit m)"
    by (simp add: message_runes_def parts truncated_count limit_defs fit_embed_runes split: option.split)
  have again: "Fit ?m = (?m, 0)"
    using fits by (cases "msg_embed ?m")
      (simp_all add: Fit_def [of ?m] message_fits_def Truncate_id fit_embed_id)
  have "msg_thread_id ?m = msg_thread_id m" "msg_avatar_url ?m = msg_avatar_url m"
    by (simp_all add: Fit_def Let_def case_prod_beta)
  then show ?thesis using fits runes again by blast
qed

end
