(* ===== verification/Rate_Limiter.thy ===== *)
theory Rate_Limiter
  imports Go_Time Go_Sha256
begin

text \<open>
  The rate limiter the Discord clients share (\<^verbatim>\<open>internal/discord/ratelimiter.go\<close>): hard
  cooldowns, learned from a 429, and advisory pacing, learned from the headers of a
  success.  Both are maps from the hash of a webhook URL to a deadline; every operation
  holds the mutex, so the clients' operations are a sequence, with the clock reading of
  each as its argument.
\<close>

definition maxCooldown :: int where "maxCooldown = hour"
definition maxPaceWait :: int where "maxPaceWait = 5 * second"

record rate_limiter =
  rl_cooldowns :: "string \<Rightarrow> int option"
  rl_pacing :: "string \<Rightarrow> int option"

definition NewRateLimiter :: rate_limiter where
  "NewRateLimiter = \<lparr>rl_cooldowns = (\<lambda>_. None), rl_pacing = (\<lambda>_. None)\<rparr>"

definition webhookKey :: "string \<Rightarrow> string" where
  "webhookKey webhookURL = sha256_hex webhookURL"

definition pruneExpired :: "(string \<Rightarrow> int option) \<Rightarrow> int \<Rightarrow> string \<Rightarrow> int option" where
  "pruneExpired m now = (\<lambda>k. case m k of None \<Rightarrow> None
     | Some until \<Rightarrow> if until > now then Some until else None)"

text \<open>The deadline of a key, the zero time when there is none: what indexing the Go map yields.\<close>

definition deadline :: "(string \<Rightarrow> int option) \<Rightarrow> string \<Rightarrow> int" where
  "deadline m k = (case m k of None \<Rightarrow> zero_time | Some t \<Rightarrow> t)"

text \<open>A deadline is only ever moved later.\<close>

definition extend_deadline :: "string \<Rightarrow> int \<Rightarrow> (string \<Rightarrow> int option) \<Rightarrow> string \<Rightarrow> int option" where
  "extend_deadline k until m = (if until > deadline m k then m(k \<mapsto> until) else m)"

definition reserve :: "string \<Rightarrow> int \<Rightarrow> rate_limiter \<Rightarrow> rate_limiter \<times> int option" where
  "reserve webhookURL now l =
     (let key = webhookKey webhookURL;
          m = pruneExpired (rl_cooldowns l) now;
          l' = l\<lparr>rl_cooldowns := m\<rparr>
      in case m key of
           None \<Rightarrow> (l', None)
         | Some until \<Rightarrow> if time_sub until now > 0 then (l', Some (time_sub until now)) else (l', None))"

definition cooldown :: "string \<Rightarrow> int \<Rightarrow> int \<Rightarrow> rate_limiter \<Rightarrow> rate_limiter" where
  "cooldown webhookURL retryAfter now l =
     (let key = webhookKey webhookURL; retryAfter = min retryAfter maxCooldown
      in l\<lparr>rl_cooldowns := extend_deadline key (now + retryAfter) (rl_cooldowns l)\<rparr>)"

definition pace :: "string \<Rightarrow> int \<Rightarrow> int \<Rightarrow> rate_limiter \<Rightarrow> rate_limiter" where
  "pace webhookURL d now l =
     (let key = webhookKey webhookURL; d = min d maxPaceWait
      in l\<lparr>rl_pacing := extend_deadline key (now + d) (rl_pacing l)\<rparr>)"

definition paceDelay :: "string \<Rightarrow> int \<Rightarrow> rate_limiter \<Rightarrow> rate_limiter \<times> int" where
  "paceDelay webhookURL now l =
     (let m = pruneExpired (rl_pacing l) now
      in (l\<lparr>rl_pacing := m\<rparr>, time_sub (deadline m (webhookKey webhookURL)) now))"

subsection \<open>The contract of a deadline map\<close>

text \<open>A map of deadlines that is only ever pruned of what has passed and extended: the two
  maps of the limiter are such maps, with their own operations.\<close>

locale deadline_map =
  fixes look :: "'m \<Rightarrow> 'k \<Rightarrow> int option"
    and prune :: "int \<Rightarrow> 'm \<Rightarrow> 'm"
    and push :: "'k \<Rightarrow> int \<Rightarrow> 'm \<Rightarrow> 'm"
  assumes prune_look: "look (prune now m) k =
      (case look m k of None \<Rightarrow> None | Some t \<Rightarrow> if now < t then Some t else None)"
    and push_same: "zero_time < t \<Longrightarrow> look (push k t m) k =
      Some (case look m k of None \<Rightarrow> t | Some t' \<Rightarrow> max t t')"
    and push_other: "k' \<noteq> k \<Longrightarrow> look (push k t m) k' = look m k'"
    and push_keeps: "look m k = Some t' \<Longrightarrow> \<exists>t''. look (push k t m) k = Some t'' \<and> t' \<le> t''"
begin

definition active_until :: "'m \<Rightarrow> 'k \<Rightarrow> int \<Rightarrow> bool" where
  "active_until m k t \<longleftrightarrow> (\<exists>u. look m k = Some u \<and> t \<le> u)"

lemma push_active: "zero_time < t \<Longrightarrow> active_until (push k t m) k t"
  by (auto simp: active_until_def push_same split: option.splits)

lemma active_push: "active_until m k t \<Longrightarrow> active_until (push k' t' m) k t"
  using push_keeps push_other unfolding active_until_def by (metis order_trans)

lemma active_prune: "active_until m k t \<Longrightarrow> now < t \<Longrightarrow> active_until (prune now m) k t"
  by (auto simp: active_until_def prune_look)

lemma pruned_fresh: "look (prune now m) k = Some t \<Longrightarrow> now < t"
  by (simp add: prune_look split: option.splits if_splits)

end

lemma extend_deadline_keeps:
  "m k = Some t' \<Longrightarrow> \<exists>t''. extend_deadline k t m k = Some t'' \<and> t' \<le> t''"
  by (auto simp: extend_deadline_def deadline_def)

lemma extend_deadline_same:
  "zero_time < t \<Longrightarrow> extend_deadline k t m k = Some (case m k of None \<Rightarrow> t | Some t' \<Rightarrow> max t t')"
  by (auto simp: extend_deadline_def deadline_def split: option.splits)

lemma extend_deadline_other: "k' \<noteq> k \<Longrightarrow> extend_deadline k t m k' = m k'"
  by (simp add: extend_deadline_def)

lemma reserve_simps [simp]:
  "rl_cooldowns (fst (reserve url now l)) = pruneExpired (rl_cooldowns l) now"
  "rl_pacing (fst (reserve url now l)) = rl_pacing l"
  by (simp_all add: reserve_def Let_def split: option.split)

lemma paceDelay_simps [simp]:
  "rl_cooldowns (fst (paceDelay url now l)) = rl_cooldowns l"
  "rl_pacing (fst (paceDelay url now l)) = pruneExpired (rl_pacing l) now"
  by (simp_all add: paceDelay_def Let_def)

interpretation cooldown_map: deadline_map "\<lambda>l k. rl_cooldowns l k"
  "\<lambda>now l. fst (reserve url now l)" "\<lambda>k t l. l\<lparr>rl_cooldowns := extend_deadline k t (rl_cooldowns l)\<rparr>"
  for url
  by unfold_locales
    (simp_all add: pruneExpired_def extend_deadline_same extend_deadline_other extend_deadline_keeps)

interpretation pacing_map: deadline_map "\<lambda>l k. rl_pacing l k"
  "\<lambda>now l. fst (paceDelay url now l)" "\<lambda>k t l. l\<lparr>rl_pacing := extend_deadline k t (rl_pacing l)\<rparr>"
  for url
  by unfold_locales
    (simp_all add: pruneExpired_def extend_deadline_same extend_deadline_other extend_deadline_keeps)

subsection \<open>Sequences of operations\<close>

text \<open>The operations of any number of clients, each with the webhook and the clock reading.\<close>

datatype limiter_op = OpReserve string | OpCooldown string int | OpPace string int | OpPaceDelay string

fun apply_op :: "limiter_op \<times> int \<Rightarrow> rate_limiter \<Rightarrow> rate_limiter" where
  "apply_op (OpReserve url, now) l = fst (reserve url now l)"
| "apply_op (OpCooldown url d, now) l = cooldown url d now l"
| "apply_op (OpPace url d, now) l = pace url d now l"
| "apply_op (OpPaceDelay url, now) l = fst (paceDelay url now l)"

abbreviation apply_ops :: "(limiter_op \<times> int) list \<Rightarrow> rate_limiter \<Rightarrow> rate_limiter" where
  "apply_ops ops l \<equiv> fold apply_op ops l"

definition cooling :: "rate_limiter \<Rightarrow> string \<Rightarrow> int \<Rightarrow> bool" where
  "cooling l k t \<longleftrightarrow> (\<exists>u. rl_cooldowns l k = Some u \<and> t \<le> u)"

lemma cooling_step: "cooling l k t \<Longrightarrow> snd x < t \<Longrightarrow> cooling (apply_op x l) k t"
  using cooldown_map.active_push [of l k t] cooldown_map.active_prune [of l k t]
  by (cases "(x, l)" rule: apply_op.cases)
    (auto simp: cooling_def cooldown_map.active_until_def cooldown_def pace_def Let_def)

lemma cooling_steps: "cooling l k t \<Longrightarrow> \<forall>x \<in> set ops. snd x < t \<Longrightarrow> cooling (apply_ops ops l) k t"
  by (induction ops arbitrary: l) (simp_all add: cooling_step)

lemma cooling_after:
  "zero_time < now + min d maxCooldown \<Longrightarrow>
   cooling (cooldown url d now l) (webhookKey url) (now + min d maxCooldown)"
  using cooldown_map.push_active [of "now + min d maxCooldown" "webhookKey url" l]
  by (simp add: cooling_def cooldown_map.active_until_def cooldown_def Let_def)

lemma time_sub_mono: "t \<le> t' \<Longrightarrow> time_sub t u \<le> time_sub t' u"
  by (auto simp: time_sub_def)

lemma cooling_reserved:
  assumes "cooling l (webhookKey url) u" "t < u"
  shows "\<exists>r. snd (reserve url t l) = Some r \<and> time_sub u t \<le> r \<and> 0 < r"
proof -
  obtain u' where u': "rl_cooldowns l (webhookKey url) = Some u'" "u \<le> u'" using assms(1) by (auto simp: cooling_def)
  then have "snd (reserve url t l) = Some (time_sub u' t)"
    using assms(2) by (simp add: reserve_def pruneExpired_def Let_def time_sub_pos_iff)
  then show ?thesis using u'(2) assms(2) time_sub_mono by (simp add: time_sub_pos_iff)
qed

text \<open>No operation looks further ahead than the caps.\<close>

definition bounded_ahead :: "int \<Rightarrow> rate_limiter \<Rightarrow> bool" where
  "bounded_ahead now l \<longleftrightarrow> (\<forall>k u. rl_cooldowns l k = Some u \<longrightarrow> u \<le> now + maxCooldown) \<and>
     (\<forall>k u. rl_pacing l k = Some u \<longrightarrow> u \<le> now + maxPaceWait)"

lemma bounded_step:
  assumes "bounded_ahead now l" "snd x \<le> now"
  shows "bounded_ahead now (apply_op x l)"
  using assms
  by (cases "(x, l)" rule: apply_op.cases)
    (auto simp: bounded_ahead_def cooldown_def pace_def Let_def pruneExpired_def extend_deadline_def
      split: option.splits if_splits)

lemma bounded_steps:
  "bounded_ahead now l \<Longrightarrow> \<forall>x \<in> set ops. snd x \<le> now \<Longrightarrow> bounded_ahead now (apply_ops ops l)"
  by (induction ops arbitrary: l) (simp_all add: bounded_step)

subsection \<open>Properties\<close>

text \<open>C34: A cooldown is never shortened: after a 429 asked a webhook to be left alone for \<open>d\<close>,
  no sequence of operations of any clients, on this or other webhooks, with shorter or longer
  waits, lets a sender through before \<open>d\<close> (at most an hour) has elapsed, and the wait reported
  is at least what is left of it.\<close>

theorem cooldown_never_shortened:
  assumes "zero_time < now + min d maxCooldown"
    and "\<forall>x \<in> set ops. snd x < now + min d maxCooldown" "t < now + min d maxCooldown"
  shows "\<exists>r. snd (reserve url t (apply_ops ops (cooldown url d now l))) = Some r \<and>
    time_sub (now + min d maxCooldown) t \<le> r \<and> 0 < r"
  by (rule cooling_reserved [OF cooling_steps [OF cooling_after]]) (use assms in simp_all)

lemma cooldown_never_shortened_witness:
  "\<exists>r. snd (reserve ''hook'' (2 * second) (apply_ops
     [(OpCooldown ''hook'' second, second), (OpReserve ''other'', second), (OpPace ''hook'' 1, second)]
     (cooldown ''hook'' (3 * second) 0 NewRateLimiter))) = Some r \<and> 0 < r"
  using cooldown_never_shortened [of 0 "3 * second" "[(OpCooldown ''hook'' second, second),
      (OpReserve ''other'', second), (OpPace ''hook'' 1, second)]" "2 * second" "''hook''" NewRateLimiter]
  by (auto simp: maxCooldown_def duration_units zero_time_def min_def)

text \<open>Waits are bounded and the limiter does not grow: whatever headers the clients fed in up
  to now, a sender is told to wait at most an hour and paced for at most five seconds, and
  a reservation keeps no cooldown that has expired.\<close>

theorem waits_bounded:
  assumes "zero_time \<le> now" "\<forall>x \<in> set ops. snd x \<le> now"
  shows "(\<forall>r. snd (reserve url now (apply_ops ops NewRateLimiter)) = Some r \<longrightarrow> 0 < r \<and> r \<le> maxCooldown) \<and>
    snd (paceDelay url now (apply_ops ops NewRateLimiter)) \<le> maxPaceWait \<and>
    (\<forall>k u. rl_cooldowns (fst (reserve url now (apply_ops ops NewRateLimiter))) k = Some u \<longrightarrow> now < u)"
proof -
  let ?l = "apply_ops ops NewRateLimiter"
  have b: "bounded_ahead now ?l"
    by (rule bounded_steps) (simp_all add: bounded_ahead_def NewRateLimiter_def assms)
  have sub: "time_sub u now \<le> c" if "u \<le> now + c" "0 \<le> c" "c \<le> max_duration" for u c
    using that by (auto simp: time_sub_def min_duration_def max_duration_def)
  have caps: "0 \<le> maxCooldown" "maxCooldown \<le> max_duration" "0 \<le> maxPaceWait" "maxPaceWait \<le> max_duration"
    by (simp_all add: maxCooldown_def maxPaceWait_def duration_units max_duration_def)
  have "0 < r \<and> r \<le> maxCooldown" if "snd (reserve url now ?l) = Some r" for r
    using that b sub [of _ maxCooldown] caps
    by (auto simp: reserve_def Let_def pruneExpired_def bounded_ahead_def split: option.splits if_splits)
  moreover have "snd (paceDelay url now ?l) \<le> maxPaceWait"
  proof (cases "pruneExpired (rl_pacing ?l) now (webhookKey url)")
    case (Some u)
    then have "rl_pacing ?l (webhookKey url) = Some u" by (simp add: pruneExpired_def split: option.splits if_splits)
    then show ?thesis using b sub [of u maxPaceWait] caps Some
      by (simp add: paceDelay_def deadline_def bounded_ahead_def)
  next
    case None
    then show ?thesis using sub [of zero_time maxPaceWait] assms(1) caps
      by (simp add: paceDelay_def deadline_def)
  qed
  moreover have "now < u" if "rl_cooldowns (fst (reserve url now ?l)) k = Some u" for k u
    by (rule cooldown_map.pruned_fresh [OF that])
  ultimately show ?thesis by blast
qed

lemma waits_bounded_witness:
  "snd (paceDelay ''hook'' second (apply_ops [(OpPace ''hook'' hour, 0)] NewRateLimiter)) \<le> maxPaceWait"
  using waits_bounded [of second "[(OpPace ''hook'' hour, 0)]" "''hook''"]
  by (simp add: duration_units zero_time_def)

end
