(* ===== verification/Go_Float.thy ===== *)
theory Go_Float
  imports Go_Format
begin

text \<open>
  What the source uses of \<^verbatim>\<open>strconv.ParseFloat\<close> at 64 bits: the special values, decimal and
  hexadecimal numbers with underscores and exponents, and the range check.  A finite value
  is the correctly rounded \<open>float64\<close>, a multiple of \<open>2 ^ -1074\<close> below the normal range.
\<close>

datatype go_float = FloatNaN | FloatInf bool | FloatNum bool float64

definition lower_is :: "char \<Rightarrow> char \<Rightarrow> bool" where
  "lower_is x c \<longleftrightarrow> c = x \<or> (of_char c :: int) + 32 = of_char x"

fun lower_matches :: "string \<Rightarrow> string \<Rightarrow> bool" where
  "lower_matches [] [] = True"
| "lower_matches (x # xs) (c # cs) = (lower_is x c \<and> lower_matches xs cs)"
| "lower_matches _ _ = False"

definition strip_sign :: "string \<Rightarrow> bool \<times> string" where
  "strip_sign s = (case s of
     c # s' \<Rightarrow> if c = CHR ''-'' then (True, s') else if c = CHR ''+'' then (False, s') else (False, s)
   | [] \<Rightarrow> (False, []))"

text \<open>\<open>special\<close>: the infinities and the number that is none.\<close>

definition special_float :: "string \<Rightarrow> go_float option" where
  "special_float s =
     (let (neg, t) = strip_sign s
      in if lower_matches ''inf'' t \<or> lower_matches ''infinity'' t then Some (FloatInf neg)
         else if lower_matches ''nan'' s then Some FloatNaN else None)"

definition float_digit :: "bool \<Rightarrow> char \<Rightarrow> int option" where
  "float_digit hex c =
     (let b = of_char c :: int in
      if 48 \<le> b \<and> b \<le> 57 then Some (b - 48)
      else if hex \<and> 97 \<le> b \<and> b \<le> 102 then Some (b - 87)
      else if hex \<and> 65 \<le> b \<and> b \<le> 70 then Some (b - 55) else None)"

text \<open>The digits of the mantissa: its value without the dot, how many digits follow the dot,
  whether there was any digit, and the rest.\<close>

fun scan_mantissa :: "bool \<Rightarrow> bool \<Rightarrow> int \<Rightarrow> int \<Rightarrow> bool \<Rightarrow> string \<Rightarrow> int \<times> int \<times> bool \<times> string" where
  "scan_mantissa hex dot m frac digits [] = (m, frac, digits, [])"
| "scan_mantissa hex dot m frac digits (c # s) =
     (if c = CHR ''_'' then scan_mantissa hex dot m frac digits s
      else if c = CHR ''.'' then
        (if dot then (m, frac, digits, c # s) else scan_mantissa hex True m frac digits s)
      else case float_digit hex c of
        None \<Rightarrow> (m, frac, digits, c # s)
      | Some d \<Rightarrow> scan_mantissa hex dot ((if hex then 16 else 10) * m + d)
                   (if dot then frac + 1 else frac) True s)"

text \<open>The digits of the exponent, which stops growing at \<open>10000\<close>.\<close>

fun scan_exponent :: "int \<Rightarrow> string \<Rightarrow> int \<times> string" where
  "scan_exponent e [] = (e, [])"
| "scan_exponent e (c # s) =
     (if c = CHR ''_'' then scan_exponent e s
      else if is_digit c then scan_exponent (if e < 10000 then 10 * e + digit_val c else e) s
      else (e, c # s))"

definition read_exponent :: "bool \<Rightarrow> string \<Rightarrow> (int \<times> string) option" where
  "read_exponent hex s =
     (case s of
        c # s' \<Rightarrow>
          if lower_is (if hex then CHR ''p'' else CHR ''e'') c then
            (let (neg, t) = strip_sign s' in
             if t = [] \<or> \<not> is_digit (hd t) then None
             else let (e, rest) = scan_exponent 0 t in Some (if neg then - e else e, rest))
          else if hex then None else Some (0, s)
      | [] \<Rightarrow> if hex then None else Some (0, []))"

definition hex_prefix :: "string \<Rightarrow> bool" where
  "hex_prefix s \<longleftrightarrow> 2 < length s \<and> hd s = CHR ''0'' \<and> lower_is CHR ''x'' (s ! 1)"

text \<open>\<open>underscoreOK\<close>: an underscore stands between digits, or after the base prefix.\<close>

datatype seen = SeenStart | SeenDigit | SeenUnderscore | SeenOther

fun underscores_ok :: "bool \<Rightarrow> seen \<Rightarrow> string \<Rightarrow> bool" where
  "underscores_ok hex i [] = (i \<noteq> SeenUnderscore)"
| "underscores_ok hex i (c # s) =
     (if float_digit hex c \<noteq> None then underscores_ok hex SeenDigit s
      else if c = CHR ''_'' then i = SeenDigit \<and> underscores_ok hex SeenUnderscore s
      else i \<noteq> SeenUnderscore \<and> underscores_ok hex SeenOther s)"

definition underscoreOK :: "string \<Rightarrow> bool" where
  "underscoreOK s =
     (let t = snd (strip_sign s);
          based = (2 \<le> length t \<and> hd t = CHR ''0'' \<and>
                   (lower_is CHR ''b'' (t ! 1) \<or> lower_is CHR ''o'' (t ! 1) \<or> lower_is CHR ''x'' (t ! 1)))
      in if based then underscores_ok (lower_is CHR ''x'' (t ! 1)) SeenDigit (drop 2 t)
         else underscores_ok False SeenStart t)"

definition round64 :: "int \<Rightarrow> int \<Rightarrow> float64" where
  "round64 n d =
     (let v = round53 n d; (a, b) = float_ratio v
      in if a * 2 ^ 1022 < b then Float (half_even (n * 2 ^ 1074) d) (-1074) else v)"

text \<open>The value: nothing (a range error) past the largest finite \<open>float64\<close>.\<close>

definition decimal_float :: "int \<Rightarrow> int \<Rightarrow> float64 option" where
  "decimal_float m x =
     (let dp = int (length (dec_digits m)) + x in
      if m = 0 \<or> dp < -330 then Some (Float 0 0)
      else if dp > 310 then None
      else Some (if 0 \<le> x then round64 (m * 10 ^ nat x) 1 else round64 m (10 ^ nat (- x))))"

definition binary_float :: "int \<Rightarrow> int \<Rightarrow> float64" where
  "binary_float m x = (if 0 \<le> x then round64 (m * 2 ^ nat x) 1 else round64 m (2 ^ nat (- x)))"

definition float_in_range :: "float64 \<Rightarrow> bool" where
  "float_in_range v = (let (a, b) = float_ratio v in a < b * 2 ^ 1024)"

definition parse_float :: "string \<Rightarrow> go_float option" where
  "parse_float s =
     (case special_float s of
        Some v \<Rightarrow> Some v
      | None \<Rightarrow>
          (let (neg, t) = strip_sign s;
               hex = hex_prefix t;
               (m, frac, digits, rest) = scan_mantissa hex False 0 0 False (if hex then drop 2 t else t)
           in if \<not> digits then None
              else case read_exponent hex rest of
                None \<Rightarrow> None
              | Some (e, rest') \<Rightarrow>
                  if rest' \<noteq> [] \<or> (CHR ''_'' \<in> set s \<and> \<not> underscoreOK s) then None
                  else (case (if hex then Some (binary_float m (e - 4 * frac)) else decimal_float m (e - frac)) of
                          None \<Rightarrow> None
                        | Some v \<Rightarrow> if float_in_range v then Some (FloatNum neg v) else None)))"

subsection \<open>Bounds of the rounding\<close>

lemma bit_length_bounds: "0 < n \<Longrightarrow> 1 \<le> bit_length n \<and> 2 ^ nat (bit_length n - 1) \<le> n \<and> n < 2 ^ nat (bit_length n)"
proof (induction n rule: bit_length.induct)
  case (1 n)
  show ?case
  proof (cases "n div 2 = 0")
    case True
    then have "n = 1" using "1.prems" by linarith
    then show ?thesis by (simp add: bit_length.simps)
  next
    case False
    then have pos: "0 < n div 2" using "1.prems" by linarith
    let ?b = "bit_length (n div 2)"
    have ih: "1 \<le> ?b" "2 ^ nat (?b - 1) \<le> n div 2" "n div 2 < 2 ^ nat ?b"
      using "1.IH" "1.prems" pos by auto
    have b: "bit_length n = 1 + ?b" using "1.prems" by (simp add: bit_length.simps)
    have "nat ?b = Suc (nat (?b - 1))" "nat (1 + ?b) = Suc (nat ?b)" using ih(1) by linarith+
    then have "(2::int) ^ nat ?b = 2 * 2 ^ nat (?b - 1)" "(2::int) ^ nat (1 + ?b) = 2 * 2 ^ nat ?b" by simp_all
    then show ?thesis using ih b by simp linarith
  qed
qed

lemma half_even_le: "0 < d \<Longrightarrow> x \<le> k * d \<Longrightarrow> half_even x d \<le> k"
proof -
  assume d: "0 < d" and x: "x \<le> k * d"
  have split: "x = d * (x div d) + x mod d" by simp
  have m: "0 \<le> x mod d" "x mod d < d" using d by simp_all
  show "half_even x d \<le> k"
  proof (cases "x div d < k")
    case True
    then show ?thesis by (simp add: half_even_def Let_def)
  next
    case False
    have "x div d \<le> k" using x d by (metis mult.commute nonzero_mult_div_cancel_left order_less_irrefl zdiv_mono1)
    then have eq: "x div d = k" using False by simp
    then have "x mod d \<le> 0" using x split by (simp add: mult.commute)
    then have "x mod d = 0" using m by simp
    then show ?thesis using d eq by (simp add: half_even_def Let_def)
  qed
qed

lemma half_even_nonneg: "0 < d \<Longrightarrow> 0 \<le> x \<Longrightarrow> 0 \<le> half_even x d"
  by (auto simp: half_even_def Let_def pos_imp_zdiv_nonneg_iff)

text \<open>Rounding a quotient of at most \<open>B\<close> does not exceed \<open>B\<close>, for \<open>B\<close> below \<open>2 ^ 51\<close>.\<close>

lemma round53_le:
  assumes "0 \<le> n" "0 < d" "n \<le> B * d" "B < 2 ^ 51"
  shows "float_trunc (round53 n d) \<le> B \<and> 0 \<le> float_trunc (round53 n d)"
proof (cases "n = 0")
  case True
  then show ?thesis using assms mult_less_0_iff [of B d]
    by (auto simp: round53_def Let_def float_trunc_def not_less)
next
  case False
  then have n: "0 < n" using assms by simp
  define e0 where "e0 = bit_length n - bit_length d - 53"
  obtain e where e: "round53 n d = Float (scaled n d e) e" "e = e0 \<or> e = e0 + 1"
    using n unfolding round53_def e0_def Let_def by auto
  have "e < 0"
  proof (rule ccontr)
    assume "\<not> e < 0"
    then have "bit_length d + 51 \<le> bit_length n - 1" using e(2) by (auto simp: e0_def)
    then have le: "nat (bit_length d) + 51 \<le> nat (bit_length n - 1)"
      using bit_length_bounds [OF assms(2)] by linarith
    have "d * 2 ^ 51 < 2 ^ nat (bit_length d) * (2::int) ^ 51" using bit_length_bounds [OF assms(2)] by simp
    also have "\<dots> = 2 ^ (nat (bit_length d) + 51)" by (simp add: power_add)
    also have "\<dots> \<le> (2::int) ^ nat (bit_length n - 1)" using le by (rule power_increasing) simp
    also have "\<dots> \<le> n" using bit_length_bounds [OF n] by simp
    also have "\<dots> \<le> B * d" by (rule assms(3))
    also have "\<dots> \<le> 2 ^ 51 * d" using assms(2,4) by (intro mult_right_mono) simp_all
    finally show False by (simp add: mult.commute)
  qed
  then have m: "round53 n d = Float (half_even (n * 2 ^ nat (- e)) d) e"
    "n * 2 ^ nat (- e) \<le> B * 2 ^ nat (- e) * d"
    using e(1) assms(3) by (simp_all add: scaled_def mult.assoc mult.commute [of d] mult.left_commute)
  then have "half_even (n * 2 ^ nat (- e)) d \<le> B * 2 ^ nat (- e)" "0 \<le> half_even (n * 2 ^ nat (- e)) d"
    using half_even_le half_even_nonneg assms(1,2) by simp_all
  then show ?thesis using \<open>e < 0\<close> m(1) zdiv_mono1 [of _ "B * 2 ^ nat (- e)" "2 ^ nat (- e)"]
    by (simp add: float_trunc_def pos_imp_zdiv_nonneg_iff)
qed


lemma scaled_nonneg: "0 \<le> n \<Longrightarrow> 0 < d \<Longrightarrow> 0 \<le> scaled n d e"
  by (simp add: scaled_def half_even_nonneg)

lemma round53_nonneg: "0 \<le> n \<Longrightarrow> 0 < d \<Longrightarrow> 0 \<le> fst (float_ratio (round53 n d))"
  by (simp add: round53_def Let_def scaled_nonneg)

lemma round64_nonneg: "0 \<le> n \<Longrightarrow> 0 < d \<Longrightarrow> 0 \<le> fst (float_ratio (round64 n d))"
  using round53_nonneg [of n d]
  by (cases "float_ratio (round53 n d)") (simp add: round64_def Let_def half_even_nonneg)

lemma float_digit_step: "float_digit hex c = Some d \<Longrightarrow> 0 \<le> m \<Longrightarrow> 0 \<le> 10 * m + d \<and> 0 \<le> 16 * m + d"
  by (auto simp: float_digit_def Let_def split: if_splits)

lemma scan_mantissa_nonneg: "0 \<le> m \<Longrightarrow> 0 \<le> fst (scan_mantissa hex dot m frac digits s)"
proof (induction hex dot m frac digits s rule: scan_mantissa.induct)
  case (2 hex dot m frac digits c s)
  show ?case
  proof (cases "float_digit hex c")
    case None
    then show ?thesis using 2 by simp
  next
    case (Some d)
    then have "0 \<le> (if hex then 16 else 10) * m + d" using float_digit_step [OF Some "2.prems"] by simp
    then show ?thesis using 2 Some by simp
  qed
qed simp

lemma decimal_float_nonneg: "0 \<le> m \<Longrightarrow> decimal_float m x = Some v \<Longrightarrow> 0 \<le> fst (float_ratio v)"
  by (auto simp: decimal_float_def Let_def round64_nonneg split: if_splits)

lemma binary_float_nonneg: "0 \<le> m \<Longrightarrow> 0 \<le> fst (float_ratio (binary_float m x))"
  by (simp add: binary_float_def round64_nonneg)

lemma parse_float_nonneg: "parse_float s = Some (FloatNum neg v) \<Longrightarrow> 0 \<le> fst (float_ratio v)"
proof -
  assume p: "parse_float s = Some (FloatNum neg v)"
  then have sp: "special_float s = None"
    by (auto simp: parse_float_def special_float_def Let_def case_prod_beta split: option.splits if_splits)
  obtain n t where t: "strip_sign s = (n, t)" by force
  obtain m frac digits rest where scan:
    "scan_mantissa (hex_prefix t) False 0 0 False (if hex_prefix t then drop 2 t else t) = (m, frac, digits, rest)"
    by (metis prod_cases4)
  have "0 \<le> m" using scan_mantissa_nonneg [of 0] scan by (metis fst_conv order_refl)
  then show ?thesis using p sp t scan binary_float_nonneg [of m]
    by (auto simp: parse_float_def Let_def split: option.splits if_splits dest: decimal_float_nonneg)
qed

end
