(* ===== verification/Discord_Payload.thy ===== *)
theory Discord_Payload
  imports Discord_Fit Go_Url Go_Sha256
begin

text \<open>
  The JSON body of a webhook message (\<^verbatim>\<open>internal/discord/client.go\<close>: \<open>discordPayload\<close>,
  \<open>embedToPayload\<close>) and what the source uses of \<^verbatim>\<open>encoding/json\<close> to write it: string literals
  with HTML escaping, integers, and structs whose empty fields are omitted.
\<close>

subsection \<open>String literals\<close>

definition json_ascii :: "int \<Rightarrow> string" where
  "json_ascii b =
     (if b = 34 then [CHR 0x5C, CHR 0x22]
      else if b = 92 then [CHR 0x5C, CHR 0x5C]
      else if b = 8 then CHR 0x5C # ''b''
      else if b = 12 then CHR 0x5C # ''f''
      else if b = 10 then CHR 0x5C # ''n''
      else if b = 13 then CHR 0x5C # ''r''
      else if b = 9 then CHR 0x5C # ''t''
      else if b < 32 \<or> b = 60 \<or> b = 62 \<or> b = 38 then CHR 0x5C # ''u'' @ hex_digits 4 b
      else [char_of b])"

fun json_bytes :: "int list \<Rightarrow> string" where
  "json_bytes [] = []"
| "json_bytes (b # bs) =
     (if b < 128 then json_ascii b @ json_bytes bs
      else let (r, w) = decode_rune (b # bs)
        in (if r = rune_error \<and> w = 1 then CHR 0x5C # ''ufffd''
            else if r = 8232 \<or> r = 8233 then CHR 0x5C # ''u'' @ hex_digits 4 r
            else of_runes [r])
           @ json_bytes (drop (w - 1) bs))"

declare json_bytes.simps(2) [simp del]

definition json_string :: "string \<Rightarrow> string" where
  "json_string s = CHR 0x22 # json_bytes (bytes_of s) @ [CHR 0x22]"

subsection \<open>Structs\<close>

text \<open>A field that is omitted when empty, and an object of the fields that are left.\<close>

definition json_object :: "(string \<times> string option) list \<Rightarrow> string" where
  "json_object members =
     ''{'' @ str_join '','' (List.map_filter
        (\<lambda>(k, v). map_option (\<lambda>x. json_string k @ '':'' @ x) v) members) @ ''}''"

definition omit_empty :: "string \<Rightarrow> string option" where
  "omit_empty s = (if s = [] then None else Some (json_string s))"

record discord_embed =
  de_title :: string
  de_description :: string
  de_url :: string
  de_color :: int
  de_timestamp :: string
  de_thumbnail :: "string option"
  de_image :: "string option"
  de_author :: "string option"
  de_footer :: "string option"

record discord_payload =
  dp_content :: string
  dp_embeds :: "discord_embed list"
  dp_thread_name :: string
  dp_username :: string
  dp_avatar_url :: string
  dp_parse :: "string list"

definition present :: "string \<Rightarrow> string option" where
  "present s = (if s \<noteq> [] then Some s else None)"

definition embedToPayload :: "embed \<Rightarrow> discord_embed" where
  "embedToPayload e =
     \<lparr>de_title = eb_title e, de_description = eb_description e, de_url = eb_url e,
      de_color = eb_color e, de_timestamp = eb_timestamp e,
      de_thumbnail = present (eb_thumbnail_url e), de_image = present (eb_image_url e),
      de_author = present (eb_author_name e), de_footer = present (eb_footer_text e)\<rparr>"

definition json_member :: "string \<Rightarrow> string \<Rightarrow> string" where
  "json_member k v = json_object [(k, Some (json_string v))]"

definition marshal_embed :: "discord_embed \<Rightarrow> string" where
  "marshal_embed d = json_object
     [(''title'', omit_empty (de_title d)), (''description'', omit_empty (de_description d)),
      (''url'', omit_empty (de_url d)),
      (''color'', if de_color d = 0 then None else Some (itoa (de_color d))),
      (''timestamp'', omit_empty (de_timestamp d)),
      (''thumbnail'', map_option (json_member ''url'') (de_thumbnail d)),
      (''image'', map_option (json_member ''url'') (de_image d)),
      (''author'', map_option (json_member ''name'') (de_author d)),
      (''footer'', map_option (json_member ''text'') (de_footer d))]"

definition json_array :: "string list \<Rightarrow> string" where
  "json_array xs = ''['' @ str_join '','' xs @ '']''"

definition marshal_payload :: "discord_payload \<Rightarrow> string" where
  "marshal_payload p = json_object
     [(''content'', omit_empty (dp_content p)),
      (''embeds'', if dp_embeds p = [] then None else Some (json_array (map marshal_embed (dp_embeds p)))),
      (''thread_name'', omit_empty (dp_thread_name p)), (''username'', omit_empty (dp_username p)),
      (''avatar_url'', omit_empty (dp_avatar_url p)),
      (''allowed_mentions'', Some (json_object [(''parse'', Some (json_array (map json_string (dp_parse p))))]))]"

text \<open>The payload \<open>prepareRequest\<close> builds: no mention is parsed.\<close>

definition message_payload :: "message \<Rightarrow> discord_payload" where
  "message_payload m =
     \<lparr>dp_content = msg_content m,
      dp_embeds = (case msg_embed m of None \<Rightarrow> [] | Some e \<Rightarrow> [embedToPayload e]),
      dp_thread_name = msg_thread_name m, dp_username = msg_username m,
      dp_avatar_url = msg_avatar_url m, dp_parse = []\<rparr>"

definition message_body :: "message \<Rightarrow> string" where
  "message_body m = marshal_payload (message_payload m)"

subsection \<open>Reading a string literal back\<close>

text \<open>What any JSON reader does with a literal whose opening quote it has consumed.\<close>

definition json_escape :: "char \<Rightarrow> char option" where
  "json_escape e = map_of
     [(CHR 0x22, CHR 0x22), (CHR 0x5C, CHR 0x5C), (CHR ''/'', CHR ''/''), (CHR ''b'', char_of (8::int)),
      (CHR ''f'', char_of (12::int)), (CHR ''n'', char_of (10::int)), (CHR ''r'', char_of (13::int)),
      (CHR ''t'', char_of (9::int))] e"

definition read_hex4 :: "string \<Rightarrow> (int \<times> string) option" where
  "read_hex4 s =
     (case s of
        a # b # c # d # s' \<Rightarrow>
          (case (hex_value a, hex_value b, hex_value c, hex_value d) of
             (Some w, Some x, Some y, Some z) \<Rightarrow> Some (4096 * w + 256 * x + 16 * y + z, s')
           | _ \<Rightarrow> None)
      | _ \<Rightarrow> None)"

lemma read_hex4_less: "read_hex4 s = Some (r, s') \<Longrightarrow> length s' < length s"
  by (auto simp: read_hex4_def split: list.splits option.splits)

definition prepend :: "string \<Rightarrow> (string \<times> string) option \<Rightarrow> (string \<times> string) option" where
  "prepend p = map_option (\<lambda>(x, rest). (p @ x, rest))"

lemma prepend_simps [simp]:
  "prepend p None = None" "prepend p (Some (x, rest)) = Some (p @ x, rest)"
  "prepend p (prepend q v) = prepend (p @ q) v" "prepend [] v = v"
  by (cases v; simp add: prepend_def case_prod_beta comp_def option.map_comp)+

function read_literal :: "string \<Rightarrow> (string \<times> string) option" where
  "read_literal [] = None"
| "read_literal (c # s) =
     (if c = CHR 0x22 then Some ([], s)
      else if c = CHR 0x5C then
        (case s of
           [] \<Rightarrow> None
         | e # s' \<Rightarrow>
             if e = CHR ''u'' then
               (case read_hex4 s' of None \<Rightarrow> None | Some (r, s'') \<Rightarrow> prepend (of_runes [r]) (read_literal s''))
             else (case json_escape e of None \<Rightarrow> None | Some x \<Rightarrow> prepend [x] (read_literal s')))
      else if (of_char c :: int) < 32 then None
      else prepend [c] (read_literal s))"
  by pat_completeness auto
termination
  by (relation "measure length") (auto dest: read_hex4_less)

declare read_literal.simps(2) [simp del]


lemma hex_value_digit: "0 \<le> n \<Longrightarrow> n < 16 \<Longrightarrow> hex_value (hex_digit n) = Some n"
proof -
  assume n: "0 \<le> n" "n < 16"
  have "(of_char (hex_digit n) :: int) = (if n < 10 then 48 + n else 87 + n)"
    using n by (simp add: hex_digit_def)
  then show ?thesis using n by (simp add: hex_value_def)
qed

lemma hex_digits_4:
  "hex_digits 4 n = [hex_digit (n div 16 div 16 div 16 mod 16), hex_digit (n div 16 div 16 mod 16),
     hex_digit (n div 16 mod 16), hex_digit (n mod 16)]"
  by (simp add: numeral_eq_Suc)

lemma hex4_value:
  assumes "0 \<le> (n::int)" "n < 65536"
  shows "4096 * (n div 16 div 16 div 16 mod 16) + 256 * (n div 16 div 16 mod 16) + 16 * (n div 16 mod 16) + n mod 16 = n"
proof -
  define a b c where "a = n div 16" and "b = a div 16" and "c = b div 16"
  have "n = 16 * a + n mod 16" "a = 16 * b + a mod 16" "b = 16 * c + b mod 16"
    unfolding a_def b_def c_def by simp_all
  moreover have "0 \<le> c \<and> c < 16"
  proof -
    have "c = n div 4096" unfolding a_def b_def c_def by (simp add: zdiv_zmult2_eq [symmetric])
    then show ?thesis using assms by (simp add: pos_imp_zdiv_nonneg_iff int_div_less)
  qed
  then have "c mod 16 = c" by simp
  ultimately show ?thesis unfolding a_def [symmetric] b_def [symmetric] c_def [symmetric] by linarith
qed

lemma hex_value_mod: "hex_value (hex_digit (n mod 16)) = Some (n mod 16)"
  by (rule hex_value_digit) simp_all

lemma read_hex4_digits: "0 \<le> n \<Longrightarrow> n < 65536 \<Longrightarrow> read_hex4 (hex_digits 4 n @ t) = Some (n, t)"
  unfolding hex_digits_4 read_hex4_def
  by (simp only: append_Cons append_Nil list.case hex_value_mod option.case prod.case hex4_value)

lemma of_runes_ascii: "0 \<le> b \<Longrightarrow> b < 128 \<Longrightarrow> of_runes [b] = [char_of b]"
  by (simp add: of_runes_def utf8_encode_def encode_rune_def valid_rune_def of_bytes_def)

lemma read_plain:
  "c \<noteq> CHR 0x22 \<Longrightarrow> c \<noteq> CHR 0x5C \<Longrightarrow> 32 \<le> (of_char c :: int) \<Longrightarrow>
   read_literal (c # t) = prepend [c] (read_literal t)"
  by (simp add: read_literal.simps)

lemma read_unicode:
  "0 \<le> n \<Longrightarrow> n < 65536 \<Longrightarrow>
   read_literal (CHR 0x5C # CHR ''u'' # hex_digits 4 n @ t) = prepend (of_runes [n]) (read_literal t)"
  by (simp add: read_literal.simps(2) read_hex4_digits)

lemma char_of_byte_neq:
  "0 \<le> b \<Longrightarrow> b < 256 \<Longrightarrow> (of_char c :: int) \<noteq> b \<Longrightarrow> char_of b \<noteq> c"
  by auto

lemma chars_of: "char_of (34::int) = CHR 0x22" "char_of (92::int) = CHR 0x5C"
  "char_of (102::int) = CHR ''f''" "char_of (100::int) = CHR ''d''"
  by (simp_all add: char_of_eq_iff)

lemma read_ascii:
  assumes "0 \<le> b" "b < 128"
  shows "read_literal (json_ascii b @ t) = prepend [char_of b] (read_literal t)"
proof -
  consider "b = 34 \<or> b = 92 \<or> b = 8 \<or> b = 12 \<or> b = 10 \<or> b = 13 \<or> b = 9"
    | "\<not> (b = 34 \<or> b = 92 \<or> b = 8 \<or> b = 12 \<or> b = 10 \<or> b = 13 \<or> b = 9)" "b < 32 \<or> b = 60 \<or> b = 62 \<or> b = 38"
    | "\<not> (b = 34 \<or> b = 92 \<or> b = 8 \<or> b = 12 \<or> b = 10 \<or> b = 13 \<or> b = 9)" "\<not> (b < 32 \<or> b = 60 \<or> b = 62 \<or> b = 38)"
    by blast
  then show ?thesis
  proof cases
    case 1
    then show ?thesis
      by (elim disjE) (simp_all add: json_ascii_def read_literal.simps(2) json_escape_def chars_of)
  next
    case 2
    then have "json_ascii b = CHR 0x5C # CHR ''u'' # hex_digits 4 b" by (auto simp: json_ascii_def)
    then show ?thesis using read_unicode [of b t] of_runes_ascii assms by simp
  next
    case 3
    then have "json_ascii b = [char_of b]" by (auto simp: json_ascii_def)
    then show ?thesis using 3 assms read_plain [of "char_of b" t] char_of_byte_neq [of b] by simp
  qed
qed

lemma read_high_bytes:
  "\<forall>b \<in> set bs. 128 \<le> b \<and> b < 256 \<Longrightarrow> read_literal (of_bytes bs @ t) = prepend (of_bytes bs) (read_literal t)"
proof (induction bs)
  case (Cons b bs)
  then show ?case using read_plain [of "char_of b"] char_of_byte_neq [of b] by simp
qed simp

lemma encode_rune_high: "128 \<le> r \<Longrightarrow> b \<in> set (encode_rune r) \<Longrightarrow> 128 \<le> b \<and> b < 256"
  using encode_rune_is_byte [of b r] is_cont_mod64
  by (auto simp: encode_rune_def is_byte_def is_cont_def split: if_splits)

lemma read_high_rune:
  "128 \<le> r \<Longrightarrow> read_literal (of_runes [r] @ t) = prepend (of_runes [r]) (read_literal t)"
  using read_high_bytes [of "encode_rune r" t] encode_rune_high [of r]
  by (simp add: of_runes_def utf8_encode_def)


lemma decode_rune_high:
  assumes "\<forall>x \<in> set (b # bs). is_byte x" "128 \<le> b"
  shows "128 \<le> fst (decode_rune (b # bs))"
  using assms by (auto simp: decode_rune.simps(2) rune_error_def is_cont_def second_ok_def split: list.splits if_splits)

lemma json_bytes_step:
  assumes "\<forall>x \<in> set (b # bs). is_byte x"
  shows "read_literal (json_bytes (b # bs) @ t) =
    prepend (of_runes [fst (decode_rune (b # bs))])
      (read_literal (json_bytes (drop (snd (decode_rune (b # bs)) - 1) bs) @ t))"
proof -
  obtain r w where rw: "decode_rune (b # bs) = (r, w)" by force
  show ?thesis
  proof (cases "b < 128")
    case True
    then have "r = b" "w = 1" using rw by (simp_all add: decode_rune.simps(2))
    then show ?thesis using True assms rw
      by (simp add: json_bytes.simps(2) read_ascii of_runes_ascii is_byte_def)
  next
    case False
    have r: "128 \<le> r" using decode_rune_high [OF assms] False rw by simp
    have uffd: "CHR 0x5C # ''ufffd'' = CHR 0x5C # CHR ''u'' # hex_digits 4 rune_error"
      by (simp add: rune_error_def hex_digits_4 hex_digit_def chars_of)
    show ?thesis
      using False rw r read_unicode [of rune_error] read_unicode [of 8232] read_unicode [of 8233]
        read_high_rune [OF r]
      by (simp add: json_bytes.simps(2) uffd rune_error_def)
  qed
qed

lemma read_json_bytes:
  "\<forall>x \<in> set bs. is_byte x \<Longrightarrow>
   read_literal (json_bytes bs @ CHR 0x22 # t) = Some (of_runes (utf8_decode bs), t)"
proof (induction bs rule: utf8_decode.induct)
  case 1
  then show ?case by (simp add: read_literal.simps(2))
next
  case (2 b bs)
  have "\<forall>x \<in> set (drop (snd (decode_rune (b # bs)) - 1) bs). is_byte x"
    using "2.prems" by (auto dest: in_set_dropD)
  then have "read_literal (json_bytes (b # bs) @ CHR 0x22 # t) =
    Some (of_runes [fst (decode_rune (b # bs))] @
      of_runes (utf8_decode (drop (snd (decode_rune (b # bs)) - 1) bs)), t)"
    using "2.IH" json_bytes_step [OF "2.prems"] by simp
  then show ?case by (simp add: utf8_decode.simps(2) flip: of_runes_append)
qed

lemma read_json_string:
  "read_literal (tl (json_string s) @ t) = Some (of_runes (runes s), t)"
  using read_json_bytes [of "bytes_of s" t] bytes_of_is_byte
  by (simp add: json_string_def runes_def)

end
