(* ===== verification/Discord_Client.thy ===== *)
theory Discord_Client
  imports Discord_Payload Rate_Limiter Go_Float Failures
begin

text \<open>
  The webhook client (\<^verbatim>\<open>internal/discord/client.go\<close>, and \<open>RateLimiter.wait\<close>).  What is
  outside the program is the record \<open>port\<close>: the clock, the timer raced against the context,
  the HTTP round trip, the error a URL that does not parse comes with, and the decoder of
  Discord's error body.  A client shares the limiter with every other client, so the
  limiter is part of the state, with the requests made so far and the world behind the
  port.
\<close>

record http_response =
  rs_status_code :: int
  rs_status :: string
  rs_header :: "string \<Rightarrow> string"
  rs_body :: string

record 'w port =
  pt_now :: "'w \<Rightarrow> int \<times> 'w"
  pt_sleep :: "int \<Rightarrow> 'w \<Rightarrow> go_error option \<times> 'w"
  pt_do :: "url \<Rightarrow> string \<Rightarrow> 'w \<Rightarrow> (go_error + http_response) \<times> 'w"
  pt_url_error :: "string \<Rightarrow> go_error"
  pt_error_detail :: "string \<Rightarrow> (string \<times> int) option"

record discord_client =
  dc_webhookURL :: string
  dc_limited :: bool

record 'w wire =
  wr_limiter :: rate_limiter
  wr_requests :: "(url \<times> string) list"
  wr_world :: 'w

subsection \<open>Webhook URLs\<close>

definition AllowedWebhookHosts :: "string \<Rightarrow> bool" where
  "AllowedWebhookHosts h \<longleftrightarrow> h = ''discord.com'' \<or> h = ''discordapp.com''"

text \<open>\<open>URL.Hostname\<close> and \<open>URL.Port\<close>: an optional numeric port and the brackets are cut off.\<close>

definition split_port :: "string \<Rightarrow> string \<times> string" where
  "split_port h =
     (case split_last CHR '':'' h of
        Some (before, port) \<Rightarrow> if \<forall>c \<in> set port. is_digit c then (before, port) else (h, [])
      | None \<Rightarrow> (h, []))"

definition strip_brackets :: "string \<Rightarrow> string" where
  "strip_brackets h =
     (if has_prefix h ''['' \<and> has_suffix h '']'' then butlast (tl h) else h)"

definition hostname :: "url \<Rightarrow> string" where
  "hostname u = strip_brackets (fst (split_port (host u)))"

definition url_port :: "url \<Rightarrow> string" where
  "url_port u = snd (split_port (host u))"

definition normalizeWebhookURL :: "go_env \<Rightarrow> string \<Rightarrow> string" where
  "normalizeWebhookURL E raw =
     (case url_parse E raw of
        None \<Rightarrow> raw
      | Some u \<Rightarrow>
          if url_port u \<noteq> [] then raw
          else if to_lower E (hostname u) \<in> {''ptb.discord.com'', ''canary.discord.com''}
          then url_string (u\<lparr>host := ''discord.com''\<rparr>)
          else raw)"

definition NewClient :: "go_env \<Rightarrow> string \<Rightarrow> bool \<Rightarrow> discord_client" where
  "NewClient E webhookURL limited =
     \<lparr>dc_webhookURL = normalizeWebhookURL E (trim_space webhookURL), dc_limited = limited\<rparr>"

subsection \<open>Rate limit headers\<close>

definition boundedSeconds :: "string \<Rightarrow> int option" where
  "boundedSeconds value =
     (case parse_float (trim_space value) of
        None \<Rightarrow> None
      | Some FloatNaN \<Rightarrow> None
      | Some (FloatInf neg) \<Rightarrow> if neg then None else Some maxCooldown
      | Some (FloatNum neg v) \<Rightarrow>
          (let (a, b) = float_ratio v in
           if neg \<and> 0 < a then None
           else if 3600 * b \<le> a then Some maxCooldown
           else Some (float_trunc (float_mult v (round53 second 1)))))"

definition parseRetryAfter :: "string \<Rightarrow> int" where
  "parseRetryAfter value = (case boundedSeconds value of Some d \<Rightarrow> d | None \<Rightarrow> second)"

subsection \<open>Preparing a request\<close>

record prepared_request =
  pr_limiterKey :: string
  pr_target :: string
  pr_body :: string

fun url_error_inner :: "go_error \<Rightarrow> go_error option" where
  "url_error_inner (UrlError text timeout e) = Some e"
| "url_error_inner _ = None"

definition redactURLError :: "go_error \<Rightarrow> go_error" where
  "redactURLError err = (case as_type url_error_inner err of Some e \<Rightarrow> e | None \<Rightarrow> err)"

text \<open>The \<^verbatim>\<open>*url.Error\<close> of a failed parse: it quotes the URL.\<close>

definition parse_url_error :: "go_env \<Rightarrow> 'w port \<Rightarrow> string \<Rightarrow> go_error" where
  "parse_url_error E P raw =
     UrlError (''parse '' @ go_quote (env_print E) raw @ '': '' @ err_text (pt_url_error P raw)) False
       (pt_url_error P raw)"

definition with_thread :: "go_env \<Rightarrow> string \<Rightarrow> url \<Rightarrow> url" where
  "with_thread E thread u =
     (if blank thread then u
      else u\<lparr>raw_query := encode_query (AList.update ''thread_id'' [thread] (parse_query E (raw_query u)))\<rparr>)"

definition prepareRequest :: "go_env \<Rightarrow> 'w port \<Rightarrow> string \<Rightarrow> message \<Rightarrow> go_error + prepared_request" where
  "prepareRequest E P webhookURL msg0 =
     (if blank webhookURL then Inl (PlainError ''discord webhook URL is empty'')
      else let msg = fst (Fit msg0) in
        if blank (msg_content msg) \<and> msg_embed msg = None
        then Inl (PlainError ''discord message content is empty'')
        else case parse_no_fragment E True webhookURL of
          None \<Rightarrow> (let e = redactURLError (parse_url_error E P webhookURL)
                   in Inl (WrapError (''invalid discord webhook URL: '' @ err_text e) e))
        | Some u \<Rightarrow>
            if scheme u \<noteq> ''https'' \<or> \<not> AllowedWebhookHosts (to_lower E (hostname u))
            then Inl (PlainError ''discord webhook URL must be an https://discord.com or https://discordapp.com URL'')
            else Inr \<lparr>pr_limiterKey = webhookURL,
                      pr_target = url_string (with_thread E (msg_thread_id msg) u),
                      pr_body = message_body msg\<rparr>)"

subsection \<open>The exchange\<close>

text \<open>\<open>RateLimiter.wait\<close>.\<close>

definition limiter_wait :: "'w port \<Rightarrow> string \<Rightarrow> 'w wire \<Rightarrow> go_error option \<times> 'w wire" where
  "limiter_wait P key st =
     (let (now, w) = pt_now P (wr_world st);
          (l, d) = paceDelay key now (wr_limiter st);
          st1 = st\<lparr>wr_limiter := l, wr_world := w\<rparr>
      in if d \<le> 0 then (None, st1)
         else let (err, w') = pt_sleep P d w in (err, st1\<lparr>wr_world := w'\<rparr>))"

definition limiter_reserve :: "'w port \<Rightarrow> string \<Rightarrow> 'w wire \<Rightarrow> int option \<times> 'w wire" where
  "limiter_reserve P key st =
     (let (now, w) = pt_now P (wr_world st); (l, r) = reserve key now (wr_limiter st)
      in (r, st\<lparr>wr_limiter := l, wr_world := w\<rparr>))"

definition limiter_cooldown :: "'w port \<Rightarrow> string \<Rightarrow> int \<Rightarrow> 'w wire \<Rightarrow> 'w wire" where
  "limiter_cooldown P key d st =
     (let (now, w) = pt_now P (wr_world st)
      in st\<lparr>wr_limiter := cooldown key d now (wr_limiter st), wr_world := w\<rparr>)"

definition limiter_pace :: "'w port \<Rightarrow> string \<Rightarrow> int \<Rightarrow> 'w wire \<Rightarrow> 'w wire" where
  "limiter_pace P key d st =
     (let (now, w) = pt_now P (wr_world st)
      in st\<lparr>wr_limiter := pace key d now (wr_limiter st), wr_world := w\<rparr>)"

definition notePacing :: "'w port \<Rightarrow> discord_client \<Rightarrow> string \<Rightarrow> (string \<Rightarrow> string) \<Rightarrow> 'w wire \<Rightarrow> 'w wire" where
  "notePacing P c key h st =
     (if \<not> dc_limited c \<or> trim_space (h ''X-RateLimit-Remaining'') \<noteq> ''0'' then st
      else case boundedSeconds (h ''X-RateLimit-Reset-After'') of
        None \<Rightarrow> st
      | Some d \<Rightarrow>
          if d \<le> 0 then st
          else if d > maxPaceWait then limiter_cooldown P key d st
          else limiter_pace P key d st)"

definition decodeErrorDetail :: "'w port \<Rightarrow> string \<Rightarrow> string" where
  "decodeErrorDetail P body =
     (case pt_error_detail P (take 4096 body) of
        None \<Rightarrow> []
      | Some (text, code) \<Rightarrow>
          if text = [] \<and> code = 0 then []
          else if code \<noteq> 0 then '': '' @ text @ '' (code '' @ itoa code @ '')''
          else '': '' @ text)"

text \<open>The part of \<open>exchange\<close> before the request: the pacing sleep and the cooldown.\<close>

definition limiter_gate :: "'w port \<Rightarrow> discord_client \<Rightarrow> string \<Rightarrow> 'w wire \<Rightarrow> go_error option \<times> 'w wire" where
  "limiter_gate P c key st =
     (if \<not> dc_limited c then (None, st)
      else case limiter_wait P key st of
        (Some err, st1) \<Rightarrow> (Some err, st1)
      | (None, st1) \<Rightarrow>
          (case limiter_reserve P key st1 of
             (Some remaining, st2) \<Rightarrow> (Some (RateLimitError remaining), st2)
           | (None, st2) \<Rightarrow> (None, st2)))"

text \<open>What \<open>exchange\<close> makes of a response.\<close>

definition handle_response ::
  "'w port \<Rightarrow> discord_client \<Rightarrow> string \<Rightarrow> http_response \<Rightarrow> 'w wire \<Rightarrow> go_error option \<times> 'w wire" where
  "handle_response P c key resp st =
     (if rs_status_code resp = 429 then
        (let d = parseRetryAfter (rs_header resp ''Retry-After'')
         in (Some (RateLimitError d), if dc_limited c then limiter_cooldown P key d st else st))
      else if rs_status_code resp < 200 \<or> rs_status_code resp \<ge> 300 then
        (Some (DiscordHTTPStatusError (rs_status_code resp) (rs_status resp)
                 (decodeErrorDetail P (rs_body resp))), st)
      else (None, notePacing P c key (rs_header resp) st))"

definition exchange ::
  "go_env \<Rightarrow> 'w port \<Rightarrow> discord_client \<Rightarrow> prepared_request \<Rightarrow> 'w wire \<Rightarrow> go_error option \<times> 'w wire" where
  "exchange E P c p st0 =
     (case limiter_gate P c (pr_limiterKey p) st0 of
        (Some err, st) \<Rightarrow> (Some err, st)
      | (None, st) \<Rightarrow>
          (case url_parse E (pr_target p) of
             None \<Rightarrow> (Some (redactURLError (parse_url_error E P (pr_target p))), st)
           | Some u \<Rightarrow>
               (case pt_do P u (pr_body p) (wr_world st) of
                  (res, w) \<Rightarrow>
                    let st1 = st\<lparr>wr_requests := wr_requests st @ [(u, pr_body p)], wr_world := w\<rparr>
                    in case res of
                         Inl err \<Rightarrow> (let e = redactURLError err
                           in (Some (WrapError (''discord webhook request failed: '' @ err_text e) e), st1))
                       | Inr resp \<Rightarrow> handle_response P c (pr_limiterKey p) resp st1)))"

definition SendMessage ::
  "go_env \<Rightarrow> 'w port \<Rightarrow> discord_client \<Rightarrow> message \<Rightarrow> 'w wire \<Rightarrow> go_error option \<times> 'w wire" where
  "SendMessage E P c msg st =
     (case prepareRequest E P (dc_webhookURL c) msg of
        Inl err \<Rightarrow> (Some err, st)
      | Inr p \<Rightarrow> exchange E P c p st)"


subsection \<open>Bounds of the headers\<close>

lemma round53_int: "0 \<le> n \<Longrightarrow> n < 2 ^ 51 \<Longrightarrow> float_trunc (round53 n 1) \<le> n"
  using round53_le [of n 1 n] by simp

lemma float_ratio_pos: "0 < snd (float_ratio v)"
  by (cases v) simp

lemma second_ratio: "float_ratio (round53 second 1) = (second * 2 ^ 23, 2 ^ 23)"
  by code_simp

lemma boundedSeconds_range: "boundedSeconds v = Some d \<Longrightarrow> 0 \<le> d \<and> d \<le> maxCooldown"
proof -
  assume "boundedSeconds v = Some d"
  then consider "d = maxCooldown" | neg x a b where "float_ratio x = (a, b)" "\<not> 3600 * b \<le> a" "\<not> (neg \<and> 0 < a)"
    "d = float_trunc (float_mult x (round53 second 1))" "parse_float (trim_space v) = Some (FloatNum neg x)"
    by (auto simp: boundedSeconds_def split: option.splits go_float.splits prod.splits if_splits)
  then show ?thesis
  proof cases
    case 1
    then show ?thesis by (simp add: maxCooldown_def duration_units)
  next
    case 2
    have b: "0 < b" using float_ratio_pos [of x] 2(1) by simp
    have a: "0 \<le> a" using parse_float_nonneg [OF 2(5)] 2(1) by simp
    have "a * (second * 2 ^ 23) \<le> maxCooldown * (b * 2 ^ 23)"
      using 2(2) by (simp add: maxCooldown_def duration_units)
    then have "float_trunc (round53 (a * (second * 2 ^ 23)) (b * 2 ^ 23)) \<le> maxCooldown \<and>
      0 \<le> float_trunc (round53 (a * (second * 2 ^ 23)) (b * 2 ^ 23))"
      using a b by (intro round53_le) (simp_all add: maxCooldown_def duration_units)
    then show ?thesis using 2(1,4) by (simp add: float_mult_def second_ratio)
  qed
qed

end
