(* ===== verification/Discord_Client_Laws.thy ===== *)
theory Discord_Client_Laws
  imports Discord_Client
begin

text \<open>
  What a webhook client can reach, and how long it is kept from reaching it: a request goes
  to an allowed host over HTTPS or is never made, the waits read from headers are bounded,
  and a 429 holds off every client of the same webhook.
\<close>

subsection \<open>A printed URL is read back with its host\<close>

lemma set_escape: "c \<in> set (escape m s) \<Longrightarrow> c = CHR ''%'' \<or> c = CHR ''+'' \<or> is_digit c \<or> is_letter c \<or> \<not> should_escape m c"
proof -
  assume "c \<in> set (escape m s)"
  then obtain x where x: "c \<in> set (escape_char m x)" by (auto simp: escape_def)
  have hex: "is_digit (upper_hex n) \<or> is_letter (upper_hex n)" if "0 \<le> n" "n < 16" for n
    using that by (auto simp: upper_hex_def is_digit_def is_letter_def lower_ascii_def Let_def)
  have "0 \<le> (of_char x :: int) div 16" "(of_char x :: int) div 16 < 16"
    using of_char_bounds [of x] by (simp_all add: pos_imp_zdiv_nonneg_iff int_div_less)
  then have "is_digit d \<or> is_letter d" if "d \<in> {upper_hex (of_char x div 16), upper_hex (of_char x mod 16)}" for d
    using hex [of "of_char x div 16"] hex [of "of_char x mod 16"] that by auto
  then show ?thesis using x by (fastforce simp: escape_char_def Let_def split: if_splits)
qed

lemma escape_clean:
  assumes "m \<in> {encodeHost, encodeUserPassword}" "c \<in> set ''/?@#''"
  shows "c \<notin> set (escape m s)"
proof
  assume "c \<in> set (escape m s)"
  from set_escape [OF this] show False
    using assms by (auto simp: is_digit_def is_letter_def lower_ascii_def should_escape_def)
qed

lemma user_string_alt: "user_string (n, p) =
    (if n = [] \<and> p = Some [] then [] else escape encodeUserPassword n @
       (case p of None \<Rightarrow> [] | Some q \<Rightarrow> CHR '':'' # escape encodeUserPassword q))"
  by (cases n; cases p) (simp_all add: user_string_def split: list.split)

lemma user_string_clean: "c \<in> set ''/?@#'' \<Longrightarrow> c \<notin> set (user_string ui)"
proof -
  assume c: "c \<in> set ''/?@#''"
  then have "c \<noteq> CHR '':''" by auto
  moreover have "c \<notin> set (escape encodeUserPassword s)" for s using c by (intro escape_clean) simp_all
  ultimately show ?thesis by (cases ui) (simp add: user_string_alt split: option.split)
qed

lemma path_specials: "should_escape encodePath CHR ''?''" "should_escape encodePath CHR ''#''"
  "\<not> is_digit CHR ''?''" "\<not> is_digit CHR ''#''" "\<not> is_letter CHR ''?''" "\<not> is_letter CHR ''#''"
  by (simp_all add: is_digit_def is_letter_def lower_ascii_def should_escape_def)

lemma escaped_path_clean: "CHR ''?'' \<notin> set (escaped_path u)" "CHR ''#'' \<notin> set (escaped_path u)"
proof -
  have esc: "CHR ''?'' \<notin> set (escape encodePath p)" "CHR ''#'' \<notin> set (escape encodePath p)" for p
    using set_escape [of "CHR ''?''" encodePath p] set_escape [of "CHR ''#''" encodePath p] path_specials by auto
  have raw: "CHR ''?'' \<notin> set p" "CHR ''#'' \<notin> set p" if "valid_encoded encodePath p" for p
    using that path_specials unfolding valid_encoded_def by fastforce+
  show "CHR ''?'' \<notin> set (escaped_path u)" "CHR ''#'' \<notin> set (escaped_path u)"
    using esc raw by (simp_all add: escaped_path_def)
qed

text \<open>The parts of a printed URL with a host: none of them contains the character that ends it.\<close>

definition user_part :: "url \<Rightarrow> string" where
  "user_part u = (case user u of None \<Rightarrow> [] | Some ui \<Rightarrow> user_string ui @ ''@'')"

definition path_part :: "url \<Rightarrow> string" where
  "path_part u = (let p = escaped_path u in if p \<noteq> [] \<and> hd p \<noteq> CHR ''/'' then CHR ''/'' # p else p)"

lemma path_part_slash: "path_part u = [] \<or> hd (path_part u) = CHR ''/''"
  by (simp add: path_part_def Let_def)

lemma path_part_clean: "CHR ''?'' \<notin> set (path_part u)" "CHR ''#'' \<notin> set (path_part u)"
  using escaped_path_clean [of u] by (simp_all add: path_part_def Let_def)

lemma authority_clean:
  "c \<in> set ''/?#'' \<Longrightarrow> c \<notin> set (user_part u @ escape encodeHost (host u))"
  using user_string_clean [of c] escape_clean [of encodeHost c]
  by (auto simp: user_part_def split: option.splits)

lemma url_string_host:
  assumes "scheme u \<noteq> []" "opaque u = []" "host u \<noteq> []" "fragment u = []"
  shows "url_string u = scheme u @ '':'' @ ''//'' @ user_part u @ escape encodeHost (host u) @ path_part u
    @ (if force_query u \<or> raw_query u \<noteq> [] then CHR ''?'' # raw_query u else [])"
  using assms by (simp add: url_string_def hier_string_def authority_string_def user_part_def path_part_def Let_def)

lemma split_query_at:
  assumes "CHR ''?'' \<notin> set x" "y = [] \<or> hd y = CHR ''?''"
  shows "\<exists>f q. split_query (x @ y) = (f, x, q)"
proof (cases y)
  case Nil
  then have "x = [] \<or> last x \<noteq> CHR ''?''" using assms(1) last_in_set by fastforce
  then show ?thesis using assms(1) Nil by (auto simp: split_query_def cut_at_absent)
next
  case (Cons c z)
  then have y: "y = CHR ''?'' # z" using assms(2) by simp
  show ?thesis
  proof (cases "last (x @ y) = CHR ''?'' \<and> CHR ''?'' \<notin> set (butlast (x @ y))")
    case True
    then have "z = []" using y by (cases z) (auto simp: butlast_append)
    then show ?thesis using True y by (simp add: split_query_def butlast_append) blast
  next
    case False
    then have "split_query (x @ y) = (False, fst (cut_at CHR ''?'' (x @ y)), fst (snd (cut_at CHR ''?'' (x @ y))))"
      by (simp only: split_query_def if_False simp_thms if_not_P de_Morgan_conj)
    then show ?thesis using y cut_at_append [OF assms(1)] by simp blast
  qed
qed

lemma get_scheme_https: "get_scheme (''https'' @ CHR '':'' # s) [] (''https'' @ CHR '':'' # s) = Some (''https'', s)"
  by (simp add: is_letter_def lower_ascii_def is_digit_def)

lemma split_last_absent: "sep \<notin> set s \<Longrightarrow> split_last sep s = None"
  by (simp add: split_last_def)

lemma split_last_append: "sep \<notin> set t \<Longrightarrow> split_last sep (s @ sep # t) = Some (s, t)"
  by (simp add: split_last_def takeWhile_append2 dropWhile_append2 takeWhile_append dropWhile_append)

definition host_roundtrip :: "go_env \<Rightarrow> bool" where
  "host_roundtrip E \<longleftrightarrow> (\<forall>s h. env_parse_host E s = Some h \<longrightarrow>
     env_parse_host E (escape encodeHost h) = Some h)"

lemma parse_authority_host: "parse_authority E s = Some (ui, h) \<Longrightarrow> \<exists>x. env_parse_host E x = Some h"
  by (auto simp: parse_authority_def bind_eq_Some_conv split: option.splits)

lemma parse_hier_host:
  "parse_hier E b rest u = Some v \<Longrightarrow> host u = [] \<Longrightarrow> host v \<noteq> [] \<Longrightarrow> opaque u = [] \<Longrightarrow>
     opaque v = [] \<and> (\<exists>x. env_parse_host E x = Some (host v))"
  unfolding parse_hier_def
  by (auto simp: set_path_def split: if_splits option.splits dest!: parse_authority_host)

lemma parse_no_fragment_host:
  assumes "parse_no_fragment E b s = Some u" "host u \<noteq> []"
  shows "opaque u = [] \<and> (\<exists>x. env_parse_host E x = Some (host u))"
  using parse_no_fragment_cases [OF assms(1)] assms(2) parse_hier_host
  by (fastforce simp: empty_url_def)


lemma cut_at_fst: "fst (cut_at sep s) = takeWhile (\<lambda>c. c \<noteq> sep) s"
  by (induction s) (auto split: prod.splits)

lemma parse_hier_authority:
  assumes E: "host_roundtrip E" and u: "opaque u = []" "env_parse_host E x = Some (host u)" and w: "scheme w = ''https''"
    and v: "parse_hier E False (''//'' @ user_part u @ escape encodeHost (host u) @ path_part u) w = Some v"
  shows "host v = host u"
proof -
  let ?auth = "user_part u @ escape encodeHost (host u)"
  have slash: "CHR ''/'' \<notin> set ?auth" by (rule authority_clean) simp
  have auth: "takeWhile (\<lambda>c. c \<noteq> CHR ''/'') (?auth @ path_part u) = ?auth"
    using slash path_part_slash [of u]
    by (cases "path_part u") (auto simp: takeWhile_append takeWhile_eq_all_conv)
  have h: "env_parse_host E (escape encodeHost (host u)) = Some (host u)"
    using E u(2) by (auto simp: host_roundtrip_def)
  have at: "CHR ''@'' \<notin> set (escape encodeHost (host u))" by (rule escape_clean) simp_all
  have pa: "\<exists>ui. parse_authority E ?auth = Some (ui, h')" if "parse_authority E ?auth \<noteq> None" "h' = host u" for h'
  proof (cases "user u")
    case None
    then show ?thesis using h at that by (simp add: parse_authority_def user_part_def split_last_absent)
  next
    case (Some ui)
    then have "split_last CHR ''@'' ?auth = Some (user_string ui, escape encodeHost (host u))"
      using split_last_append [OF at, of "user_string ui"] by (simp add: user_part_def)
    then show ?thesis using h that by (auto simp: parse_authority_def bind_eq_Some_conv split: option.splits)
  qed
  have "has_prefix (''//'' @ y) ''/''" "has_prefix (''//'' @ y) ''//''" "drop 2 (''//'' @ y) = y" for y
    by (simp_all add: has_prefix_def)
  then have "parse_hier E False (''//'' @ ?auth @ path_part u) w =
      (case parse_authority E ?auth of None \<Rightarrow> None
       | Some (usr, h) \<Rightarrow> set_path (dropWhile (\<lambda>c. c \<noteq> CHR ''/'') (?auth @ path_part u)) (w\<lparr>user := usr, host := h\<rparr>))"
    using w auth unfolding parse_hier_def by (simp split: option.split)
  then show ?thesis using v pa [of "host u"] by (auto simp: set_path_def split: option.splits)
qed

lemma parse_guard: "(if C then None else if D \<and> False then None else if G then a else b) = Some v \<Longrightarrow> \<not> G \<Longrightarrow> b = Some v"
  by (simp split: if_splits)

lemma url_parse_printed:
  assumes E: "host_roundtrip E" and u: "scheme u = ''https''" "opaque u = []" "host u \<noteq> []" "fragment u = []"
      "env_parse_host E x = Some (host u)"
    and v: "url_parse E (url_string u) = Some v"
  shows "scheme v = ''https'' \<and> host v = host u"
proof -
  let ?x = "''//'' @ user_part u @ escape encodeHost (host u) @ path_part u"
  let ?y = "if force_query u \<or> raw_query u \<noteq> [] then CHR ''?'' # raw_query u else []"
  have str: "url_string u = ''https'' @ CHR '':'' # ?x @ ?y" using url_string_host [of u] u by simp
  have clean: "c \<notin> set ?x" if "c \<in> set ''?#''" for c
    using authority_clean [of c u] path_part_clean [of u] that by auto
  obtain y where y: "fst (cut_at CHR ''#'' (url_string u)) = ''https'' @ CHR '':'' # ?x @ y" "y = [] \<or> hd y = CHR ''?''"
  proof -
    have "fst (cut_at CHR ''#'' (url_string u)) = ''https'' @ CHR '':'' # ?x @ takeWhile (\<lambda>c. c \<noteq> CHR ''#'') ?y"
      unfolding str cut_at_fst using clean [of "CHR ''#''"] by (simp add: takeWhile_append takeWhile_eq_all_conv)
    then show thesis by (rule that) simp
  qed
  obtain v1 where v1: "parse_no_fragment E False (''https'' @ CHR '':'' # ?x @ y) = Some v1" "host v = host v1" "scheme v = scheme v1"
    using v y(1) by (auto simp: url_parse_def set_fragment_def split: option.splits prod.splits if_splits)
  obtain f q where sq: "split_query (?x @ y) = (f, ?x, q)"
    using split_query_at [of ?x y] clean [of "CHR ''?''"] y(2) by auto
  let ?s = "''https'' @ CHR '':'' # ?x @ y"
  have "parse_no_fragment E False ?s =
      (if \<exists>c \<in> set ?s. (of_char c :: int) < 32 \<or> c = CHR 0x7F then None
       else if ?s = [] \<and> False then None
       else if ?s = ''*'' then Some (empty_url\<lparr>path := ''*''\<rparr>)
       else parse_hier E False ?x (empty_url\<lparr>scheme := map lower_ascii ''https'', force_query := f, raw_query := q\<rparr>))"
    unfolding parse_no_fragment_def get_scheme_https sq by (simp only: option.case prod.case sq)
  note guard = parse_guard [OF this [symmetric, unfolded v1(1)]]
  have "map lower_ascii ''https'' = ''https''" by (simp add: lower_ascii_def)
  with guard have hier: "parse_hier E False ?x (empty_url\<lparr>scheme := ''https'', force_query := f, raw_query := q\<rparr>) = Some v1"
    by (simp only: append_Cons list.inject list.distinct simp_thms char.inject)
  then have "host v1 = host u" by (rule parse_hier_authority [OF E u(2,5), rotated]) simp
  moreover have "scheme v1 = ''https''" using parse_hier_frame [OF hier] by simp
  ultimately show ?thesis using v1(2,3) by simp
qed


subsection \<open>One message\<close>

lemma limiter_wait_frame [simp]: "wr_requests (snd (limiter_wait P key st)) = wr_requests st"
  by (simp add: limiter_wait_def Let_def case_prod_beta)

lemma limiter_reserve_frame [simp]: "wr_requests (snd (limiter_reserve P key st)) = wr_requests st"
  by (simp add: limiter_reserve_def Let_def case_prod_beta)

lemma limiter_gate_frame [simp]: "wr_requests (snd (limiter_gate P c key st)) = wr_requests st"
  using limiter_wait_frame [of P key st] limiter_reserve_frame [of P key "snd (limiter_wait P key st)"]
  unfolding limiter_gate_def
  by (auto split: prod.splits option.splits simp del: limiter_wait_frame limiter_reserve_frame)

lemma note_frames [simp]:
  "wr_requests (limiter_cooldown P key d st) = wr_requests st"
  "wr_requests (limiter_pace P key d st) = wr_requests st"
  "wr_requests (notePacing P c key h st) = wr_requests st"
  by (simp_all add: limiter_cooldown_def limiter_pace_def notePacing_def case_prod_beta split: option.split)

lemma handle_response_frame [simp]: "wr_requests (snd (handle_response P c key resp st)) = wr_requests st"
  by (simp add: handle_response_def Let_def)

lemma exchange_requests:
  "wr_requests (snd (exchange E P c p st)) = wr_requests st \<or>
   (\<exists>v. url_parse E (pr_target p) = Some v \<and>
     wr_requests (snd (exchange E P c p st)) = wr_requests st @ [(v, pr_body p)])"
proof (cases "limiter_gate P c (pr_limiterKey p) st")
  case (Pair e st1)
  have st1: "wr_requests st1 = wr_requests st" using limiter_gate_frame [of P c "pr_limiterKey p" st] Pair by simp
  show ?thesis
  proof (cases "e \<noteq> None \<or> url_parse E (pr_target p) = None")
    case True
    then show ?thesis using Pair st1 by (auto simp: exchange_def split: option.split)
  next
    case False
    then obtain v where v: "e = None" "url_parse E (pr_target p) = Some v" by auto
    obtain res w where rw: "pt_do P v (pr_body p) (wr_world st1) = (res, w)" by force
    show ?thesis using Pair st1 v rw by (cases res) (simp_all add: exchange_def Let_def)
  qed
qed

text \<open>What \<open>prepareRequest\<close> lets through.\<close>

definition acceptable :: "go_env \<Rightarrow> string \<Rightarrow> bool" where
  "acceptable E webhookURL \<longleftrightarrow> (\<exists>u. parse_no_fragment E True webhookURL = Some u \<and>
     scheme u = ''https'' \<and> AllowedWebhookHosts (to_lower E (hostname u)))"

lemma prepareRequest_Inr:
  assumes "prepareRequest E P url m = Inr p"
  obtains u where "parse_no_fragment E True url = Some u" "scheme u = ''https''"
    "AllowedWebhookHosts (to_lower E (hostname u))" "pr_target p = url_string (with_thread E (msg_thread_id m) u)"
    "pr_body p = message_body (fst (Fit m))" "pr_limiterKey p = url"
proof -
  have "msg_thread_id (fst (Fit m)) = msg_thread_id m" by (simp add: Fit_def Let_def case_prod_beta)
  then show thesis using assms that
    by (auto simp: prepareRequest_def Let_def split: if_splits option.splits)
qed

lemma with_thread_frame [simp]:
  "scheme (with_thread E t u) = scheme u" "host (with_thread E t u) = host u"
  "opaque (with_thread E t u) = opaque u" "fragment (with_thread E t u) = fragment u"
  by (simp_all add: with_thread_def)

lemma allowed_host_nonempty: "AllowedWebhookHosts (to_lower E (hostname u)) \<Longrightarrow> host u \<noteq> []"
proof
  assume a: "AllowedWebhookHosts (to_lower E (hostname u))" and "host u = []"
  then have "hostname u = []" by (simp add: hostname_def split_port_def split_last_def strip_brackets_def has_prefix_def)
  then show False using a by (simp add: AllowedWebhookHosts_def to_lower_def)
qed

lemma send_requests:
  assumes "host_roundtrip E"
  shows "wr_requests (snd (SendMessage E P c m st)) = wr_requests st \<or>
      (\<exists>v. wr_requests (snd (SendMessage E P c m st)) = wr_requests st @ [(v, message_body (fst (Fit m)))] \<and>
        scheme v = ''https'' \<and> AllowedWebhookHosts (to_lower E (hostname v)))"
proof (cases "prepareRequest E P (dc_webhookURL c) m")
  case (Inl err)
  then show ?thesis by (simp add: SendMessage_def)
next
  case (Inr p)
  then obtain u where u: "parse_no_fragment E True (dc_webhookURL c) = Some u" "scheme u = ''https''"
    "AllowedWebhookHosts (to_lower E (hostname u))" "pr_target p = url_string (with_thread E (msg_thread_id m) u)"
    "pr_body p = message_body (fst (Fit m))"
    by (rule prepareRequest_Inr)
  have h: "host u \<noteq> []" using allowed_host_nonempty [OF u(3)] .
  obtain x where x: "opaque u = []" "env_parse_host E x = Some (host u)" using parse_no_fragment_host [OF u(1) h] by blast
  have "scheme v = ''https'' \<and> hostname v = hostname u" if "url_parse E (pr_target p) = Some v" for v
    using url_parse_printed [OF assms, of "with_thread E (msg_thread_id m) u" x v] that u(2,4) x h
      parse_no_fragment_fragment [OF u(1)] by (simp add: hostname_def)
  then show ?thesis using exchange_requests [of E P c p st] Inr u(3,5) by (auto simp: SendMessage_def)
qed

lemma refused_untouched:
  assumes "\<not> acceptable E (dc_webhookURL c)"
  shows "snd (SendMessage E P c m st) = st \<and> fst (SendMessage E P c m st) \<noteq> None"
proof (cases "prepareRequest E P (dc_webhookURL c) m")
  case (Inr p)
  then show ?thesis using assms by (auto simp: acceptable_def elim: prepareRequest_Inr)
qed (simp add: SendMessage_def)

text \<open>C15: A message can only leave for Discord: \<open>SendMessage\<close> makes at most one request, with
  the fitted message as its body, to a URL whose scheme is HTTPS and whose host is an allowed
  one, read back from the printed target; and for a webhook URL that does not parse, is not
  HTTPS or names any other host it returns an error and touches neither the network nor the
  rate limiter.\<close>

theorem only_discord_contacted:
  assumes "host_roundtrip E"
  shows "(wr_requests (snd (SendMessage E P c m st)) = wr_requests st \<or>
      (\<exists>v. wr_requests (snd (SendMessage E P c m st)) = wr_requests st @ [(v, message_body (fst (Fit m)))] \<and>
        scheme v = ''https'' \<and> AllowedWebhookHosts (to_lower E (hostname v)))) \<and>
    (\<not> acceptable E (dc_webhookURL c) \<longrightarrow>
      snd (SendMessage E P c m st) = st \<and> fst (SendMessage E P c m st) \<noteq> None)"
  using send_requests [OF assms] refused_untouched by blast

lemma parseRetryAfter_range: "0 \<le> parseRetryAfter v \<and> parseRetryAfter v \<le> maxCooldown"
  using boundedSeconds_range [of v]
  by (cases "boundedSeconds v") (simp_all add: parseRetryAfter_def maxCooldown_def duration_units)

text \<open>A \<^verbatim>\<open>Retry-After\<close> header, whatever bytes it holds, asks for a wait of at least zero and
  at most an hour, and a success response with an exhausted bucket asks for one in the same
  range.\<close>

theorem header_waits_bounded:
  "0 \<le> parseRetryAfter v \<and> parseRetryAfter v \<le> maxCooldown \<and>
   pred_option (\<lambda>d. 0 \<le> d \<and> d \<le> maxCooldown) (boundedSeconds v)"
  using boundedSeconds_range [of v]
  by (cases "boundedSeconds v") (simp_all add: parseRetryAfter_def maxCooldown_def duration_units)


text \<open>A number past the range of \<open>float64\<close> is rejected, not clamped as \<open>+Inf\<close> is: a header asking
  for \<open>1e400\<close> seconds is treated as a malformed one.\<close>

lemma huge_wait_rejected: "boundedSeconds ''1e400'' = None" "parseRetryAfter ''1e400'' = second"
  "parseRetryAfter ''+Inf'' = maxCooldown" "parseRetryAfter ''1e300'' = maxCooldown"
  by code_simp+

subsection \<open>Shared cooldowns\<close>

lemma cooling_wait: "cooling (wr_limiter st) k u \<Longrightarrow> cooling (wr_limiter (snd (limiter_wait P key st))) k u"
  by (simp add: limiter_wait_def Let_def case_prod_beta cooling_def paceDelay_def)

lemma cooling_gate:
  assumes "cooling (wr_limiter st) (webhookKey key) u" "dc_limited c"
    and "fst (pt_now P (wr_world (snd (limiter_wait P key st)))) < u"
  shows "fst (limiter_gate P c key st) \<noteq> None"
proof (cases "limiter_wait P key st")
  case (Pair e st1)
  then have "cooling (wr_limiter st1) (webhookKey key) u" "fst (pt_now P (wr_world st1)) < u"
    using cooling_wait [OF assms(1), of P key] assms(3) by simp_all
  from cooling_reserved [OF this] obtain r where
    "snd (reserve key (fst (pt_now P (wr_world st1))) (wr_limiter st1)) = Some r" by blast
  then have "fst (limiter_reserve P key st1) = Some r"
    by (simp add: limiter_reserve_def Let_def case_prod_beta)
  then show ?thesis using Pair assms(2)
    by (cases "limiter_reserve P key st1") (simp add: limiter_gate_def split: option.split)
qed

lemma cooling_429:
  assumes "rs_status_code resp = 429" "dc_limited c"
    and "zero_time < fst (pt_now P (wr_world st)) + parseRetryAfter (rs_header resp ''Retry-After'')"
  shows "cooling (wr_limiter (snd (handle_response P c key resp st))) (webhookKey key)
    (fst (pt_now P (wr_world st)) + parseRetryAfter (rs_header resp ''Retry-After''))"
  using assms parseRetryAfter_range [of "rs_header resp ''Retry-After''"]
    cooling_after [of "fst (pt_now P (wr_world st))" "parseRetryAfter (rs_header resp ''Retry-After'')"]
  by (simp add: handle_response_def Let_def limiter_cooldown_def case_prod_beta min_absorb1)


text \<open>C16: A 429 holds off every client of the webhook: once one client was told to wait, then
  whatever operations the limiter served in between, a message any limited client sends to the
  same webhook before the wait is over fails without a request.\<close>

theorem rate_limit_shared:
  fixes P :: "'w port" and st :: "'w wire"
  defines "u \<equiv> \<lambda>resp. fst (pt_now P (wr_world st)) + parseRetryAfter (rs_header resp ''Retry-After'')"
  assumes "dc_limited c1" "dc_limited c2" "rs_status_code resp = 429" "zero_time < u resp"
    and "wr_limiter st2 = apply_ops ops (wr_limiter (snd (handle_response P c1 (dc_webhookURL c2) resp st)))"
    and "\<forall>x \<in> set ops. snd x < u resp"
    and "fst (pt_now P (wr_world (snd (limiter_wait P (dc_webhookURL c2) st2)))) < u resp"
  shows "fst (SendMessage E P c2 m st2) \<noteq> None \<and>
    wr_requests (snd (SendMessage E P c2 m st2)) = wr_requests st2"
proof (cases "prepareRequest E P (dc_webhookURL c2) m")
  case (Inl err)
  then show ?thesis by (simp add: SendMessage_def)
next
  case (Inr p)
  then have key: "pr_limiterKey p = dc_webhookURL c2" by (rule prepareRequest_Inr)
  have "cooling (wr_limiter st2) (webhookKey (dc_webhookURL c2)) (u resp)"
    unfolding assms(6) using cooling_429 [of resp c1 P st "dc_webhookURL c2"] assms
    by (intro cooling_steps) (simp_all add: u_def)
  from cooling_gate [OF this assms(3), of P] assms(8)
  have "fst (limiter_gate P c2 (pr_limiterKey p) st2) \<noteq> None" using key by simp
  then obtain e st1 where g: "limiter_gate P c2 (pr_limiterKey p) st2 = (Some e, st1)"
    by (cases "limiter_gate P c2 (pr_limiterKey p) st2") auto
  then have "wr_requests st1 = wr_requests st2" using limiter_gate_frame [of P c2 "pr_limiterKey p" st2] by simp
  then show ?thesis using Inr g by (simp add: SendMessage_def exchange_def)
qed

subsection \<open>Witnesses\<close>

text \<open>A host parser that takes the hosts that need no escaping, and a port without a network.\<close>

definition strict_env :: go_env where
  "strict_env = plain_env\<lparr>env_parse_host :=
     (\<lambda>s. if \<forall>c \<in> set s. \<not> should_escape encodeHost c then Some s else None)\<rparr>"

lemma strict_env_roundtrip: "host_roundtrip strict_env"
proof -
  have "escape encodeHost s = s" if "\<forall>c \<in> set s. \<not> should_escape encodeHost c" for s
    using that by (induction s) (simp_all add: escape_def escape_char_def)
  then show ?thesis by (auto simp: host_roundtrip_def strict_env_def split: if_splits)
qed

definition still_port :: "http_response \<Rightarrow> unit port" where
  "still_port resp = \<lparr>pt_now = (\<lambda>w. (0, w)), pt_sleep = (\<lambda>d w. (None, w)), pt_do = (\<lambda>u b w. (Inr resp, w)),
     pt_url_error = (\<lambda>s. PlainError ''bad URL''), pt_error_detail = (\<lambda>s. None)\<rparr>"

definition plain_message :: message where
  "plain_message = \<lparr>msg_content = ''hi'', msg_embed = None, msg_thread_name = [], msg_thread_id = [],
     msg_username = [], msg_avatar_url = []\<rparr>"

definition busy_response :: http_response where
  "busy_response = \<lparr>rs_status_code = 429, rs_status = ''429 Too Many Requests'',
     rs_header = (\<lambda>h. if h = ''Retry-After'' then ''2.5'' else []), rs_body = []\<rparr>"

definition idle_wire :: "unit wire" where
  "idle_wire = \<lparr>wr_limiter = NewRateLimiter, wr_requests = [], wr_world = ()\<rparr>"

definition evil_client :: discord_client where
  "evil_client = \<lparr>dc_webhookURL = ''http://evil/x'', dc_limited = True\<rparr>"

lemma evil_scheme: "map_option scheme (parse_no_fragment strict_env True (dc_webhookURL evil_client)) = Some ''http''"
  by code_simp

lemma evil_not_acceptable: "\<not> acceptable strict_env (dc_webhookURL evil_client)"
  using evil_scheme by (auto simp: acceptable_def)

lemma only_discord_contacted_witness:
  "snd (SendMessage strict_env (still_port busy_response) evil_client plain_message idle_wire) = idle_wire"
  using only_discord_contacted [OF strict_env_roundtrip, of "still_port busy_response" evil_client] evil_not_acceptable
  by blast

lemma busy_wait: "parseRetryAfter (rs_header busy_response ''Retry-After'') = 2500000000"
  by code_simp

definition hook_client :: discord_client where
  "hook_client = \<lparr>dc_webhookURL = ''https://discord.com/x'', dc_limited = True\<rparr>"

lemma still_now: "fst (pt_now (still_port r) w) = 0"
  by (simp add: still_port_def)

lemma busy_facts: "dc_limited hook_client" "rs_status_code busy_response = 429" "wr_requests idle_wire = []"
  by (simp_all add: hook_client_def busy_response_def idle_wire_def)

lemma rate_limit_shared_witness:
  "wr_requests (snd (SendMessage strict_env (still_port busy_response) hook_client plain_message
     (snd (handle_response (still_port busy_response) hook_client (dc_webhookURL hook_client) busy_response idle_wire)))) = []"
  using rate_limit_shared [of hook_client hook_client busy_response "still_port busy_response" idle_wire
      "snd (handle_response (still_port busy_response) hook_client (dc_webhookURL hook_client) busy_response idle_wire)"
      "[]" strict_env plain_message]
  by (simp add: still_now busy_wait busy_facts zero_time_def duration_units)

end
