(* ===== verification/Group_Status.thy ===== *)
theory Group_Status
  imports Panics
begin

text \<open>
  The group's status around a pass: one entry per feed of the spec
  (\<^verbatim>\<open>status_store.go\<close>: \<open>ensureFeedStatuses\<close>), the webhook Secret's version
  (\<^verbatim>\<open>secret_watch.go\<close>), the preparation of a reconcile (\<^verbatim>\<open>feedgroup_controller.go\<close>:
  \<open>prepareStatus\<close>) and the group's own conditions (\<^verbatim>\<open>group_summary.go\<close>, with the reasons of
  \<^verbatim>\<open>conditions.go\<close>).
\<close>

subsection \<open>One status per feed\<close>

text \<open>The Go map \<open>existing\<close>: the last status with a URL wins.  A nil and an empty \<open>LastSent\<close> are
  the same association list.\<close>

definition existing_status :: "feed_status list \<Rightarrow> string \<Rightarrow> feed_status option" where
  "existing_status fss = map_of (rev (map (\<lambda>fs. (fs_url fs, fs)) fss))"

definition bounded_status :: "feed_status \<Rightarrow> feed_status" where
  "bounded_status fs = fs\<lparr>last_error := clampText (last_error fs) maxStatusTextBytes,
     last_seen_entry := clampWatermark (last_seen_entry fs)\<rparr>"

fun rebuild_statuses :: "(string \<Rightarrow> feed_status option) \<Rightarrow> feed_spec list
    \<Rightarrow> feed_status list \<times> (string \<Rightarrow> feed_status option)" where
  "rebuild_statuses existing [] = ([], existing)"
| "rebuild_statuses existing (feed # feeds) =
     (let url = rss_url feed;
          fs = (case existing url of Some fs \<Rightarrow> fs | None \<Rightarrow> new_feed_status url);
          (rebuilt, left) = rebuild_statuses (existing(url := None)) feeds
      in (bounded_status fs # rebuilt, left))"

definition ensureFeedStatuses :: "feed_group \<Rightarrow> feed_group \<times> string list" where
  "ensureFeedStatuses g =
     (let gs = fg_status g;
          (rebuilt, left) = rebuild_statuses (existing_status (gs_feeds gs)) (sp_feeds (fg_spec g))
      in (g\<lparr>fg_status := gs\<lparr>gs_feeds := rebuilt\<rparr>\<rparr>,
          sort (filter (\<lambda>url. left url \<noteq> None) (remdups (map fs_url (gs_feeds gs))))))"

subsection \<open>The webhook Secret's version\<close>

definition clearSendBackoffs :: "condition_api \<Rightarrow> feed_group \<Rightarrow> feed_group" where
  "clearSendBackoffs K g =
     (let gs = fg_status g in g\<lparr>fg_status := gs\<lparr>gs_feeds :=
        map (\<lambda>fs. if send_caused K fs then run_clear fs else fs) (gs_feeds gs)\<rparr>\<rparr>)"

definition noteWebhookSecretVersion :: "condition_api \<Rightarrow> string \<Rightarrow> feed_group \<Rightarrow> feed_group" where
  "noteWebhookSecretVersion K version g =
     (let gs = fg_status g; g' = g\<lparr>fg_status := gs\<lparr>webhook_secret_version := version\<rparr>\<rparr>
      in if webhook_secret_version gs = version then g' else clearSendBackoffs K g')"

subsection \<open>Preparation\<close>

record status_prep =
  prep_snapshot :: feed_group_status
  prep_specChanged :: bool
  prep_pruned :: "string list"

definition prepareStatus :: "feed_group \<Rightarrow> feed_group \<times> status_prep" where
  "prepareStatus g =
     (let (g1, pruned) = ensureFeedStatuses g;
          changed = (fg_generation g1 > observed_generation (fg_status g1));
          g2 = (if changed then clearPermanentBackoffs g1 else g1)
      in (g2, \<lparr>prep_snapshot = fg_status g2, prep_specChanged = changed, prep_pruned = pruned\<rparr>))"

subsection \<open>Conditions of the group\<close>

text \<open>What stopped a pass: an error of the webhook lookup, or a feed's panic.\<close>

datatype group_error = WebhookError go_error | PassPanicked feed_panic

definition reasonWebhookUnresolved :: string where "reasonWebhookUnresolved = ''WebhookUnresolved''"
definition reasonReconcilePanicked :: string where "reasonReconcilePanicked = ''ReconcilePanicked''"
definition reasonReconciled :: string where "reasonReconciled = ''Reconciled''"
definition reasonFeedErrors :: string where "reasonFeedErrors = ''FeedErrors''"
definition reasonAllFeedsReachable :: string where "reasonAllFeedsReachable = ''AllFeedsReachable''"
definition reasonInvalidInterval :: string where "reasonInvalidInterval = ''InvalidInterval''"

lemmas group_reasons = reasonWebhookUnresolved_def reasonReconcilePanicked_def reasonReconciled_def
  reasonFeedErrors_def reasonAllFeedsReachable_def reasonInvalidInterval_def

definition set_group_condition :: "condition_api \<Rightarrow> string \<Rightarrow> condition_status \<Rightarrow> string \<Rightarrow> string
    \<Rightarrow> feed_group \<Rightarrow> feed_group" where
  "set_group_condition K ctype cst reason message g =
     g\<lparr>fg_status := (fg_status g)\<lparr>gs_conditions := fst (set_cond K (gs_conditions (fg_status g))
        \<lparr>cond_type = ctype, cond_status = cst, cond_reason = reason, cond_message = message,
         cond_generation = fg_generation g, cond_transition = zero_time\<rparr>)\<rparr>\<rparr>"

definition countFailingFeeds :: "feed_status list \<Rightarrow> nat" where
  "countFailingFeeds fss = length (filter check_failed fss)"

definition setReadyCondition :: "condition_api \<Rightarrow> group_error option \<Rightarrow> go_error option
    \<Rightarrow> feed_group \<Rightarrow> feed_group" where
  "setReadyCondition K groupErr intervalErr g =
     (case groupErr of
        Some (WebhookError err) \<Rightarrow> set_group_condition K ConditionTypeReady ConditionFalse
          reasonWebhookUnresolved (clampText (err_text err) maxConditionMessageBytes) g
      | Some (PassPanicked p) \<Rightarrow> set_group_condition K ConditionTypeReady ConditionFalse
          reasonReconcilePanicked (clampText (panic_summary p) maxConditionMessageBytes) g
      | None \<Rightarrow>
          (case intervalErr of
             Some err \<Rightarrow> set_group_condition K ConditionTypeReady ConditionFalse
               reasonInvalidInterval (err_text err) g
           | None \<Rightarrow>
               let failing = countFailingFeeds (gs_feeds (fg_status g)) in
               if failing > 0
               then set_group_condition K ConditionTypeReady ConditionFalse reasonFeedErrors
                 (itoa (int failing) @ '' feed(s) reporting errors'') g
               else set_group_condition K ConditionTypeReady ConditionTrue reasonReconciled
                 ''All feeds processed successfully'' g))"

text \<open>The map of unreachable feeds: a repeated URL keeps its last reason.\<close>

definition unreachable_reasons :: "condition_api \<Rightarrow> feed_status list \<Rightarrow> (string \<times> string) list" where
  "unreachable_reasons K fss =
     fold (\<lambda>fs m. case find_cond K (conditions fs) FeedConditionTypeReachable of
         None \<Rightarrow> m
       | Some c \<Rightarrow> if cond_status c = ConditionFalse then AList.update (fs_url fs) (cond_reason c) m else m)
       fss []"

definition dominantErrorReason :: "string list \<Rightarrow> string" where
  "dominantErrorReason reasons =
     (case sort (remdups reasons) of
        [] \<Rightarrow> []
      | k # ks \<Rightarrow> fold (\<lambda>key best. if count_list reasons key > count_list reasons best then key else best) ks k)"

definition setFeedReachableCondition :: "condition_api \<Rightarrow> feed_group \<Rightarrow> feed_group" where
  "setFeedReachableCondition K g =
     (let unreachable = unreachable_reasons K (gs_feeds (fg_status g)) in
      if unreachable = []
      then set_group_condition K ConditionTypeFeedReachable ConditionTrue reasonAllFeedsReachable
        ''All feeds were reachable on their last check'' g
      else let reason = dominantErrorReason (map snd unreachable)
        in set_group_condition K ConditionTypeFeedReachable ConditionFalse reason
          (itoa (int (length unreachable)) @ '' feed(s) unreachable; most common reason: '' @ reason) g)"

definition summarizeGroup :: "condition_api \<Rightarrow> cadence \<Rightarrow> group_error option \<Rightarrow> feed_group
    \<Rightarrow> feed_group \<times> string option" where
  "summarizeGroup K cad groupErr g =
     (let (prevReason, prevMessage) =
            (case find_cond K (gs_conditions (fg_status g)) ConditionTypeReady of
               None \<Rightarrow> ([], []) | Some prev \<Rightarrow> (cond_reason prev, cond_message prev));
          g' = setFeedReachableCondition K (setReadyCondition K groupErr (cadence_err cad) g)
      in (g', case find_cond K (gs_conditions (fg_status g')) ConditionTypeReady of
            None \<Rightarrow> None
          | Some ready \<Rightarrow>
              if cond_reason ready = reasonInvalidInterval \<and>
                 (cond_reason ready \<noteq> prevReason \<or> cond_message ready \<noteq> prevMessage)
              then Some (cond_message ready) else None))"

end
