(* ===== verification/Group_Status_Laws.thy ===== *)
theory Group_Status_Laws
  imports Group_Status
begin

text \<open>
  What the status of a group says: one entry per feed of the spec that keeps everything
  known of the feed, and conditions that are true of the entries.
\<close>

subsection \<open>Entries\<close>

lemma existing_status_url: "existing_status fss url = Some fs \<Longrightarrow> fs_url fs = url"
  by (auto simp: existing_status_def dest!: map_of_SomeD)

lemma existing_status_None: "existing_status fss url = None \<longleftrightarrow> url \<notin> fs_url ` set fss"
  by (force simp: existing_status_def map_of_eq_None_iff)

definition entry_of :: "(string \<Rightarrow> feed_status option) \<Rightarrow> string \<Rightarrow> feed_status" where
  "entry_of m url = bounded_status (case m url of Some fs \<Rightarrow> fs | None \<Rightarrow> new_feed_status url)"

lemma rebuild_left:
  "snd (rebuild_statuses m feeds) = (\<lambda>u. if u \<in> rss_url ` set feeds then None else m u)"
  by (induction feeds arbitrary: m) (auto simp: Let_def case_prod_beta)

lemma rebuild_entries:
  "distinct (map rss_url feeds) \<Longrightarrow>
     fst (rebuild_statuses m feeds) = map (\<lambda>feed. entry_of m (rss_url feed)) feeds"
proof (induction feeds arbitrary: m)
  case (Cons feed feeds)
  have "entry_of (m(rss_url feed := None)) (rss_url f) = entry_of m (rss_url f)" if "f \<in> set feeds" for f
  proof -
    have "rss_url f \<in> rss_url ` set feeds" using that by simp
    then have "rss_url f \<noteq> rss_url feed" using Cons.prems by auto
    then show ?thesis by (simp add: entry_of_def)
  qed
  then show ?case using Cons by (simp add: Let_def case_prod_beta entry_of_def)
qed simp

lemma bounded_url [simp]: "fs_url (bounded_status fs) = fs_url fs"
  by (simp add: bounded_status_def)

lemma bounded_idem: "bounded_status (bounded_status fs) = bounded_status fs"
  by (simp add: bounded_status_def clampWatermark_idem clampText_idem maxStatusTextBytes_def)

lemma entry_of_url: "(\<And>fs. m url = Some fs \<Longrightarrow> fs_url fs = url) \<Longrightarrow> fs_url (entry_of m url) = url"
  by (simp add: entry_of_def new_feed_status_def split: option.split)

lemma existing_of_distinct:
  "distinct (map fs_url fss) \<Longrightarrow> fs \<in> set fss \<Longrightarrow> existing_status fss (fs_url fs) = Some fs"
proof -
  assume d: "distinct (map fs_url fss)" and fs: "fs \<in> set fss"
  have "distinct (map fst (rev (map (\<lambda>fs. (fs_url fs, fs)) fss)))"
    using d by (simp add: rev_map [symmetric] comp_def)
  moreover have "(fs_url fs, fs) \<in> set (rev (map (\<lambda>fs. (fs_url fs, fs)) fss))" using fs by auto
  ultimately show ?thesis unfolding existing_status_def by (rule map_of_is_SomeI)
qed

lemma feed_status_for_distinct:
  "distinct (map fs_url fss) \<Longrightarrow> fs \<in> set fss \<Longrightarrow> feed_status_for fss (fs_url fs) = Some fs"
  by (induction fss) (auto simp: image_iff)

lemma ensure_effect:
  assumes "distinct (map rss_url (sp_feeds (fg_spec g)))"
  shows "let (g', pruned) = ensureFeedStatuses g; fss = gs_feeds (fg_status g); feeds = sp_feeds (fg_spec g) in
    map fs_url (gs_feeds (fg_status g')) = map rss_url feeds \<and>
    (\<forall>feed \<in> set feeds. feed_status_for (gs_feeds (fg_status g')) (rss_url feed) =
       Some (bounded_status (case existing_status fss (rss_url feed) of
         Some fs \<Rightarrow> fs | None \<Rightarrow> new_feed_status (rss_url feed)))) \<and>
    set pruned = fs_url ` set fss - rss_url ` set feeds \<and> sorted pruned \<and> distinct pruned \<and>
    ensureFeedStatuses g' = (g', [])"
proof -
  let ?fss = "gs_feeds (fg_status g)" and ?feeds = "sp_feeds (fg_spec g)"
  let ?m = "existing_status ?fss"
  define fss' where "fss' = map (\<lambda>feed. entry_of ?m (rss_url feed)) ?feeds"
  define g' where "g' = g\<lparr>fg_status := (fg_status g)\<lparr>gs_feeds := fss'\<rparr>\<rparr>"
  define pruned where "pruned = sort (filter (\<lambda>url. url \<notin> rss_url ` set ?feeds) (remdups (map fs_url ?fss)))"
  have filt: "filter (\<lambda>url. (if url \<in> U then None else ?m url) \<noteq> None) (remdups (map fs_url ?fss)) =
      filter (\<lambda>url. url \<notin> U) (remdups (map fs_url ?fss))" for U
    by (rule filter_cong) (use existing_status_None [of ?fss] in fastforce)+
  have eq: "ensureFeedStatuses g = (g', pruned)"
    using filt unfolding ensureFeedStatuses_def g'_def pruned_def fss'_def
    by (simp add: Let_def case_prod_beta rebuild_left rebuild_entries [OF assms])
  have url: "fs_url (entry_of ?m u) = u" for u
    by (rule entry_of_url) (rule existing_status_url)
  have urls: "map fs_url fss' = map rss_url ?feeds" by (simp add: fss'_def url)
  then have d: "distinct (map fs_url fss')" using assms by simp
  have look: "feed_status_for fss' (rss_url feed) = Some (entry_of ?m (rss_url feed))" if "feed \<in> set ?feeds" for feed
    using feed_status_for_distinct [OF d, of "entry_of ?m (rss_url feed)"] that url by (simp add: fss'_def)
  have again: "entry_of (existing_status fss') (rss_url feed) = entry_of ?m (rss_url feed)" if "feed \<in> set ?feeds" for feed
    using existing_of_distinct [OF d, of "entry_of ?m (rss_url feed)"] that url
    by (simp add: fss'_def entry_of_def bounded_idem)
  have "fst (rebuild_statuses (existing_status fss') ?feeds) = fss'"
    unfolding rebuild_entries [OF assms] using again by (simp add: fss'_def)
  moreover have none: "filter (\<lambda>u. (if u \<in> rss_url ` set ?feeds then None else existing_status fss' u) \<noteq> None)
      (remdups (map fs_url fss')) = []"
    by (rule filter_False) (use url in \<open>auto simp: fss'_def\<close>)
  moreover have "gs_feeds (fg_status g') = fss'" "fg_spec g' = fg_spec g"
      "g'\<lparr>fg_status := (fg_status g')\<lparr>gs_feeds := fss'\<rparr>\<rparr> = g'" by (simp_all add: g'_def)
  moreover have "sort [] = ([] :: string list)" by simp
  ultimately have "ensureFeedStatuses g' = (g', [])"
    by (simp only: ensureFeedStatuses_def Let_def case_prod_beta rebuild_left)
  moreover have "set pruned = fs_url ` set ?fss - rss_url ` set ?feeds" "sorted pruned" "distinct pruned"
    by (auto simp: pruned_def)
  ultimately show ?thesis
    using urls look by (simp add: eq) (simp add: g'_def entry_of_def)
qed

text \<open>C21: After \<open>ensureFeedStatuses\<close> the status has exactly one entry per feed of the spec, in
  spec order; a feed that had one keeps it, with its ledger, watermark, validators and retry
  run, only over-long texts are bounded; a new feed starts empty; exactly the entries of
  dropped feeds are reported as pruned; and doing it again changes nothing.\<close>

theorem statuses_follow_spec:
  assumes "distinct (map rss_url (sp_feeds (fg_spec g)))"
  shows "let (g', pruned) = ensureFeedStatuses g; fss = gs_feeds (fg_status g); feeds = sp_feeds (fg_spec g) in
    map fs_url (gs_feeds (fg_status g')) = map rss_url feeds \<and>
    (\<forall>feed \<in> set feeds. feed_status_for (gs_feeds (fg_status g')) (rss_url feed) =
       Some (bounded_status (case existing_status fss (rss_url feed) of
         Some fs \<Rightarrow> fs | None \<Rightarrow> new_feed_status (rss_url feed)))) \<and>
    set pruned = fs_url ` set fss - rss_url ` set feeds \<and> sorted pruned \<and> distinct pruned \<and>
    ensureFeedStatuses g' = (g', [])"
  by (rule ensure_effect [OF assms])

subsection \<open>The most common reason\<close>

lemma fold_dominant:
  "sorted (b # ks) \<Longrightarrow> let d = fold (\<lambda>k b. if c k > c b then k else b) ks b
    in d \<in> set (b # ks) \<and> (\<forall>k \<in> set (b # ks). c k < c d \<or> (c k = (c d :: nat) \<and> d \<le> (k::string)))"
proof (induction ks arbitrary: b)
  case (Cons k ks)
  let ?b = "if c k > c b then k else b"
  have b: "sorted (?b # ks)" "b \<le> k" using Cons.prems by auto
  define d where "d = fold (\<lambda>k b. if c k > c b then k else b) ks ?b"
  have d: "d \<in> set (?b # ks)" "\<forall>x \<in> set (?b # ks). c x < c d \<or> (c x = c d \<and> d \<le> x)"
    using Cons.IH [OF b(1)] unfolding Let_def d_def by blast+
  have "c x < c d \<or> (c x = c d \<and> d \<le> x)" if "x \<in> set (b # k # ks)" for x
  proof (cases "x \<in> set (?b # ks)")
    case True
    then show ?thesis using d(2) by blast
  next
    case False
    have h: "c ?b < c d \<or> (c ?b = c d \<and> d \<le> ?b)" using d(2) by simp
    show ?thesis
    proof (cases "c k > c b")
      case True
      then have "x = b" using False that by auto
      then show ?thesis using True h by auto
    next
      case nk: False
      then have "x = k" using False that by auto
      then show ?thesis using nk h b(2) by auto
    qed
  qed
  moreover have "d \<in> set (b # k # ks)" using d(1) by (auto split: if_splits)
  ultimately show ?case by (simp add: d_def)
qed simp

lemma dominant_reason:
  assumes "rs \<noteq> []"
  shows "dominantErrorReason rs \<in> set rs \<and>
    (\<forall>r \<in> set rs. count_list rs r < count_list rs (dominantErrorReason rs) \<or>
      (count_list rs r = count_list rs (dominantErrorReason rs) \<and> dominantErrorReason rs \<le> r))"
proof -
  obtain k ks where k: "sort (remdups rs) = k # ks"
    using assms by (cases "sort (remdups rs)") (auto dest: arg_cong [of _ _ set])
  then have s: "sorted (k # ks)" using sorted_sort [of "remdups rs"] by simp
  have set: "set (k # ks) = set rs" using arg_cong [OF k, of set] by simp
  have "dominantErrorReason rs = fold (\<lambda>key best. if count_list rs key > count_list rs best then key else best) ks k"
    by (simp add: dominantErrorReason_def k)
  then show ?thesis using fold_dominant [OF s, of "count_list rs"] unfolding set Let_def by simp
qed


subsection \<open>The summary\<close>

lemma set_group_condition_frame [simp]:
  "gs_feeds (fg_status (set_group_condition K t st r m g)) = gs_feeds (fg_status g)"
  "fg_generation (set_group_condition K t st r m g) = fg_generation g"
  "fg_spec (set_group_condition K t st r m g) = fg_spec g"
  "observed_generation (fg_status (set_group_condition K t st r m g)) = observed_generation (fg_status g)"
  by (simp_all add: set_group_condition_def)

abbreviation group_condition :: "condition_api \<Rightarrow> string \<Rightarrow> feed_group \<Rightarrow> condition option" where
  "group_condition K t g \<equiv> find_cond K (gs_conditions (fg_status g)) t"

lemma set_group_condition_find:
  assumes "condition_laws K"
  shows "\<exists>c. group_condition K t (set_group_condition K t st r m g) = Some c \<and>
      cond_status c = st \<and> cond_reason c = r \<and> cond_message c = m \<and> cond_generation c = fg_generation g"
    and "t' \<noteq> t \<Longrightarrow> group_condition K t' (set_group_condition K t st r m g) = group_condition K t' g"
  using condition_laws_find(1) [OF assms, of "gs_conditions (fg_status g)"
      "\<lparr>cond_type = t, cond_status = st, cond_reason = r, cond_message = m,
         cond_generation = fg_generation g, cond_transition = zero_time\<rparr>"]
    condition_laws_find(2) [OF assms, of t' "\<lparr>cond_type = t, cond_status = st, cond_reason = r, cond_message = m,
         cond_generation = fg_generation g, cond_transition = zero_time\<rparr>" "gs_conditions (fg_status g)"]
  by (auto simp: set_group_condition_def same_condition_def)

text \<open>What Ready and FeedReachable are to say.\<close>

definition ready_view :: "group_error option \<Rightarrow> go_error option \<Rightarrow> feed_status list
    \<Rightarrow> condition_status \<times> string \<times> string" where
  "ready_view groupErr intervalErr fss =
     (case groupErr of
        Some (WebhookError err) \<Rightarrow> (ConditionFalse, ''WebhookUnresolved'', clampText (err_text err) 1024)
      | Some (PassPanicked p) \<Rightarrow> (ConditionFalse, ''ReconcilePanicked'', clampText (panic_summary p) 1024)
      | None \<Rightarrow> (case intervalErr of
          Some err \<Rightarrow> (ConditionFalse, ''InvalidInterval'', err_text err)
        | None \<Rightarrow>
            if \<forall>fs \<in> set fss. last_error fs = [] then (ConditionTrue, ''Reconciled'', ''All feeds processed successfully'')
            else (ConditionFalse, ''FeedErrors'',
              itoa (int (length (filter (\<lambda>fs. last_error fs \<noteq> []) fss))) @ '' feed(s) reporting errors'')))"

lemma setReady_view:
  assumes "condition_laws K"
  shows "\<exists>c. group_condition K ConditionTypeReady (setReadyCondition K ge ie g) = Some c \<and>
      (cond_status c, cond_reason c, cond_message c) = ready_view ge ie (gs_feeds (fg_status g)) \<and>
      cond_generation c = fg_generation g"
    and "gs_feeds (fg_status (setReadyCondition K ge ie g)) = gs_feeds (fg_status g)"
    and "fg_generation (setReadyCondition K ge ie g) = fg_generation g"
proof -
  have failing: "check_failed = (\<lambda>fs. last_error fs \<noteq> [])" by (simp add: fun_eq_iff check_failed_def)
  have count: "0 < countFailingFeeds fss \<longleftrightarrow> \<not> (\<forall>fs \<in> set fss. last_error fs = [])"
    "countFailingFeeds fss = length (filter (\<lambda>fs. last_error fs \<noteq> []) fss)" for fss
    unfolding countFailingFeeds_def failing by (auto simp: filter_empty_conv)
  obtain st r m where view: "ready_view ge ie (gs_feeds (fg_status g)) = (st, r, m)" by (metis prod_cases3)
  have "setReadyCondition K ge ie g =
      (case ready_view ge ie (gs_feeds (fg_status g)) of (st, r, m) \<Rightarrow> set_group_condition K ConditionTypeReady st r m g)"
    using count [of "gs_feeds (fg_status g)"]
    by (simp add: setReadyCondition_def ready_view_def group_reasons maxConditionMessageBytes_def Let_def
        split: option.split group_error.split)
  then have set: "setReadyCondition K ge ie g = set_group_condition K ConditionTypeReady st r m g" by (simp add: view)
  from set_group_condition_find(1) [OF assms, of ConditionTypeReady st r m g]
  show "\<exists>c. group_condition K ConditionTypeReady (setReadyCondition K ge ie g) = Some c \<and>
      (cond_status c, cond_reason c, cond_message c) = ready_view ge ie (gs_feeds (fg_status g)) \<and>
      cond_generation c = fg_generation g"
    unfolding set view by auto
  show "gs_feeds (fg_status (setReadyCondition K ge ie g)) = gs_feeds (fg_status g)"
    "fg_generation (setReadyCondition K ge ie g) = fg_generation g"
    by (simp_all add: setReadyCondition_def Let_def split: option.split group_error.split)
qed


definition unreachable_reason :: "condition_api \<Rightarrow> feed_status \<Rightarrow> string option" where
  "unreachable_reason K fs =
     (case find_cond K (conditions fs) FeedConditionTypeReachable of
        None \<Rightarrow> None
      | Some c \<Rightarrow> if cond_status c = ConditionFalse then Some (cond_reason c) else None)"

lemma unreachable_fold:
  assumes "distinct (map fs_url fss)" "fs_url ` set fss \<inter> fst ` set m = {}"
  shows "map snd (fold (\<lambda>fs m. case find_cond K (conditions fs) FeedConditionTypeReachable of
         None \<Rightarrow> m
       | Some c \<Rightarrow> if cond_status c = ConditionFalse then AList.update (fs_url fs) (cond_reason c) m else m)
       fss m) = map snd m @ List.map_filter (unreachable_reason K) fss"
  using assms
proof (induction fss arbitrary: m)
  case Nil
  then show ?case by (simp add: List.map_filter_simps)
next
  case (Cons fs fss)
  have new: "AList.update (fs_url fs) r m = m @ [(fs_url fs, r)]" for r
    using Cons.prems(2) by (intro update_new) auto
  show ?case
  proof (cases "unreachable_reason K fs")
    case None
    then show ?thesis using Cons
      by (auto simp: unreachable_reason_def List.map_filter_simps split: option.splits if_splits)
  next
    case (Some r)
    have "map snd (fold (\<lambda>fs m. case find_cond K (conditions fs) FeedConditionTypeReachable of
         None \<Rightarrow> m
       | Some c \<Rightarrow> if cond_status c = ConditionFalse then AList.update (fs_url fs) (cond_reason c) m else m)
       fss (m @ [(fs_url fs, r)])) = map snd (m @ [(fs_url fs, r)]) @ List.map_filter (unreachable_reason K) fss"
      using Cons.prems by (intro Cons.IH) auto
    moreover obtain c where "find_cond K (conditions fs) FeedConditionTypeReachable = Some c"
      "cond_status c = ConditionFalse" "r = cond_reason c"
      using Some by (auto simp: unreachable_reason_def split: option.splits if_splits)
    ultimately show ?thesis using Some by (simp add: List.map_filter_simps new)
  qed
qed

lemma unreachable_reasons_are:
  "distinct (map fs_url fss) \<Longrightarrow>
     map snd (unreachable_reasons K fss) = List.map_filter (unreachable_reason K) fss"
  using unreachable_fold [of fss "[]" K] by (simp add: unreachable_reasons_def)

lemma reachable_view:
  assumes "condition_laws K" "distinct (map fs_url (gs_feeds (fg_status g)))"
  defines "bad \<equiv> List.map_filter (unreachable_reason K) (gs_feeds (fg_status g))"
  shows "\<exists>c. group_condition K ConditionTypeFeedReachable (setFeedReachableCondition K g) = Some c \<and>
      (if bad = [] then cond_status c = ConditionTrue
       else cond_status c = ConditionFalse \<and> cond_reason c = dominantErrorReason bad)"
proof -
  let ?g' = "setFeedReachableCondition K g"
  have bad: "map snd (unreachable_reasons K (gs_feeds (fg_status g))) = bad"
    unfolding bad_def by (rule unreachable_reasons_are [OF assms(2)])
  show ?thesis
  proof (cases "bad = []")
    case True
    then have "unreachable_reasons K (gs_feeds (fg_status g)) = []" using bad by auto
    then have "?g' = set_group_condition K ConditionTypeFeedReachable ConditionTrue reasonAllFeedsReachable
        ''All feeds were reachable on their last check'' g"
      by (simp add: setFeedReachableCondition_def)
    with set_group_condition_find(1) [OF assms(1), of ConditionTypeFeedReachable ConditionTrue reasonAllFeedsReachable
        "''All feeds were reachable on their last check''" g] True show ?thesis by auto
  next
    case False
    then have "unreachable_reasons K (gs_feeds (fg_status g)) \<noteq> []" using bad by auto
    then obtain m where "?g' = set_group_condition K ConditionTypeFeedReachable ConditionFalse (dominantErrorReason bad) m g"
      unfolding setFeedReachableCondition_def bad Let_def by (simp only: if_False)
    with set_group_condition_find(1) [OF assms(1), of ConditionTypeFeedReachable ConditionFalse "dominantErrorReason bad" m g]
      False show ?thesis by auto
  qed
qed

text \<open>C22: The group's conditions say what its feeds' statuses say.  Ready is True exactly when
  the pass got through, the intervals parse and no feed has an error; otherwise its reason
  names the first of webhook, panic, interval and feed errors, with the number of failing
  feeds.  FeedReachable is True exactly when no feed is marked unreachable, and else its reason
  is a most frequent one of the unreachable feeds.  The Event for an invalid interval is asked
  for exactly when Ready changes to say so.\<close>

theorem summary_truthful:
  assumes "condition_laws K" "distinct (map fs_url (gs_feeds (fg_status g)))"
  shows "let (g', warning) = summarizeGroup K cad ge g; fss = gs_feeds (fg_status g);
      bad = List.map_filter (unreachable_reason K) fss in
    gs_feeds (fg_status g') = fss \<and>
    (\<exists>c. group_condition K ConditionTypeReady g' = Some c \<and>
      (cond_status c, cond_reason c, cond_message c) = ready_view ge (cadence_err cad) fss) \<and>
    (\<exists>c. group_condition K ConditionTypeFeedReachable g' = Some c \<and>
      (if bad = [] then cond_status c = ConditionTrue
       else cond_status c = ConditionFalse \<and> cond_reason c \<in> set bad \<and>
         (\<forall>r \<in> set bad. count_list bad r \<le> count_list bad (cond_reason c)))) \<and>
    (\<forall>m. warning = Some m \<longleftrightarrow> ge = None \<and> (\<exists>e. cadence_err cad = Some e \<and> m = err_text e) \<and>
      (\<forall>prev. group_condition K ConditionTypeReady g = Some prev \<longrightarrow>
        cond_reason prev \<noteq> ''InvalidInterval'' \<or> cond_message prev \<noteq> m))"
proof -
  let ?fss = "gs_feeds (fg_status g)"
  let ?bad = "List.map_filter (unreachable_reason K) ?fss"
  define g1 where "g1 = setReadyCondition K ge (cadence_err cad) g"
  define g' where "g' = setFeedReachableCondition K g1"
  note view = setReady_view [OF assms(1), of ge "cadence_err cad" g, folded g1_def]
  have types: "ConditionTypeReady \<noteq> ConditionTypeFeedReachable" by (simp add: condition_types)
  have frame: "gs_feeds (fg_status g') = ?fss" "group_condition K ConditionTypeReady g' = group_condition K ConditionTypeReady g1"
    using set_group_condition_find(2) [OF assms(1) types] view(2)
    by (simp_all add: g'_def setFeedReachableCondition_def Let_def)
  obtain c where c: "group_condition K ConditionTypeReady g' = Some c"
    "(cond_status c, cond_reason c, cond_message c) = ready_view ge (cadence_err cad) ?fss"
    using view(1) frame(2) by auto
  have reach: "\<exists>c. group_condition K ConditionTypeFeedReachable g' = Some c \<and>
      (if ?bad = [] then cond_status c = ConditionTrue
       else cond_status c = ConditionFalse \<and> cond_reason c = dominantErrorReason ?bad)"
    using reachable_view [OF assms(1), of g1] assms(2) unfolding g'_def view(2) by blast
  have invalid: "cond_reason c = ''InvalidInterval'' \<longleftrightarrow> ge = None \<and> cadence_err cad \<noteq> None"
    "ge = None \<Longrightarrow> cadence_err cad = Some e \<Longrightarrow> cond_message c = err_text e" for e
    using c(2) by (auto simp: ready_view_def split: option.splits group_error.splits if_splits)
  have warning: "snd (summarizeGroup K cad ge g) = Some m \<longleftrightarrow> cond_reason c = ''InvalidInterval'' \<and> cond_message c = m \<and>
      (\<forall>prev. group_condition K ConditionTypeReady g = Some prev \<longrightarrow>
        cond_reason prev \<noteq> ''InvalidInterval'' \<or> cond_message prev \<noteq> m)" for m
    using c(1) by (auto simp: summarizeGroup_def Let_def case_prod_beta g'_def [symmetric] g1_def [symmetric]
        group_reasons split: option.splits)
  have "fst (summarizeGroup K cad ge g) = g'" by (simp add: summarizeGroup_def Let_def case_prod_beta g'_def g1_def)
  moreover have "dominantErrorReason ?bad \<in> set ?bad \<and>
      (\<forall>r \<in> set ?bad. count_list ?bad r \<le> count_list ?bad (dominantErrorReason ?bad))" if "?bad \<noteq> []"
    using dominant_reason [OF that] by (auto dest: less_imp_le)
  ultimately show ?thesis
    using frame(1) c reach invalid warning unfolding Let_def case_prod_beta by auto
qed

subsection \<open>Witnesses\<close>

definition two_feeds :: feed_group where
  "two_feeds = example_group [example_feed ''https://a'', example_feed ''https://b'']
     [(new_feed_status ''https://b'')\<lparr>last_seen_entry := ''seen'', last_error := ''boom''\<rparr>,
      new_feed_status ''https://old'']"

lemma statuses_follow_spec_witness:
  "map fs_url (gs_feeds (fg_status (fst (ensureFeedStatuses two_feeds)))) = [''https://a'', ''https://b''] \<and>
   set (snd (ensureFeedStatuses two_feeds)) = {''https://old''}"
proof -
  have "distinct (map rss_url (sp_feeds (fg_spec two_feeds)))"
    by (simp add: two_feeds_def example_group_def example_feed_def)
  from statuses_follow_spec [OF this] show ?thesis
    unfolding Let_def case_prod_beta
    by (simp add: two_feeds_def example_group_def example_feed_def new_feed_status_def)
qed

lemma summary_truthful_witness:
  "\<exists>c. find_cond (list_conditions 0) (gs_conditions (fg_status
      (fst (summarizeGroup (list_conditions 0) (cadenceOf (\<lambda>_. True) (fg_spec two_feeds)) None two_feeds))))
      ConditionTypeReady = Some c \<and> cond_status c = ConditionFalse \<and> cond_reason c = ''FeedErrors''"
proof -
  let ?K = "list_conditions 0" and ?cad = "cadenceOf (\<lambda>_. True) (fg_spec two_feeds)"
  have cad: "cadence_err ?cad = None" by code_simp
  have "distinct (map fs_url (gs_feeds (fg_status two_feeds)))"
    by (simp add: two_feeds_def example_group_def new_feed_status_def)
  from summary_truthful [OF list_conditions_laws this, of 0 ?cad None] obtain c where
    "find_cond ?K (gs_conditions (fg_status (fst (summarizeGroup ?K ?cad None two_feeds)))) ConditionTypeReady = Some c"
    "(cond_status c, cond_reason c, cond_message c) = ready_view None None (gs_feeds (fg_status two_feeds))"
    unfolding Let_def case_prod_beta cad by blast
  moreover have "\<not> (\<forall>fs \<in> set (gs_feeds (fg_status two_feeds)). last_error fs = [])"
    by (simp add: two_feeds_def example_group_def)
  ultimately show ?thesis by (auto simp: ready_view_def)
qed

end
