(* ===== verification/Reconcile.thy ===== *)
theory Reconcile
  imports Group_Status
begin

text \<open>
  One reconcile of a FeedGroup (\<^verbatim>\<open>internal/controller/feedgroup_controller.go\<close> and
  \<^verbatim>\<open>settle.go\<close>): normalise the status, resolve the webhook, plan, fetch and process the
  feeds, and write the status and the requeue.  The record \<open>reconciler\<close> holds what is
  outside the program: the Kubernetes API, the fetcher, the senders the builder makes, the
  renderer, the clocks and the jitter.  The outcomes of the concurrent fetches are a
  function of the feed and its validators here; \<open>Fetch_Pool\<close> shows that the schedule of the
  goroutines does not matter.
\<close>

record webhook_secret =
  ws_data :: "(string \<times> string) list"
  ws_version :: string

datatype get_error = NotFound | GetError go_error

record ('m, 's) reconciler =
  rr_get :: "'s \<Rightarrow> (get_error + feed_group) \<times> 's"
  rr_secret :: "string \<Rightarrow> string \<Rightarrow> 's \<Rightarrow> (go_error + webhook_secret) \<times> 's"
  rr_apply :: "feed_group \<Rightarrow> 's \<Rightarrow> go_error option \<times> 's"
  rr_fetch :: "nat \<Rightarrow> string \<Rightarrow> string \<Rightarrow> string \<Rightarrow> fetch_outcome"
  rr_sender :: "string \<Rightarrow> ('m, 's) message_sender"
  rr_renderer :: "feed_group \<Rightarrow> feed_spec \<Rightarrow> go_error + 'm renderer"
  rr_env :: go_env
  rr_conditions :: condition_api
  rr_recorder :: bool
  rr_now :: int
  rr_clock :: "nat \<Rightarrow> int"
  rr_jitter :: "int \<Rightarrow> int"
  rr_stack :: string

text \<open>The effects of a reconcile beside those of its syncs.\<close>

datatype reconcile_event =
    MetricsForgotten
  | FeedForgotten string
  | FeedStateSynced feed_group
  | InvalidIntervalEvent string
  | StatusApplied feed_group
  | ReconcileTimed

record ('m, 's) reconcile_state =
  rc_pass :: "('m, 's) pass_state"
  rc_events :: "reconcile_event list"

definition rc_emit :: "reconcile_event list \<Rightarrow> ('m, 's) reconcile_state \<Rightarrow> ('m, 's) reconcile_state" where
  "rc_emit evs st = st\<lparr>rc_events := rc_events st @ evs\<rparr>"

definition rc_group :: "('m, 's) reconcile_state \<Rightarrow> feed_group" where
  "rc_group st = ps_group (rc_pass st)"

definition on_group :: "(feed_group \<Rightarrow> feed_group) \<Rightarrow> ('m, 's) reconcile_state \<Rightarrow> ('m, 's) reconcile_state" where
  "on_group f st = st\<lparr>rc_pass := (rc_pass st)\<lparr>ps_group := f (rc_group st)\<rparr>\<rparr>"

subsection \<open>Fetching\<close>

definition maxConcurrentFetches :: nat where "maxConcurrentFetches = 10"

text \<open>The outcomes in the order of the feeds; \<open>None\<close> when a feed has no status, which crashes.\<close>

fun fetch_from :: "(nat \<Rightarrow> string \<Rightarrow> string \<Rightarrow> string \<Rightarrow> fetch_outcome) \<Rightarrow> feed_status list \<Rightarrow> nat
    \<Rightarrow> feed_spec list \<Rightarrow> fetch_outcome list option" where
  "fetch_from f statuses i [] = Some []"
| "fetch_from f statuses i (feed # feeds) =
     (case feed_status_for statuses (rss_url feed) of
        None \<Rightarrow> None
      | Some fs \<Rightarrow> map_option ((#) (f i (rss_url feed) (etag fs) (last_modified fs)))
          (fetch_from f statuses (Suc i) feeds))"

definition fetchAll :: "(nat \<Rightarrow> string \<Rightarrow> string \<Rightarrow> string \<Rightarrow> fetch_outcome) \<Rightarrow> feed_group
    \<Rightarrow> feed_spec list \<Rightarrow> fetch_outcome list option" where
  "fetchAll f g feeds = fetch_from f (gs_feeds (fg_status g)) 0 feeds"

subsection \<open>The pass\<close>

definition run_of :: "('m, 's) reconciler \<Rightarrow> string \<Rightarrow> cadence \<Rightarrow> feed_group \<Rightarrow> feed_spec
    \<Rightarrow> fetch_outcome \<Rightarrow> ('m, 's) feed_run" where
  "run_of R webhookURL cad g feed fetched =
     \<lparr>fn_group = g, fn_feed = feed, fn_fetched = fetched, fn_sender = rr_sender R webhookURL,
      fn_cadence = cad, fn_recorder = rr_recorder R, fn_now = rr_now R, fn_clock = rr_clock R,
      fn_env = rr_env R, fn_conditions = rr_conditions R, fn_renderer = rr_renderer R\<rparr>"

fun pass_loop :: "('m, 's) reconciler \<Rightarrow> string \<Rightarrow> cadence \<Rightarrow> (feed_spec \<times> fetch_outcome) list
    \<Rightarrow> attempt_verdict \<Rightarrow> ('m, 's) pass_state \<Rightarrow> ('m, 's) pass_state \<times> attempt_verdict process_result" where
  "pass_loop R webhookURL cad [] verdict ps = (ps, Processed verdict)"
| "pass_loop R webhookURL cad ((feed, fetched) # rest) verdict ps =
     (if v_retry_after verdict > 0 then (ps, Processed verdict)
      else case processFeed (rr_stack R) (run_of R webhookURL cad (ps_group ps) feed fetched) ps of
        (ps', Processed v) \<Rightarrow> pass_loop R webhookURL cad rest (fold_verdict verdict v) ps'
      | (ps', FeedPanicked p) \<Rightarrow> (ps', FeedPanicked p)
      | (ps', Crashed p) \<Rightarrow> (ps', Crashed p))"

definition reconcilePass :: "('m, 's) reconciler \<Rightarrow> string \<Rightarrow> cadence \<Rightarrow> bool \<Rightarrow> ('m, 's) pass_state
    \<Rightarrow> ('m, 's) pass_state \<times> (attempt_verdict \<times> feed_plan) process_result" where
  "reconcilePass R webhookURL cad force ps =
     (let plan = planFeeds (ps_group ps) cad (rr_now R) force in
      case fetchAll (rr_fetch R) (ps_group ps) (plan_active plan) of
        None \<Rightarrow> (ps, Crashed nil_dereference)
      | Some fetched \<Rightarrow>
          (case pass_loop R webhookURL cad (zip (plan_active plan) fetched) no_verdict ps of
             (ps', Processed v) \<Rightarrow> (ps', Processed (v, plan))
           | (ps', FeedPanicked p) \<Rightarrow> (ps', FeedPanicked p)
           | (ps', Crashed p) \<Rightarrow> (ps', Crashed p)))"

subsection \<open>The webhook\<close>

definition webhook :: "('m, 's) reconciler \<Rightarrow> ('m, 's) reconcile_state
    \<Rightarrow> ('m, 's) reconcile_state \<times> (go_error + string)" where
  "webhook R st =
     (let spec = fg_spec (rc_group st);
          (res, w) = rr_secret R (fg_namespace (rc_group st)) (webhook_secret_name spec) (ps_world (rc_pass st));
          st1 = st\<lparr>rc_pass := (rc_pass st)\<lparr>ps_world := w\<rparr>\<rparr>
      in case res of
           Inl err \<Rightarrow> (st1, Inl err)
         | Inr secret \<Rightarrow>
             (case map_of (ws_data secret) (webhook_secret_key spec) of
                None \<Rightarrow> (st1, Inl (PlainError (''secret '' @ webhook_secret_name spec @ '' missing key ''
                           @ go_quote (env_print (rr_env R)) (webhook_secret_key spec))))
              | Some val \<Rightarrow>
                  let st2 = on_group (noteWebhookSecretVersion (rr_conditions R) (ws_version secret)) st1;
                      url = trim_space val
                  in if url = [] then (st2, Inl (PlainError ''discord webhook URL is empty''))
                     else (st2, Inr url)))"

subsection \<open>Settling\<close>

text \<open>\<^verbatim>\<open>Semantic.DeepEqual\<close>: \<open>LastSent\<close> is compared as a map.\<close>

definition same_feed_status :: "feed_status \<Rightarrow> feed_status \<Rightarrow> bool" where
  "same_feed_status a b \<longleftrightarrow> a\<lparr>last_sent := []\<rparr> = b\<lparr>last_sent := []\<rparr> \<and> set (last_sent a) = set (last_sent b)"

definition same_group_status :: "feed_group_status \<Rightarrow> feed_group_status \<Rightarrow> bool" where
  "same_group_status a b \<longleftrightarrow> a\<lparr>gs_feeds := []\<rparr> = b\<lparr>gs_feeds := []\<rparr> \<and>
     list_all2 same_feed_status (gs_feeds a) (gs_feeds b)"

definition observe_generation :: "feed_group \<Rightarrow> feed_group" where
  "observe_generation g = g\<lparr>fg_status := (fg_status g)\<lparr>observed_generation := fg_generation g\<rparr>\<rparr>"

definition settle :: "('m, 's) reconciler \<Rightarrow> feed_group_status \<Rightarrow> cadence \<Rightarrow> requeue_decision
    \<Rightarrow> group_error option \<Rightarrow> bool \<Rightarrow> ('m, 's) reconcile_state
    \<Rightarrow> ('m, 's) reconcile_state \<times> (go_error + int)" where
  "settle R original cad decision groupErr through st =
     (let duration = rq_wait (rr_jitter R) decision;
          g0 = (if through then observe_generation (rc_group st) else rc_group st);
          (g, warning) = summarizeGroup (rr_conditions R) cad groupErr g0;
          st1 = rc_emit (case warning of Some note \<Rightarrow> if rr_recorder R then [InvalidIntervalEvent note] else []
                         | None \<Rightarrow> []) (on_group (\<lambda>_. g) st);
          st2 = rc_emit [FeedStateSynced g] st1
      in if same_group_status original (fg_status g) then (st2, Inr duration)
         else let (err, w) = rr_apply R g (ps_world (rc_pass st2));
                  st3 = rc_emit [StatusApplied g] (st2\<lparr>rc_pass := (rc_pass st2)\<lparr>ps_world := w\<rparr>\<rparr>)
              in case err of Some e \<Rightarrow> (st3, Inl e) | None \<Rightarrow> (st3, Inr duration))"

definition settleGroup :: "('m, 's) reconciler \<Rightarrow> feed_group_status \<Rightarrow> cadence \<Rightarrow> requeue_decision
    \<Rightarrow> group_error option \<Rightarrow> ('m, 's) reconcile_state
    \<Rightarrow> ('m, 's) reconcile_state \<times> (go_error + int)" where
  "settleGroup R original cad decision groupErr st = settle R original cad decision groupErr True st"

subsection \<open>Reconcile\<close>

datatype reconcile_result =
    Requeue int
  | ReconcileError go_error
  | PanicError feed_panic "go_error option"
  | ReconcileCrash go_panic

definition settled :: "('m, 's) reconcile_state \<times> (go_error + int)
    \<Rightarrow> ('m, 's) reconcile_state \<times> reconcile_result" where
  "settled r = (fst r, case snd r of Inl e \<Rightarrow> ReconcileError e | Inr d \<Rightarrow> Requeue d)"

text \<open>From the prepared group on; the state holds the group as prepared.\<close>

definition reconcile_prepared :: "('m, 's) reconciler \<Rightarrow> status_prep \<Rightarrow> ('m, 's) reconcile_state
    \<Rightarrow> ('m, 's) reconcile_state \<times> reconcile_result" where
  "reconcile_prepared R prep st =
     (let cad = cadenceOf (env_print (rr_env R)) (fg_spec (rc_group st)) in
      case webhook R st of
        (st1, Inl err) \<Rightarrow>
          settled (settleGroup R (prep_snapshot prep) cad (retryRequeue cad) (Some (WebhookError err)) st1)
      | (st1, Inr webhookURL) \<Rightarrow>
          (case reconcilePass R webhookURL cad (prep_specChanged prep) (rc_pass st1) of
             (ps, Processed (v, plan)) \<Rightarrow>
               settled (settleGroup R (prep_snapshot prep) cad
                 (plan_requeue plan cad (v_retry v) (v_retry_after v)) None (st1\<lparr>rc_pass := ps\<rparr>))
           | (ps, FeedPanicked p) \<Rightarrow>
               (case settle R (prep_snapshot prep) cad (retryRequeue cad) (Some (PassPanicked p)) False
                       (st1\<lparr>rc_pass := ps\<rparr>) of
                  (st2, Inl e) \<Rightarrow> (st2, PanicError p (Some e))
                | (st2, Inr d) \<Rightarrow> (st2, PanicError p None))
           | (ps, Crashed p) \<Rightarrow> (st1\<lparr>rc_pass := ps\<rparr>, ReconcileCrash p)))"

text \<open>The whole reconcile: the world, the effects and events, and the result.\<close>

definition Reconcile :: "('m, 's) reconciler \<Rightarrow> 's
    \<Rightarrow> ('m effect list \<times> reconcile_event list \<times> 's) \<times> reconcile_result" where
  "Reconcile R w0 =
     (case rr_get R w0 of
        (Inl NotFound, w) \<Rightarrow> (([], [MetricsForgotten], w), Requeue 0)
      | (Inl (GetError err), w) \<Rightarrow> (([], [], w), ReconcileError err)
      | (Inr g0, w) \<Rightarrow>
          let (g, prep) = prepareStatus g0;
              st0 = \<lparr>rc_pass = \<lparr>ps_group = g, ps_log = [], ps_ticks = 0, ps_world = w\<rparr>,
                     rc_events = map FeedForgotten (prep_pruned prep)\<rparr>;
              (st, res) = reconcile_prepared R prep st0
          in ((ps_log (rc_pass st), rc_events st @ [ReconcileTimed], ps_world (rc_pass st)), res))"

end
