(* ===== verification/Reconcile_Laws.thy ===== *)
theory Reconcile_Laws
  imports Reconcile Group_Status_Laws
begin

text \<open>
  What a reconcile guarantees: a pass touches only the feeds it processed, stops at a rate
  limit or a panic, and always ends in a settlement that writes what changed.
\<close>

subsection \<open>A feed's status keeps its URL\<close>

lemma settle_verdict_url [status_frame]: "fs_url (settle_verdict s v fs) = fs_url fs"
  by (cases v) (simp_all add: status_frame)

lemma begun_url: "fs_url (st_fs (begun run s st)) = fs_url (st_fs st)"
  by (simp add: begun_def Let_def status_frame begin_sync_eq(6))

lemma apply_sync_url: "fs_url (st_fs (fst (apply_sync run s st))) = fs_url (st_fs st)"
proof (cases "\<exists>rend. deliverable run rend s")
  case True
  then obtain rend where del: "deliverable run rend s" ..
  obtain st' r where ap: "apply_sync run s st = (st', r)" by force
  let ?d = "delivery_of run rend (begun_sync run s st)"
  obtain hs ps rs st2 where run: "delivers ?d (plan_entries (fy_plan (begun_sync run s st))) (begun run s st) hs ps rs st2 r"
    "st' = (case r of Panicked p \<Rightarrow> st2 | Returned v \<Rightarrow> close_sync (begun_sync run s st) (settlement v) st2)"
    by (rule apply_runs [OF del ap])
  have "fs_url (st_fs st2) = fs_url (st_fs st)"
    using delivers_handles [OF run(1) begun_ledger] by (simp add: handled_from_def loop_frame_def begun_url)
  then show ?thesis using ap run(2) by (simp add: status_frame split: result.split)
next
  case False
  then show ?thesis
    by (auto simp: deliverable_def apply_sync_def Let_def case_prod_beta status_frame split: option.splits sum.splits)
qed

lemma secureAfterPanic_url:
  "fs_url (st_fs (secureAfterPanic s fs0 a err st)) = fs_url (st_fs st) \<or>
   fs_url (st_fs (secureAfterPanic s fs0 a err st)) = fs_url fs0"
  by (simp add: secureAfterPanic_def status_frame)

subsection \<open>One feed\<close>

text \<open>The parts of a group a pass reads but never writes.\<close>

definition pass_frame :: "feed_group \<Rightarrow> string \<times> string \<times> int \<times> feed_group_spec \<times> condition list \<times> int \<times> string" where
  "pass_frame g = (fg_namespace g, fg_name g, fg_generation g, fg_spec g, gs_conditions (fg_status g),
     observed_generation (fg_status g), webhook_secret_version (fg_status g))"

abbreviation statuses :: "('m, 's) pass_state \<Rightarrow> feed_status list" where
  "statuses ps \<equiv> gs_feeds (fg_status (ps_group ps))"

lemma write_back_frame: "pass_frame (ps_group (write_back url st ps)) = pass_frame (ps_group ps)"
  by (simp add: write_back_def Let_def pass_frame_def)

lemma put_status_urls: "fs_url fs = url \<Longrightarrow> map fs_url (put_status url fs xs) = map fs_url xs"
  by (induction xs) auto

lemma processFeed_frame:
  assumes "processFeed stack run ps = (ps', r)"
  shows "pass_frame (ps_group ps') = pass_frame (ps_group ps)" (is ?frame)
    and "map fs_url (statuses ps') = map fs_url (statuses ps)" (is ?urls)
    and "url \<noteq> rss_url (fn_feed run) \<Longrightarrow> feed_status_for (statuses ps') url = feed_status_for (statuses ps) url"
    and "feed_status_for (statuses ps) (rss_url (fn_feed run)) \<noteq> None \<Longrightarrow> r \<noteq> Crashed p"
    and "r = FeedPanicked fp \<Longrightarrow> fp_url fp = rss_url (fn_feed run)"
proof -
  let ?url = "rss_url (fn_feed run)"
  have main: "?frame \<and> ?urls \<and> (\<forall>url. url \<noteq> ?url \<longrightarrow> feed_status_for (statuses ps') url = feed_status_for (statuses ps) url) \<and>
     (feed_status_for (statuses ps) ?url \<noteq> None \<longrightarrow> r \<noteq> Crashed p) \<and> (r = FeedPanicked fp \<longrightarrow> fp_url fp = ?url)"
  proof (cases "feed_status_for (statuses ps) ?url")
    case None
    then show ?thesis using assms by (auto simp: processFeed_def Let_def)
  next
    case (Some fs)
    let ?s = "openFeedSync fs (fo_result (fn_fetched run)) (feedSyncSpecFor (fn_group run) (fn_now run))"
    obtain st res where ap: "apply_sync run ?s (sync_state_of fs ps) = (st, res)" by force
    have url: "fs_url (st_fs st) = ?url"
      using apply_sync_url [of run ?s "sync_state_of fs ps"] ap feed_status_for_url [OF Some] by simp
    define st2 where "st2 = (case res of Returned v \<Rightarrow> st
      | Panicked pv \<Rightarrow> secureAfterPanic ?s fs (newAttempt run) errDeliveryPanicked st)"
    have url2: "fs_url (st_fs st2) = ?url"
      using url secureAfterPanic_url [of ?s fs "newAttempt run" errDeliveryPanicked st] feed_status_for_url [OF Some]
      by (auto simp: st2_def split: result.split)
    have "ps' = write_back ?url st2 ps" "\<nexists>p. r = Crashed p" "r = FeedPanicked fp \<longrightarrow> fp_url fp = ?url"
      using assms Some ap by (auto simp: processFeed_def Let_def st2_def split: result.splits)
    then show ?thesis using put_status_urls [OF url2] put_status_others [OF _ url2] write_back_frame by auto
  qed
  then show ?frame ?urls
    "url \<noteq> ?url \<Longrightarrow> feed_status_for (statuses ps') url = feed_status_for (statuses ps) url"
    "feed_status_for (statuses ps) ?url \<noteq> None \<Longrightarrow> r \<noteq> Crashed p"
    "r = FeedPanicked fp \<Longrightarrow> fp_url fp = ?url" by blast+
qed

lemma feed_status_for_None: "feed_status_for xs url = None \<longleftrightarrow> url \<notin> set (map fs_url xs)"
  by (induction xs) auto

subsection \<open>The loop\<close>

text \<open>How many feeds the loop took, and how it ended.\<close>

lemma pass_loop_frame:
  assumes "pass_loop R u cad items v ps = (ps', r)"
    and "\<forall>i \<in> set items. rss_url (fst i) \<in> set (map fs_url (statuses ps))"
  shows "pass_frame (ps_group ps') = pass_frame (ps_group ps) \<and>
    map fs_url (statuses ps') = map fs_url (statuses ps) \<and>
    (\<exists>k \<le> length items.
      (\<forall>url. url \<notin> (\<lambda>i. rss_url (fst i)) ` set (take k items) \<longrightarrow>
         feed_status_for (statuses ps') url = feed_status_for (statuses ps) url) \<and>
      (case r of Processed v' \<Rightarrow> k < length items \<longrightarrow> 0 < v_retry_after v'
       | FeedPanicked p \<Rightarrow> 0 < k \<and> fp_url p = rss_url (fst (items ! (k - 1)))
       | Crashed p \<Rightarrow> False))"
  using assms
proof (induction items arbitrary: v ps)
  case Nil
  then show ?case by auto
next
  case (Cons item items)
  obtain feed fetched where item: "item = (feed, fetched)" by force
  show ?case
  proof (cases "0 < v_retry_after v")
    case True
    then show ?thesis using Cons.prems item by (intro conjI exI [of _ 0]) auto
  next
    case False
    let ?run = "run_of R u cad (ps_group ps) feed fetched"
    obtain ps1 r1 where step: "processFeed (rr_stack R) ?run ps = (ps1, r1)" by force
    have feed: "rss_url (fn_feed ?run) = rss_url feed" by (simp add: run_of_def)
    note f = processFeed_frame [OF step, unfolded feed]
    have known: "feed_status_for (statuses ps) (rss_url feed) \<noteq> None"
      using Cons.prems(2) item by (simp add: feed_status_for_None)
    show ?thesis
    proof (cases r1)
      case (Crashed p)
      then show ?thesis using f(4) [OF known] by blast
    next
      case (FeedPanicked p)
      then have "ps' = ps1" "r = FeedPanicked p" using Cons.prems(1) item step False by simp_all
      then show ?thesis using f FeedPanicked item by (intro conjI exI [of _ "Suc 0"]) auto
    next
      case (Processed v1)
      then have "pass_loop R u cad items (fold_verdict v v1) ps1 = (ps', r)"
        using Cons.prems(1) item step False by simp
      moreover have "\<forall>i \<in> set items. rss_url (fst i) \<in> set (map fs_url (statuses ps1))"
        using Cons.prems(2) unfolding f(2) by simp
      ultimately obtain k where ih: "pass_frame (ps_group ps') = pass_frame (ps_group ps1)"
        "map fs_url (statuses ps') = map fs_url (statuses ps1)" "k \<le> length items"
        "\<forall>url. url \<notin> (\<lambda>i. rss_url (fst i)) ` set (take k items) \<longrightarrow>
          feed_status_for (statuses ps') url = feed_status_for (statuses ps1) url"
        "case r of Processed v' \<Rightarrow> k < length items \<longrightarrow> 0 < v_retry_after v'
         | FeedPanicked p \<Rightarrow> 0 < k \<and> fp_url p = rss_url (fst (items ! (k - 1)))
         | Crashed p \<Rightarrow> False"
        using Cons.IH by blast
      show ?thesis
      proof (intro conjI exI [of _ "Suc k"])
        show "\<forall>url. url \<notin> (\<lambda>i. rss_url (fst i)) ` set (take (Suc k) (item # items)) \<longrightarrow>
            feed_status_for (statuses ps') url = feed_status_for (statuses ps) url"
          using ih(4) f(3) item by auto
        show "case r of Processed v' \<Rightarrow> Suc k < length (item # items) \<longrightarrow> 0 < v_retry_after v'
           | FeedPanicked p \<Rightarrow> 0 < Suc k \<and> fp_url p = rss_url (fst ((item # items) ! (Suc k - 1)))
           | Crashed p \<Rightarrow> False"
          using ih(5) by (auto simp: nth_Cons' split: process_result.splits)
      qed (use ih f in auto)
    qed
  qed
qed


subsection \<open>The pass\<close>

lemma fetch_from_all:
  "\<forall>feed \<in> set feeds. rss_url feed \<in> set (map fs_url fss) \<Longrightarrow>
     \<exists>outs. fetch_from f fss i feeds = Some outs \<and> length outs = length feeds"
proof (induction feeds arbitrary: i)
  case (Cons feed feeds)
  then have "feed_status_for fss (rss_url feed) \<noteq> None" by (simp add: feed_status_for_None)
  then show ?case using Cons.IH [of "Suc i"] Cons.prems by auto
qed simp

lemma plan_step_active:
  "set (plan_active (plan_step fss cad now force feed plan)) \<subseteq> insert feed (set (plan_active plan))"
  by (auto simp: plan_step_def split: option.splits)

lemma planFeeds_active: "set (plan_active (planFeeds g cad now force)) \<subseteq> set (sp_feeds (fg_spec g))"
proof -
  have "set (plan_active (fold (plan_step st cad now force) feeds plan)) \<subseteq> set feeds \<union> set (plan_active plan)" for st feeds plan
  proof (induction feeds arbitrary: plan)
    case (Cons feed feeds)
    then show ?case using plan_step_active [of st cad now force feed plan] by fastforce
  qed simp
  from this [of "gs_feeds (fg_status g)" "sp_feeds (fg_spec g)" "\<lparr>plan_active = [], next_due = 0\<rparr>"]
  show ?thesis by (simp add: planFeeds_def)
qed

lemma taken_urls:
  "length outs = length feeds \<Longrightarrow>
     (\<lambda>i. rss_url (fst i)) ` set (take k (zip feeds outs)) = rss_url ` set (take k feeds)"
proof -
  assume "length outs = length feeds"
  then have "map fst (take k (zip feeds outs)) = take k feeds" by (simp add: take_map [symmetric])
  then have "fst ` set (take k (zip feeds outs)) = set (take k feeds)" by (metis list.set_map)
  then show ?thesis by (simp add: image_image [symmetric])
qed

definition all_known :: "('m, 's) pass_state \<Rightarrow> bool" where
  "all_known ps \<longleftrightarrow> (\<forall>feed \<in> set (sp_feeds (fg_spec (ps_group ps))). rss_url feed \<in> set (map fs_url (statuses ps)))"

lemma pass_effect:
  assumes "reconcilePass R u cad force ps = (ps', r)" "all_known ps"
  defines "active \<equiv> plan_active (planFeeds (ps_group ps) cad (rr_now R) force)"
  shows "pass_frame (ps_group ps') = pass_frame (ps_group ps) \<and>
    map fs_url (statuses ps') = map fs_url (statuses ps) \<and>
    (\<exists>k \<le> length active.
      (\<forall>url. url \<notin> rss_url ` set (take k active) \<longrightarrow>
         feed_status_for (statuses ps') url = feed_status_for (statuses ps) url) \<and>
      (case r of Processed (v, plan) \<Rightarrow> plan = planFeeds (ps_group ps) cad (rr_now R) force \<and>
           (k < length active \<longrightarrow> 0 < v_retry_after v)
       | FeedPanicked p \<Rightarrow> 0 < k \<and> fp_url p = rss_url (active ! (k - 1))
       | Crashed p \<Rightarrow> False))"
proof -
  have known: "\<forall>feed \<in> set active. rss_url feed \<in> set (map fs_url (statuses ps))"
    using assms(2) planFeeds_active [of "ps_group ps"] unfolding active_def all_known_def by blast
  then obtain outs where outs: "fetchAll (rr_fetch R) (ps_group ps) active = Some outs" "length outs = length active"
    using fetch_from_all [of active "statuses ps" "rr_fetch R" 0] by (auto simp: fetchAll_def)
  obtain ps1 r1 where loop: "pass_loop R u cad (zip active outs) no_verdict ps = (ps1, r1)" by force
  have "\<forall>i \<in> set (zip active outs). rss_url (fst i) \<in> set (map fs_url (statuses ps))"
    using known by (auto dest: set_zip_leftD)
  note l = pass_loop_frame [OF loop this]
  have r: "ps' = ps1" "r = (case r1 of Processed v \<Rightarrow> Processed (v, planFeeds (ps_group ps) cad (rr_now R) force)
      | FeedPanicked p \<Rightarrow> FeedPanicked p | Crashed p \<Rightarrow> Crashed p)"
    using assms(1) outs(1) loop by (auto simp: reconcilePass_def Let_def active_def split: process_result.splits)
  have len: "length (zip active outs) = length active" using outs(2) by simp
  from l obtain k where k: "k \<le> length active"
    "\<forall>url. url \<notin> rss_url ` set (take k active) \<longrightarrow> feed_status_for (statuses ps1) url = feed_status_for (statuses ps) url"
    "case r1 of Processed v' \<Rightarrow> k < length active \<longrightarrow> 0 < v_retry_after v'
       | FeedPanicked p \<Rightarrow> 0 < k \<and> fp_url p = rss_url (fst (zip active outs ! (k - 1)))
       | Crashed p \<Rightarrow> False"
    unfolding taken_urls [OF outs(2)] len by blast
  have "fst (zip active outs ! (k - 1)) = active ! (k - 1)" if "0 < k" using that k(1) outs(2) by simp
  then show ?thesis using l k r by (intro conjI exI [of _ k]) (auto split: process_result.splits)
qed

text \<open>C36: A pass is contained: it writes the statuses of the active feeds it processed, in plan
  order, and nothing else of the group; it leaves feeds unprocessed only because Discord
  rate limited an earlier one, which the verdict then reports, or because a feed panicked, and
  the panic names the last feed processed; and with a status for every feed of the spec it
  never crashes.\<close>

theorem pass_contained:
  assumes "reconcilePass R u cad force ps = (ps', r)"
    and "\<forall>feed \<in> set (sp_feeds (fg_spec (ps_group ps))). rss_url feed \<in> set (map fs_url (statuses ps))"
  shows "pass_frame (ps_group ps') = pass_frame (ps_group ps) \<and>
    map fs_url (statuses ps') = map fs_url (statuses ps) \<and>
    (let active = plan_active (planFeeds (ps_group ps) cad (rr_now R) force) in
     \<exists>k \<le> length active.
      (\<forall>url. url \<notin> rss_url ` set (take k active) \<longrightarrow>
         feed_status_for (statuses ps') url = feed_status_for (statuses ps) url) \<and>
      (case r of Processed (v, plan) \<Rightarrow> k < length active \<longrightarrow> 0 < v_retry_after v
       | FeedPanicked p \<Rightarrow> 0 < k \<and> fp_url p = rss_url (active ! (k - 1))
       | Crashed p \<Rightarrow> False))"
proof -
  have "all_known ps" using assms(2) by (simp add: all_known_def)
  note p = pass_effect [OF assms(1) this]
  then obtain k where k: "k \<le> length (plan_active (planFeeds (ps_group ps) cad (rr_now R) force))"
    "\<forall>url. url \<notin> rss_url ` set (take k (plan_active (planFeeds (ps_group ps) cad (rr_now R) force))) \<longrightarrow>
       feed_status_for (statuses ps') url = feed_status_for (statuses ps) url"
    "case r of Processed (v, plan) \<Rightarrow> plan = planFeeds (ps_group ps) cad (rr_now R) force \<and>
         (k < length (plan_active (planFeeds (ps_group ps) cad (rr_now R) force)) \<longrightarrow> 0 < v_retry_after v)
       | FeedPanicked p \<Rightarrow> 0 < k \<and> fp_url p = rss_url (plan_active (planFeeds (ps_group ps) cad (rr_now R) force) ! (k - 1))
       | Crashed p \<Rightarrow> False" by blast
  show ?thesis unfolding Let_def
  proof (intro conjI exI [of _ k])
    show "case r of Processed (v, plan) \<Rightarrow>
          k < length (plan_active (planFeeds (ps_group ps) cad (rr_now R) force)) \<longrightarrow> 0 < v_retry_after v
       | FeedPanicked p \<Rightarrow> 0 < k \<and> fp_url p = rss_url (plan_active (planFeeds (ps_group ps) cad (rr_now R) force) ! (k - 1))
       | Crashed p \<Rightarrow> False"
      using k(3) by (cases r) auto
  qed (use p k in blast)+
qed

subsection \<open>Settling\<close>

lemma summarize_frame:
  "gs_feeds (fg_status (fst (summarizeGroup K cad ge g))) = gs_feeds (fg_status g)"
  "observed_generation (fg_status (fst (summarizeGroup K cad ge g))) = observed_generation (fg_status g)"
  "fg_generation (fst (summarizeGroup K cad ge g)) = fg_generation g"
  "fg_spec (fst (summarizeGroup K cad ge g)) = fg_spec g"
  by (simp_all add: summarizeGroup_def Let_def case_prod_beta setFeedReachableCondition_def setReadyCondition_def
      split: option.split group_error.split)

lemma rc_emit_simps [simp]:
  "rc_group (rc_emit evs st) = rc_group st" "rc_events (rc_emit evs st) = rc_events st @ evs"
  "rc_pass (rc_emit evs st) = rc_pass st"
  by (simp_all add: rc_emit_def rc_group_def)

lemma rc_world_simps [simp]:
  "rc_group (st\<lparr>rc_pass := p\<lparr>ps_world := w\<rparr>\<rparr>) = ps_group p"
  "ps_group (rc_pass (on_group f st)) = f (rc_group st)"
  by (simp_all add: rc_group_def on_group_def)

lemma on_group_simps [simp]: "rc_group (on_group f st) = f (rc_group st)" "rc_events (on_group f st) = rc_events st"
  by (simp_all add: on_group_def rc_group_def)

lemma settle_effect:
  assumes "settle R original cad decision ge through st = (st', r)"
  defines "g' \<equiv> fst (summarizeGroup (rr_conditions R) cad ge
      (if through then observe_generation (rc_group st) else rc_group st))"
  shows "rc_group st' = g'"
    and "same_group_status original (fg_status g') \<or> StatusApplied g' \<in> set (rc_events st')"
    and "r = Inr d \<Longrightarrow> d = rq_wait (rr_jitter R) decision"
  using assms(1) unfolding settle_def g'_def
  by (auto simp: Let_def case_prod_beta rc_group_def split: if_splits option.splits)


lemma noteWebhook_frame [simp]:
  "fg_spec (noteWebhookSecretVersion K v g) = fg_spec g"
  "fg_generation (noteWebhookSecretVersion K v g) = fg_generation g"
  "observed_generation (fg_status (noteWebhookSecretVersion K v g)) = observed_generation (fg_status g)"
  "map fs_url (gs_feeds (fg_status (noteWebhookSecretVersion K v g))) = map fs_url (gs_feeds (fg_status g))"
  by (simp_all add: noteWebhookSecretVersion_def clearSendBackoffs_def Let_def run_clear_def comp_def)

text \<open>The parts of a group the theorem below speaks of.\<close>

definition group_view :: "feed_group \<Rightarrow> feed_group_spec \<times> int \<times> int \<times> string list" where
  "group_view g = (fg_spec g, fg_generation g, observed_generation (fg_status g), map fs_url (gs_feeds (fg_status g)))"

lemma webhook_view: "webhook R st = (st', r) \<Longrightarrow> group_view (rc_group st') = group_view (rc_group st)"
  by (auto simp: webhook_def group_view_def rc_group_def on_group_def Let_def
      split: sum.splits option.splits prod.splits if_splits)

lemma prepare_view:
  assumes "distinct (map rss_url (sp_feeds (fg_spec g0)))" "prepareStatus g0 = (g, prep)"
  shows "group_view g = (fg_spec g0, fg_generation g0, observed_generation (fg_status g0), map rss_url (sp_feeds (fg_spec g0)))"
    and "prep_specChanged prep = (observed_generation (fg_status g0) < fg_generation g0)"
proof -
  have "fs_url (entry_of (existing_status (gs_feeds (fg_status g0))) u) = u" for u
    by (rule entry_of_url) (rule existing_status_url)
  then show "group_view g = (fg_spec g0, fg_generation g0, observed_generation (fg_status g0), map rss_url (sp_feeds (fg_spec g0)))"
    "prep_specChanged prep = (observed_generation (fg_status g0) < fg_generation g0)"
    using assms(2) rebuild_entries [OF assms(1)]
    by (auto simp: prepareStatus_def ensureFeedStatuses_def group_view_def Let_def case_prod_beta
        clearPermanentBackoffs_def run_clear_def comp_def)
qed

lemma pass_view: "pass_frame g' = pass_frame g \<Longrightarrow> map fs_url (gs_feeds (fg_status g')) = map fs_url (gs_feeds (fg_status g))
    \<Longrightarrow> group_view g' = group_view g"
  by (simp add: pass_frame_def group_view_def)

text \<open>How a settled state relates to the group it settles.\<close>

definition settled_as :: "('m, 's) reconcile_state \<Rightarrow> feed_group_status \<Rightarrow> feed_group \<Rightarrow> bool \<Rightarrow> bool" where
  "settled_as st original g through \<longleftrightarrow>
     (same_group_status original (fg_status (rc_group st)) \<or> StatusApplied (rc_group st) \<in> set (rc_events st)) \<and>
     gs_feeds (fg_status (rc_group st)) = gs_feeds (fg_status g) \<and>
     observed_generation (fg_status (rc_group st)) = (if through then fg_generation g else observed_generation (fg_status g))"

lemma settle_settles:
  assumes "settle R original cad decision ge through st = (st', r)"
  shows "settled_as st' original (rc_group st) through"
  using settle_effect(1,2) [OF assms]
  by (auto simp: settled_as_def summarize_frame observe_generation_def)

text \<open>Every way through a reconcile ends in a settlement of a group with the spec, the generation and
  the feeds it began with, and only a panic is reported as one.\<close>

definition settled_result :: "('m, 'w) reconcile_state \<Rightarrow> reconcile_result \<Rightarrow> feed_group_status \<Rightarrow> feed_group \<Rightarrow> bool" where
  "settled_result st' res snap g \<longleftrightarrow>
     (\<exists>gx through. settled_as st' snap gx through \<and> group_view gx = group_view g \<and>
        (\<forall>p. res \<noteq> ReconcileCrash p) \<and> (through \<longleftrightarrow> (\<nexists>p e. res = PanicError p e)))"

lemma settled_without_webhook:
  assumes "webhook R st = (st1, Inl err)" "reconcile_prepared R prep st = (st', res)"
  shows "settled_result st' res (prep_snapshot prep) (rc_group st)"
proof -
  let ?cad = "cadenceOf (env_print (rr_env R)) (fg_spec (rc_group st))"
  obtain st2 r where s: "settleGroup R (prep_snapshot prep) ?cad (retryRequeue ?cad) (Some (WebhookError err)) st1 = (st2, r)" by force
  then have "st' = st2" "\<forall>p. res \<noteq> ReconcileCrash p" "\<nexists>p e. res = PanicError p e"
    using assms by (auto simp: reconcile_prepared_def settled_def split: sum.splits)
  then show ?thesis
    using settle_settles [of R _ _ _ _ True, folded settleGroup_def, OF s] webhook_view [OF assms(1)]
    unfolding settled_result_def by (intro exI [of _ "rc_group st1"] exI [of _ True]) auto
qed

lemma settled_after_pass:
  assumes "webhook R st = (st1, Inr u)" "reconcile_prepared R prep st = (st', res)" "all_known (rc_pass st1)"
  shows "settled_result st' res (prep_snapshot prep) (rc_group st)"
proof -
  let ?cad = "cadenceOf (env_print (rr_env R)) (fg_spec (rc_group st))"
  obtain ps r where pass: "reconcilePass R u ?cad (prep_specChanged prep) (rc_pass st1) = (ps, r)" by force
  note p = pass_effect [OF pass assms(3)]
  have p': "pass_frame (ps_group ps) = pass_frame (ps_group (rc_pass st1))"
    "map fs_url (statuses ps) = map fs_url (statuses (rc_pass st1))" "\<forall>pv. r \<noteq> Crashed pv"
    using p by (blast, blast, auto)
  have "group_view (ps_group ps) = group_view (ps_group (rc_pass st1))" by (rule pass_view [OF p'(1,2)])
  then have v: "group_view (rc_group (st1\<lparr>rc_pass := ps\<rparr>)) = group_view (rc_group st)"
    using webhook_view [OF assms(1)] by (simp add: rc_group_def)
  show ?thesis
  proof (cases r)
    case (Processed vp)
    obtain vd plan where vp: "vp = (vd, plan)" by force
    obtain st2 rs where s: "settleGroup R (prep_snapshot prep) ?cad (plan_requeue plan ?cad (v_retry vd) (v_retry_after vd))
      None (st1\<lparr>rc_pass := ps\<rparr>) = (st2, rs)" by force
    then have "st' = st2" "\<forall>p. res \<noteq> ReconcileCrash p" "\<nexists>p e. res = PanicError p e"
      using assms(1,2) pass Processed vp by (auto simp: reconcile_prepared_def settled_def split: sum.splits)
    then show ?thesis
      using settle_settles [of R _ _ _ _ True, folded settleGroup_def, OF s] v unfolding settled_result_def
      by (intro exI [of _ "rc_group (st1\<lparr>rc_pass := ps\<rparr>)"] exI [of _ True]) auto
  next
    case (FeedPanicked fp)
    obtain st2 rs where s: "settle R (prep_snapshot prep) ?cad (retryRequeue ?cad) (Some (PassPanicked fp)) False
      (st1\<lparr>rc_pass := ps\<rparr>) = (st2, rs)" by force
    then have "st' = st2" "\<exists>e. res = PanicError fp e"
      using assms(1,2) pass FeedPanicked by (auto simp: reconcile_prepared_def split: sum.splits)
    then show ?thesis
      using settle_settles [OF s] v unfolding settled_result_def
      by (intro exI [of _ "rc_group (st1\<lparr>rc_pass := ps\<rparr>)"] exI [of _ False]) auto
  next
    case (Crashed pv)
    then show ?thesis using p'(3) by simp
  qed
qed

text \<open>C9: Every reconcile that read its FeedGroup settles: it never dereferences a
  missing status, whatever the feeds, the renderer and the webhook do; the final status, with what every processed feed
  recorded, either is the one it started from or has been handed to the API server; and the
  generation counts as observed exactly when no feed panicked, so that a changed spec still
  forces every feed due on the retry of a panicked pass.\<close>

theorem reconcile_settles:
  assumes "distinct (map rss_url (sp_feeds (fg_spec g0)))" "prepareStatus g0 = (g, prep)" "rc_group st = g"
    and "reconcile_prepared R prep st = (st', res)"
  shows "(\<forall>p. res \<noteq> ReconcileCrash p) \<and>
    (same_group_status (prep_snapshot prep) (fg_status (rc_group st')) \<or> StatusApplied (rc_group st') \<in> set (rc_events st')) \<and>
    map fs_url (gs_feeds (fg_status (rc_group st'))) = map rss_url (sp_feeds (fg_spec g0)) \<and>
    observed_generation (fg_status (rc_group st')) =
      (case res of PanicError p e \<Rightarrow> observed_generation (fg_status g0) | _ \<Rightarrow> fg_generation g0)"
proof -
  have v0: "group_view (rc_group st) = (fg_spec g0, fg_generation g0, observed_generation (fg_status g0), map rss_url (sp_feeds (fg_spec g0)))"
    using prepare_view(1) [OF assms(1,2)] assms(3) by simp
  obtain st1 w where web: "webhook R st = (st1, w)" by force
  have "settled_result st' res (prep_snapshot prep) (rc_group st)"
  proof (cases w)
    case (Inl err)
    then show ?thesis using settled_without_webhook web assms(4) by blast
  next
    case (Inr u)
    have "all_known (rc_pass st1)"
      using v0 webhook_view [OF web] by (auto simp: all_known_def group_view_def rc_group_def)
    then show ?thesis using settled_after_pass web Inr assms(4) by blast
  qed
  then show ?thesis
    using v0 by (auto simp: settled_result_def settled_as_def group_view_def split: reconcile_result.split)
qed


subsection \<open>Witnesses\<close>

definition example_reconciler :: "(string, unit) reconciler" where
  "example_reconciler = \<lparr>rr_get = (\<lambda>w. (Inr two_feeds, w)),
     rr_secret = (\<lambda>ns n w. (Inr \<lparr>ws_data = [(''url'', ''https://discord.com/api/webhooks/1'')], ws_version = ''7''\<rparr>, w)),
     rr_apply = (\<lambda>g w. (None, w)),
     rr_fetch = (\<lambda>i url e m. \<lparr>fo_result = example_fetch, fo_err = Some (DNSError ''no such host'' False)\<rparr>),
     rr_sender = (\<lambda>url m w. (SendOk, w)), rr_renderer = (\<lambda>g f. Inr title_renderer), rr_env = plain_env,
     rr_conditions = list_conditions 0, rr_recorder = True, rr_now = 1700000000000000000,
     rr_clock = (\<lambda>n. 1700000000000000000), rr_jitter = id, rr_stack = []\<rparr>"

definition example_pass :: "(string, unit) pass_state" where
  "example_pass = \<lparr>ps_group = example_group [example_feed ''https://a''] [new_feed_status ''https://a''],
     ps_log = [], ps_ticks = 0, ps_world = ()\<rparr>"

definition example_cadence :: cadence where
  "example_cadence = cadenceOf (\<lambda>_. True) (fg_spec (ps_group example_pass))"

lemma pass_contained_witness:
  "map fs_url (statuses (fst (reconcilePass example_reconciler ''https://discord.com/x'' example_cadence True example_pass)))
     = [''https://a'']"
proof -
  have known: "\<forall>feed \<in> set (sp_feeds (fg_spec (ps_group example_pass))). rss_url feed \<in> set (map fs_url (statuses example_pass))"
    by (simp add: example_pass_def example_group_def example_feed_def new_feed_status_def)
  let ?r = "reconcilePass example_reconciler ''https://discord.com/x'' example_cadence True example_pass"
  have "map fs_url (statuses (fst ?r)) = map fs_url (statuses example_pass)"
    using pass_contained [of example_reconciler "''https://discord.com/x''" example_cadence
        True example_pass "fst ?r" "snd ?r", OF _ known] by simp
  then show ?thesis by (simp add: example_pass_def example_group_def new_feed_status_def)
qed

lemma reconcile_settles_witness:
  "let (g, prep) = prepareStatus two_feeds;
       st = \<lparr>rc_pass = \<lparr>ps_group = g, ps_log = [], ps_ticks = 0, ps_world = ()\<rparr>, rc_events = []\<rparr>
   in map fs_url (gs_feeds (fg_status (rc_group (fst (reconcile_prepared example_reconciler prep st))))) = [''https://a'', ''https://b'']"
proof -
  have d: "distinct (map rss_url (sp_feeds (fg_spec two_feeds)))"
    by (simp add: two_feeds_def example_group_def example_feed_def)
  obtain g prep where prep: "prepareStatus two_feeds = (g, prep)" by force
  let ?st = "\<lparr>rc_pass = \<lparr>ps_group = g, ps_log = [], ps_ticks = 0, ps_world = ()\<rparr>, rc_events = []\<rparr>"
  obtain st' res where r: "reconcile_prepared example_reconciler prep ?st = (st', res)" by force
  have "map rss_url (sp_feeds (fg_spec two_feeds)) = [''https://a'', ''https://b'']"
    by (simp add: two_feeds_def example_group_def example_feed_def)
  then show ?thesis using reconcile_settles [OF d prep _ r] prep r by (simp add: rc_group_def)
qed

end
