(* ===== verification/Fetch_Pool.thy ===== *)
theory Fetch_Pool
  imports Reconcile
begin

text \<open>
  The goroutines of \<open>fetchAll\<close> (\<^verbatim>\<open>feedgroup_controller.go\<close>) as a step relation.  Each feed has
  a worker that is waiting for a slot of the semaphore, fetching, or done with its outcome; a
  step lets one worker take a free slot, or lets one fetch end and give its slot back.
  \<open>answers i out\<close> says that \<open>out\<close> is a possible outcome of the \<open>i\<close>-th fetch.
\<close>

datatype worker = Waiting | Fetching | Finished fetch_outcome

definition fetching_count :: "worker list \<Rightarrow> nat" where
  "fetching_count ws = length (filter (\<lambda>w. w = Fetching) ws)"

inductive fetch_step :: "(nat \<Rightarrow> fetch_outcome \<Rightarrow> bool) \<Rightarrow> worker list \<Rightarrow> worker list \<Rightarrow> bool"
  for answers where
  acquire: "i < length ws \<Longrightarrow> ws ! i = Waiting \<Longrightarrow> fetching_count ws < maxConcurrentFetches \<Longrightarrow>
     fetch_step answers ws (ws[i := Fetching])"
| finish: "i < length ws \<Longrightarrow> ws ! i = Fetching \<Longrightarrow> answers i out \<Longrightarrow>
     fetch_step answers ws (ws[i := Finished out])"

inductive_cases fetch_stepE: "fetch_step answers ws ws'"

inductive fetch_steps :: "(nat \<Rightarrow> fetch_outcome \<Rightarrow> bool) \<Rightarrow> nat \<Rightarrow> worker list \<Rightarrow> worker list \<Rightarrow> bool"
  for answers where
  steps_refl: "fetch_steps answers 0 ws ws"
| steps_more: "fetch_steps answers k ws ws' \<Longrightarrow> fetch_step answers ws' ws'' \<Longrightarrow>
     fetch_steps answers (Suc k) ws ws''"

definition pool_done :: "worker list \<Rightarrow> bool" where
  "pool_done ws \<longleftrightarrow> (\<forall>w \<in> set ws. \<exists>out. w = Finished out)"

definition start_pool :: "'a list \<Rightarrow> worker list" where
  "start_pool feeds = map (\<lambda>_. Waiting) feeds"

subsection \<open>Invariant\<close>

definition pool_ok :: "(nat \<Rightarrow> fetch_outcome \<Rightarrow> bool) \<Rightarrow> nat \<Rightarrow> worker list \<Rightarrow> bool" where
  "pool_ok answers n ws \<longleftrightarrow> length ws = n \<and> fetching_count ws \<le> maxConcurrentFetches \<and>
     (\<forall>i < n. \<forall>out. ws ! i = Finished out \<longrightarrow> answers i out)"

lemma count_update:
  assumes "i < length ws"
  shows "length (filter P (ws[i := x])) + (if P (ws ! i) then 1 else 0) = length (filter P ws) + (if P x then 1 else 0)"
proof -
  have ws: "ws = take i ws @ ws ! i # drop (Suc i) ws" using assms by (rule id_take_nth_drop)
  have up: "ws[i := x] = take i ws @ x # drop (Suc i) ws" using assms by (rule upd_conv_take_nth_drop)
  have "length (filter P ws) = length (filter P (take i ws)) + (if P (ws ! i) then 1 else 0) + length (filter P (drop (Suc i) ws))"
    by (subst ws) (simp del: append_take_drop_id)
  moreover have "length (filter P (ws[i := x])) = length (filter P (take i ws)) + (if P x then 1 else 0) + length (filter P (drop (Suc i) ws))"
    by (simp add: up)
  ultimately show ?thesis by simp
qed

lemma pool_step_ok: "fetch_step answers ws ws' \<Longrightarrow> pool_ok answers n ws \<Longrightarrow> pool_ok answers n ws'"
proof (induction rule: fetch_step.induct)
  case (acquire i ws)
  then show ?case
    using count_update [of i ws "\<lambda>w. w = Fetching" Fetching]
    by (auto simp: pool_ok_def fetching_count_def nth_list_update)
next
  case (finish i ws out)
  then show ?case
    using count_update [of i ws "\<lambda>w. w = Fetching" "Finished out"]
    by (auto simp: pool_ok_def fetching_count_def nth_list_update)
qed

lemma pool_steps_ok: "fetch_steps answers k ws ws' \<Longrightarrow> pool_ok answers n ws \<Longrightarrow> pool_ok answers n ws'"
  by (induction rule: fetch_steps.induct) (auto intro: pool_step_ok)

lemma start_ok: "pool_ok answers (length feeds) (start_pool feeds)"
  by (simp add: pool_ok_def start_pool_def fetching_count_def)

subsection \<open>Progress and termination\<close>

text \<open>What is left to do: two steps for a waiting worker, one for a fetching one.\<close>

fun worker_rank :: "worker \<Rightarrow> nat" where
  "worker_rank Waiting = 2"
| "worker_rank Fetching = 1"
| "worker_rank (Finished out) = 0"

definition pool_rank :: "worker list \<Rightarrow> nat" where
  "pool_rank ws = sum_list (map worker_rank ws)"

lemma rank_update: "i < length ws \<Longrightarrow> pool_rank (ws[i := x]) + worker_rank (ws ! i) = pool_rank ws + worker_rank x"
proof (induction ws arbitrary: i)
  case (Cons w ws)
  then show ?case by (cases i) (auto simp: pool_rank_def)
qed simp

lemma step_rank: "fetch_step answers ws ws' \<Longrightarrow> pool_rank ws = Suc (pool_rank ws')"
proof (induction rule: fetch_step.induct)
  case (acquire i ws)
  then show ?case using rank_update [of i ws Fetching] by simp
next
  case (finish i ws out)
  then show ?case using rank_update [of i ws "Finished out"] by simp
qed

lemma steps_rank: "fetch_steps answers k ws ws' \<Longrightarrow> pool_rank ws = k + pool_rank ws'"
  by (induction rule: fetch_steps.induct) (auto dest: step_rank)

lemma rank_zero: "pool_rank ws = 0 \<longleftrightarrow> pool_done ws"
proof -
  have "worker_rank w = 0 \<longleftrightarrow> (\<exists>out. w = Finished out)" for w by (cases w) auto
  then show ?thesis by (simp add: pool_rank_def pool_done_def)
qed

lemma pool_progress:
  assumes "\<forall>i < length ws. \<exists>out. answers i out" "\<not> pool_done ws"
  shows "\<exists>ws'. fetch_step answers ws ws'"
proof (cases "\<exists>i < length ws. ws ! i = Fetching")
  case True
  then obtain i out where "i < length ws" "ws ! i = Fetching" "answers i out" using assms(1) by blast
  then show ?thesis by (blast intro: fetch_step.finish)
next
  case False
  have "filter (\<lambda>w. w = Fetching) ws = []"
    using False by (metis (full_types) filter_False in_set_conv_nth)
  then have free: "fetching_count ws < maxConcurrentFetches" by (simp add: fetching_count_def maxConcurrentFetches_def)
  obtain w where w: "w \<in> set ws" "\<forall>out. w \<noteq> Finished out" using assms(2) unfolding pool_done_def by blast
  then obtain i where i: "i < length ws" "ws ! i = w" by (auto simp: in_set_conv_nth)
  then have "ws ! i = Waiting" using False w by (cases w) auto
  then show ?thesis using i(1) free by (blast intro: fetch_step.acquire)
qed

lemma start_rank: "pool_rank (start_pool feeds) = 2 * length feeds"
  by (induction feeds) (simp_all add: pool_rank_def start_pool_def)

subsection \<open>The pool computes the sequential fetch\<close>

lemma fetch_from_nth:
  assumes "fetch_from f statuses i feeds = Some outs"
  shows "length outs = length feeds \<and> (\<forall>j < length feeds. \<exists>fs.
    feed_status_for statuses (rss_url (feeds ! j)) = Some fs \<and>
    outs ! j = f (i + j) (rss_url (feeds ! j)) (etag fs) (last_modified fs))"
  using assms
proof (induction feeds arbitrary: i outs)
  case (Cons feed feeds)
  then obtain fs rest where "feed_status_for statuses (rss_url feed) = Some fs"
    "fetch_from f statuses (Suc i) feeds = Some rest" "outs = f i (rss_url feed) (etag fs) (last_modified fs) # rest"
    by (auto split: option.splits)
  moreover from this(2) Cons.IH have "length rest = length feeds \<and> (\<forall>j < length feeds. \<exists>fs.
    feed_status_for statuses (rss_url (feeds ! j)) = Some fs \<and>
    rest ! j = f (Suc i + j) (rss_url (feeds ! j)) (etag fs) (last_modified fs))" by blast
  ultimately show ?case by (auto simp: nth_Cons split: nat.splits)
qed simp

text \<open>The answer of the \<open>i\<close>-th worker: the fetch with its feed's own validators.\<close>

definition answer_of :: "(nat \<Rightarrow> string \<Rightarrow> string \<Rightarrow> string \<Rightarrow> fetch_outcome) \<Rightarrow> feed_group
    \<Rightarrow> feed_spec list \<Rightarrow> nat \<Rightarrow> fetch_outcome \<Rightarrow> bool" where
  "answer_of f g feeds i out \<longleftrightarrow>
     (case feed_status_for (gs_feeds (fg_status g)) (rss_url (feeds ! i)) of
        None \<Rightarrow> False
      | Some fs \<Rightarrow> out = f i (rss_url (feeds ! i)) (etag fs) (last_modified fs))"

lemma pool_answers:
  assumes "fetchAll f g feeds = Some outs" "i < length feeds"
  shows "answer_of f g feeds i out \<longleftrightarrow> out = outs ! i"
  using fetch_from_nth [OF assms(1) [unfolded fetchAll_def]] assms(2) by (auto simp: answer_of_def)

lemma pool_counts:
  assumes "fetch_steps (answer_of f g feeds) k (start_pool feeds) ws"
  shows "2 * length feeds = k + pool_rank ws" "pool_done ws \<longleftrightarrow> k = 2 * length feeds"
  using steps_rank [OF assms] rank_zero [of ws] by (auto simp: start_rank)

lemma pool_continues:
  assumes "fetchAll f g feeds = Some outs" "fetch_steps (answer_of f g feeds) k (start_pool feeds) ws"
  shows "pool_done ws \<or> (\<exists>ws'. fetch_step (answer_of f g feeds) ws ws')"
proof -
  have "length ws = length feeds" using pool_steps_ok [OF assms(2) start_ok] by (simp add: pool_ok_def)
  then show ?thesis using pool_progress [of ws "answer_of f g feeds"] pool_answers [OF assms(1)] by metis
qed

text \<open>C24: However the goroutines are scheduled, \<open>fetchAll\<close> returns: the barrier it waits at opens after
  exactly two steps per feed and until then some goroutine can take a step, so that every
  schedule can be continued to that many steps and no schedule has more.\<close>

theorem fetch_pool_terminates:
  assumes "fetchAll f g feeds = Some outs" "fetch_steps (answer_of f g feeds) k (start_pool feeds) ws"
  shows "k \<le> 2 * length feeds \<and> (pool_done ws \<longleftrightarrow> k = 2 * length feeds) \<and>
    (pool_done ws \<or> (\<exists>ws'. fetch_step (answer_of f g feeds) ws ws'))"
  using pool_counts [OF assms(2)] pool_continues [OF assms] by simp

text \<open>C23: The goroutines compute the sequential fetch: under every schedule at most ten fetches are under
  way at any time, and at the barrier every outcome is at the position of its feed and is the
  one a fetch with that feed's stored validators gives.\<close>

theorem fetch_pool_correct:
  assumes "fetchAll f g feeds = Some outs" "fetch_steps (answer_of f g feeds) k (start_pool feeds) ws"
  shows "fetching_count ws \<le> maxConcurrentFetches \<and> (if pool_done ws then ws = map Finished outs else k < 2 * length feeds)"
proof -
  have ok: "pool_ok (answer_of f g feeds) (length feeds) ws"
    using pool_steps_ok [OF assms(2) start_ok] .
  have "ws = map Finished outs" if "pool_done ws"
  proof (rule nth_equalityI)
    show len: "length ws = length (map Finished outs)"
      using ok fetch_from_nth [OF assms(1) [unfolded fetchAll_def]] by (simp add: pool_ok_def)
    fix i assume i: "i < length ws"
    then obtain out where out: "ws ! i = Finished out"
      using \<open>pool_done ws\<close> nth_mem [OF i] unfolding pool_done_def by blast
    then show "ws ! i = map Finished outs ! i"
      using ok i len pool_answers [OF assms(1)] by (auto simp: pool_ok_def)
  qed
  then show ?thesis using ok pool_counts [OF assms(2)] by (auto simp: pool_ok_def)
qed

definition two_answers :: "nat \<Rightarrow> string \<Rightarrow> string \<Rightarrow> string \<Rightarrow> fetch_outcome" where
  "two_answers i url e m = \<lparr>fo_result = \<lparr>fr_entries = [], fr_feed_title = url, fr_etag = e,
     fr_last_modified = m, fr_not_modified = (i = 0)\<rparr>, fo_err = None\<rparr>"

text \<open>The second fetch ends before the first has started; then the first one is fetched too.\<close>

definition pair_group :: feed_group where
  "pair_group = example_group [] [new_feed_status ''a'', new_feed_status ''b'']"

abbreviation pair_feeds :: "feed_spec list" where
  "pair_feeds \<equiv> [example_feed ''a'', example_feed ''b'']"

definition pair_outs :: "fetch_outcome list" where
  "pair_outs = [two_answers 0 ''a'' [] [], two_answers 1 ''b'' [] []]"

lemma pair_fetched: "fetchAll two_answers pair_group pair_feeds = Some pair_outs"
  by (simp add: fetchAll_def pair_group_def pair_outs_def example_group_def example_feed_def new_feed_status_def)

lemma pair_steps:
  "fetch_steps (answer_of two_answers pair_group pair_feeds) 2 (start_pool pair_feeds) [Waiting, Finished (pair_outs ! 1)]"
  "fetch_steps (answer_of two_answers pair_group pair_feeds) 4 (start_pool pair_feeds)
     [Finished (pair_outs ! 0), Finished (pair_outs ! 1)]"
proof -
  let ?A = "answer_of two_answers pair_group pair_feeds"
  have answers: "?A 0 (pair_outs ! 0)" "?A (Suc 0) (pair_outs ! 1)"
    using pool_answers [OF pair_fetched] by simp_all
  have acquire: "fetch_step ?A ws (ws[i := Fetching])" if "ws ! i = Waiting" "length ws = 2" "i < 2" for ws i
  proof (rule fetch_step.acquire)
    show "fetching_count ws < maxConcurrentFetches"
      using that(2) length_filter_le [of "\<lambda>w. w = Fetching" ws] by (simp add: fetching_count_def maxConcurrentFetches_def)
  qed (use that in simp_all)
  have one: "fetch_step ?A [Waiting, Waiting] [Waiting, Fetching]" using acquire [of "[Waiting, Waiting]" 1] by simp
  have two: "fetch_step ?A [Waiting, Fetching] [Waiting, Finished (pair_outs ! 1)]"
    using fetch_step.finish [of 1 "[Waiting, Fetching]" ?A "pair_outs ! 1"] answers by simp
  have three: "fetch_step ?A [Waiting, w] [Fetching, w]" for w using acquire [of "[Waiting, w]" 0] by simp
  have four: "fetch_step ?A [Fetching, w] [Finished (pair_outs ! 0), w]" for w
    using fetch_step.finish [of 0 "[Fetching, w]" ?A "pair_outs ! 0"] answers by simp
  have "fetch_steps ?A (Suc (Suc 0)) [Waiting, Waiting] [Waiting, Finished (pair_outs ! 1)]"
    using steps_more [OF steps_more [OF steps_refl one] two] .
  then show half: "fetch_steps ?A 2 (start_pool pair_feeds) [Waiting, Finished (pair_outs ! 1)]"
    by (simp add: start_pool_def numeral_2_eq_2)
  show "fetch_steps ?A 4 (start_pool pair_feeds) [Finished (pair_outs ! 0), Finished (pair_outs ! 1)]"
    using steps_more [OF steps_more [OF half three] four] by (simp add: eval_nat_numeral)
qed

lemma fetch_pool_terminates_witness:
  "\<not> pool_done [Waiting, Finished (pair_outs ! 1)] \<and>
   (\<exists>ws'. fetch_step (answer_of two_answers pair_group pair_feeds) [Waiting, Finished (pair_outs ! 1)] ws')"
  using fetch_pool_terminates [OF pair_fetched pair_steps(1)] by (simp, blast)

lemma fetch_pool_correct_witness:
  "pool_done [Finished (pair_outs ! 0), Finished (pair_outs ! 1)] \<and>
   [Finished (pair_outs ! 0), Finished (pair_outs ! 1)] = map Finished pair_outs"
  using fetch_pool_correct [OF pair_fetched pair_steps(2)] by (simp add: pool_done_def)

end
