(* ===== verification/Metrics.thy ===== *)
theory Metrics
  imports Group_Status_Laws
begin

text \<open>
  The metric series of the FeedGroups (\<^verbatim>\<open>internal/controller/metrics.go\<close>).  The registry is a
  record with one map per vector, from the label values of a series to its value: a counter,
  a gauge, or the observations of a histogram.  A label tuple without a value has no series.
\<close>

type_synonym group_labels = "string \<times> string"

record registry =
  feedOperationsTotal :: "group_labels \<times> string \<times> string \<Rightarrow> nat option"
  feedRequestDuration :: "group_labels \<times> string \<Rightarrow> int list option"
  feedLastSuccessTimestamp :: "group_labels \<Rightarrow> int option"
  feedHealthy :: "group_labels \<times> string \<Rightarrow> bool option"
  feedLastCheckedTimestamp :: "group_labels \<times> string \<Rightarrow> int option"
  messageOverflowChars :: "group_labels \<Rightarrow> int list option"
  feedGroupReconcileDuration :: "group_labels \<Rightarrow> int list option"

definition metricsFor :: "feed_group \<Rightarrow> group_labels" where
  "metricsFor g = (fg_namespace g, fg_name g)"

subsection \<open>Writing\<close>

definition observe :: "'k \<Rightarrow> int \<Rightarrow> ('k \<Rightarrow> int list option) \<Rightarrow> 'k \<Rightarrow> int list option" where
  "observe k x h = h(k := Some ((case h k of None \<Rightarrow> [] | Some xs \<Rightarrow> xs) @ [x]))"

definition operation :: "group_labels \<Rightarrow> string \<Rightarrow> string \<Rightarrow> registry \<Rightarrow> registry" where
  "operation m url outcome r = r\<lparr>feedOperationsTotal := (feedOperationsTotal r)((m, url, outcome) :=
     Some (Suc (case feedOperationsTotal r (m, url, outcome) of None \<Rightarrow> 0 | Some n \<Rightarrow> n)))\<rparr>"

definition requestDuration :: "group_labels \<Rightarrow> string \<Rightarrow> int \<Rightarrow> registry \<Rightarrow> registry" where
  "requestDuration m oper d r = r\<lparr>feedRequestDuration := observe (m, oper) d (feedRequestDuration r)\<rparr>"

definition checkSucceeded :: "group_labels \<Rightarrow> int \<Rightarrow> registry \<Rightarrow> registry" where
  "checkSucceeded m at r = r\<lparr>feedLastSuccessTimestamp := (feedLastSuccessTimestamp r)(m := Some (unix at))\<rparr>"

definition overflow_chars :: "group_labels \<Rightarrow> int \<Rightarrow> registry \<Rightarrow> registry" where
  "overflow_chars m chars r = r\<lparr>messageOverflowChars := observe m chars (messageOverflowChars r)\<rparr>"

definition reconcileDuration :: "group_labels \<Rightarrow> int \<Rightarrow> registry \<Rightarrow> registry" where
  "reconcileDuration m d r = r\<lparr>feedGroupReconcileDuration := observe m d (feedGroupReconcileDuration r)\<rparr>"

subsection \<open>Removing\<close>

text \<open>\<open>DeletePartialMatch\<close>: the series whose labels satisfy a predicate are gone.\<close>

definition drop_series :: "('k \<Rightarrow> bool) \<Rightarrow> ('k \<Rightarrow> 'v option) \<Rightarrow> 'k \<Rightarrow> 'v option" where
  "drop_series P s = (\<lambda>k. if P k then None else s k)"

definition forget :: "group_labels \<Rightarrow> registry \<Rightarrow> registry" where
  "forget m r =
     \<lparr>feedOperationsTotal = drop_series (\<lambda>(g, _). g = m) (feedOperationsTotal r),
      feedRequestDuration = drop_series (\<lambda>(g, _). g = m) (feedRequestDuration r),
      feedLastSuccessTimestamp = drop_series (\<lambda>g. g = m) (feedLastSuccessTimestamp r),
      feedHealthy = drop_series (\<lambda>(g, _). g = m) (feedHealthy r),
      feedLastCheckedTimestamp = drop_series (\<lambda>(g, _). g = m) (feedLastCheckedTimestamp r),
      messageOverflowChars = drop_series (\<lambda>g. g = m) (messageOverflowChars r),
      feedGroupReconcileDuration = drop_series (\<lambda>g. g = m) (feedGroupReconcileDuration r)\<rparr>"

definition forgetFeed :: "group_labels \<Rightarrow> string \<Rightarrow> registry \<Rightarrow> registry" where
  "forgetFeed m url r =
     r\<lparr>feedOperationsTotal := drop_series (\<lambda>(g, u, _). g = m \<and> u = url) (feedOperationsTotal r),
       feedHealthy := drop_series (\<lambda>(g, u). g = m \<and> u = url) (feedHealthy r),
       feedLastCheckedTimestamp := drop_series (\<lambda>(g, u). g = m \<and> u = url) (feedLastCheckedTimestamp r)\<rparr>"

subsection \<open>The state of the feeds\<close>

definition paused_url :: "feed_spec list \<Rightarrow> string \<Rightarrow> bool" where
  "paused_url feeds url \<longleftrightarrow> (\<exists>feed \<in> set feeds. rss_url feed = url \<and> sp_paused feed)"

definition sync_feed :: "group_labels \<Rightarrow> feed_spec list \<Rightarrow> feed_status \<Rightarrow> registry \<Rightarrow> registry" where
  "sync_feed m feeds fs r =
     (let k = (m, fs_url fs) in
      if fs_url fs = [] then r
      else if paused_url feeds (fs_url fs)
      then r\<lparr>feedHealthy := (feedHealthy r)(k := None),
             feedLastCheckedTimestamp := (feedLastCheckedTimestamp r)(k := None)\<rparr>
      else r\<lparr>feedHealthy := (feedHealthy r)(k := Some (\<not> check_failed fs)),
             feedLastCheckedTimestamp := (feedLastCheckedTimestamp r)(k := map_option unix (check_last_checked fs))\<rparr>)"

definition syncFeedState :: "group_labels \<Rightarrow> feed_group \<Rightarrow> registry \<Rightarrow> registry" where
  "syncFeedState m g r = fold (sync_feed m (sp_feeds (fg_spec g))) (gs_feeds (fg_status g)) r"

subsection \<open>What a sync leaves\<close>

lemma sync_feed_other:
  "k \<noteq> (m, fs_url fs) \<Longrightarrow> feedHealthy (sync_feed m feeds fs r) k = feedHealthy r k \<and>
     feedLastCheckedTimestamp (sync_feed m feeds fs r) k = feedLastCheckedTimestamp r k"
  by (simp add: sync_feed_def Let_def)

lemma sync_feeds_other:
  "k \<notin> (\<lambda>fs. (m, fs_url fs)) ` set fss \<Longrightarrow>
     feedHealthy (fold (sync_feed m feeds) fss r) k = feedHealthy r k \<and>
     feedLastCheckedTimestamp (fold (sync_feed m feeds) fss r) k = feedLastCheckedTimestamp r k"
proof (induction fss arbitrary: r)
  case (Cons fs fss)
  then show ?case using sync_feed_other [of k m fs feeds r] by simp
qed simp

lemma sync_feed_set:
  "fs_url fs \<noteq> [] \<Longrightarrow> feedHealthy (sync_feed m feeds fs r) (m, fs_url fs) =
      (if paused_url feeds (fs_url fs) then None else Some (last_error fs = [])) \<and>
    feedLastCheckedTimestamp (sync_feed m feeds fs r) (m, fs_url fs) =
      (if paused_url feeds (fs_url fs) then None else map_option unix (parse_rfc3339 (last_checked fs)))"
  by (simp add: sync_feed_def Let_def check_failed_def check_last_checked_def)

lemma sync_feeds_set:
  assumes "distinct (map fs_url fss)" "fs \<in> set fss" "fs_url fs \<noteq> []"
  shows "feedHealthy (fold (sync_feed m feeds) fss r) (m, fs_url fs) =
      (if paused_url feeds (fs_url fs) then None else Some (last_error fs = [])) \<and>
    feedLastCheckedTimestamp (fold (sync_feed m feeds) fss r) (m, fs_url fs) =
      (if paused_url feeds (fs_url fs) then None else map_option unix (parse_rfc3339 (last_checked fs)))"
  using assms
proof (induction fss arbitrary: r)
  case (Cons x fss)
  show ?case
  proof (cases "fs = x")
    case True
    then have "(m, fs_url fs) \<notin> (\<lambda>fs. (m, fs_url fs)) ` set fss" using Cons.prems(1) by auto
    from sync_feeds_other [OF this] show ?thesis
      using sync_feed_set [of fs m feeds r] True Cons.prems(3) by simp
  next
    case False
    then show ?thesis using Cons by simp
  qed
qed simp

lemma sync_feeds_rest:
  "feedOperationsTotal (fold (sync_feed m feeds) fss r) = feedOperationsTotal r"
proof (induction fss arbitrary: r)
  case (Cons fs fss)
  moreover have "feedOperationsTotal (sync_feed m feeds fs r) = feedOperationsTotal r"
    by (simp add: sync_feed_def Let_def)
  ultimately show ?case by simp
qed simp

text \<open>The per-feed series of a group.\<close>

definition feed_series :: "group_labels \<Rightarrow> registry \<Rightarrow> string set" where
  "feed_series m r = {url. feedHealthy r (m, url) \<noteq> None \<or> feedLastCheckedTimestamp r (m, url) \<noteq> None \<or>
     (\<exists>outcome. feedOperationsTotal r (m, url, outcome) \<noteq> None)}"

lemma forget_feed_series: "feed_series m (forgetFeed m url r) = feed_series m r - {url}"
  by (auto simp: feed_series_def forgetFeed_def drop_series_def)

lemma forget_feeds_series: "feed_series m (fold (forgetFeed m) urls r) = feed_series m r - set urls"
  by (induction urls arbitrary: r) (auto simp: forget_feed_series)

lemma sync_series:
  "feed_series m (syncFeedState m g r) \<subseteq> feed_series m r \<union> fs_url ` set (gs_feeds (fg_status g))"
proof
  fix url assume a: "url \<in> feed_series m (syncFeedState m g r)"
  show "url \<in> feed_series m r \<union> fs_url ` set (gs_feeds (fg_status g))"
  proof (cases "url \<in> fs_url ` set (gs_feeds (fg_status g))")
    case False
    then have "(m, url) \<notin> (\<lambda>fs. (m, fs_url fs)) ` set (gs_feeds (fg_status g))" by auto
    from sync_feeds_other [OF this] show ?thesis
      using a by (auto simp: feed_series_def syncFeedState_def sync_feeds_rest)
  qed simp
qed

subsection \<open>The series of a group\<close>

text \<open>The part of a registry with a group's labels, over all the vectors.\<close>

definition of_group :: "group_labels \<Rightarrow> registry \<Rightarrow> registry" where
  "of_group m r =
     \<lparr>feedOperationsTotal = drop_series (\<lambda>(g, _). g \<noteq> m) (feedOperationsTotal r),
      feedRequestDuration = drop_series (\<lambda>(g, _). g \<noteq> m) (feedRequestDuration r),
      feedLastSuccessTimestamp = drop_series (\<lambda>g. g \<noteq> m) (feedLastSuccessTimestamp r),
      feedHealthy = drop_series (\<lambda>(g, _). g \<noteq> m) (feedHealthy r),
      feedLastCheckedTimestamp = drop_series (\<lambda>(g, _). g \<noteq> m) (feedLastCheckedTimestamp r),
      messageOverflowChars = drop_series (\<lambda>g. g \<noteq> m) (messageOverflowChars r),
      feedGroupReconcileDuration = drop_series (\<lambda>g. g \<noteq> m) (feedGroupReconcileDuration r)\<rparr>"

definition empty_registry :: registry where
  "empty_registry =
     \<lparr>feedOperationsTotal = (\<lambda>_. None), feedRequestDuration = (\<lambda>_. None), feedLastSuccessTimestamp = (\<lambda>_. None),
      feedHealthy = (\<lambda>_. None), feedLastCheckedTimestamp = (\<lambda>_. None), messageOverflowChars = (\<lambda>_. None),
      feedGroupReconcileDuration = (\<lambda>_. None)\<rparr>"

lemma of_group_forget: "of_group m (forget m r) = empty_registry"
  by (auto simp: of_group_def forget_def empty_registry_def drop_series_def fun_eq_iff)

text \<open>What is written for a group is written under its labels.\<close>

lemma of_group_other:
  assumes "m' \<noteq> m"
  shows "of_group m' (operation m url outcome r) = of_group m' r"
    and "of_group m' (requestDuration m oper d r) = of_group m' r"
    and "of_group m' (checkSucceeded m at r) = of_group m' r"
    and "of_group m' (r\<lparr>feedLastSuccessTimestamp := (feedLastSuccessTimestamp r)(m := x)\<rparr>) = of_group m' r"
    and "of_group m' (overflow_chars m n r) = of_group m' r"
    and "of_group m' (reconcileDuration m d r) = of_group m' r"
    and "of_group m' (forget m r) = of_group m' r"
    and "of_group m' (forgetFeed m url r) = of_group m' r"
    and "of_group m' (sync_feed m feeds fs r) = of_group m' r"
  using assms
  by (auto simp: of_group_def drop_series_def fun_eq_iff operation_def requestDuration_def checkSucceeded_def
      overflow_chars_def reconcileDuration_def forget_def forgetFeed_def sync_feed_def observe_def Let_def)

lemma of_group_sync: "m' \<noteq> m \<Longrightarrow> of_group m' (syncFeedState m g r) = of_group m' r"
proof -
  assume "m' \<noteq> m"
  then have "of_group m' (fold (sync_feed m feeds) fss r) = of_group m' r" for feeds fss
    by (induction fss arbitrary: r) (simp_all add: of_group_other)
  then show ?thesis by (simp add: syncFeedState_def)
qed

text \<open>What the other writes do to the per-feed series.\<close>

lemma feed_series_writes [simp]:
  "feed_series m (operation m url outcome r) = insert url (feed_series m r)"
  "feed_series m (requestDuration m' oper d r) = feed_series m r"
  "feed_series m (r\<lparr>feedLastSuccessTimestamp := x\<rparr>) = feed_series m r"
  "feed_series m (overflow_chars m' n r) = feed_series m r"
  "feed_series m (reconcileDuration m' d r) = feed_series m r"
  by (auto simp: feed_series_def operation_def requestDuration_def overflow_chars_def reconcileDuration_def)

end
