(* ===== verification/Dial_Guard.thy ===== *)
theory Dial_Guard
  imports Go_Url Go_Sha256 Failures
begin

text \<open>
  The SSRF guard of the feed fetcher (\<^verbatim>\<open>internal/rss/transport.go\<close>): the \<^verbatim>\<open>net.Dialer\<close> control
  function that refuses to connect to an address that is not public, with what it uses of
  package \<^verbatim>\<open>net/netip\<close>: addresses, their parsing and printing, their predicates and prefixes.
  An IPv4 address is a 32-bit word, an IPv6 address a 128-bit word with its zone (empty for
  none).  The properties relate the guard's predicates to a list of address blocks in prefix
  notation, and say exactly which addresses pass although they are in none of them.
\<close>

unbundle bit_operations_syntax

subsection \<open>Addresses\<close>

datatype ip_addr = V4 "32 word" | V6 "128 word" string

definition v4_byte :: "nat \<Rightarrow> 32 word \<Rightarrow> 32 word" where
  "v4_byte i x = drop_bit (24 - 8 * i) x AND 255"

definition v6_u16 :: "nat \<Rightarrow> 128 word \<Rightarrow> 128 word" where
  "v6_u16 i x = drop_bit (112 - 16 * i) x AND 65535"

text \<open>\<open>netip.AddrFrom4\<close>, and an IPv6 address from its eight groups.\<close>

definition from_bytes4 :: "int list \<Rightarrow> 32 word" where
  "from_bytes4 bs = word_of_int (foldl (\<lambda>n b. 256 * n + b) 0 bs)"

definition from_groups :: "int list \<Rightarrow> 128 word" where
  "from_groups gs = word_of_int (foldl (\<lambda>n g. 65536 * n + g) 0 gs)"

fun has_zone :: "ip_addr \<Rightarrow> bool" where
  "has_zone (V4 x) = False"
| "has_zone (V6 x z) = (z \<noteq> [])"

definition is4in6 :: "128 word \<Rightarrow> bool" where
  "is4in6 x \<longleftrightarrow> drop_bit 64 x = 0 \<and> drop_bit 32 (take_bit 64 x) = 65535"

fun Unmap :: "ip_addr \<Rightarrow> ip_addr" where
  "Unmap (V4 x) = V4 x"
| "Unmap (V6 x z) = (if is4in6 x then V4 (ucast x) else V6 x z)"

text \<open>
  \<open>Prefix.Contains\<close>: the families must agree, and an address with a zone is in no prefix.
\<close>

fun prefix_contains :: "ip_addr \<Rightarrow> nat \<Rightarrow> ip_addr \<Rightarrow> bool" where
  "prefix_contains (V4 p) n (V4 x) = (drop_bit (32 - n) (x XOR p) = 0)"
| "prefix_contains (V6 p _) n (V6 x z) = (z = [] \<and> drop_bit (128 - n) (x XOR p) = 0)"
| "prefix_contains _ _ _ = False"

fun IsLoopback :: "ip_addr \<Rightarrow> bool" where
  "IsLoopback (V4 x) = (v4_byte 0 x = 127)"
| "IsLoopback (V6 x z) = (drop_bit 64 x = 0 \<and> take_bit 64 x = 1)"

fun IsLinkLocalUnicast :: "ip_addr \<Rightarrow> bool" where
  "IsLinkLocalUnicast (V4 x) = (v4_byte 0 x = 169 \<and> v4_byte 1 x = 254)"
| "IsLinkLocalUnicast (V6 x z) = (v6_u16 0 x AND 0xffc0 = 0xfe80)"

fun IsLinkLocalMulticast :: "ip_addr \<Rightarrow> bool" where
  "IsLinkLocalMulticast (V4 x) = (v4_byte 0 x = 224 \<and> v4_byte 1 x = 0 \<and> v4_byte 2 x = 0)"
| "IsLinkLocalMulticast (V6 x z) = (v6_u16 0 x AND 0xff0f = 0xff02)"

text \<open>\<open>IsUnspecified\<close> compares whole addresses, the zone included.\<close>

fun IsUnspecified :: "ip_addr \<Rightarrow> bool" where
  "IsUnspecified (V4 x) = (x = 0)"
| "IsUnspecified (V6 x z) = (x = 0 \<and> z = [])"

fun IsPrivate :: "ip_addr \<Rightarrow> bool" where
  "IsPrivate (V4 x) = (v4_byte 0 x = 10 \<or> (v4_byte 0 x = 172 \<and> v4_byte 1 x AND 0xf0 = 16) \<or>
     (v4_byte 0 x = 192 \<and> v4_byte 1 x = 168))"
| "IsPrivate (V6 x z) = (drop_bit 8 (v6_u16 0 x) AND 0xfe = 0xfc)"

fun IsMulticast :: "ip_addr \<Rightarrow> bool" where
  "IsMulticast (V4 x) = (v4_byte 0 x AND 0xf0 = 0xe0)"
| "IsMulticast (V6 x z) = (drop_bit 8 (v6_u16 0 x) = 0xff)"

subsection \<open>The guard's predicate\<close>

definition cgnatBlock :: "ip_addr \<times> nat" where
  "cgnatBlock = (V4 (from_bytes4 [100, 64, 0, 0]), 10)"
definition benchmarkingBlock :: "ip_addr \<times> nat" where
  "benchmarkingBlock = (V4 (from_bytes4 [198, 18, 0, 0]), 15)"
definition reservedBlock :: "ip_addr \<times> nat" where
  "reservedBlock = (V4 (from_bytes4 [240, 0, 0, 0]), 4)"
definition thisNetworkBlock :: "ip_addr \<times> nat" where
  "thisNetworkBlock = (V4 (from_bytes4 [0, 0, 0, 0]), 8)"
definition nat64Prefix :: "ip_addr \<times> nat" where
  "nat64Prefix = (V6 (from_groups [0x64, 0xff9b, 0, 0, 0, 0, 0, 0]) [], 96)"
definition sixToFourPrefix :: "ip_addr \<times> nat" where
  "sixToFourPrefix = (V6 (from_groups [0x2002, 0, 0, 0, 0, 0, 0, 0]) [], 16)"

abbreviation block_contains :: "ip_addr \<times> nat \<Rightarrow> ip_addr \<Rightarrow> bool" where
  "block_contains b ip \<equiv> prefix_contains (fst b) (snd b) ip"

text \<open>The switch of \<open>isPublicIP\<close>: bytes 12 to 15, or bytes 2 to 5, of the address as IPv4.\<close>

fun unwrap_embedded :: "ip_addr \<Rightarrow> ip_addr" where
  "unwrap_embedded (V4 x) = V4 x"
| "unwrap_embedded (V6 x z) =
     (if block_contains nat64Prefix (V6 x z) then V4 (ucast x)
      else if block_contains sixToFourPrefix (V6 x z) then V4 (ucast (drop_bit 80 x))
      else V6 x z)"

definition isPublicIP :: "ip_addr \<Rightarrow> bool" where
  "isPublicIP addr =
     (let ip = unwrap_embedded (Unmap addr) in
      \<not> (IsLoopback ip \<or> IsLinkLocalUnicast ip \<or> IsLinkLocalMulticast ip \<or>
         IsUnspecified ip \<or> IsPrivate ip \<or> IsMulticast ip \<or>
         block_contains cgnatBlock ip \<or> block_contains benchmarkingBlock ip \<or>
         block_contains reservedBlock ip \<or> block_contains thisNetworkBlock ip))"

subsection \<open>Parsing and printing\<close>

text \<open>
  \<open>parseIPv4Fields\<close>: \<open>dot\<close> says that no digit was read since the start or the last dot.
\<close>

fun fields4 :: "bool \<Rightarrow> nat \<Rightarrow> int \<Rightarrow> int list \<Rightarrow> string \<Rightarrow> int list option" where
  "fields4 dot digs val fs [] = (if length fs < 3 then None else Some (fs @ [val]))"
| "fields4 dot digs val fs (c # cs) =
     (if is_digit c then
        if digs = 1 \<and> val = 0 then None
        else if val * 10 + digit_val c > 255 then None
        else fields4 False (Suc digs) (val * 10 + digit_val c) fs cs
      else if c = CHR ''.'' then
        if dot \<or> cs = [] \<or> length fs = 3 then None
        else fields4 True 0 0 (fs @ [val]) cs
      else None)"

abbreviation parse_fields4 :: "string \<Rightarrow> int list option" where
  "parse_fields4 s \<equiv> fields4 True 0 0 [] s"

definition parse_v4 :: "string \<Rightarrow> ip_addr option" where
  "parse_v4 s = map_option (\<lambda>bs. V4 (from_bytes4 bs)) (parse_fields4 s)"

definition hex_number :: "string \<Rightarrow> int" where
  "hex_number ds = foldl (\<lambda>n d. 16 * n + the (hex_value d)) 0 ds"

text \<open>
  The loop of \<open>parseIPv6\<close>: the groups read, the position of the ellipsis and the unread text.
\<close>

function v6_groups :: "int list \<Rightarrow> nat option \<Rightarrow> string \<Rightarrow> (int list \<times> nat option \<times> string) option" where
  "v6_groups gs ell s =
     (if 8 \<le> length gs then Some (gs, ell, s)
      else
        let ds = takeWhile (\<lambda>c. hex_value c \<noteq> None) s; rest = drop (length ds) s in
        if ds = [] \<or> length ds > 4 then None
        else if has_prefix rest ''.'' then
          if (ell = None \<and> length gs \<noteq> 6) \<or> length gs + 2 > 8 then None
          else (case parse_fields4 s of
                  Some [a, b, c, d] \<Rightarrow> Some (gs @ [256 * a + b, 256 * c + d], ell, [])
                | _ \<Rightarrow> None)
        else
          let gs' = gs @ [hex_number ds] in
          case rest of
            [] \<Rightarrow> Some (gs', ell, [])
          | [_] \<Rightarrow> None
          | c # d # cs \<Rightarrow>
              if c \<noteq> CHR '':'' then None
              else if d = CHR '':'' then
                if ell \<noteq> None then None
                else if cs = [] then Some (gs', Some (length gs'), [])
                else v6_groups gs' (Some (length gs')) cs
              else v6_groups gs' ell (d # cs))"
  by pat_completeness auto
termination by (relation "measure (\<lambda>(gs, ell, s). 8 - length gs)") auto

declare v6_groups.simps [simp del]

definition expand_groups :: "int list \<times> nat option \<times> string \<Rightarrow> int list option" where
  "expand_groups r =
     (case r of (gs, ell, s) \<Rightarrow>
        if s \<noteq> [] then None
        else if length gs < 8 then
          map_option (\<lambda>k. take k gs @ replicate (8 - length gs) 0 @ drop k gs) ell
        else if ell \<noteq> None then None
        else Some gs)"

definition parse_v6 :: "string \<Rightarrow> ip_addr option" where
  "parse_v6 text =
     (case cut_at (CHR ''%'') text of (s, zone, found) \<Rightarrow>
        if found \<and> zone = [] then None
        else if s = ''::'' then Some (V6 0 zone)
        else do {
          r \<leftarrow> (if has_prefix s ''::'' then v6_groups [] (Some 0) (drop 2 s) else v6_groups [] None s);
          gs \<leftarrow> expand_groups r;
          Some (V6 (from_groups gs) zone)
        })"

definition ParseAddr :: "string \<Rightarrow> ip_addr option" where
  "ParseAddr s =
     (case find (\<lambda>c. c \<in> set ''.:%'') s of
        Some c \<Rightarrow> if c = CHR ''.'' then parse_v4 s else if c = CHR '':'' then parse_v6 s else None
      | None \<Rightarrow> None)"

definition ParseAddrPort :: "string \<Rightarrow> (ip_addr \<times> int) option" where
  "ParseAddrPort s =
     (case split_last (CHR '':'') s of
        None \<Rightarrow> None
      | Some (ip, port) \<Rightarrow>
          let v6 = has_prefix ip ''['' in
          if ip = [] \<or> port = [] \<or> (v6 \<and> (length ip < 2 \<or> \<not> has_suffix ip '']'')) then None
          else if \<not> list_all is_digit port \<or> digits_value port > 65535 then None
          else (case ParseAddr (if v6 then butlast (tl ip) else ip) of
                  Some (V4 x) \<Rightarrow> if v6 then None else Some (V4 x, digits_value port)
                | Some (V6 x z) \<Rightarrow> if v6 then Some (V6 x z, digits_value port) else None
                | None \<Rightarrow> None))"

definition dotted :: "32 word \<Rightarrow> string" where
  "dotted x = str_join ''.'' (map (\<lambda>i. itoa (uint (v4_byte i x))) [0..<4])"

definition hex_group :: "int \<Rightarrow> string" where
  "hex_group n = (case dropWhile (\<lambda>c. c = CHR ''0'') (hex_digits 4 n) of [] \<Rightarrow> ''0'' | ds \<Rightarrow> ds)"

text \<open>The longest run of zero groups, at least two, the first of the longest (\<open>appendTo6\<close>).\<close>

definition zero_run :: "int list \<Rightarrow> (nat \<times> nat) option" where
  "zero_run gs =
     fold (\<lambda>i best.
        let l = length (takeWhile (\<lambda>g. g = 0) (drop i gs)) in
        if 2 \<le> l \<and> l > (case best of None \<Rightarrow> 0 | Some (a, b) \<Rightarrow> b - a) then Some (i, i + l) else best)
       [0..<8] None"

definition addr_string6 :: "128 word \<Rightarrow> string" where
  "addr_string6 x =
     (let gs = map (\<lambda>i. uint (v6_u16 i x)) [0..<8] in
      case zero_run gs of
        None \<Rightarrow> str_join '':'' (map hex_group gs)
      | Some (a, b) \<Rightarrow>
          str_join '':'' (map hex_group (take a gs)) @ ''::'' @ str_join '':'' (map hex_group (drop b gs)))"

fun addr_string :: "ip_addr \<Rightarrow> string" where
  "addr_string (V4 x) = dotted x"
| "addr_string (V6 x z) =
     (if is4in6 x then ''::ffff:'' @ dotted (ucast x) else addr_string6 x) @
     (if z = [] then [] else ''%'' @ z)"

text \<open>
  \<open>guardDialControl\<close>, with the error of \<open>ParseAddrPort\<close> for a text it does not parse as a
  parameter: \<open>None\<close> lets the connection through.
\<close>

definition guardDialControl :: "(string \<Rightarrow> go_error) \<Rightarrow> string \<Rightarrow> go_error option" where
  "guardDialControl parse_error address =
     (case ParseAddrPort address of
        None \<Rightarrow> Some (parse_error address)
      | Some (ip, _) \<Rightarrow>
          let addr = Unmap ip in
          if isPublicIP addr then None else Some (BlockedAddressError (addr_string addr)))"

section \<open>What the guard lets through\<close>

text \<open>An address is in the block of a prefix when its leading bits are those of the prefix.\<close>

definition in_block :: "'a::len word \<Rightarrow> nat \<Rightarrow> 'a word \<Rightarrow> bool" where
  "in_block p n x \<longleftrightarrow> (\<forall>k \<in> set [0..<n]. bit x (LENGTH('a) - 1 - k) = bit p (LENGTH('a) - 1 - k))"

text \<open>The special-purpose blocks that are no destination for a feed.\<close>

definition internal4 :: "32 word \<Rightarrow> bool" where
  "internal4 x \<longleftrightarrow> list_ex (\<lambda>(bs, n). in_block (from_bytes4 bs) n x)
     [([0, 0, 0, 0], 8), ([10, 0, 0, 0], 8), ([100, 64, 0, 0], 10), ([127, 0, 0, 0], 8),
      ([169, 254, 0, 0], 16), ([172, 16, 0, 0], 12), ([192, 168, 0, 0], 16), ([198, 18, 0, 0], 15),
      ([224, 0, 0, 0], 4), ([240, 0, 0, 0], 4)]"

definition internal6 :: "128 word \<Rightarrow> bool" where
  "internal6 x \<longleftrightarrow> list_ex (\<lambda>(gs, n). in_block (from_groups gs) n x)
     [([0, 0, 0, 0, 0, 0, 0, 0], 128), ([0, 0, 0, 0, 0, 0, 0, 1], 128),
      ([0xfc00, 0, 0, 0, 0, 0, 0, 0], 7), ([0xfe80, 0, 0, 0, 0, 0, 0, 0], 10),
      ([0xff00, 0, 0, 0, 0, 0, 0, 0], 8)]"

definition mapped4 :: "128 word \<Rightarrow> bool" where
  "mapped4 x \<longleftrightarrow> in_block (from_groups [0, 0, 0, 0, 0, 0xffff, 0, 0]) 96 x"
definition nat64 :: "128 word \<Rightarrow> bool" where
  "nat64 x \<longleftrightarrow> in_block (from_groups [0x64, 0xff9b, 0, 0, 0, 0, 0, 0]) 96 x"
definition six_to_four :: "128 word \<Rightarrow> bool" where
  "six_to_four x \<longleftrightarrow> in_block (from_groups [0x2002, 0, 0, 0, 0, 0, 0, 0]) 16 x"

text \<open>
  An address leads into an internal network when it, or the IPv4 address it embeds (its last
  four bytes when IPv4-mapped or under the NAT64 prefix, bytes 2 to 5 under 6to4), is in one
  of the blocks.  The zone plays no part.
\<close>

fun internal_target :: "ip_addr \<Rightarrow> bool" where
  "internal_target (V4 x) = internal4 x"
| "internal_target (V6 x z) =
     (if mapped4 x \<or> nat64 x then internal4 (ucast x)
      else if six_to_four x then internal4 (ucast (drop_bit 80 x))
      else internal6 x)"

text \<open>The addresses whose zone hides what the guard would refuse without it.\<close>

fun zone_hides :: "ip_addr \<Rightarrow> bool" where
  "zone_hides (V4 x) = False"
| "zone_hides (V6 x z) = (z \<noteq> [] \<and> internal_target (V6 x z) \<and> (x = 0 \<or> nat64 x \<or> six_to_four x))"

subsection \<open>Bits\<close>

lemma in_block_drop:
  fixes x p :: "'a::len word"
  assumes "n \<le> LENGTH('a)"
  shows "in_block p n x \<longleftrightarrow> drop_bit (LENGTH('a) - n) x = drop_bit (LENGTH('a) - n) p"
proof
  assume a: "in_block p n x"
  show "drop_bit (LENGTH('a) - n) x = drop_bit (LENGTH('a) - n) p"
  proof (rule bit_word_eqI)
    fix m assume "m < LENGTH('a)"
    show "bit (drop_bit (LENGTH('a) - n) x) m = bit (drop_bit (LENGTH('a) - n) p) m"
    proof (cases "m < n")
      case True
      then have "n - 1 - m \<in> set [0..<n]" by simp
      moreover have "LENGTH('a) - 1 - (n - 1 - m) = LENGTH('a) - n + m" using True assms by simp
      ultimately show ?thesis using a unfolding in_block_def by (metis bit_drop_bit_eq comp_apply)
    next
      case False
      then have "\<not> bit x (LENGTH('a) - n + m)" "\<not> bit p (LENGTH('a) - n + m)"
        using assms bit_imp_le_length [of x "LENGTH('a) - n + m"] bit_imp_le_length [of p "LENGTH('a) - n + m"] by auto
      then show ?thesis by (simp add: bit_drop_bit_eq)
    qed
  qed
next
  assume a: "drop_bit (LENGTH('a) - n) x = drop_bit (LENGTH('a) - n) p"
  show "in_block p n x"
    unfolding in_block_def
  proof
    fix k assume "k \<in> set [0..<n]"
    then have "LENGTH('a) - 1 - k = LENGTH('a) - n + (n - 1 - k)" using assms by simp
    then show "bit x (LENGTH('a) - 1 - k) = bit p (LENGTH('a) - 1 - k)"
      using a by (metis bit_drop_bit_eq comp_apply)
  qed
qed

lemma xor_zero_iff: "x XOR p = 0 \<longleftrightarrow> x = (p :: 'a::len word)"
  by (metis xor.assoc xor.right_neutral xor_self_eq)

lemma block_xor:
  fixes x p :: "'a::len word"
  assumes "n \<le> LENGTH('a)"
  shows "drop_bit (LENGTH('a) - n) (x XOR p) = 0 \<longleftrightarrow> in_block p n x"
  by (simp add: in_block_drop [OF assms] drop_bit_xor xor_zero_iff)

lemmas block_xor4 = block_xor [where 'a = 32, simplified] and block_xor6 = block_xor [where 'a = 128, simplified]

lemma word_bits: "(x::'a::len word) = y \<longleftrightarrow> (\<forall>n \<in> set [0..<LENGTH('a)]. bit x n = bit y n)"
  by (auto intro: bit_word_eqI)

lemmas bitwise = v4_byte_def v6_u16_def in_block_def from_bytes4_def from_groups_def word_bits bit_simps upt_rec

lemma loopback4: "v4_byte 0 x = 127 \<longleftrightarrow> in_block (from_bytes4 [127, 0, 0, 0]) 8 x"
  by (simp add: bitwise) blast
lemma private4:
  "v4_byte 0 x = 10 \<longleftrightarrow> in_block (from_bytes4 [10, 0, 0, 0]) 8 x"
  "v4_byte 0 x = 172 \<and> v4_byte 1 x AND 0xf0 = 16 \<longleftrightarrow> in_block (from_bytes4 [172, 16, 0, 0]) 12 x"
  "v4_byte 0 x = 192 \<and> v4_byte 1 x = 168 \<longleftrightarrow> in_block (from_bytes4 [192, 168, 0, 0]) 16 x"
  by (simp add: bitwise, blast)+
lemma link_local4: "v4_byte 0 x = 169 \<and> v4_byte 1 x = 254 \<longleftrightarrow> in_block (from_bytes4 [169, 254, 0, 0]) 16 x"
  by (simp add: bitwise) blast
lemma multicast4: "v4_byte 0 x AND 0xf0 = 0xe0 \<longleftrightarrow> in_block (from_bytes4 [224, 0, 0, 0]) 4 x"
  by (simp add: bitwise) blast
lemma local_multicast4: "v4_byte 0 x = 224 \<Longrightarrow> v4_byte 0 x AND 0xf0 = 0xe0"
  by simp
lemma unspecified4: "x = 0 \<Longrightarrow> in_block (from_bytes4 [0, 0, 0, 0]) 8 x"
  by (simp add: in_block_def from_bytes4_def)

lemma blocks4:
  "block_contains cgnatBlock (V4 x) \<longleftrightarrow> in_block (from_bytes4 [100, 64, 0, 0]) 10 x"
  "block_contains benchmarkingBlock (V4 x) \<longleftrightarrow> in_block (from_bytes4 [198, 18, 0, 0]) 15 x"
  "block_contains reservedBlock (V4 x) \<longleftrightarrow> in_block (from_bytes4 [240, 0, 0, 0]) 4 x"
  "block_contains thisNetworkBlock (V4 x) \<longleftrightarrow> in_block (from_bytes4 [0, 0, 0, 0]) 8 x"
  using block_xor4 [of 10] block_xor4 [of 15] block_xor4 [of 4] block_xor4 [of 8]
  by (simp_all only: cgnatBlock_def benchmarkingBlock_def reservedBlock_def thisNetworkBlock_def
      fst_conv snd_conv prefix_contains.simps) simp_all

lemma public4: "isPublicIP (V4 x) \<longleftrightarrow> \<not> internal4 x"
proof -
  have "internal4 x \<longleftrightarrow> (\<exists>(bs, n) \<in> {([0, 0, 0, 0], 8), ([10, 0, 0, 0], 8), ([100, 64, 0, 0], 10), ([127, 0, 0, 0], 8),
      ([169, 254, 0, 0], 16), ([172, 16, 0, 0], 12), ([192, 168, 0, 0], 16), ([198, 18, 0, 0], 15),
      ([224, 0, 0, 0], 4), ([240, 0, 0, 0], 4)}. in_block (from_bytes4 bs) n x)"
    unfolding internal4_def list_ex_iff by (simp only: list.set)
  then show ?thesis
    using unspecified4 [of x] local_multicast4 [of x]
    unfolding isPublicIP_def Let_def Unmap.simps unwrap_embedded.simps IsLoopback.simps
      IsLinkLocalUnicast.simps IsLinkLocalMulticast.simps IsUnspecified.simps IsPrivate.simps IsMulticast.simps
      loopback4 private4 link_local4 multicast4 blocks4 bex_simps prod.case
    by blast
qed

lemma low_word_eq:
  fixes x y :: "'a::len word"
  assumes "drop_bit n x = 0" "drop_bit n y = 0"
  shows "x = y \<longleftrightarrow> (\<forall>k \<in> set [0..<n]. bit x k = bit y k)"
proof
  assume eq: "\<forall>k \<in> set [0..<n]. bit x k = bit y k"
  show "x = y"
  proof (rule bit_word_eqI)
    fix k
    show "bit x k = bit y k"
    proof (cases "k < n")
      case False
      then obtain j where k: "k = n + j" by (metis le_Suc_ex not_less)
      have "bit (drop_bit n x) j = bit (drop_bit n y) j" using assms by simp
      then show ?thesis by (simp add: bit_drop_bit_eq k)
    qed (use eq in auto)
  qed
qed auto

lemma zero6: "x = 0 \<longleftrightarrow> in_block (from_groups [0, 0, 0, 0, 0, 0, 0, 0]) 128 x"
  by (simp add: in_block_drop from_groups_def)

lemma loopback6: "drop_bit 64 x = 0 \<and> take_bit 64 x = 1 \<longleftrightarrow> in_block (from_groups [0, 0, 0, 0, 0, 0, 0, 1]) 128 x"
  using bits_ident [of 64 x] by (auto simp: in_block_drop from_groups_def)

lemma mapped4_iff: "is4in6 x \<longleftrightarrow> mapped4 x"
proof -
  have "drop_bit 64 x = drop_bit 32 (drop_bit 32 x)" by simp
  then show ?thesis
    using bits_ident [of 32 "drop_bit 32 x"] by (auto simp del: drop_bit_drop_bit simp: is4in6_def mapped4_def in_block_drop from_groups_def drop_bit_take_bit)
qed

lemma top_group: "drop_bit 16 (drop_bit 112 (x :: 128 word)) = 0" "v6_u16 0 x = drop_bit 112 x"
proof -
  show "drop_bit 16 (drop_bit 112 x) = 0"
    by (rule bit_word_eqI) (auto simp: bit_simps dest: bit_imp_le_length)
  have "take_bit 16 (drop_bit 112 x) = drop_bit 112 x"
    by (rule bit_word_eqI) (auto simp: bit_simps dest: bit_imp_le_length)
  then show "v6_u16 0 x = drop_bit 112 x"
    by (simp add: v6_u16_def take_bit_eq_mask mask_eq_exp_minus_1)
qed

lemma top_bits:
  fixes c d :: "128 word"
  assumes "drop_bit 16 d = 0" "drop_bit 16 c = 0"
  shows "drop_bit 112 x AND d = c \<longleftrightarrow> (\<forall>k \<in> set [0..<16]. (bit x (112 + k) \<and> bit d k) = bit c k)"
  using low_word_eq [of 16 "drop_bit 112 x AND d" c] assms by (simp add: bit_simps)

lemma private6: "drop_bit 8 (v6_u16 0 x) AND 0xfe = 0xfc \<longleftrightarrow> in_block (from_groups [0xfc00, 0, 0, 0, 0, 0, 0, 0]) 7 x"
proof -
  have "drop_bit 7 (drop_bit 121 x) = 0"
    by (rule bit_word_eqI) (auto simp: bit_simps dest: bit_imp_le_length)
  then show ?thesis
    using low_word_eq [of 8 "drop_bit 120 x AND 0xfe" "0xfc"] low_word_eq [of 7 "drop_bit 121 x" "0x7e"]
    by (simp add: top_group(2) in_block_drop from_groups_def bit_simps upt_rec)
qed

lemma link_local6: "v6_u16 0 x AND 0xffc0 = 0xfe80 \<longleftrightarrow> in_block (from_groups [0xfe80, 0, 0, 0, 0, 0, 0, 0]) 10 x"
proof -
  have "drop_bit 10 (drop_bit 118 x) = 0"
    by (rule bit_word_eqI) (auto simp: bit_simps dest: bit_imp_le_length)
  then show ?thesis
    using low_word_eq [of 10 "drop_bit 118 x" "0x3fa"] top_bits [of "0xffc0" "0xfe80" x]
    by (simp add: top_group(2) in_block_drop from_groups_def bit_simps upt_rec)
qed

lemma multicast6: "drop_bit 8 (v6_u16 0 x) = 0xff \<longleftrightarrow> in_block (from_groups [0xff00, 0, 0, 0, 0, 0, 0, 0]) 8 x"
  by (simp add: in_block_drop from_groups_def top_group(2))

lemma local_multicast6:
  assumes "v6_u16 0 x AND 0xff0f = 0xff02"
  shows "drop_bit 8 (v6_u16 0 x) = 0xff"
proof -
  have "drop_bit 8 (drop_bit 120 x) = 0"
    by (rule bit_word_eqI) (auto simp: bit_simps dest: bit_imp_le_length)
  then show ?thesis
    using assms low_word_eq [of 8 "drop_bit 120 x" "0xff"] top_bits [of "0xff0f" "0xff02" x]
    by (simp add: top_group(2) bit_simps upt_rec)
qed

lemma nat64_iff: "block_contains nat64Prefix (V6 x z) \<longleftrightarrow> z = [] \<and> nat64 x"
  using block_xor6 [of 96 x "from_groups [0x64, 0xff9b, 0, 0, 0, 0, 0, 0]"]
  by (simp add: nat64Prefix_def nat64_def)

lemma six_to_four_iff: "block_contains sixToFourPrefix (V6 x z) \<longleftrightarrow> z = [] \<and> six_to_four x"
  using block_xor6 [of 16 x "from_groups [0x2002, 0, 0, 0, 0, 0, 0, 0]"]
  by (simp add: sixToFourPrefix_def six_to_four_def)

text \<open>The embedding prefixes are apart from the IPv6 blocks.\<close>

lemma nat64_top: "nat64 x \<Longrightarrow> drop_bit 112 x = 0x64" "six_to_four x \<Longrightarrow> drop_bit 112 x = 0x2002"
  "mapped4 x \<Longrightarrow> drop_bit 32 x = 0xffff" "nat64 x \<Longrightarrow> drop_bit 64 x = 0x64ff9b00000000"
proof -
  assume "nat64 x"
  then have low: "drop_bit 32 x = 0x64ff9b0000000000000000"
    by (simp add: nat64_def in_block_drop from_groups_def)
  show "drop_bit 112 x = 0x64" using arg_cong [OF low, of "drop_bit 80"] by simp
  show "drop_bit 64 x = 0x64ff9b00000000" using arg_cong [OF low, of "drop_bit 32"] by simp
qed (simp_all add: six_to_four_def mapped4_def in_block_drop from_groups_def)

lemma unzoned_internal6:
  "internal6 x \<longleftrightarrow> IsLoopback (V6 x z) \<or> IsLinkLocalUnicast (V6 x z) \<or> IsLinkLocalMulticast (V6 x z) \<or>
     x = 0 \<or> IsPrivate (V6 x z) \<or> IsMulticast (V6 x z)"
proof -
  have "internal6 x \<longleftrightarrow> (\<exists>(gs, n) \<in> {([0, 0, 0, 0, 0, 0, 0, 0], 128), ([0, 0, 0, 0, 0, 0, 0, 1], 128),
      ([0xfc00, 0, 0, 0, 0, 0, 0, 0], 7), ([0xfe80, 0, 0, 0, 0, 0, 0, 0], 10),
      ([0xff00, 0, 0, 0, 0, 0, 0, 0], 8)}. in_block (from_groups gs) n x)"
    unfolding internal6_def list_ex_iff by (simp only: list.set)
  then show ?thesis
    using local_multicast6 [of x]
    unfolding IsLoopback.simps IsLinkLocalUnicast.simps IsLinkLocalMulticast.simps IsPrivate.simps IsMulticast.simps
      loopback6 private6 link_local6 multicast6 zero6 [of x] bex_simps prod.case
    by blast
qed

definition plain_public6 :: "128 word \<Rightarrow> string \<Rightarrow> bool" where
  "plain_public6 x z \<longleftrightarrow> \<not> (IsLoopback (V6 x z) \<or> IsLinkLocalUnicast (V6 x z) \<or> IsLinkLocalMulticast (V6 x z) \<or>
     IsUnspecified (V6 x z) \<or> IsPrivate (V6 x z) \<or> IsMulticast (V6 x z))"

lemma v4_blocks_not6:
  "\<not> block_contains cgnatBlock (V6 x z)" "\<not> block_contains benchmarkingBlock (V6 x z)"
  "\<not> block_contains reservedBlock (V6 x z)" "\<not> block_contains thisNetworkBlock (V6 x z)"
  by (simp_all add: cgnatBlock_def benchmarkingBlock_def reservedBlock_def thisNetworkBlock_def)

lemma public6:
  "isPublicIP (V6 x z) \<longleftrightarrow>
     (if mapped4 x then \<not> internal4 (ucast x)
      else if z = [] \<and> nat64 x then \<not> internal4 (ucast x)
      else if z = [] \<and> six_to_four x then \<not> internal4 (ucast (drop_bit 80 x))
      else plain_public6 x z)"
proof (cases "mapped4 x")
  case True
  then have "Unmap (V6 x z) = Unmap (V4 (ucast x))" by (simp add: mapped4_iff)
  then have "isPublicIP (V6 x z) = isPublicIP (V4 (ucast x))" by (simp only: isPublicIP_def)
  then show ?thesis using True by (simp add: public4)
next
  case False
  then have u: "Unmap (V6 x z) = V6 x z" by (simp add: mapped4_iff)
  have emb: "isPublicIP (V6 x z) = isPublicIP (V4 y)" if "unwrap_embedded (V6 x z) = V4 y" for y
  proof -
    have "unwrap_embedded (Unmap (V6 x z)) = V4 y" by (subst u) (rule that)
    then show ?thesis by (simp only: isPublicIP_def Unmap.simps(1) unwrap_embedded.simps(1))
  qed
  have pl: "isPublicIP (V6 x z) = plain_public6 x z" if "unwrap_embedded (V6 x z) = V6 x z"
    using that unfolding isPublicIP_def u Let_def plain_public6_def by (simp only: v4_blocks_not6 simp_thms)
  show ?thesis
    using False emb [of "ucast x"] emb [of "ucast (drop_bit 80 x)"] pl
    unfolding unwrap_embedded.simps nat64_iff six_to_four_iff public4 [symmetric] by auto
qed

lemma plain6:
  "plain_public6 x [] \<longleftrightarrow> \<not> internal6 x"
  "z \<noteq> [] \<Longrightarrow> plain_public6 x z \<longleftrightarrow> \<not> internal6 x \<or> x = 0"
proof -
  show "plain_public6 x [] \<longleftrightarrow> \<not> internal6 x"
    using unzoned_internal6 [of x "[]"] by (simp only: plain_public6_def IsUnspecified.simps) blast
  have "\<not> IsLoopback (V6 0 z)" "\<not> IsLinkLocalUnicast (V6 0 z)" "\<not> IsLinkLocalMulticast (V6 0 z)"
    "\<not> IsPrivate (V6 0 z)" "\<not> IsMulticast (V6 0 z)" by (simp_all add: v6_u16_def)
  then show "z \<noteq> [] \<Longrightarrow> plain_public6 x z \<longleftrightarrow> \<not> internal6 x \<or> x = 0"
    using unzoned_internal6 [of x z] unfolding plain_public6_def by (cases "x = 0") auto
qed

lemma plain_embedded: "nat64 x \<or> six_to_four x \<Longrightarrow> plain_public6 x z"
proof -
  assume "nat64 x \<or> six_to_four x"
  then have g: "drop_bit 112 x = 0x64 \<or> drop_bit 112 x = 0x2002" using nat64_top by blast
  have "drop_bit 112 x = drop_bit 48 (drop_bit 64 x)" by simp
  with g have "drop_bit 64 x \<noteq> 0" by (auto simp del: drop_bit_drop_bit)
  moreover have "x \<noteq> 0" using g by auto
  moreover have "v6_u16 0 x = 0x64 \<or> v6_u16 0 x = 0x2002" using g by (simp add: top_group(2))
  ultimately show ?thesis by (auto simp: plain_public6_def)
qed

lemma mapped_apart: "mapped4 x \<Longrightarrow> x \<noteq> 0 \<and> \<not> nat64 x \<and> \<not> six_to_four x"
proof -
  assume "mapped4 x"
  then have low: "drop_bit 32 x = 0xffff" by (rule nat64_top)
  have "drop_bit 112 x = 0" using arg_cong [OF low, of "drop_bit 80"] by simp
  then show ?thesis using low nat64_top [of x] by auto
qed

lemma zero_not_embedded: "\<not> nat64 0" "\<not> six_to_four 0" "\<not> mapped4 0"
  using nat64_top [of 0] by auto

lemma public_iff: "isPublicIP ip \<longleftrightarrow> \<not> internal_target ip \<or> zone_hides ip"
proof (cases ip)
  case (V4 x)
  then show ?thesis by (simp add: public4)
next
  case (V6 x z)
  consider "mapped4 x" | "\<not> mapped4 x" "z = []" | "\<not> mapped4 x" "z \<noteq> []" "nat64 x \<or> six_to_four x"
    | "\<not> mapped4 x" "z \<noteq> []" "\<not> nat64 x" "\<not> six_to_four x" by blast
  then show ?thesis
  proof cases
    case 1
    then show ?thesis using V6 mapped_apart [of x] by (simp add: public6)
  next
    case 2
    then show ?thesis using V6 by (simp add: public6 plain6)
  next
    case 3
    then have "isPublicIP ip" using V6 plain_embedded by (simp add: public6)
    then show ?thesis using 3 V6 by auto
  next
    case 4
    then show ?thesis using V6 zero_not_embedded by (simp add: public6 plain6)
  qed
qed

lemma unmap_target: "internal_target (Unmap ip) = internal_target ip" "zone_hides (Unmap ip) = zone_hides ip"
  using mapped_apart by (cases ip; force simp: mapped4_iff)+


subsection \<open>Properties\<close>

text \<open>C17: The guard lets a connection through exactly when the dialled text is an address with a
  port, and the address is in none of the special-purpose blocks (loopback, private, link-local,
  multicast, shared, benchmarking, reserved, this-network, unspecified), read through an
  IPv4-mapped, NAT64 or 6to4 address to the IPv4 address it embeds, or else its zone hides it:
  an IPv6 address with a zone that is unspecified or embeds an IPv4 address passes although it
  leads into one of the blocks.  Any other address is refused with the typed error.\<close>

theorem dial_guard_exact:
  "guardDialControl parse_error address =
     (case ParseAddrPort address of
        None \<Rightarrow> Some (parse_error address)
      | Some (ip, port) \<Rightarrow>
          if internal_target ip \<and> \<not> zone_hides ip then Some (BlockedAddressError (addr_string (Unmap ip)))
          else None)"
  by (simp add: guardDialControl_def public_iff unmap_target split: option.split)

text \<open>The zones that hide: localhost by way of the unspecified address, and the metadata address
  by way of NAT64 and 6to4; each is refused without its zone.\<close>

lemma zone_hides_targets:
  "map (guardDialControl parse_error)
     [''[::%x]:80'', ''[64:ff9b::a9fe:a9fe%x]:80'', ''[2002:a9fe:a9fe::%x]:80''] = [None, None, None]"
  "map (guardDialControl parse_error)
     [''[::]:80'', ''[64:ff9b::a9fe:a9fe]:80'', ''[2002:a9fe:a9fe::]:80'', ''[::ffff:10.0.0.1%x]:80''] =
   map (\<lambda>a. Some (BlockedAddressError a)) [''::'', ''64:ff9b::a9fe:a9fe'', ''2002:a9fe:a9fe::'', ''10.0.0.1'']"
  by code_simp+

end
