(* ===== verification/Go_Trim.thy ===== *)
theory Go_Trim
  imports Go_Text
begin

text \<open>
  Facts about \<^verbatim>\<open>strings.TrimSpace\<close>: it is idempotent, what it returns neither starts nor ends
  with white space, and it only removes bytes.  The last section is about \<^verbatim>\<open>strings.Split\<close>.
\<close>

lemma decode_rune_append:
  assumes "bs \<noteq> []" "fst (decode_rune bs) \<noteq> rune_error"
  shows "decode_rune (bs @ cs) = decode_rune bs"
proof -
  obtain b rest where bs: "bs = b # rest" using assms(1) by (cases bs) auto
  show ?thesis
    using assms(2) unfolding bs
    by (cases rest; cases "tl rest"; cases "tl (tl rest)") (auto simp: decode_rune.simps(2))
qed

lemma rune_error_no_space: "\<not> is_space rune_error"
  by (simp add: rune_error_def is_space_def)

text \<open>No white space at the front, or at the end.\<close>

definition no_lead :: "int list \<Rightarrow> bool" where
  "no_lead bs \<longleftrightarrow> bs = [] \<or> \<not> is_space (fst (decode_rune bs))"

lemma no_lead_trim_left: "no_lead (trim_left_bytes bs)"
  by (induction bs rule: trim_left_bytes.induct) (auto simp: no_lead_def)

lemma trim_left_no_lead: "no_lead bs \<Longrightarrow> trim_left_bytes bs = bs"
  by (cases bs) (auto simp: no_lead_def)

lemma set_trim_left: "set (trim_left_bytes bs) \<subseteq> set bs"
  by (induction bs rule: trim_left_bytes.induct) (auto dest: in_set_dropD)

lemma no_lead_take:
  assumes "no_lead bs"
  shows "no_lead (take n bs)"
proof (cases "take n bs = []")
  case False
  show ?thesis
  proof (rule ccontr)
    assume "\<not> no_lead (take n bs)"
    then have sp: "is_space (fst (decode_rune (take n bs)))" by (simp add: no_lead_def)
    then have "fst (decode_rune (take n bs)) \<noteq> rune_error" using rune_error_no_space by auto
    with False have "decode_rune (take n bs @ drop n bs) = decode_rune (take n bs)" by (rule decode_rune_append)
    then show False using sp assms False by (simp add: no_lead_def)
  qed
qed (simp add: no_lead_def)

lemma trim_right_take: "\<exists>n. trim_right_bytes bs = take n bs"
proof (induction bs rule: trim_right_bytes.induct)
  case (1 bs)
  show ?case
  proof (cases "trailing_space bs = 0")
    case True
    then have "trim_right_bytes bs = take (length bs) bs" by (simp add: trim_right_bytes.simps [of bs])
    then show ?thesis by blast
  next
    case False
    with 1 obtain n where "trim_right_bytes (take (length bs - trailing_space bs) bs) = take n (take (length bs - trailing_space bs) bs)"
      by blast
    then show ?thesis using False by (metis take_take trim_right_bytes.simps)
  qed
qed

lemma trailing_trim_right: "trailing_space (trim_right_bytes bs) = 0"
proof (induction bs rule: trim_right_bytes.induct)
  case (1 bs)
  then show ?case by (cases "trailing_space bs = 0") (simp_all add: trim_right_bytes.simps [of bs])
qed

lemma trim_right_idem: "trim_right_bytes (trim_right_bytes bs) = trim_right_bytes bs"
  by (subst trim_right_bytes.simps) (simp add: trailing_trim_right)

definition trimmed :: "string \<Rightarrow> bool" where
  "trimmed s \<longleftrightarrow> no_lead (bytes_of s) \<and> trailing_space (bytes_of s) = 0"

lemma trim_space_trimmed_id: "trimmed s \<Longrightarrow> trim_space s = s"
  unfolding trimmed_def trim_space_def
  by (simp add: trim_left_no_lead trim_right_bytes.simps [of "bytes_of s"])

lemma trim_space_bytes: "bytes_of (trim_space s) = trim_right_bytes (trim_left_bytes (bytes_of s))"
proof -
  obtain n where n: "trim_right_bytes (trim_left_bytes (bytes_of s)) = take n (trim_left_bytes (bytes_of s))"
    using trim_right_take by blast
  have "set (take n (trim_left_bytes (bytes_of s))) \<subseteq> set (bytes_of s)"
    using set_trim_left [of "bytes_of s"] by (meson order_trans set_take_subset)
  then show ?thesis
    unfolding trim_space_def n by (intro bytes_of_of_bytes) (auto intro: bytes_of_is_byte)
qed

lemma trimmed_trim_space [simp]: "trimmed (trim_space s)"
proof -
  obtain n where "trim_right_bytes (trim_left_bytes (bytes_of s)) = take n (trim_left_bytes (bytes_of s))"
    using trim_right_take by blast
  then show ?thesis
    unfolding trimmed_def trim_space_bytes
    using no_lead_take [OF no_lead_trim_left] trailing_trim_right [of "trim_left_bytes (bytes_of s)"] by simp
qed

lemma trim_space_idem [simp]: "trim_space (trim_space s) = trim_space s"
  by (rule trim_space_trimmed_id) simp

lemma length_trim_space: "length (trim_space s) \<le> length s"
proof -
  have left: "length (trim_left_bytes bs) \<le> length bs" for bs
    by (induction bs rule: trim_left_bytes.induct) (auto intro: le_trans)
  obtain n where "trim_right_bytes (trim_left_bytes (bytes_of s)) = take n (trim_left_bytes (bytes_of s))"
    using trim_right_take by blast
  then have "length (bytes_of (trim_space s)) \<le> length (trim_left_bytes (bytes_of s))"
    unfolding trim_space_bytes by simp
  with left [of "bytes_of s"] show ?thesis by simp
qed

text \<open>A text is blank when every rune of it is white space.\<close>

lemma trim_left_Nil: "trim_left_bytes bs = [] \<longleftrightarrow> (\<forall>r \<in> set (utf8_decode bs). is_space r)"
proof (induction bs rule: trim_left_bytes.induct)
  case (2 b bs)
  then show ?case by (auto simp: utf8_decode.simps(2))
qed simp

lemma trim_right_Nil: "no_lead bs \<Longrightarrow> trim_right_bytes bs = [] \<Longrightarrow> bs = []"
proof (induction bs rule: trim_right_bytes.induct)
  case (1 bs)
  let ?k = "trailing_space bs"
  show ?case
  proof (cases "?k = 0")
    case True
    then show ?thesis using "1.prems"(2) by (simp add: trim_right_bytes.simps [of bs])
  next
    case False
    then have "trim_right_bytes (take (length bs - ?k) bs) = []"
      using "1.prems"(2) by (simp add: trim_right_bytes.simps [of bs])
    then have "take (length bs - ?k) bs = []"
      by (rule "1.IH" [OF False no_lead_take [OF "1.prems"(1)]])
    then have "bs = [] \<or> length bs \<le> ?k" by auto
    moreover have "ends_with_space ?k bs" using False by (auto simp: trailing_space_def split: if_splits)
    ultimately show ?thesis using "1.prems"(1) by (auto simp: ends_with_space_def no_lead_def)
  qed
qed

lemma blank_iff: "blank s \<longleftrightarrow> (\<forall>r \<in> set (runes s). is_space r)"
proof -
  have "blank s \<longleftrightarrow> bytes_of (trim_space s) = []" by (simp add: bytes_of_def)
  also have "\<dots> \<longleftrightarrow> trim_left_bytes (bytes_of s) = []"
    unfolding trim_space_bytes
    using trim_right_Nil [OF no_lead_trim_left] trim_space_Nil
    by (auto simp: trim_right_bytes.simps [of "[]"] trailing_space_def ends_with_space_def)
  finally show ?thesis by (simp add: trim_left_Nil runes_def)
qed

text \<open>\<open>strings.Split\<close> undoes \<open>strings.Join\<close>.\<close>

lemma split_append: "split_on sep (u @ sep # v) = split_on sep u @ split_on sep v"
proof (induction u)
  case (Cons c u)
  then show ?case by (cases "split_on sep u") auto
qed simp

lemma split_no_sep: "l \<in> set (split_on sep s) \<Longrightarrow> sep \<notin> set l"
  by (induction s arbitrary: l) (auto split: list.splits if_splits)

lemma split_whole: "sep \<notin> set l \<Longrightarrow> split_on sep l = [l]"
  by (induction l) auto

lemma split_join:
  "ls \<noteq> [] \<Longrightarrow> \<forall>l \<in> set ls. sep \<notin> set l \<Longrightarrow> split_on sep (str_join [sep] ls) = ls"
proof (induction ls rule: induct_list012)
  case (3 l l' ls)
  then show ?case by (simp add: split_append [of sep l] split_whole)
qed (simp_all add: split_whole)

end
