(* ===== verification/Feed_Xml.thy ===== *)
theory Feed_Xml
  imports Go_Trim Go_Url Failures
begin

text \<open>
  How a feed document is decoded into Go structs (\<^verbatim>\<open>internal/rss/text.go\<close>, and the bounded slice
  types of \<^verbatim>\<open>parse.go\<close>, \<^verbatim>\<open>rss.go\<close> and \<^verbatim>\<open>atom.go\<close>).

  An element is a tree of names (with the namespace URL they resolve to), attributes, the
  raw text between its tags, and its children; a document is what \<^verbatim>\<open>encoding/xml\<close> makes of
  its bytes, a field of the record \<open>doc_env\<close> like the HTML tokenizer of
  \<^verbatim>\<open>golang.org/x/net/html\<close>.  The struct tags are written out as selections of children: a plain
  field takes the last matching element, a slice type folds its \<open>UnmarshalXML\<close> over the
  matching elements in document order, and a pointer or struct field is decoded into again
  by every further match.
\<close>

section \<open>Documents\<close>

type_synonym xml_name = "string \<times> string"

record xml_attr =
  at_space :: string
  at_local :: string
  at_value :: string

datatype xml =
    Elem (xml_tag: xml_name) (xml_attrs: "xml_attr list") (xml_inner: string) (xml_children: "xml list")
  | Chars string

datatype html_token =
    TextToken string
  | StartTagToken string
  | EndTagToken string
  | SelfClosingTagToken string
  | OtherToken

text \<open>
  The decoder: the first start tag of a document (\<open>rootElement\<close>), its root element with
  everything in it, the tokens of an HTML fragment, and the offsets of the local location's time
  zone abbreviations (\<open>Feed_Time\<close>).
\<close>

record doc_env =
  de_go :: go_env
  de_root :: "string \<Rightarrow> go_error + xml_name"
  de_tree :: "string \<Rightarrow> go_error + xml"
  de_html :: "string \<Rightarrow> html_token list"
  de_zone :: "string \<Rightarrow> int \<Rightarrow> int option"

text \<open>What is documented of the two: a document that decodes has the root its first tag names.\<close>

definition doc_laws :: "doc_env \<Rightarrow> bool" where
  "doc_laws D \<longleftrightarrow> (\<forall>data doc. de_tree D data = Inr doc \<longrightarrow>
     (\<exists>name attrs inner kids. doc = Elem name attrs inner kids \<and> de_root D data = Inr name))"

subsection \<open>Selections\<close>

fun is_elem :: "string \<Rightarrow> xml \<Rightarrow> bool" where
  "is_elem local (Elem name attrs inner kids) = (snd name = local)"
| "is_elem local (Chars t) = False"

fun is_elem_in :: "string \<Rightarrow> string \<Rightarrow> xml \<Rightarrow> bool" where
  "is_elem_in space local (Elem name attrs inner kids) = (name = (space, local))"
| "is_elem_in space local (Chars t) = False"

fun chars_of :: "xml \<Rightarrow> string" where
  "chars_of (Chars t) = t"
| "chars_of (Elem name attrs inner kids) = []"

text \<open>The character data directly inside an element.\<close>

fun chardata :: "xml \<Rightarrow> string" where
  "chardata (Elem name attrs inner kids) = concat (map chars_of kids)"
| "chardata (Chars t) = []"

fun attrs_of :: "xml \<Rightarrow> xml_attr list" where
  "attrs_of (Elem name attrs inner kids) = attrs"
| "attrs_of (Chars t) = []"

fun children_of :: "xml \<Rightarrow> xml list" where
  "children_of (Elem name attrs inner kids) = kids"
| "children_of (Chars t) = []"

text \<open>A string field: the last matching element, or attribute, or else the value it had.\<close>

definition last_text :: "(xml \<Rightarrow> bool) \<Rightarrow> xml list \<Rightarrow> string \<Rightarrow> string" where
  "last_text P kids v = fold (\<lambda>x v. if P x then chardata x else v) kids v"

definition last_attr :: "string \<Rightarrow> xml_attr list \<Rightarrow> string \<Rightarrow> string" where
  "last_attr name attrs v = fold (\<lambda>a v. if at_local a = name then at_value a else v) attrs v"

text \<open>A field with an \<open>UnmarshalXML\<close> of its own: called once per matching element.\<close>

definition collect :: "(xml \<Rightarrow> bool) \<Rightarrow> (xml \<Rightarrow> 'a \<Rightarrow> 'a) \<Rightarrow> xml list \<Rightarrow> 'a \<Rightarrow> 'a" where
  "collect P add kids v = fold add (filter P kids) v"

lemma last_text_cong: "(\<And>x. x \<in> set kids \<Longrightarrow> P x = Q x) \<Longrightarrow> last_text P kids v = last_text Q kids v"
  unfolding last_text_def by (induction kids arbitrary: v) auto

lemma collect_cong: "(\<And>x. x \<in> set kids \<Longrightarrow> P x = Q x) \<Longrightarrow> collect P f kids v = collect Q f kids v"
  unfolding collect_def by (metis filter_cong)

subsection \<open>Bounded slices\<close>

definition maxFeedEntries :: nat where "maxFeedEntries = 1000"
definition maxCategories :: nat where "maxCategories = 50"
definition maxNSCandidates :: nat where "maxNSCandidates = 8"

text \<open>\<open>appendBounded\<close>.\<close>

definition appendBounded :: "nat \<Rightarrow> (xml \<Rightarrow> 'a) \<Rightarrow> xml \<Rightarrow> 'a list \<Rightarrow> 'a list" where
  "appendBounded limit decode x s = (if limit \<le> length s then s else s @ [decode x])"

lemma fold_appendBounded:
  "length s \<le> limit \<Longrightarrow> fold (appendBounded limit f) xs s = s @ map f (take (limit - length s) xs)"
proof (induction xs arbitrary: s)
  case (Cons x xs)
  show ?case
  proof (cases "limit \<le> length s")
    case True
    then have "fold (appendBounded limit f) xs s = s" using Cons by simp
    moreover have "appendBounded limit f x s = s" using True by (simp add: appendBounded_def)
    ultimately show ?thesis using True by simp
  next
    case False
    then have "fold (appendBounded limit f) xs (s @ [f x]) = (s @ [f x]) @ map f (take (limit - length (s @ [f x])) xs)"
      by (intro Cons.IH) simp
    moreover have "limit - length s = Suc (limit - length (s @ [f x]))" using False by simp
    moreover have "appendBounded limit f x s = s @ [f x]" using False by (simp add: appendBounded_def)
    ultimately show ?thesis by simp
  qed
qed simp

corollary collect_appendBounded: "collect P (appendBounded limit f) kids [] = map f (take limit (filter P kids))"
  by (simp add: collect_def fold_appendBounded)

section \<open>Text candidates\<close>

record ns_text =
  nt_name :: xml_name
  nt_text :: string

definition rss10Namespace :: string where "rss10Namespace = ''http://purl.org/rss/1.0/''"
definition atomNamespace :: string where "atomNamespace = ''http://www.w3.org/2005/Atom''"
definition contentNamespace :: string where "contentNamespace = ''http://purl.org/rss/1.0/modules/content/''"

definition preferredNamespace :: "string \<Rightarrow> bool" where
  "preferredNamespace space \<longleftrightarrow> space \<in> {[], rss10Namespace, atomNamespace, contentNamespace}"

definition isXHTMLConstruct :: "xml_attr list \<Rightarrow> bool" where
  "isXHTMLConstruct attrs \<longleftrightarrow>
     (\<exists>a \<in> set attrs. at_local a = ''type'' \<and> map lower_ascii (trim_space (at_value a)) = ''xhtml'')"

text \<open>A tag name without its prefix.\<close>

definition local_tag :: "string \<Rightarrow> string" where
  "local_tag name = (case cut_at (CHR '':'') name of (_, local, found) \<Rightarrow> if found then local else name)"

fun visible_text :: "string \<Rightarrow> html_token list \<Rightarrow> bool" where
  "visible_text skip [] = False"
| "visible_text skip (TextToken t # ts) = ((skip = [] \<and> \<not> blank t) \<or> visible_text skip ts)"
| "visible_text skip (StartTagToken name # ts) =
     (let tag = local_tag name in
      visible_text (if skip = [] \<and> (tag = ''script'' \<or> tag = ''style'') then tag else skip) ts)"
| "visible_text skip (EndTagToken name # ts) =
     visible_text (if skip \<noteq> [] \<and> local_tag name = skip then [] else skip) ts"
| "visible_text skip (SelfClosingTagToken name # ts) = visible_text skip ts"
| "visible_text skip (OtherToken # ts) = visible_text skip ts"

definition hasVisibleXHTMLText :: "doc_env \<Rightarrow> string \<Rightarrow> bool" where
  "hasVisibleXHTMLText D markup = visible_text [] (de_html D markup)"

text \<open>The element as \<open>nsTexts.UnmarshalXML\<close> decodes it; \<open>None\<close> for markup without visible text.\<close>

fun decode_ns_text :: "doc_env \<Rightarrow> xml \<Rightarrow> ns_text option" where
  "decode_ns_text D (Chars t) = None"
| "decode_ns_text D (Elem name attrs inner kids) =
     (if isXHTMLConstruct attrs then
        if hasVisibleXHTMLText D inner then Some \<lparr>nt_name = name, nt_text = inner\<rparr> else None
      else Some \<lparr>nt_name = name, nt_text = chardata (Elem name attrs inner kids)\<rparr>)"

definition nt_space :: "ns_text \<Rightarrow> string" where "nt_space c = fst (nt_name c)"

text \<open>What \<open>nsTexts.UnmarshalXML\<close> does with a decoded candidate.\<close>

definition keep_candidate :: "ns_text \<Rightarrow> ns_text list \<Rightarrow> ns_text list" where
  "keep_candidate el0 cs =
     (let el = el0\<lparr>nt_text := trim_space (nt_text el0)\<rparr> in
      if nt_text el = [] then cs
      else if \<exists>c \<in> set cs. nt_space c = nt_space el then cs
      else if \<not> preferredNamespace (nt_space el) \<and>
              maxNSCandidates \<le> length (filter (\<lambda>c. \<not> preferredNamespace (nt_space c)) cs) then cs
      else cs @ [el])"

definition unmarshal_ns_text :: "doc_env \<Rightarrow> xml \<Rightarrow> ns_text list \<Rightarrow> ns_text list" where
  "unmarshal_ns_text D x cs =
     (case decode_ns_text D x of None \<Rightarrow> cs | Some el \<Rightarrow> keep_candidate el cs)"

abbreviation ns_texts :: "doc_env \<Rightarrow> string \<Rightarrow> xml list \<Rightarrow> ns_text list" where
  "ns_texts D local kids \<equiv> collect (is_elem local) (unmarshal_ns_text D) kids []"

definition first_usable :: "(ns_text \<Rightarrow> bool) \<Rightarrow> ns_text list \<Rightarrow> string option" where
  "first_usable P cs = map_option (\<lambda>c. trim_space (nt_text c)) (find (\<lambda>c. P c \<and> \<not> blank (nt_text c)) cs)"

fun pickTextPrefer :: "ns_text list \<Rightarrow> string list \<Rightarrow> string" where
  "pickTextPrefer cs [] = (case first_usable (\<lambda>c. True) cs of None \<Rightarrow> [] | Some v \<Rightarrow> v)"
| "pickTextPrefer cs (space # spaces) =
     (case first_usable (\<lambda>c. nt_space c = space) cs of
        None \<Rightarrow> pickTextPrefer cs spaces
      | Some v \<Rightarrow> v)"

definition pickText :: "ns_text list \<Rightarrow> string" where
  "pickText cs = pickTextPrefer cs [[], rss10Namespace]"

subsection \<open>Nothing is lost by keeping few candidates\<close>

text \<open>All candidates, as a plain slice would hold them.\<close>

definition all_candidates :: "doc_env \<Rightarrow> string \<Rightarrow> xml list \<Rightarrow> ns_text list" where
  "all_candidates D local kids = List.map_filter (decode_ns_text D) (filter (is_elem local) kids)"

lemma collect_candidates: "ns_texts D local kids = fold keep_candidate (all_candidates D local kids) []"
proof -
  have "fold (unmarshal_ns_text D) xs cs = fold keep_candidate (List.map_filter (decode_ns_text D) xs) cs" for xs cs
    by (induction xs arbitrary: cs) (auto simp: unmarshal_ns_text_def List.map_filter_simps split: option.splits)
  then show ?thesis by (simp add: collect_def all_candidates_def)
qed

text \<open>The kept candidates are trimmed and not blank; the first one overall and the first one of
  each preferred namespace are those of the full list.\<close>

definition represents :: "ns_text list \<Rightarrow> ns_text list \<Rightarrow> bool" where
  "represents cs all \<longleftrightarrow>
     (\<forall>c \<in> set cs. trimmed (nt_text c) \<and> nt_text c \<noteq> []) \<and>
     first_usable (\<lambda>c. True) cs = first_usable (\<lambda>c. True) all \<and>
     (\<forall>space. preferredNamespace space \<longrightarrow>
        first_usable (\<lambda>c. nt_space c = space) cs = first_usable (\<lambda>c. nt_space c = space) all)"

lemma first_usable_append:
  "first_usable P (cs @ ds) = (case first_usable P cs of None \<Rightarrow> first_usable P ds | Some v \<Rightarrow> Some v)"
  by (induction cs) (auto simp: first_usable_def split: option.splits)

lemma first_usable_None: "first_usable P cs = None \<longleftrightarrow> (\<forall>c \<in> set cs. P c \<longrightarrow> blank (nt_text c))"
  by (auto simp: first_usable_def find_None_iff)

lemma first_usable_single:
  "first_usable P [c] = (if P c \<and> \<not> blank (nt_text c) then Some (trim_space (nt_text c)) else None)"
  by (simp add: first_usable_def)

lemma keep_represents:
  assumes "represents cs all"
  shows "represents (keep_candidate c cs) (all @ [c])"
proof -
  have usable: "\<forall>c \<in> set cs. \<not> blank (nt_text c)"
    using assms trim_space_trimmed_id unfolding represents_def by metis
  have sp: "nt_space (c\<lparr>nt_text := t\<rparr>) = nt_space c" for t by (simp add: nt_space_def)
  let ?room = "length (filter (\<lambda>c. \<not> preferredNamespace (nt_space c)) cs) < 8"
  have keep: "keep_candidate c cs =
      (if blank (nt_text c) then cs
       else if \<exists>d \<in> set cs. nt_space d = nt_space c then cs
       else if \<not> preferredNamespace (nt_space c) \<and> \<not> ?room then cs
       else cs @ [c\<lparr>nt_text := trim_space (nt_text c)\<rparr>])"
    by (simp add: keep_candidate_def sp maxNSCandidates_def not_less)
  consider (dropped) "blank (nt_text c)" "keep_candidate c cs = cs"
    | (known) d where "\<not> blank (nt_text c)" "d \<in> set cs" "nt_space d = nt_space c" "keep_candidate c cs = cs"
    | (full) "\<not> blank (nt_text c)" "\<not> preferredNamespace (nt_space c)" "\<not> ?room" "keep_candidate c cs = cs"
    | (new) "\<not> blank (nt_text c)" "keep_candidate c cs = cs @ [c\<lparr>nt_text := trim_space (nt_text c)\<rparr>]"
    using keep by metis
  then show ?thesis
  proof cases
    case dropped
    then show ?thesis using assms
      by (auto simp: represents_def first_usable_append first_usable_single split: option.splits)
  next
    case known
    then have "first_usable (\<lambda>c. True) cs \<noteq> None" "first_usable (\<lambda>x. nt_space x = nt_space c) cs \<noteq> None"
      using usable by (auto simp: first_usable_None)
    then show ?thesis using assms known(4)
      by (auto simp: represents_def first_usable_append first_usable_single split: option.splits)
  next
    case full
    then have "cs \<noteq> []" by auto
    then have "first_usable (\<lambda>c. True) cs \<noteq> None" using usable by (cases cs) (auto simp: first_usable_None)
    then show ?thesis using assms full
      by (auto simp: represents_def first_usable_append first_usable_single split: option.splits)
  next
    case new
    then show ?thesis using assms
      by (auto simp: represents_def first_usable_append first_usable_single sp split: option.splits)
  qed
qed

lemma fold_represents: "represents cs all \<Longrightarrow> represents (fold keep_candidate ds cs) (all @ ds)"
proof (induction ds arbitrary: cs all)
  case (Cons c ds)
  from Cons.IH [OF keep_represents [OF Cons.prems]] show ?case by simp
qed simp

lemma candidates_represent: "represents (ns_texts D local kids) (all_candidates D local kids)"
  using fold_represents [of "[]" "[]" "all_candidates D local kids"]
  by (simp add: collect_candidates represents_def)

lemma pick_represents:
  "represents cs all \<Longrightarrow> \<forall>space \<in> set spaces. preferredNamespace space \<Longrightarrow>
   pickTextPrefer cs spaces = pickTextPrefer all spaces"
  by (induction spaces) (auto simp: represents_def split: option.splits)

end
