(* ===== verification/Feed_Time.thy ===== *)
theory Feed_Time
  imports Go_Trim Go_Time Go_Url
begin

text \<open>
  The dates of feeds (\<^verbatim>\<open>internal/rss/time.go\<close>): \<open>parseTime\<close> over the layouts it tries, with what
  they use of \<^verbatim>\<open>time.Parse\<close>.  A layout is a list of chunks; a time is the instant in
  nanoseconds of \<open>Go_Time\<close>.  The offset of a time zone abbreviation comes from the process's
  local location, the argument \<open>local\<close> (abbreviation and Unix seconds to seconds east).
\<close>

section \<open>Layouts\<close>

datatype chunk =
    Lit string | LongYear | ShortYear | MonthName | ZeroMonth | DayOfWeek
  | DayNum | UnderDay | ZeroDay | Hour24 | ZeroMinute | ZeroSecond | ZoneName | NumZone

record parts =
  pa_year :: int
  pa_month :: int
  pa_day :: int
  pa_hour :: int
  pa_min :: int
  pa_sec :: int
  pa_nsec :: int
  pa_utc :: bool
  pa_offset :: "int option"
  pa_zone :: string

definition no_parts :: parts where
  "no_parts = \<lparr>pa_year = 0, pa_month = 1, pa_day = 1, pa_hour = 0, pa_min = 0, pa_sec = 0, pa_nsec = 0,
     pa_utc = False, pa_offset = None, pa_zone = []\<rparr>"

definition cut_spaces :: "string \<Rightarrow> string" where "cut_spaces = dropWhile (\<lambda>c. c = CHR '' '')"

text \<open>\<open>skip\<close>: a run of blanks in the layout matches any run of blanks, and the end of the value.\<close>

function skip_text :: "string \<Rightarrow> string \<Rightarrow> string option" where
  "skip_text value [] = Some value"
| "skip_text value (p # ps) =
     (if p = CHR '' '' then
        if value \<noteq> [] \<and> hd value \<noteq> CHR '' '' then None
        else skip_text (cut_spaces value) (cut_spaces ps)
      else if value = [] \<or> hd value \<noteq> p then None
      else skip_text (tl value) ps)"
  by pat_completeness auto
termination
  by (relation "measure (\<lambda>(value, ps). length ps)") (auto simp: cut_spaces_def less_Suc_eq_le length_dropWhile_le)

definition same_letter :: "char \<Rightarrow> char \<Rightarrow> bool" where
  "same_letter a b \<longleftrightarrow> a = b \<or> (is_letter a \<and> lower_ascii a = lower_ascii b)"

text \<open>\<open>lookup\<close>: the index of the first name the value starts with, letters in either case.\<close>

fun lookup_name :: "string list \<Rightarrow> nat \<Rightarrow> string \<Rightarrow> (nat \<times> string) option" where
  "lookup_name [] i value = None"
| "lookup_name (name # names) i value =
     (if length name \<le> length value \<and> list_all2 same_letter (take (length name) value) name
      then Some (i, drop (length name) value) else lookup_name names (Suc i) value)"

definition shortMonthNames :: "string list" where
  "shortMonthNames = [''Jan'', ''Feb'', ''Mar'', ''Apr'', ''May'', ''Jun'', ''Jul'', ''Aug'', ''Sep'', ''Oct'', ''Nov'', ''Dec'']"
definition shortDayNames :: "string list" where
  "shortDayNames = [''Sun'', ''Mon'', ''Tue'', ''Wed'', ''Thu'', ''Fri'', ''Sat'']"

text \<open>\<open>atoi\<close> on a two-character text, which may start with a sign.\<close>

definition atoi :: "string \<Rightarrow> int option" where
  "atoi s =
     (let neg = has_prefix s ''-''; ds = (if neg \<or> has_prefix s ''+'' then tl s else s)
      in if list_all is_digit ds then Some (if neg then - digits_value ds else digits_value ds) else None)"

text \<open>\<open>parseSignedOffset\<close>, \<open>parseGMT\<close> and \<open>parseTimeZone\<close>: the length of a zone abbreviation.\<close>

definition signed_offset_length :: "string \<Rightarrow> nat" where
  "signed_offset_length s =
     (case s of
        [] \<Rightarrow> 0
      | c # rest \<Rightarrow>
          let ds = takeWhile is_digit rest in
          if c \<noteq> CHR ''+'' \<and> c \<noteq> CHR ''-'' \<or> ds = [] \<or> digits_value ds > 23 then 0 else Suc (length ds))"

definition is_upper :: "char \<Rightarrow> bool" where
  "is_upper c \<longleftrightarrow> (let b = of_char c :: int in 65 \<le> b \<and> b \<le> 90)"

definition zone_length :: "string \<Rightarrow> nat option" where
  "zone_length s =
     (if length s < 3 then None
      else if has_prefix s ''ChST'' \<or> has_prefix s ''MeST'' then Some 4
      else if has_prefix s ''GMT'' then Some (3 + signed_offset_length (drop 3 s))
      else if has_prefix s ''+'' \<or> has_prefix s ''-''
      then (if signed_offset_length s > 0 then Some (signed_offset_length s) else None)
      else let n = length (takeWhile is_upper (take 6 s)) in
        if n = 5 \<and> s ! 4 = CHR ''T'' then Some 5
        else if n = 4 \<and> (s ! 3 = CHR ''T'' \<or> has_prefix s ''WITA'') then Some 4
        else if n = 3 then Some 3
        else None)"

definition within :: "int \<Rightarrow> int \<Rightarrow> (int \<times> string) option \<Rightarrow> (int \<times> string) option" where
  "within lo hi r = (case r of Some (v, s) \<Rightarrow> if lo \<le> v \<and> v < hi then r else None | None \<Rightarrow> None)"

text \<open>One chunk: the parts read so far and the rest of the value.\<close>

fun parse_chunk :: "chunk \<Rightarrow> parts \<Rightarrow> string \<Rightarrow> (parts \<times> string) option" where
  "parse_chunk (Lit l) p v = map_option (Pair p) (skip_text v l)"
| "parse_chunk LongYear p v = map_option (\<lambda>(y, r). (p\<lparr>pa_year := y\<rparr>, r)) (parse_year v)"
| "parse_chunk ShortYear p v =
     (if length v < 2 then None
      else map_option (\<lambda>y. (p\<lparr>pa_year := (if 69 \<le> y then y + 1900 else y + 2000)\<rparr>, drop 2 v)) (atoi (take 2 v)))"
| "parse_chunk MonthName p v =
     map_option (\<lambda>(i, r). (p\<lparr>pa_month := int i + 1\<rparr>, r)) (lookup_name shortMonthNames 0 v)"
| "parse_chunk ZeroMonth p v = map_option (\<lambda>(m, r). (p\<lparr>pa_month := m\<rparr>, r)) (within 1 13 (getnum True v))"
| "parse_chunk DayOfWeek p v = map_option (\<lambda>(i, r). (p, r)) (lookup_name shortDayNames 0 v)"
| "parse_chunk DayNum p v = map_option (\<lambda>(d, r). (p\<lparr>pa_day := d\<rparr>, r)) (getnum False v)"
| "parse_chunk UnderDay p v =
     map_option (\<lambda>(d, r). (p\<lparr>pa_day := d\<rparr>, r)) (getnum False (if has_prefix v '' '' then tl v else v))"
| "parse_chunk ZeroDay p v = map_option (\<lambda>(d, r). (p\<lparr>pa_day := d\<rparr>, r)) (getnum True v)"
| "parse_chunk Hour24 p v = map_option (\<lambda>(h, r). (p\<lparr>pa_hour := h\<rparr>, r)) (within 0 24 (getnum False v))"
| "parse_chunk ZeroMinute p v = map_option (\<lambda>(m, r). (p\<lparr>pa_min := m\<rparr>, r)) (within 0 60 (getnum True v))"
| "parse_chunk ZeroSecond p v =
     map_option (\<lambda>(s, r). (case parse_fraction r of (ns, r') \<Rightarrow> (p\<lparr>pa_sec := s, pa_nsec := ns\<rparr>, r')))
       (within 0 60 (getnum True v))"
| "parse_chunk ZoneName p v =
     (if has_prefix v ''UTC'' then Some (p\<lparr>pa_utc := True\<rparr>, drop 3 v)
      else map_option (\<lambda>n. (p\<lparr>pa_zone := take n v\<rparr>, drop n v)) (zone_length v))"
| "parse_chunk NumZone p v =
     (case v of
        sg # a # b # c # d # r \<Rightarrow>
          do {
            (hh, _) \<leftarrow> getnum True [a, b];
            (mm, _) \<leftarrow> getnum True [c, d];
            if hh > 24 \<or> mm > 60 then None
            else if sg = CHR ''+'' then Some (p\<lparr>pa_offset := Some ((hh * 60 + mm) * 60)\<rparr>, r)
            else if sg = CHR ''-'' then Some (p\<lparr>pa_offset := Some (- ((hh * 60 + mm) * 60))\<rparr>, r)
            else None
          }
      | _ \<Rightarrow> None)"

fun parse_chunks :: "chunk list \<Rightarrow> parts \<Rightarrow> string \<Rightarrow> parts option" where
  "parse_chunks [] p v = (if v = [] then Some p else None)"
| "parse_chunks (c # cs) p v =
     (case parse_chunk c p v of None \<Rightarrow> None | Some (p', v') \<Rightarrow> parse_chunks cs p' v')"

definition clock_seconds :: "parts \<Rightarrow> int" where
  "clock_seconds p = days_from_civil (pa_year p) (pa_month p) (pa_day p) * day_seconds
     + pa_hour p * 3600 + pa_min p * 60 + pa_sec p"

text \<open>An abbreviation the local location does not know is taken at offset 0.\<close>

definition zone_offset :: "(string \<Rightarrow> int \<Rightarrow> int option) \<Rightarrow> parts \<Rightarrow> int" where
  "zone_offset local p =
     (if pa_utc p then 0
      else case pa_offset p of
        Some off \<Rightarrow> off
      | None \<Rightarrow>
          if pa_zone p = [] then 0
          else (case local (pa_zone p) (clock_seconds p) of Some off \<Rightarrow> off | None \<Rightarrow> 0))"

definition parse_layout :: "(string \<Rightarrow> int \<Rightarrow> int option) \<Rightarrow> chunk list \<Rightarrow> string \<Rightarrow> int option" where
  "parse_layout local layout v =
     (case parse_chunks layout no_parts v of
        None \<Rightarrow> None
      | Some p \<Rightarrow>
          if pa_day p < 1 \<or> days_in (pa_month p) (pa_year p) < pa_day p then None
          else Some ((clock_seconds p - zone_offset local p) * second + pa_nsec p))"

section \<open>parseTime\<close>

definition clock_chunks :: "chunk list" where
  "clock_chunks = [Hour24, Lit '':'', ZeroMinute, Lit '':'', ZeroSecond]"

definition isoLayouts :: "((string \<Rightarrow> int \<Rightarrow> int option) \<Rightarrow> string \<Rightarrow> int option) list" where
  "isoLayouts =
     [\<lambda>local. parse_rfc3339,
      \<lambda>local. parse_layout local ([LongYear, Lit ''-'', ZeroMonth, Lit ''-'', ZeroDay, Lit '' ''] @ clock_chunks),
      \<lambda>local. parse_layout local [LongYear, Lit ''-'', ZeroMonth, Lit ''-'', ZeroDay]]"

definition rfcLayouts :: "((string \<Rightarrow> int \<Rightarrow> int option) \<Rightarrow> string \<Rightarrow> int option) list" where
  "rfcLayouts = map (\<lambda>layout local. parse_layout local layout)
     [[DayOfWeek, Lit '', '', ZeroDay, Lit '' '', MonthName, Lit '' '', LongYear, Lit '' ''] @ clock_chunks @ [Lit '' '', NumZone],
      [DayOfWeek, Lit '', '', ZeroDay, Lit '' '', MonthName, Lit '' '', LongYear, Lit '' ''] @ clock_chunks @ [Lit '' '', ZoneName],
      [ZeroDay, Lit '' '', MonthName, Lit '' '', ShortYear, Lit '' '', Hour24, Lit '':'', ZeroMinute, Lit '' '', NumZone],
      [ZeroDay, Lit '' '', MonthName, Lit '' '', ShortYear, Lit '' '', Hour24, Lit '':'', ZeroMinute, Lit '' '', ZoneName],
      [DayOfWeek, Lit '' '', MonthName, Lit '' '', UnderDay, Lit '' ''] @ clock_chunks @ [Lit '' '', LongYear],
      [DayOfWeek, Lit '', '', DayNum, Lit '' '', MonthName, Lit '' '', LongYear, Lit '' ''] @ clock_chunks @ [Lit '' '', ZoneName]]"

definition looksISO :: "string \<Rightarrow> bool" where
  "looksISO v \<longleftrightarrow> 5 \<le> length v \<and> v ! 4 = CHR ''-'' \<and> list_all is_digit (take 4 v)"

fun first_match :: "('a \<Rightarrow> 'b option) list \<Rightarrow> 'a \<Rightarrow> 'b option" where
  "first_match [] v = None"
| "first_match (f # fs) v = (case f v of None \<Rightarrow> first_match fs v | Some r \<Rightarrow> Some r)"

text \<open>\<open>None\<close> is the error; a blank value is the zero time.\<close>

definition parseTime :: "(string \<Rightarrow> int \<Rightarrow> int option) \<Rightarrow> string \<Rightarrow> int option" where
  "parseTime local value =
     (let v = trim_space value;
          layouts = (if looksISO v then isoLayouts @ rfcLayouts else rfcLayouts @ isoLayouts)
      in if v = [] then Some zero_time else first_match (map (\<lambda>l. l local) layouts) v)"

section \<open>The order of the layouts\<close>

lemma parse_year_shape:
  assumes "parse_year v = Some (y, r)"
  obtains a b c e where "v = a # b # c # e # r" "is_digit a" "is_digit b" "is_digit c" "is_digit e"
  using assms by (cases v rule: parse_year.cases) (auto split: if_splits)

lemma year_dash:
  assumes "parse_year v = Some (y, CHR ''-'' # r)"
  shows "looksISO v"
  using assms by (auto elim!: parse_year_shape simp: looksISO_def)

lemma iso_layout_looks:
  assumes "parse_layout local (LongYear # Lit ''-'' # cs) v = Some t"
  shows "looksISO v"
proof -
  obtain y r where y: "parse_year v = Some (y, r)" "skip_text r ''-'' \<noteq> None"
    using assms by (auto simp: parse_layout_def simp del: skip_text.simps split: option.splits)
  from y(2) have "r = CHR ''-'' # tl r" by (cases r) (auto split: if_splits)
  with y(1) show ?thesis by (metis year_dash)
qed

lemma rfc3339_looks:
  assumes "parse_rfc3339 v = Some t"
  shows "looksISO v"
proof -
  obtain y r where y: "parse_year v = Some (y, r)"
    using assms unfolding parse_rfc3339_def by (cases "parse_year v") auto
  then have "skip_char (CHR ''-'') r \<noteq> None"
    using assms unfolding parse_rfc3339_def by (cases "skip_char (CHR ''-'') r") auto
  then obtain q where "r = CHR ''-'' # q" by (cases r) (auto split: if_splits)
  with y show ?thesis by (auto intro: year_dash)
qed

lemma iso_looks: "l \<in> set isoLayouts \<Longrightarrow> l local v = Some t \<Longrightarrow> looksISO v"
  by (auto simp: isoLayouts_def intro: iso_layout_looks rfc3339_looks)

lemma looks_digits:
  assumes "looksISO v"
  obtains a b c r where "v = a # b # c # r" "is_digit a" "is_digit b" "is_digit c"
proof -
  obtain a b c d r where "v = a # b # c # d # r"
    using assms by (auto simp: looksISO_def numeral_eq_Suc Suc_le_length_iff)
  with assms that show thesis by (auto simp: looksISO_def)
qed

lemma digit_not_letter: "is_digit c \<Longrightarrow> same_letter c d \<Longrightarrow> c = d"
  by (auto simp: same_letter_def is_digit_def is_letter_def lower_ascii_def Let_def split: if_splits)

lemma no_weekday:
  assumes "is_digit c"
  shows "lookup_name shortDayNames i (c # r) = None"
proof -
  have "\<not> same_letter c d" if "d \<in> set ''SMTWF''" for d
    using digit_not_letter [OF assms, of d] assms that by (auto simp: is_digit_def)
  then show ?thesis by (simp add: shortDayNames_def)
qed

lemma digit_no_blank: "is_digit c \<Longrightarrow> c \<noteq> CHR '' ''"
  by (auto simp: is_digit_def)

lemma rfc_looks:
  assumes "looksISO v" "l \<in> set rfcLayouts"
  shows "l local v = None"
proof -
  obtain a b c r where v: "v = a # b # c # r" "is_digit a" "is_digit b" "is_digit c"
    using assms(1) by (rule looks_digits)
  have w: "parse_layout local (DayOfWeek # cs) v = None" for cs
    using no_weekday [OF v(2)] by (simp add: parse_layout_def v(1))
  have z: "parse_layout local (ZeroDay # Lit '' '' # cs) v = None" for cs
    using digit_no_blank [OF v(4)] v by (simp add: parse_layout_def)
  show ?thesis using assms(2) w z by (auto simp: rfcLayouts_def)
qed

lemma first_match_none: "\<forall>f \<in> set fs. f v = None \<Longrightarrow> first_match fs v = None"
  by (induction fs) auto

lemma first_match_append:
  "first_match (fs @ gs) v = (case first_match fs v of None \<Rightarrow> first_match gs v | Some r \<Rightarrow> Some r)"
  by (induction fs) (auto split: option.splits)

lemma first_match_shuffle:
  "ls \<in> shuffles xs ys \<Longrightarrow> \<forall>y \<in> set ys. y v = None \<Longrightarrow> first_match ls v = first_match xs v"
proof (induction xs ys arbitrary: ls rule: shuffles.induct)
  case (2 xs)
  then show ?case by simp
next
  case (1 ys)
  then show ?case using first_match_none [of ys v] by simp
next
  case (3 x xs y ys)
  from 3(3) consider ls' where "ls = x # ls'" "ls' \<in> shuffles xs (y # ys)"
    | ls' where "ls = y # ls'" "ls' \<in> shuffles (x # xs) ys" by auto
  then show ?case
  proof cases
    case 1
    then show ?thesis using 3 by (simp split: option.split)
  next
    case 2
    then have "first_match ls' v = first_match (x # xs) v" using 3 by simp
    then show ?thesis using 2 3(4) by simp
  qed
qed

lemma append_shuffle: "xs @ ys \<in> shuffles xs ys"
  by (induction xs) (auto intro: Cons_in_shuffles_leftI)

text \<open>The order in which \<open>parseTime\<close> tries its layouts does not matter: whichever group the
  shape of the value makes it start with, it returns what trying all layouts in one list returns,
  for every list that keeps the relative order within the two groups.\<close>

theorem layout_order_irrelevant:
  assumes "layouts \<in> shuffles (map (\<lambda>l. l local) isoLayouts) (map (\<lambda>l. l local) rfcLayouts)"
  shows "parseTime local value =
    (if blank value then Some zero_time else first_match layouts (trim_space value))"
proof -
  let ?v = "trim_space value" and ?iso = "map (\<lambda>l. l local) isoLayouts" and ?rfc = "map (\<lambda>l. l local) rfcLayouts"
  show ?thesis
  proof (cases "looksISO ?v")
    case True
    then have rfc: "\<forall>y \<in> set ?rfc. y ?v = None" using rfc_looks by auto
    from first_match_shuffle [OF assms rfc] True show ?thesis
      by (simp add: parseTime_def Let_def first_match_append first_match_none [OF rfc] split: option.split)
  next
    case False
    then have iso: "\<forall>y \<in> set ?iso. y ?v = None"
      using iso_looks [of _ local ?v] by (auto simp del: not_None_eq) (meson not_Some_eq)
    have "layouts \<in> shuffles ?rfc ?iso" using assms by (simp add: shuffles_commutes)
    from first_match_shuffle [OF this iso] False show ?thesis
      by (simp add: parseTime_def Let_def first_match_append first_match_none [OF iso] split: option.split)
  qed
qed

theorem layout_order_irrelevant_witness:
  "parseTime (\<lambda>_ _. None) '' Wed, 21 Oct 2015 07:28:00 GMT'' = parse_rfc3339 ''2015-10-21T07:28:00Z'' \<and>
   parseTime (\<lambda>_ _. None) ''2015-10-21'' =
     first_match (map (\<lambda>l. l (\<lambda>_ _. None)) (isoLayouts @ rfcLayouts)) ''2015-10-21''"
proof
  have "parseTime (\<lambda>_ _. None) ''2015-10-21'' =
      (if blank ''2015-10-21'' then Some zero_time
       else first_match (map (\<lambda>l. l (\<lambda>_ _. None)) (isoLayouts @ rfcLayouts)) (trim_space ''2015-10-21''))"
    unfolding map_append by (rule layout_order_irrelevant) (rule append_shuffle)
  moreover have "trim_space ''2015-10-21'' = ''2015-10-21''" by code_simp
  ultimately show "parseTime (\<lambda>_ _. None) ''2015-10-21'' =
     first_match (map (\<lambda>l. l (\<lambda>_ _. None)) (isoLayouts @ rfcLayouts)) ''2015-10-21''" by simp
qed code_simp

end
