(* ===== verification/Rss_Feed.thy ===== *)
theory Rss_Feed
  imports Feed_Xml Feed_Time Identity
begin

text \<open>
  RSS 2.0 and RSS 1.0 documents (\<^verbatim>\<open>internal/rss/rss.go\<close>): the structs they are decoded into, the
  choice of image, and the entries made of the items.  Decoding an element into a struct that
  was decoded into before is a function of the earlier value, as \<^verbatim>\<open>encoding/xml\<close> does for
  repeated elements of a pointer or struct field.
\<close>

section \<open>Media\<close>

record media_url =
  mu_url :: string
  mu_medium :: string
  mu_type :: string

record rss_enclosure =
  ec_url :: string
  ec_type :: string

record media_group =
  mg_thumbnail :: string
  mg_image :: string
  mg_description :: string

definition no_media_url :: media_url where "no_media_url = \<lparr>mu_url = [], mu_medium = [], mu_type = []\<rparr>"
definition no_enclosure :: rss_enclosure where "no_enclosure = \<lparr>ec_url = [], ec_type = []\<rparr>"
definition no_media_group :: media_group where
  "no_media_group = \<lparr>mg_thumbnail = [], mg_image = [], mg_description = []\<rparr>"

definition decode_media_url :: "xml \<Rightarrow> media_url \<Rightarrow> media_url" where
  "decode_media_url x m =
     (let a = attrs_of x in
      \<lparr>mu_url = last_attr ''url'' a (mu_url m), mu_medium = last_attr ''medium'' a (mu_medium m),
       mu_type = last_attr ''type'' a (mu_type m)\<rparr>)"

definition decode_enclosure :: "xml \<Rightarrow> rss_enclosure \<Rightarrow> rss_enclosure" where
  "decode_enclosure x e =
     (let a = attrs_of x in
      \<lparr>ec_url = last_attr ''url'' a (ec_url e), ec_type = last_attr ''type'' a (ec_type e)\<rparr>)"

definition isImage :: "media_url \<Rightarrow> bool" where
  "isImage m \<longleftrightarrow> has_prefix (mu_medium m) ''image'' \<or> has_prefix (mu_type m) ''image/''"

definition usableImage :: "media_url \<Rightarrow> bool" where
  "usableImage m \<longleftrightarrow> isImage m \<and> \<not> blank (mu_url m)"

text \<open>\<open>mediaContents.UnmarshalXML\<close>.\<close>

definition keep_media_content :: "media_url \<Rightarrow> media_url list \<Rightarrow> media_url list" where
  "keep_media_content m cs = (if cs = [] \<and> usableImage m then [m] else cs)"

definition unmarshal_media_content :: "xml \<Rightarrow> media_url list \<Rightarrow> media_url list" where
  "unmarshal_media_content x cs = keep_media_content (decode_media_url x no_media_url) cs"

text \<open>\<open>rssCategories.UnmarshalXML\<close>.\<close>

definition unmarshal_category :: "xml \<Rightarrow> string list \<Rightarrow> string list" where
  "unmarshal_category x cs =
     (let v = trim_space (chardata x)
      in if v \<noteq> [] \<and> length cs < maxCategories then cs @ [v] else cs)"

definition unmarshal_first_thumbnail :: "xml \<Rightarrow> string \<Rightarrow> string" where
  "unmarshal_first_thumbnail x f =
     (if f = [] then trim_space (mu_url (decode_media_url x no_media_url)) else f)"

definition unmarshal_first_image :: "xml \<Rightarrow> string \<Rightarrow> string" where
  "unmarshal_first_image x f =
     (let m = decode_media_url x no_media_url
      in if f = [] \<and> isImage m then trim_space (mu_url m) else f)"

definition decode_media_group :: "xml \<Rightarrow> media_group \<Rightarrow> media_group" where
  "decode_media_group x g =
     (let kids = children_of x in
      \<lparr>mg_thumbnail = collect (is_elem ''thumbnail'') unmarshal_first_thumbnail kids (mg_thumbnail g),
       mg_image = collect (is_elem ''content'') unmarshal_first_image kids (mg_image g),
       mg_description = last_text (is_elem ''description'') kids (mg_description g)\<rparr>)"

text \<open>A pointer field: allocated by the first match, decoded into again by the later ones.\<close>

definition pointer_field :: "string \<Rightarrow> 'a \<Rightarrow> (xml \<Rightarrow> 'a \<Rightarrow> 'a) \<Rightarrow> xml list \<Rightarrow> 'a option" where
  "pointer_field local zero decode kids =
     collect (is_elem local) (\<lambda>x v. Some (decode x (case v of None \<Rightarrow> zero | Some p \<Rightarrow> p))) kids None"

fun group_image :: "media_group option \<Rightarrow> string" where
  "group_image None = []"
| "group_image (Some g) = (if mg_thumbnail g \<noteq> [] then mg_thumbnail g else mg_image g)"

fun group_description :: "media_group option \<Rightarrow> string" where
  "group_description None = []"
| "group_description (Some g) = trim_space (mg_description g)"

definition mediaImage :: "media_url option \<Rightarrow> media_url list \<Rightarrow> media_group option \<Rightarrow> string" where
  "mediaImage thumbnail content group' =
     (case thumbnail of
        Some t \<Rightarrow>
          if \<not> blank (mu_url t) then trim_space (mu_url t)
          else (case find usableImage content of Some c \<Rightarrow> trim_space (mu_url c) | None \<Rightarrow> group_image group')
      | None \<Rightarrow> (case find usableImage content of Some c \<Rightarrow> trim_space (mu_url c) | None \<Rightarrow> group_image group'))"

definition entryImage :: "rss_enclosure option \<Rightarrow> media_url option \<Rightarrow> media_url list \<Rightarrow> media_group option \<Rightarrow> string" where
  "entryImage enclosure thumbnail content group' =
     (case enclosure of
        Some e \<Rightarrow> if has_prefix (ec_type e) ''image/'' \<and> \<not> blank (ec_url e) then trim_space (ec_url e)
                  else mediaImage thumbnail content group'
      | None \<Rightarrow> mediaImage thumbnail content group')"

section \<open>Items\<close>

record rss_item =
  ri_title :: "ns_text list"
  ri_link :: "ns_text list"
  ri_description :: "ns_text list"
  ri_guid :: "ns_text list"
  ri_pubDate :: "ns_text list"
  ri_author :: "ns_text list"
  ri_contentEncoded :: "ns_text list"
  ri_creator :: string
  ri_categories :: "string list"
  ri_enclosure :: "rss_enclosure option"
  ri_thumbnail :: "media_url option"
  ri_mediaContent :: "media_url list"
  ri_mediaGroup :: "media_group option"
  ri_dcDate :: string

definition decode_item :: "doc_env \<Rightarrow> xml \<Rightarrow> rss_item" where
  "decode_item D x =
     (let kids = children_of x in
      \<lparr>ri_title = ns_texts D ''title'' kids, ri_link = ns_texts D ''link'' kids,
       ri_description = ns_texts D ''description'' kids, ri_guid = ns_texts D ''guid'' kids,
       ri_pubDate = ns_texts D ''pubDate'' kids, ri_author = ns_texts D ''author'' kids,
       ri_contentEncoded = ns_texts D ''encoded'' kids,
       ri_creator = last_text (is_elem ''creator'') kids [],
       ri_categories = collect (is_elem ''category'') unmarshal_category kids [],
       ri_enclosure = pointer_field ''enclosure'' no_enclosure decode_enclosure kids,
       ri_thumbnail = pointer_field ''thumbnail'' no_media_url decode_media_url kids,
       ri_mediaContent = collect (is_elem ''content'') unmarshal_media_content kids [],
       ri_mediaGroup = pointer_field ''group'' no_media_group decode_media_group kids,
       ri_dcDate = last_text (is_elem ''date'') kids []\<rparr>)"

definition unmarshal_item :: "doc_env \<Rightarrow> xml \<Rightarrow> rss_item list \<Rightarrow> rss_item list" where
  "unmarshal_item D = appendBounded maxFeedEntries (decode_item D)"

record rss_channel =
  rc_title :: "ns_text list"
  rc_items :: "rss_item list"

definition decode_channel :: "doc_env \<Rightarrow> xml \<Rightarrow> rss_channel \<Rightarrow> rss_channel" where
  "decode_channel D x c =
     (let kids = children_of x in
      \<lparr>rc_title = collect (is_elem ''title'') (unmarshal_ns_text D) kids (rc_title c),
       rc_items = collect (is_elem ''item'') (unmarshal_item D) kids (rc_items c)\<rparr>)"

section \<open>Entries\<close>

definition trimCategories :: "string list \<Rightarrow> string list" where
  "trimCategories raw = filter (\<lambda>c. c \<noteq> []) (map trim_space raw)"

definition time_or_zero :: "doc_env \<Rightarrow> string \<Rightarrow> int" where
  "time_or_zero D v = (case parseTime (de_zone D) v of None \<Rightarrow> zero_time | Some t \<Rightarrow> t)"

text \<open>Two dates in order of preference: the second counts when the first is missing or invalid.\<close>

definition first_date :: "doc_env \<Rightarrow> string \<Rightarrow> string \<Rightarrow> int" where
  "first_date D a b = (if time_or_zero D a = zero_time then time_or_zero D b else time_or_zero D a)"

definition item_entry :: "doc_env \<Rightarrow> nat \<Rightarrow> rss_item \<Rightarrow> entry" where
  "item_entry D i item =
     (let title = pickText (ri_title item);
          link = pickText (ri_link item);
          (ident, src) = pickIdentity (pickText (ri_guid item)) link title;
          author0 = pickText (ri_author item);
          description0 = pickText (ri_description item)
      in withContentID
        \<lparr>en_id = ident, en_source = src, en_previous_id = [], en_previous_source = IDFromGUID,
         en_title = title, en_link = link,
         en_description = (if description0 = [] then group_description (ri_mediaGroup item) else description0),
         en_content = pickTextPrefer (ri_contentEncoded item) [contentNamespace, []],
         en_image = trim_space (entryImage (ri_enclosure item) (ri_thumbnail item) (ri_mediaContent item) (ri_mediaGroup item)),
         en_author = (if author0 = [] then trim_space (ri_creator item) else author0),
         en_categories = trimCategories (ri_categories item),
         en_published = first_date D (pickText (ri_pubDate item)) (ri_dcDate item),
         en_feed_title = [], en_seq = int i\<rparr>)"

definition rssItemsToEntries :: "doc_env \<Rightarrow> rss_item list \<Rightarrow> entry list" where
  "rssItemsToEntries D items = map (\<lambda>(i, item). item_entry D i item) (enumerate 0 items)"

text \<open>The check of a field \<open>XMLName\<close>, and decoding with it.\<close>

definition expect_root :: "string \<Rightarrow> xml \<Rightarrow> go_error + xml" where
  "expect_root local doc =
     (if is_elem local doc then Inr doc
      else Inl (PlainError (''expected element type <'' @ local @ ''> but have <'' @ snd (xml_tag doc) @ ''>'')))"

definition unmarshal_document :: "doc_env \<Rightarrow> string \<Rightarrow> string \<Rightarrow> go_error + xml" where
  "unmarshal_document D local data =
     (case de_tree D data of Inl e \<Rightarrow> Inl e | Inr doc \<Rightarrow> expect_root local doc)"

definition parseRSS :: "doc_env \<Rightarrow> string \<Rightarrow> go_error + entry list \<times> string" where
  "parseRSS D data =
     (case unmarshal_document D ''rss'' data of
        Inl e \<Rightarrow> Inl e
      | Inr doc \<Rightarrow>
          let c = collect (is_elem ''channel'') (decode_channel D) (children_of doc) \<lparr>rc_title = [], rc_items = []\<rparr>
          in Inr (rssItemsToEntries D (rc_items c), pickText (rc_title c)))"

definition rdf_title :: "doc_env \<Rightarrow> xml \<Rightarrow> ns_text list \<Rightarrow> ns_text list" where
  "rdf_title D x cs = collect (is_elem ''title'') (unmarshal_ns_text D) (children_of x) cs"

definition parseRDF :: "doc_env \<Rightarrow> string \<Rightarrow> go_error + entry list \<times> string" where
  "parseRDF D data =
     (case unmarshal_document D ''RDF'' data of
        Inl e \<Rightarrow> Inl e
      | Inr doc \<Rightarrow>
          Inr (rssItemsToEntries D (collect (is_elem ''item'') (unmarshal_item D) (children_of doc) []),
               pickText (collect (is_elem ''channel'') (rdf_title D) (children_of doc) [])))"

section \<open>Bounded decoding\<close>

lemma keep_media_contents:
  "find usableImage (fold keep_media_content ms cs) =
     (if cs = [] then find usableImage ms else find usableImage cs)"
proof (induction ms arbitrary: cs)
  case (Cons m ms)
  then show ?case by (auto simp: keep_media_content_def)
qed auto

lemma media_contents_first:
  "find usableImage (collect P unmarshal_media_content kids []) =
   find usableImage (map (\<lambda>x. decode_media_url x no_media_url) (filter P kids))"
proof -
  have "fold unmarshal_media_content xs cs = fold keep_media_content (map (\<lambda>x. decode_media_url x no_media_url) xs) cs" for xs cs
    by (induction xs arbitrary: cs) (simp_all add: unmarshal_media_content_def)
  then show ?thesis by (simp add: collect_def keep_media_contents)
qed

lemma categories_kept:
  "collect P unmarshal_category kids [] =
   take maxCategories (filter (\<lambda>v. v \<noteq> []) (map (\<lambda>x. trim_space (chardata x)) (filter P kids)))"
proof -
  have "length cs \<le> maxCategories \<Longrightarrow> fold unmarshal_category xs cs =
      cs @ take (maxCategories - length cs) (filter (\<lambda>v. v \<noteq> []) (map (\<lambda>x. trim_space (chardata x)) xs))" for xs cs
  proof (induction xs arbitrary: cs)
    case (Cons x xs)
    let ?v = "trim_space (chardata x)"
    show ?case
    proof (cases "?v \<noteq> [] \<and> length cs < maxCategories")
      case True
      then have "unmarshal_category x cs = cs @ [?v]" by (simp add: unmarshal_category_def)
      moreover have "maxCategories - length cs = Suc (maxCategories - length (cs @ [?v]))" using True by (simp add: Suc_diff_Suc)
      ultimately show ?thesis using Cons.IH [of "cs @ [?v]"] True by simp
    next
      case False
      then have "unmarshal_category x cs = cs" by (auto simp: unmarshal_category_def Let_def)
      then show ?thesis using Cons False by auto
    qed
  qed simp
  from this [of "[]" "filter P kids"] show ?thesis by (simp add: collect_def)
qed

lemma item_entry_frame [simp]:
  "en_seq (item_entry D i item) = int i"
  "en_categories (item_entry D i item) = trimCategories (ri_categories item)"
  "en_feed_title (item_entry D i item) = []"
  by (simp_all add: item_entry_def withContentID_def Let_def split: prod.split)

end
