(* ===== verification/Atom_Feed.thy ===== *)
theory Atom_Feed
  imports Rss_Feed
begin

text \<open>
  Atom documents (\<^verbatim>\<open>internal/rss/atom.go\<close>) and the identities earlier releases picked for their
  entries (\<^verbatim>\<open>internal/rss/previous_identity.go\<close>), with \<open>ResolveReference\<close> of \<^verbatim>\<open>net/url\<close>.

  The two vocabularies differ in which elements the id, links and dates are read from: those
  of Atom's namespace, or those with the local name in any namespace.  A reading of an entry
  is therefore a function of the selection.
\<close>

section \<open>Resolving references\<close>

text \<open>The loop of \<open>resolvePath\<close>: what follows the leading slash, and whether nothing was written.\<close>

fun resolve_elems :: "string list \<Rightarrow> string \<times> bool \<Rightarrow> string \<times> bool" where
  "resolve_elems [] st = st"
| "resolve_elems (elem # elems) (str, first) =
     resolve_elems elems
       (if elem = ''.'' then (str, False)
        else if elem = ''..'' then
          (case split_last (CHR ''/'') str of None \<Rightarrow> ([], True) | Some (front, _) \<Rightarrow> (front, first))
        else (str @ (if first then [] else ''/'') @ elem, False))"

definition resolve_path :: "string \<Rightarrow> string \<Rightarrow> string" where
  "resolve_path base ref =
     (let full = (if ref = [] then base
                  else if hd ref \<noteq> CHR ''/'' then
                    (case split_last (CHR ''/'') base of None \<Rightarrow> ref | Some (front, _) \<Rightarrow> front @ ''/'' @ ref)
                  else ref)
      in if full = [] then []
         else
           let elems = split_on (CHR ''/'') full;
               str = fst (resolve_elems elems ([], True));
               r = ''/'' @ str @ (if last elems = ''.'' \<or> last elems = ''..'' then ''/'' else [])
           in if has_prefix (tl r) ''/'' then tl r else r)"

definition set_path_or_keep :: "string \<Rightarrow> url \<Rightarrow> url" where
  "set_path_or_keep p u = (case set_path p u of None \<Rightarrow> u | Some v \<Rightarrow> v)"

definition resolve_reference :: "url \<Rightarrow> url \<Rightarrow> url" where
  "resolve_reference u ref =
     (let r = (if scheme ref = [] then ref\<lparr>scheme := scheme u\<rparr> else ref) in
      if scheme ref \<noteq> [] \<or> host ref \<noteq> [] \<or> user ref \<noteq> None
      then set_path_or_keep (resolve_path (escaped_path ref) []) r
      else if opaque ref \<noteq> [] then r\<lparr>user := None, host := [], path := []\<rparr>
      else
        let r = (if path ref = [] \<and> \<not> force_query ref \<and> raw_query ref = []
                 then (if fragment ref = []
                       then r\<lparr>raw_query := raw_query u, fragment := fragment u, raw_fragment := raw_fragment u\<rparr>
                       else r\<lparr>raw_query := raw_query u\<rparr>)
                 else r)
        in if path ref = [] \<and> opaque u \<noteq> []
           then r\<lparr>opaque := opaque u, user := None, host := [], path := []\<rparr>
           else set_path_or_keep (resolve_path (escaped_path u) (escaped_path ref)) (r\<lparr>host := host u, user := user u\<rparr>))"

definition resolveAtomURL :: "go_env \<Rightarrow> string \<Rightarrow> string \<Rightarrow> string" where
  "resolveAtomURL E base ref =
     (if ref = [] \<or> base = [] then ref
      else case url_parse E ref of
        None \<Rightarrow> ref
      | Some refURL \<Rightarrow>
          if scheme refURL \<noteq> [] then ref
          else case url_parse E base of
            None \<Rightarrow> ref
          | Some baseURL \<Rightarrow> url_string (resolve_reference baseURL refURL))"

section \<open>Links\<close>

record atom_link =
  al_href :: string
  al_rel :: string
  al_type :: string

definition decode_link :: "xml \<Rightarrow> atom_link" where
  "decode_link x =
     (let a = attrs_of x in
      \<lparr>al_href = last_attr ''href'' a [], al_rel = last_attr ''rel'' a [], al_type = last_attr ''type'' a []\<rparr>)"

definition isAlternate :: "atom_link \<Rightarrow> bool" where
  "isAlternate l \<longleftrightarrow> al_rel l = [] \<or> al_rel l = ''alternate''"

definition isImageEnclosure :: "atom_link \<Rightarrow> bool" where
  "isImageEnclosure l \<longleftrightarrow> al_rel l = ''enclosure'' \<and> has_prefix (al_type l) ''image/'' \<and> \<not> blank (al_href l)"

definition keep_link :: "atom_link \<Rightarrow> atom_link list \<Rightarrow> atom_link list" where
  "keep_link l kept =
     (if kept = [] \<or> (\<not> list_ex isAlternate kept \<and> isAlternate l) \<or> (\<not> list_ex isImageEnclosure kept \<and> isImageEnclosure l)
      then kept @ [l] else kept)"

definition unmarshal_link :: "xml \<Rightarrow> atom_link list \<Rightarrow> atom_link list" where
  "unmarshal_link x kept = keep_link (decode_link x) kept"

definition primaryLink :: "atom_link list \<Rightarrow> string" where
  "primaryLink links =
     (case find isAlternate links of
        Some l \<Rightarrow> al_href l
      | None \<Rightarrow> (case links of [] \<Rightarrow> [] | l # _ \<Rightarrow> al_href l))"

definition enclosureImage :: "atom_link list \<Rightarrow> string" where
  "enclosureImage links =
     (case find isImageEnclosure links of Some l \<Rightarrow> trim_space (al_href l) | None \<Rightarrow> [])"

section \<open>Entries\<close>

text \<open>What every vocabulary reads alike (\<open>atomEntryCore\<close>).\<close>

record atom_core =
  ac_title :: "ns_text list"
  ac_summary :: "ns_text list"
  ac_content :: "ns_text list"
  ac_author :: string
  ac_categories :: "string list"
  ac_thumbnail :: "media_url option"
  ac_group :: "media_group option"
  ac_base :: string

text \<open>\<open>atomCategories.UnmarshalXML\<close>, of which only the terms are used.\<close>

definition unmarshal_atom_category :: "xml \<Rightarrow> string list \<Rightarrow> string list" where
  "unmarshal_atom_category x cs =
     (let term' = last_attr ''term'' (attrs_of x) []
      in if \<not> blank term' \<and> length cs < maxCategories then cs @ [term'] else cs)"

definition decode_author :: "xml \<Rightarrow> string \<Rightarrow> string" where
  "decode_author x v = last_text (is_elem ''name'') (children_of x) v"

definition decode_core :: "doc_env \<Rightarrow> xml \<Rightarrow> atom_core" where
  "decode_core D x =
     (let kids = children_of x in
      \<lparr>ac_title = ns_texts D ''title'' kids, ac_summary = ns_texts D ''summary'' kids,
       ac_content = ns_texts D ''content'' kids,
       ac_author = collect (is_elem ''author'') decode_author kids [],
       ac_categories = collect (is_elem ''category'') unmarshal_atom_category kids [],
       ac_thumbnail = pointer_field ''thumbnail'' no_media_url decode_media_url kids,
       ac_group = pointer_field ''group'' no_media_group decode_media_group kids,
       ac_base = last_attr ''base'' (attrs_of x) []\<rparr>)"

text \<open>The id, dates and links of one reading.\<close>

record atom_reading =
  rd_id :: string
  rd_updated :: string
  rd_published :: string
  rd_links :: "atom_link list"

definition decode_reading :: "(string \<Rightarrow> xml \<Rightarrow> bool) \<Rightarrow> xml \<Rightarrow> atom_reading" where
  "decode_reading sel x =
     (let kids = children_of x in
      \<lparr>rd_id = last_text (sel ''id'') kids [], rd_updated = last_text (sel ''updated'') kids [],
       rd_published = last_text (sel ''published'') kids [],
       rd_links = collect (sel ''link'') unmarshal_link kids []\<rparr>)"

abbreviation atom_reading_of :: "xml \<Rightarrow> atom_reading" where
  "atom_reading_of \<equiv> decode_reading (is_elem_in atomNamespace)"

abbreviation loose_reading_of :: "xml \<Rightarrow> atom_reading" where
  "loose_reading_of \<equiv> decode_reading is_elem"

record atom_item =
  am_core :: atom_core
  am_reading :: atom_reading

definition decode_atom_entry :: "doc_env \<Rightarrow> xml \<Rightarrow> atom_item" where
  "decode_atom_entry D x = \<lparr>am_core = decode_core D x, am_reading = atom_reading_of x\<rparr>"

definition decode_loose_entry :: "doc_env \<Rightarrow> xml \<Rightarrow> atom_item" where
  "decode_loose_entry D x = \<lparr>am_core = decode_core D x, am_reading = loose_reading_of x\<rparr>"

definition atomText :: "ns_text list \<Rightarrow> string" where
  "atomText cs = pickTextPrefer cs [atomNamespace, []]"

definition effectiveBase :: "doc_env \<Rightarrow> string \<Rightarrow> atom_core \<Rightarrow> string" where
  "effectiveBase D feedBase core =
     (let entryBase = trim_space (ac_base core)
      in if entryBase \<noteq> [] then resolveAtomURL (de_go D) feedBase entryBase else feedBase)"

record identity_fields =
  if_link :: string
  if_id :: string
  if_source :: id_source
  if_published :: int
  if_image :: string

definition identityFields :: "doc_env \<Rightarrow> atom_core \<Rightarrow> string \<Rightarrow> atom_reading \<Rightarrow> identity_fields" where
  "identityFields D core base rd =
     (let link = resolveAtomURL (de_go D) base (primaryLink (rd_links rd));
          (ident, src) = pickIdentity (rd_id rd) link (atomText (ac_title core));
          image0 = enclosureImage (rd_links rd);
          image = (if image0 = [] then mediaImage (ac_thumbnail core) [] (ac_group core) else image0)
      in \<lparr>if_link = link, if_id = ident, if_source = src,
          if_published = first_date D (rd_published rd) (rd_updated rd),
          if_image = trim_space (resolveAtomURL (de_go D) base image)\<rparr>)"

definition atom_entry :: "doc_env \<Rightarrow> string \<Rightarrow> nat \<Rightarrow> atom_item \<Rightarrow> entry" where
  "atom_entry D feedBase i item =
     (let core = am_core item;
          current = identityFields D core (effectiveBase D feedBase core) (am_reading item);
          content = atomText (ac_content core);
          summary = atomText (ac_summary core);
          description = (if summary = [] then content else summary)
      in withContentID
        \<lparr>en_id = if_id current, en_source = if_source current, en_previous_id = [], en_previous_source = IDFromGUID,
         en_title = atomText (ac_title core), en_link = trim_space (if_link current),
         en_description = (if description = [] then group_description (ac_group core) else description),
         en_content = content, en_image = if_image current, en_author = trim_space (ac_author core),
         en_categories = trimCategories (ac_categories core), en_published = if_published current,
         en_feed_title = [], en_seq = int i\<rparr>)"

section \<open>The identities of earlier releases\<close>

text \<open>\<open>applyPreviousIDs\<close>: one entry against the local-name reading of the same element.\<close>

definition previous_of :: "doc_env \<Rightarrow> string \<Rightarrow> atom_item \<Rightarrow> atom_reading \<Rightarrow> entry \<Rightarrow> entry" where
  "previous_of D feedBase item prior current =
     (let read = identityFields D (am_core item) (effectiveBase D feedBase (am_core item)) prior;
          previous = withContentID (current\<lparr>en_id := if_id read, en_source := if_source read,
            en_published := if_published read, en_image := if_image read\<rparr>)
      in if en_id previous \<noteq> en_id current \<or> en_source previous \<noteq> en_source current
         then current\<lparr>en_previous_id := en_id previous, en_previous_source := en_source previous\<rparr>
         else current)"

definition applyPreviousIDs ::
  "doc_env \<Rightarrow> string \<Rightarrow> entry list \<Rightarrow> atom_item list \<Rightarrow> (go_error + atom_reading list) \<Rightarrow> entry list" where
  "applyPreviousIDs D feedBase entries items prior =
     (case prior of
        Inl e \<Rightarrow> entries
      | Inr readings \<Rightarrow>
          if length readings \<noteq> length entries then entries
          else map (\<lambda>((entry, item), rd). previous_of D feedBase item rd entry) (zip (zip entries items) readings))"

abbreviation atom_entries_of :: "xml \<Rightarrow> xml list" where
  "atom_entries_of doc \<equiv> filter (is_elem_in atomNamespace ''entry'') (children_of doc)"

definition prior_readings :: "xml \<Rightarrow> atom_reading list" where
  "prior_readings doc = collect (is_elem_in atomNamespace ''entry'')
     (appendBounded maxFeedEntries loose_reading_of) (children_of doc) []"

definition readPreviousIDs :: "doc_env \<Rightarrow> entry list \<Rightarrow> atom_item list \<Rightarrow> string \<Rightarrow> string \<Rightarrow> entry list" where
  "readPreviousIDs D entries items feedBase data =
     applyPreviousIDs D feedBase entries items
       (case de_tree D data of Inl e \<Rightarrow> Inl e | Inr doc \<Rightarrow> Inr (prior_readings doc))"

text \<open>
  The pre-check: a child of an Atom entry with one of four local names outside Atom's
  namespace.  A document that cannot be read to its end also answers true.
\<close>

fun foreign_identity :: "xml \<Rightarrow> bool" where
  "foreign_identity (Chars t) = False"
| "foreign_identity (Elem name attrs inner kids) =
     (fst name \<noteq> atomNamespace \<and> snd name \<in> {''id'', ''link'', ''updated'', ''published''})"

definition mayReadIdentityDifferently :: "doc_env \<Rightarrow> string \<Rightarrow> bool" where
  "mayReadIdentityDifferently D data =
     (case de_tree D data of
        Inl e \<Rightarrow> True
      | Inr doc \<Rightarrow> list_ex (\<lambda>x. list_ex foreign_identity (children_of x)) (atom_entries_of doc))"

definition withPreviousIDs :: "doc_env \<Rightarrow> entry list \<Rightarrow> atom_item list \<Rightarrow> string \<Rightarrow> string \<Rightarrow> entry list" where
  "withPreviousIDs D entries items feedBase data =
     (if \<not> mayReadIdentityDifferently D data then entries
      else readPreviousIDs D entries items feedBase data)"

section \<open>Documents\<close>

definition atom_items :: "doc_env \<Rightarrow> xml \<Rightarrow> atom_item list" where
  "atom_items D doc = collect (is_elem_in atomNamespace ''entry'')
     (appendBounded maxFeedEntries (decode_atom_entry D)) (children_of doc) []"

definition loose_items :: "doc_env \<Rightarrow> xml \<Rightarrow> atom_item list" where
  "loose_items D doc = collect (is_elem ''entry'')
     (appendBounded maxFeedEntries (decode_loose_entry D)) (children_of doc) []"

definition feed_base :: "xml \<Rightarrow> string" where
  "feed_base doc = trim_space (last_attr ''base'' (attrs_of doc) [])"

definition atom_feed_entries :: "doc_env \<Rightarrow> string \<Rightarrow> atom_item list \<Rightarrow> entry list" where
  "atom_feed_entries D feedBase items = map (\<lambda>(i, item). atom_entry D feedBase i item) (enumerate 0 items)"

definition parseAtom :: "doc_env \<Rightarrow> string \<Rightarrow> go_error + entry list \<times> string" where
  "parseAtom D data =
     (case de_root D data of
        Inl e \<Rightarrow> Inl e
      | Inr root \<Rightarrow>
          (case de_tree D data of
             Inl e \<Rightarrow> Inl e
           | Inr doc \<Rightarrow>
               let atom = (fst root = atomNamespace);
                   items = (if atom then atom_items D doc else loose_items D doc);
                   entries = atom_feed_entries D (feed_base doc) items
               in Inr (if atom then withPreviousIDs D entries items (feed_base doc) data else entries,
                       atomText (ns_texts D ''title'' (children_of doc)))))"

end
