(* ===== verification/Atom_Feed_Laws.thy ===== *)
theory Atom_Feed_Laws
  imports Atom_Feed
begin

text \<open>
  What the shortcuts of the feed decoder leave unchanged: the bounded slices select what the
  full lists would, and the pre-check of \<open>withPreviousIDs\<close> only skips a second reading that
  would have found nothing.  The entries' own form is the last part.
\<close>

section \<open>Links\<close>

definition link_represents :: "atom_link list \<Rightarrow> atom_link list \<Rightarrow> bool" where
  "link_represents kept all \<longleftrightarrow>
     find isAlternate kept = find isAlternate all \<and> find isImageEnclosure kept = find isImageEnclosure all \<and>
     take 1 kept = take 1 all \<and>
     length kept \<le> 1 + (if list_ex isAlternate kept then 1 else 0) + (if list_ex isImageEnclosure kept then 1 else 0)"

lemma find_snoc: "find P (xs @ [y]) = (case find P xs of None \<Rightarrow> if P y then Some y else None | Some x \<Rightarrow> Some x)"
  by (induction xs) auto

lemma find_list_ex: "find P xs = None \<longleftrightarrow> \<not> list_ex P xs"
  by (induction xs) auto

lemma keep_link_represents:
  assumes "link_represents kept all"
  shows "link_represents (keep_link l kept) (all @ [l])"
proof -
  have nil: "kept = [] \<longleftrightarrow> all = []" using assms by (cases kept; cases all) (auto simp: link_represents_def)
  have ex: "list_ex isAlternate kept \<longleftrightarrow> find isAlternate all \<noteq> None"
    "list_ex isImageEnclosure kept \<longleftrightarrow> find isImageEnclosure all \<noteq> None"
    using assms find_list_ex unfolding link_represents_def by metis+
  have one: "take 1 (all @ [l]) = (if all = [] then [l] else take 1 all)" by (cases all) auto
  have one': "take 1 (kept @ [l]) = (if kept = [] then [l] else take 1 kept)" by (cases kept) auto
  show ?thesis
  proof (cases "keep_link l kept = kept")
    case True
    then have keep: "kept \<noteq> []" "isAlternate l \<longrightarrow> list_ex isAlternate kept" "isImageEnclosure l \<longrightarrow> list_ex isImageEnclosure kept"
      by (auto simp: keep_link_def split: if_splits)
    show ?thesis
      using assms keep nil ex unfolding link_represents_def True find_snoc one by (auto split: option.splits if_splits)
  next
    case False
    then have keep: "keep_link l kept = kept @ [l]"
      "kept = [] \<or> (isAlternate l \<and> \<not> list_ex isAlternate kept) \<or> (isImageEnclosure l \<and> \<not> list_ex isImageEnclosure kept)"
      by (auto simp: keep_link_def split: if_splits)
    show ?thesis
      using assms keep(2) nil unfolding link_represents_def keep(1) find_snoc one one' by (auto split: option.splits if_splits)
  qed
qed

lemma fold_links_represent: "link_represents kept all \<Longrightarrow> link_represents (fold keep_link ls kept) (all @ ls)"
proof (induction ls arbitrary: kept all)
  case (Cons l ls)
  from Cons.IH [OF keep_link_represents [OF Cons.prems]] show ?case by simp
qed simp

lemma links_represent:
  "link_represents (collect P unmarshal_link kids []) (map decode_link (filter P kids))"
proof -
  have "fold unmarshal_link xs kept = fold keep_link (map decode_link xs) kept" for xs kept
    by (induction xs arbitrary: kept) (simp_all add: unmarshal_link_def)
  then show ?thesis
    using fold_links_represent [of "[]" "[]" "map decode_link (filter P kids)"]
    by (simp add: collect_def link_represents_def)
qed

lemma primaryLink_represents: "link_represents kept all \<Longrightarrow> primaryLink kept = primaryLink all"
  by (cases kept; cases all) (auto simp: link_represents_def primaryLink_def split: option.splits)

lemma enclosureImage_represents: "link_represents kept all \<Longrightarrow> enclosureImage kept = enclosureImage all"
  by (simp add: link_represents_def enclosureImage_def)

lemma represents_at_most_three: "link_represents kept all \<Longrightarrow> length kept \<le> 3"
  by (auto simp: link_represents_def split: if_splits)

text \<open>C19: The bounded slices lose nothing that is read from them.  The text picked from the
  candidates of a field, by each of the three preferences of namespaces the code has, is the one
  picked from all its elements; the article link and the image enclosure of the at most three links kept are those
  of all links; the first usable image is that of all media contents; and the categories are
  the first fifty that are not blank.\<close>

theorem bounded_slices_lossless:
  "pickText (ns_texts D local kids) = pickText (all_candidates D local kids) \<and>
   atomText (ns_texts D local kids) = atomText (all_candidates D local kids) \<and>
   pickTextPrefer (ns_texts D local kids) [contentNamespace, []] =
     pickTextPrefer (all_candidates D local kids) [contentNamespace, []] \<and>
   primaryLink (collect P unmarshal_link kids []) = primaryLink (map decode_link (filter P kids)) \<and>
   enclosureImage (collect P unmarshal_link kids []) = enclosureImage (map decode_link (filter P kids)) \<and>
   length (collect P unmarshal_link kids []) \<le> 3 \<and>
   mediaImage thumbnail (collect P unmarshal_media_content kids []) grp =
     mediaImage thumbnail (map (\<lambda>x. decode_media_url x no_media_url) (filter P kids)) grp \<and>
   collect P unmarshal_category kids [] =
     take maxCategories (filter (\<lambda>v. v \<noteq> []) (map (\<lambda>x. trim_space (chardata x)) (filter P kids)))"
proof -
  note pick = pick_represents [OF candidates_represent]
  have "pickText (ns_texts D local kids) = pickText (all_candidates D local kids)"
    "atomText (ns_texts D local kids) = atomText (all_candidates D local kids)"
    "pickTextPrefer (ns_texts D local kids) [contentNamespace, []] =
       pickTextPrefer (all_candidates D local kids) [contentNamespace, []]"
    unfolding pickText_def atomText_def by (rule pick; simp add: preferredNamespace_def)+
  moreover have "mediaImage thumbnail (collect P unmarshal_media_content kids []) grp =
      mediaImage thumbnail (map (\<lambda>x. decode_media_url x no_media_url) (filter P kids)) grp"
    by (simp only: mediaImage_def media_contents_first)
  moreover note links = links_represent [of P kids]
  ultimately show ?thesis
    using primaryLink_represents [OF links] enclosureImage_represents [OF links] represents_at_most_three [OF links]
      categories_kept [of P kids]
    by blast
qed

section \<open>The two readings of an entry\<close>

lemma readings_agree:
  assumes "\<not> list_ex foreign_identity (children_of x)"
  shows "atom_reading_of x = loose_reading_of x"
proof -
  have sel: "is_elem_in atomNamespace local k = is_elem local k"
    if "k \<in> set (children_of x)" "local \<in> {''id'', ''link'', ''updated'', ''published''}" for k local
    using assms that by (cases k) (auto simp: list_ex_iff)
  have "last_text (is_elem_in atomNamespace local) (children_of x) [] = last_text (is_elem local) (children_of x) []"
    if "local \<in> {''id'', ''updated'', ''published''}" for local
    using that by (intro last_text_cong sel) auto
  moreover have "collect (is_elem_in atomNamespace ''link'') unmarshal_link (children_of x) [] =
      collect (is_elem ''link'') unmarshal_link (children_of x) []"
    by (intro collect_cong sel) auto
  ultimately show ?thesis by (simp add: decode_reading_def)
qed

text \<open>An entry compared with the reading it was made from keeps its identity.\<close>

lemma withContentID_again:
  assumes "e = withContentID e0"
  shows "en_id (withContentID (e\<lparr>en_id := en_id e0, en_source := en_source e0,
      en_published := en_published e0, en_image := en_image e0\<rparr>)) = en_id e \<and>
    en_source (withContentID (e\<lparr>en_id := en_id e0, en_source := en_source e0,
      en_published := en_published e0, en_image := en_image e0\<rparr>)) = en_source e"
  unfolding assms by (cases "en_id e0 = []") (simp_all add: withContentID_def ContentID_def)

lemma previous_same_reading:
  "previous_of D feedBase item (am_reading item) (atom_entry D feedBase i item) = atom_entry D feedBase i item"
proof -
  let ?core = "am_core item"
  let ?cur = "identityFields D ?core (effectiveBase D feedBase ?core) (am_reading item)"
  obtain e0 where e0: "atom_entry D feedBase i item = withContentID e0"
    "en_id e0 = if_id ?cur" "en_source e0 = if_source ?cur" "en_published e0 = if_published ?cur" "en_image e0 = if_image ?cur"
    by (simp add: atom_entry_def Let_def)
  from withContentID_again [OF e0(1)] show ?thesis
    unfolding previous_of_def Let_def e0(2-5) by (simp only: simp_thms if_False)
qed

lemma atom_items_eq: "atom_items D doc = map (decode_atom_entry D) (take maxFeedEntries (atom_entries_of doc))"
  by (simp add: atom_items_def collect_appendBounded)

lemma prior_readings_eq: "prior_readings doc = map loose_reading_of (take maxFeedEntries (atom_entries_of doc))"
  by (simp add: prior_readings_def collect_appendBounded)

lemma previous_ids_unchanged:
  assumes "\<forall>x \<in> set (atom_entries_of doc). \<not> list_ex foreign_identity (children_of x)"
  shows "applyPreviousIDs D feedBase (atom_feed_entries D feedBase (atom_items D doc)) (atom_items D doc)
      (Inr (prior_readings doc)) = atom_feed_entries D feedBase (atom_items D doc)"
    (is "applyPreviousIDs D feedBase ?entries ?items _ = _")
proof -
  let ?xs = "take maxFeedEntries (atom_entries_of doc)"
  have len: "length (prior_readings doc) = length ?entries"
    by (simp add: atom_items_eq prior_readings_eq atom_feed_entries_def)
  have "map (\<lambda>((entry, item), rd). previous_of D feedBase item rd entry) (zip (zip ?entries ?items) (prior_readings doc)) = ?entries"
  proof (rule nth_equalityI)
    fix i
    assume "i < length (map (\<lambda>((entry, item), rd). previous_of D feedBase item rd entry)
      (zip (zip ?entries ?items) (prior_readings doc)))"
    then have i: "i < length ?xs" by (simp add: atom_items_eq prior_readings_eq atom_feed_entries_def)
    let ?item = "decode_atom_entry D (?xs ! i)"
    have "?xs ! i \<in> set (atom_entries_of doc)" using i by (metis in_set_takeD nth_mem)
    then have "loose_reading_of (?xs ! i) = am_reading ?item"
      using assms readings_agree by (simp add: decode_atom_entry_def)
    then have "previous_of D feedBase ?item (loose_reading_of (?xs ! i)) (atom_entry D feedBase i ?item) = atom_entry D feedBase i ?item"
      by (simp add: previous_same_reading)
    then show "map (\<lambda>((entry, item), rd). previous_of D feedBase item rd entry)
      (zip (zip ?entries ?items) (prior_readings doc)) ! i = ?entries ! i"
      using i by (simp add: atom_items_eq prior_readings_eq atom_feed_entries_def nth_enumerate_eq)
  qed (simp add: atom_items_eq prior_readings_eq atom_feed_entries_def)
  then show ?thesis using len by (simp add: applyPreviousIDs_def)
qed

text \<open>\<open>parseAtom\<close> with the second reading done for every Atom 1.0 document.\<close>

definition parseAtom_twice :: "doc_env \<Rightarrow> string \<Rightarrow> go_error + entry list \<times> string" where
  "parseAtom_twice D data =
     (case de_root D data of
        Inl e \<Rightarrow> Inl e
      | Inr root \<Rightarrow>
          (case de_tree D data of
             Inl e \<Rightarrow> Inl e
           | Inr doc \<Rightarrow>
               let atom = (fst root = atomNamespace);
                   items = (if atom then atom_items D doc else loose_items D doc);
                   entries = atom_feed_entries D (feed_base doc) items
               in Inr (if atom then readPreviousIDs D entries items (feed_base doc) data else entries,
                       atomText (ns_texts D ''title'' (children_of doc)))))"

text \<open>C18: The pre-check that spares most documents the second, local-name reading never hides an
  identity change: parsing with it gives the entries, previous identities included, that
  reading every Atom document twice would give.\<close>

theorem precheck_sound: "parseAtom D data = parseAtom_twice D data"
proof (cases "de_tree D data")
  case (Inr doc)
  have "withPreviousIDs D entries items base data = readPreviousIDs D entries items base data"
    if "entries = atom_feed_entries D base items" "items = atom_items D doc" for entries items base
  proof (cases "mayReadIdentityDifferently D data")
    case False
    then have "\<forall>x \<in> set (atom_entries_of doc). \<not> list_ex foreign_identity (children_of x)"
      using Inr by (auto simp: mayReadIdentityDifferently_def list_ex_iff)
    from previous_ids_unchanged [OF this] show ?thesis
      using Inr False that by (simp add: withPreviousIDs_def readPreviousIDs_def)
  qed (simp add: withPreviousIDs_def)
  from this [OF refl refl] show ?thesis by (simp add: parseAtom_def parseAtom_twice_def Inr Let_def split: sum.split)
qed (simp add: parseAtom_def parseAtom_twice_def split: sum.split)

section \<open>The form of the entries\<close>

definition entries_ok :: "entry list \<Rightarrow> bool" where
  "entries_ok es \<longleftrightarrow> length es \<le> maxFeedEntries \<and>
     (\<forall>i < length es. en_seq (es ! i) = int i \<and> en_id (es ! i) \<noteq> [] \<and> en_feed_title (es ! i) = [] \<and>
       (\<forall>c \<in> set (en_categories (es ! i)). c \<noteq> [] \<and> trimmed c) \<and> length (en_categories (es ! i)) \<le> maxCategories)"

lemma withContentID_nonempty: "en_id (withContentID e) \<noteq> []"
  by (simp add: withContentID_def ContentID_nonempty)

lemma withContentID_frame [simp]:
  "en_seq (withContentID e) = en_seq e" "en_categories (withContentID e) = en_categories e"
  "en_feed_title (withContentID e) = en_feed_title e"
  by (simp_all add: withContentID_def)

lemma trimCategories_form:
  "(\<forall>c \<in> set (trimCategories raw). c \<noteq> [] \<and> trimmed c) \<and> length (trimCategories raw) \<le> length raw"
  by (auto simp: trimCategories_def intro: order_trans [OF length_filter_le])

lemma atom_categories_bound: "length (collect P unmarshal_atom_category kids []) \<le> maxCategories"
proof -
  have "length cs \<le> maxCategories \<Longrightarrow> length (fold unmarshal_atom_category xs cs) \<le> maxCategories" for xs cs
    by (induction xs arbitrary: cs) (auto simp: unmarshal_atom_category_def Let_def)
  then show ?thesis by (simp add: collect_def)
qed

lemma entries_ok_map:
  assumes "length items \<le> maxFeedEntries"
    and "\<And>i item. item \<in> set items \<Longrightarrow> en_seq (f i item) = int i \<and> en_id (f i item) \<noteq> [] \<and> en_feed_title (f i item) = []"
    and "\<And>i item. item \<in> set items \<Longrightarrow> \<exists>raw. en_categories (f i item) = trimCategories raw \<and> length raw \<le> maxCategories"
  shows "entries_ok (map (\<lambda>(i, item). f i item) (enumerate 0 items))"
proof -
  have "\<exists>raw. en_categories (f i (items ! i)) = trimCategories raw \<and> length raw \<le> maxCategories"
    if "i < length items" for i
    using that assms(3) by simp
  then have "(\<forall>c \<in> set (en_categories (f i (items ! i))). c \<noteq> [] \<and> trimmed c) \<and>
      length (en_categories (f i (items ! i))) \<le> maxCategories" if "i < length items" for i
    using that trimCategories_form order_trans by metis
  then show ?thesis using assms(1,2) by (simp add: entries_ok_def nth_enumerate_eq)
qed

lemma item_categories_bound: "length (ri_categories (decode_item D x)) \<le> maxCategories"
  by (simp add: decode_item_def Let_def categories_kept)

lemma item_entry_id: "en_id (item_entry D i item) \<noteq> []"
  by (simp add: item_entry_def Let_def withContentID_nonempty split: prod.split)

lemma rss_entries_ok:
  assumes "length items \<le> maxFeedEntries" "\<forall>item \<in> set items. length (ri_categories item) \<le> maxCategories"
  shows "entries_ok (rssItemsToEntries D items)"
  unfolding rssItemsToEntries_def
  by (rule entries_ok_map) (use assms item_entry_id in auto)

lemma atom_entries_ok:
  assumes "length items \<le> maxFeedEntries" "\<forall>item \<in> set items. length (ac_categories (am_core item)) \<le> maxCategories"
  shows "entries_ok (atom_feed_entries D feedBase items)"
  unfolding atom_feed_entries_def
  by (rule entries_ok_map) (use assms withContentID_nonempty in \<open>auto simp: atom_entry_def Let_def\<close>)

lemma core_categories_bound: "length (ac_categories (decode_core D x)) \<le> maxCategories"
  by (simp add: decode_core_def Let_def atom_categories_bound)

lemma items_bounded:
  "length (atom_items D doc) \<le> maxFeedEntries" "length (loose_items D doc) \<le> maxFeedEntries"
  "\<forall>item \<in> set (atom_items D doc). length (ac_categories (am_core item)) \<le> maxCategories"
  "\<forall>item \<in> set (loose_items D doc). length (ac_categories (am_core item)) \<le> maxCategories"
  by (auto simp: atom_items_def loose_items_def collect_appendBounded decode_atom_entry_def decode_loose_entry_def
    core_categories_bound)

lemma fold_items_bounded:
  assumes "length s \<le> maxFeedEntries" "\<forall>item \<in> set s. length (ri_categories item) \<le> maxCategories"
  shows "length (collect P (unmarshal_item D) kids s) \<le> maxFeedEntries \<and>
    (\<forall>item \<in> set (collect P (unmarshal_item D) kids s). length (ri_categories item) \<le> maxCategories)"
  using assms by (auto simp: collect_def unmarshal_item_def fold_appendBounded item_categories_bound)

lemma channels_bounded:
  assumes "length (rc_items c) \<le> maxFeedEntries" "\<forall>item \<in> set (rc_items c). length (ri_categories item) \<le> maxCategories"
  shows "length (rc_items (collect P (decode_channel D) kids c)) \<le> maxFeedEntries \<and>
    (\<forall>item \<in> set (rc_items (collect P (decode_channel D) kids c)). length (ri_categories item) \<le> maxCategories)"
proof -
  have "length (rc_items (fold (decode_channel D) xs c)) \<le> maxFeedEntries \<and>
      (\<forall>item \<in> set (rc_items (fold (decode_channel D) xs c)). length (ri_categories item) \<le> maxCategories)" for xs
    using assms
  proof (induction xs arbitrary: c)
    case (Cons x xs)
    from fold_items_bounded [OF Cons.prems]
    have "length (rc_items (decode_channel D x c)) \<le> maxFeedEntries"
      "\<forall>item \<in> set (rc_items (decode_channel D x c)). length (ri_categories item) \<le> maxCategories"
      by (simp_all add: decode_channel_def Let_def)
    from Cons.IH [OF this] show ?case by simp
  qed simp
  then show ?thesis by (simp add: collect_def)
qed

lemma previous_of_frame [simp]:
  "en_seq (previous_of D b item rd e) = en_seq e" "en_id (previous_of D b item rd e) = en_id e"
  "en_feed_title (previous_of D b item rd e) = en_feed_title e" "en_categories (previous_of D b item rd e) = en_categories e"
  by (simp_all add: previous_of_def Let_def)

lemma previous_ids_ok:
  assumes "entries_ok entries" "length items = length entries"
  shows "entries_ok (withPreviousIDs D entries items b data)"
proof -
  have "entries_ok (applyPreviousIDs D b entries items prior)" for prior
    using assms by (auto simp: applyPreviousIDs_def entries_ok_def split: sum.split)
  then show ?thesis using assms by (simp add: withPreviousIDs_def readPreviousIDs_def)
qed

end
