(* ===== verification/Feed_Client.thy ===== *)
theory Feed_Client
  imports Atom_Feed_Laws Delivery
begin

text \<open>
  Parsing a fetched document of any format (\<open>parseFeed\<close> of \<^verbatim>\<open>internal/rss/parse.go\<close>) and the
  conditional fetch (\<open>FetchEntries\<close> of \<^verbatim>\<open>internal/rss/client.go\<close>).  The HTTP client, redirects and
  dialling included, is the record \<open>fetch_port\<close>; a response body is what can be read of it
  and the error reading ends with.  The model returns the requests made with the result.
\<close>

section \<open>Parsing\<close>

definition parseFeedDocument :: "doc_env \<Rightarrow> string \<Rightarrow> go_error + entry list \<times> string" where
  "parseFeedDocument D data =
     (case de_root D data of
        Inl e \<Rightarrow> Inl e
      | Inr root \<Rightarrow>
          let name = to_lower (de_go D) (snd root) in
          if name = ''rss'' then parseRSS D data
          else if name = ''feed'' then parseAtom D data
          else if name = ''rdf'' then parseRDF D data
          else Inl (UnrecognizedFormatError (snd root)))"

definition parseFeed :: "doc_env \<Rightarrow> string \<Rightarrow> go_error + entry list \<times> string" where
  "parseFeed D data = (case parseFeedDocument D data of Inl e \<Rightarrow> Inl (ParseError e) | Inr r \<Rightarrow> Inr r)"

section \<open>Fetching\<close>

definition maxFeedResponseBytes :: int where "maxFeedResponseBytes = 10 * 1024 * 1024"

definition userAgent :: string where
  "userAgent = ''rss2discord-operator (+https://github.com/maverickd650-labs/rss2discord)''"

record cache_validators =
  cv_etag :: string
  cv_last_modified :: string

record fetch_request =
  fq_url :: url
  fq_headers :: "(string \<times> string) list"

record fetch_response =
  fp_status_code :: int
  fp_status :: string
  fp_header :: "string \<Rightarrow> string"
  fp_body :: string
  fp_body_error :: "go_error option"

record fetch_port =
  ft_do :: "fetch_request \<Rightarrow> go_error + fetch_response"
  ft_url_error :: "string \<Rightarrow> go_error"

text \<open>\<open>io.ReadAll\<close> of an \<open>io.LimitReader\<close>: an error past the limit is not reached.\<close>

definition read_limited :: "int \<Rightarrow> fetch_response \<Rightarrow> string \<times> go_error option" where
  "read_limited n resp =
     (if n \<le> int (length (fp_body resp)) then (take (nat n) (fp_body resp), None) else (fp_body resp, fp_body_error resp))"

definition request_headers :: "cache_validators \<Rightarrow> (string \<times> string) list" where
  "request_headers v =
     [(''Accept'', ''application/rss+xml, application/xml, text/xml, */*''), (''User-Agent'', userAgent)]
     @ (if cv_etag v \<noteq> [] then [(''If-None-Match'', cv_etag v)] else [])
     @ (if cv_last_modified v \<noteq> [] then [(''If-Modified-Since'', cv_last_modified v)] else [])"

text \<open>The \<^verbatim>\<open>*url.Error\<close> of a failed parse.\<close>

definition url_parse_error :: "doc_env \<Rightarrow> fetch_port \<Rightarrow> string \<Rightarrow> go_error" where
  "url_parse_error D P raw =
     UrlError (''parse '' @ go_quote (env_print (de_go D)) raw @ '': '' @ err_text (ft_url_error P raw)) False
       (ft_url_error P raw)"

definition prepare_fetch :: "doc_env \<Rightarrow> fetch_port \<Rightarrow> string \<Rightarrow> cache_validators \<Rightarrow> go_error + fetch_request" where
  "prepare_fetch D P feedURL v =
     (if blank feedURL then Inl (InvalidURLError feedURL ''feed URL is empty'' None)
      else case parse_no_fragment (de_go D) True feedURL of
        None \<Rightarrow>
          (let err = url_parse_error D P feedURL in
           Inl (InvalidURLError feedURL
             (''invalid feed URL '' @ go_quote (env_print (de_go D)) feedURL @ '': '' @ err_text err) (Some err)))
      | Some u \<Rightarrow>
          if scheme u \<noteq> ''http'' \<and> scheme u \<noteq> ''https'' then
            Inl (InvalidURLError feedURL
              (''unsupported feed URL scheme '' @ go_quote (env_print (de_go D)) (scheme u) @
               '': only http/https are allowed'') None)
          else (case url_parse (de_go D) (url_string u) of
                  None \<Rightarrow> Inl (url_parse_error D P (url_string u))
                | Some target \<Rightarrow> Inr \<lparr>fq_url = target, fq_headers = request_headers v\<rparr>))"

definition read_response :: "doc_env \<Rightarrow> cache_validators \<Rightarrow> fetch_response \<Rightarrow> go_error + fetch_result" where
  "read_response D v resp =
     (let h = fp_header resp in
      if fp_status_code resp = 304 then
        Inr \<lparr>fr_entries = [], fr_feed_title = [],
             fr_etag = (if h ''ETag'' \<noteq> [] then h ''ETag'' else cv_etag v),
             fr_last_modified = (if h ''Last-Modified'' \<noteq> [] then h ''Last-Modified'' else cv_last_modified v),
             fr_not_modified = True\<rparr>
      else if fp_status_code resp < 200 \<or> 300 \<le> fp_status_code resp then
        Inl (RssHTTPStatusError (fp_status_code resp) (fp_status resp) (trim_space (fst (read_limited 1024 resp))))
      else case read_limited (maxFeedResponseBytes + 1) resp of
        (data, Some err) \<Rightarrow> Inl err
      | (data, None) \<Rightarrow>
          if int (length data) > maxFeedResponseBytes then Inl (ResponseTooLargeError maxFeedResponseBytes)
          else (case parseFeed D data of
                  Inl e \<Rightarrow> Inl e
                | Inr (entries, title) \<Rightarrow>
                    Inr \<lparr>fr_entries = entries, fr_feed_title = title, fr_etag = h ''ETag'',
                         fr_last_modified = h ''Last-Modified'', fr_not_modified = False\<rparr>))"

definition FetchEntries ::
  "doc_env \<Rightarrow> fetch_port \<Rightarrow> string \<Rightarrow> cache_validators \<Rightarrow> fetch_request list \<times> (go_error + fetch_result)" where
  "FetchEntries D P feedURL v =
     (case prepare_fetch D P feedURL v of
        Inl e \<Rightarrow> ([], Inl e)
      | Inr req \<Rightarrow>
          ([req], case ft_do P req of Inl e \<Rightarrow> Inl e | Inr resp \<Rightarrow> read_response D v resp))"

section \<open>Laws\<close>

lemma parse_rss_ok: "parseRSS D data = Inr (es, t) \<Longrightarrow> entries_ok es"
proof -
  assume a: "parseRSS D data = Inr (es, t)"
  then obtain doc where "es = rssItemsToEntries D (rc_items (collect (is_elem ''channel'') (decode_channel D)
      (children_of doc) \<lparr>rc_title = [], rc_items = []\<rparr>))"
    by (auto simp: parseRSS_def Let_def split: sum.splits)
  then show "entries_ok es"
    using channels_bounded [of "\<lparr>rc_title = [], rc_items = []\<rparr>"] by (auto intro!: rss_entries_ok)
qed

lemma parse_rdf_ok: "parseRDF D data = Inr (es, t) \<Longrightarrow> entries_ok es"
proof -
  assume a: "parseRDF D data = Inr (es, t)"
  then obtain doc where "es = rssItemsToEntries D (collect (is_elem ''item'') (unmarshal_item D) (children_of doc) [])"
    by (auto simp: parseRDF_def split: sum.splits)
  then show "entries_ok es"
    using fold_items_bounded [of "[]"] by (auto intro!: rss_entries_ok)
qed

lemma parse_atom_ok: "parseAtom D data = Inr (es, t) \<Longrightarrow> entries_ok es"
proof -
  assume a: "parseAtom D data = Inr (es, t)"
  then obtain doc items where es: "es = atom_feed_entries D (feed_base doc) items \<or>
      es = withPreviousIDs D (atom_feed_entries D (feed_base doc) items) items (feed_base doc) data"
    "items = atom_items D doc \<or> items = loose_items D doc"
    by (auto simp: parseAtom_def Let_def split: sum.splits if_splits)
  then have "entries_ok (atom_feed_entries D (feed_base doc) items)"
    using items_bounded by (intro atom_entries_ok) blast+
  moreover have "length items = length (atom_feed_entries D (feed_base doc) items)"
    by (simp add: atom_feed_entries_def)
  ultimately show "entries_ok es" using es(1) previous_ids_ok by blast
qed

lemma parse_feed_ok: "parseFeed D data = Inr (es, t) \<Longrightarrow> entries_ok es"
  using parse_rss_ok parse_rdf_ok parse_atom_ok
  by (fastforce simp: parseFeed_def parseFeedDocument_def Let_def split: sum.splits if_splits)

lemma parse_feed_error: "parseFeed D data = Inl e \<Longrightarrow> \<exists>e'. e = ParseError e'"
  by (auto simp: parseFeed_def split: sum.splits)

text \<open>The scheme survives printing and parsing.\<close>

lemma get_scheme_letters:
  "list_all is_letter s \<Longrightarrow> d @ s \<noteq> [] \<Longrightarrow> get_scheme raw d (s @ CHR '':'' # r) = Some (d @ s, r)"
proof (induction s arbitrary: d)
  case Nil
  then show ?case by (simp add: is_letter_def is_digit_def lower_ascii_def)
qed simp

lemma cut_at_prefix: "sep \<notin> set s \<Longrightarrow> fst (cut_at sep (s @ t)) = s @ fst (cut_at sep t)"
  by (induction s) (auto split: prod.splits)

lemma printed_scheme:
  assumes "scheme u = ''http'' \<or> scheme u = ''https''" "url_parse E (url_string u) = Some t"
  shows "scheme t = scheme u"
proof -
  obtain rest where str: "url_string u = scheme u @ CHR '':'' # rest"
    using assms(1) by (auto simp: url_string_def)
  let ?front = "fst (cut_at (CHR ''#'') (url_string u))"
  have "?front = (scheme u @ '':'') @ fst (cut_at (CHR ''#'') rest)"
    using cut_at_prefix [of "CHR ''#''" "scheme u @ '':''" rest] assms(1) unfolding str by auto
  then obtain r where front: "?front = scheme u @ CHR '':'' # r" by simp
  have letters: "list_all is_letter (scheme u)" "scheme u \<noteq> []" "map lower_ascii (scheme u) = scheme u"
    using assms(1) by (elim disjE; simp add: is_letter_def lower_ascii_def)+
  have "get_scheme ?front [] ?front = Some (scheme u, r)"
    using get_scheme_letters [of "scheme u" "[]" ?front r] letters(1,2) unfolding front by simp
  moreover obtain v where v: "parse_no_fragment E False ?front = Some v" "scheme t = scheme v"
    using assms(2) by (auto simp: url_parse_def set_fragment_def split: prod.splits option.splits if_splits)
  moreover have star: "?front \<noteq> ''*''" using assms(1) by (auto simp: front)
  moreover obtain f r' q where "split_query r = (f, r', q)" by (metis prod_cases3)
  ultimately have "parse_no_fragment E False ?front =
      (if \<exists>c \<in> set ?front. (of_char c :: int) < 32 \<or> c = CHR 0x7F then None
       else parse_hier E False r' (empty_url\<lparr>scheme := scheme u, force_query := f, raw_query := q\<rparr>))"
    using letters(3) unfolding parse_no_fragment_def by (simp only: option.case prod.case if_False simp_thms if_cancel)
  with v(1) have "parse_hier E False r' (empty_url\<lparr>scheme := scheme u, force_query := f, raw_query := q\<rparr>) = Some v"
    by (metis option.distinct(1))
  from parse_hier_frame [OF this] v(2) show ?thesis by simp
qed

lemma prepare_fetch_request:
  assumes "prepare_fetch D P feedURL v = Inr req"
  shows "(scheme (fq_url req) = ''http'' \<or> scheme (fq_url req) = ''https'') \<and> fq_headers req = request_headers v"
proof -
  obtain u target where u: "scheme u = ''http'' \<or> scheme u = ''https''"
    "url_parse (de_go D) (url_string u) = Some target" "req = \<lparr>fq_url = target, fq_headers = request_headers v\<rparr>"
    using assms by (auto simp: prepare_fetch_def Let_def split: if_splits option.splits)
  from printed_scheme [OF u(1,2)] u show ?thesis by simp
qed

text \<open>What a response means for the result of a fetch with validators \<open>v\<close>.\<close>

definition result_of_response :: "doc_env \<Rightarrow> cache_validators \<Rightarrow> fetch_response \<Rightarrow> fetch_result \<Rightarrow> bool" where
  "result_of_response D v resp r \<longleftrightarrow>
     (if fr_not_modified r
      then fp_status_code resp = 304 \<and> fr_entries r = [] \<and>
        fr_etag r = (if fp_header resp ''ETag'' \<noteq> [] then fp_header resp ''ETag'' else cv_etag v) \<and>
        fr_last_modified r = (if fp_header resp ''Last-Modified'' \<noteq> [] then fp_header resp ''Last-Modified'' else cv_last_modified v)
      else 200 \<le> fp_status_code resp \<and> fp_status_code resp < 300 \<and> fp_body_error resp = None \<and>
        int (length (fp_body resp)) \<le> maxFeedResponseBytes \<and>
        parseFeed D (fp_body resp) = Inr (fr_entries r, fr_feed_title r) \<and> entries_ok (fr_entries r) \<and>
        fr_etag r = fp_header resp ''ETag'' \<and> fr_last_modified r = fp_header resp ''Last-Modified'')"

lemma read_response_ok:
  assumes "read_response D v resp = Inr r"
  shows "result_of_response D v resp r"
proof (cases "fp_status_code resp = 304")
  case True
  then show ?thesis using assms by (auto simp: result_of_response_def read_response_def Let_def)
next
  case False
  then have code: "\<not> (fp_status_code resp < 200 \<or> 300 \<le> fp_status_code resp)"
    using assms by (auto simp: read_response_def Let_def)
  obtain data entries title where data: "read_limited (maxFeedResponseBytes + 1) resp = (data, None)"
    "int (length data) \<le> maxFeedResponseBytes" "parseFeed D data = Inr (entries, title)"
    "r = \<lparr>fr_entries = entries, fr_feed_title = title, fr_etag = fp_header resp ''ETag'',
          fr_last_modified = fp_header resp ''Last-Modified'', fr_not_modified = False\<rparr>"
    using assms False code by (auto simp: read_response_def Let_def split: prod.splits option.splits if_splits sum.splits)
  then have "data = fp_body resp" "fp_body_error resp = None"
    by (auto simp: read_limited_def split: if_splits)
  with data code show ?thesis using parse_feed_ok by (auto simp: result_of_response_def)
qed

text \<open>C26: What a fetch does.  It makes at most one request, for an http or https URL, carrying the
  stored validators that are not empty; a URL that is not one is refused before any request.  A
  304 yields no entries and keeps the stored validators unless the server sent new ones.  Any
  other result comes from a 2xx response whose whole body, at most 10 MB, was read and parsed:
  at most 1000 entries, numbered in document order, each with an identity and at most 50
  trimmed categories, none of them blank.\<close>

theorem fetch_contract:
  assumes "FetchEntries D P feedURL v = (reqs, res)"
  shows "length reqs \<le> 1 \<and>
    (\<forall>req \<in> set reqs. (scheme (fq_url req) = ''http'' \<or> scheme (fq_url req) = ''https'') \<and>
       fq_headers req = request_headers v) \<and>
    (blank feedURL \<or> parse_no_fragment (de_go D) True feedURL = None \<longrightarrow> reqs = []) \<and>
    (\<forall>r. res = Inr r \<longrightarrow>
       (\<exists>req resp. reqs = [req] \<and> ft_do P req = Inr resp \<and> result_of_response D v resp r))"
proof (cases "prepare_fetch D P feedURL v")
  case (Inl e)
  then show ?thesis using assms by (auto simp: FetchEntries_def)
next
  case (Inr req)
  then have out: "reqs = [req]" "res = (case ft_do P req of Inl e \<Rightarrow> Inl e | Inr resp \<Rightarrow> read_response D v resp)"
    using assms by (auto simp: FetchEntries_def)
  have "\<not> (blank feedURL \<or> parse_no_fragment (de_go D) True feedURL = None)"
    using Inr by (auto simp: prepare_fetch_def Let_def split: if_splits option.splits)
  moreover have "\<exists>resp. ft_do P req = Inr resp \<and> read_response D v resp = Inr r" if "res = Inr r" for r
    using that out(2) by (auto split: sum.splits)
  ultimately show ?thesis
    using prepare_fetch_request [OF Inr] read_response_ok out(1) by auto
qed

definition example_doc :: doc_env where
  "example_doc = \<lparr>de_go = plain_env, de_root = (\<lambda>_. Inr ([], ''rss'')),
     de_tree = (\<lambda>_. Inr (Elem ([], ''rss'') [] [] [Elem ([], ''channel'') [] []
       [Elem ([], ''item'') [] [] [Elem ([], ''guid'') [] [] [Chars '' post-1 '']]]])),
     de_html = (\<lambda>_. []), de_zone = (\<lambda>_ _. None)\<rparr>"

definition example_port :: fetch_port where
  "example_port = \<lparr>ft_do = (\<lambda>_. Inr \<lparr>fp_status_code = 200, fp_status = ''200 OK'', fp_header = (\<lambda>_. ''v2''),
     fp_body = ''<rss/>'', fp_body_error = None\<rparr>), ft_url_error = PlainError\<rparr>"

definition example_fetch :: "string \<Rightarrow> fetch_request list \<times> (go_error + fetch_result)" where
  "example_fetch feedURL = FetchEntries example_doc example_port feedURL \<lparr>cv_etag = ''v1'', cv_last_modified = []\<rparr>"


theorem fetch_contract_witness:
  "length (fst (example_fetch ''https://go.dev/feed'')) \<le> 1 \<and>
   (\<exists>r. snd (example_fetch ''https://go.dev/feed'') = Inr r \<and> map en_id (fr_entries r) = [''post-1''] \<and> fr_etag r = ''v2'')"
proof
  show "length (fst (example_fetch ''https://go.dev/feed'')) \<le> 1"
    using fetch_contract [of example_doc example_port "''https://go.dev/feed''" "\<lparr>cv_etag = ''v1'', cv_last_modified = []\<rparr>",
      OF prod.collapse [symmetric]] by (simp only: example_fetch_def)
  have "case snd (example_fetch ''https://go.dev/feed'') of
      Inl e \<Rightarrow> False | Inr r \<Rightarrow> map en_id (fr_entries r) = [''post-1''] \<and> fr_etag r = ''v2''"
    by code_simp
  then show "\<exists>r. snd (example_fetch ''https://go.dev/feed'') = Inr r \<and> map en_id (fr_entries r) = [''post-1''] \<and> fr_etag r = ''v2''"
    by (cases "snd (example_fetch ''https://go.dev/feed'')") simp_all
qed

text \<open>
  A feed URL with a fragment: \<open>ParseRequestURI\<close> takes it for part of the path, so the request
  asks for the escaped text.
\<close>

lemma fragment_requested:
  "map (\<lambda>req. url_string (fq_url req)) (fst (example_fetch ''https://go.dev/feed#latest'')) =
   [''https://go.dev/feed%23latest'']"
  by code_simp

end
