(* ===== verification/Msg_Template.thy ===== *)
theory Msg_Template
  imports Discord_Fit Failures Go_Trim Go_Format Go_Url
begin

text \<open>
  The sandbox for message templates (\<^verbatim>\<open>internal/msgtemplate\<close>): \<open>Compile\<close> with its check of the
  parse tree, \<open>Execute\<close> with its bounded buffer, and the helpers of \<^verbatim>\<open>funcs.go\<close>.

  Parsing and execution proper are Go's \<^verbatim>\<open>text/template\<close>, the record \<open>template_engine\<close>: parsing
  yields the names of the templates a text defines and its tree, execution the sequence of
  texts it writes and the error it ends with.  The tree is the datatype \<open>node\<close>, with the node
  kinds of \<^verbatim>\<open>text/template/parse\<close> that \<open>checkNode\<close> tells apart and \<open>OtherNode\<close> for the leaves it
  lets through.
\<close>

section \<open>Trees\<close>

datatype node =
    ListNode "node list"
  | ActionNode node
  | IfNode node node "node option"
  | RangeNode
  | WithNode
  | TemplateNode
  | PipeNode "string list" "node list list"
  | ChainNode node
  | IdentifierNode string
  | VariableNode
  | OtherNode

definition growthBuiltins :: "string list" where
  "growthBuiltins = [''printf'', ''print'', ''println'', ''html'', ''js'', ''urlquery'', ''call'']"

text \<open>The error of the first construct that is refused.\<close>

fun checkNode :: "node \<Rightarrow> string option"
  and checkNodes :: "node list \<Rightarrow> string option"
  and checkCmds :: "node list list \<Rightarrow> string option"
where
  "checkNode (ListNode ns) = checkNodes ns"
| "checkNode (ActionNode pipe) = checkNode pipe"
| "checkNode (IfNode pipe l els) =
     (case checkNode pipe of
        Some e \<Rightarrow> Some e
      | None \<Rightarrow>
          (case checkNode l of
             Some e \<Rightarrow> Some e
           | None \<Rightarrow> (case els of None \<Rightarrow> None | Some n \<Rightarrow> checkNode n)))"
| "checkNode RangeNode = Some ''template: {{range}} is not supported''"
| "checkNode WithNode = Some ''template: {{with}} is not supported''"
| "checkNode TemplateNode = Some ''template: {{template}} is not supported''"
| "checkNode (PipeNode decl cmds) =
     (if decl \<noteq> [] then Some ''template: variable declaration and assignment are not supported'' else checkCmds cmds)"
| "checkNode (ChainNode n) = checkNode n"
| "checkNode (IdentifierNode ident) =
     (if ident \<in> set growthBuiltins then Some (''template: '' @ ident @ '' is not supported'') else None)"
| "checkNode VariableNode = None"
| "checkNode OtherNode = None"
| "checkNodes [] = None"
| "checkNodes (n # ns) = (case checkNode n of Some e \<Rightarrow> Some e | None \<Rightarrow> checkNodes ns)"
| "checkCmds [] = None"
| "checkCmds (args # cmds) = (case checkNodes args of Some e \<Rightarrow> Some e | None \<Rightarrow> checkCmds cmds)"

section \<open>Compile and Execute\<close>

record 'd template_engine =
  te_parse :: "string \<Rightarrow> go_error + string list \<times> node option"
  te_exec :: "node option \<Rightarrow> 'd \<Rightarrow> string list \<times> go_error option"

text \<open>A compiled template: its tree, \<open>None\<close> for an empty text.\<close>

record compiled =
  ct_tree :: "node option"

definition rejectUnboundedConstructs :: "string list \<Rightarrow> node option \<Rightarrow> string option" where
  "rejectUnboundedConstructs names tree =
     (if length names > 1 then Some ''template: {{define}} is not supported''
      else case tree of None \<Rightarrow> None | Some root \<Rightarrow> checkNode root)"

definition Compile :: "'d template_engine \<Rightarrow> string \<Rightarrow> string \<Rightarrow> go_error + compiled" where
  "Compile T txt fallback =
     (let txt' = (if blank txt then fallback else trim_space txt) in
      case te_parse T txt' of
        Inl e \<Rightarrow> Inl e
      | Inr (names, tree) \<Rightarrow>
          (case rejectUnboundedConstructs names tree of
             Some e \<Rightarrow> Inl (PlainError e)
           | None \<Rightarrow> Inr \<lparr>ct_tree = tree\<rparr>))"

definition maxTemplateOutputBytes :: int where "maxTemplateOutputBytes = 1024 * 1024"

text \<open>\<open>limitedBuffer.Write\<close>, and the writes of an execution, which ends at the first one that fails.\<close>

definition limited_write :: "string \<Rightarrow> string \<Rightarrow> go_error + string" where
  "limited_write buf p =
     (if int (length buf) + int (length p) > maxTemplateOutputBytes
      then Inl (PlainError (''template output exceeds maximum size of '' @ itoa maxTemplateOutputBytes @ '' bytes''))
      else Inr (buf @ p))"

fun limited_writes :: "string \<Rightarrow> string list \<Rightarrow> go_error + string" where
  "limited_writes buf [] = Inr buf"
| "limited_writes buf (p # ps) = (case limited_write buf p of Inl e \<Rightarrow> Inl e | Inr b \<Rightarrow> limited_writes b ps)"

definition Execute :: "'d template_engine \<Rightarrow> compiled \<Rightarrow> 'd \<Rightarrow> go_error + string" where
  "Execute T t data =
     (case te_exec T (ct_tree t) data of
        (writes, err) \<Rightarrow>
          (case limited_writes [] writes of
             Inl e \<Rightarrow> Inl e
           | Inr out \<Rightarrow> (case err of Some e \<Rightarrow> Inl e | None \<Rightarrow> Inr out)))"

section \<open>Helpers\<close>

definition maxTemplateReplaceBytes :: int where "maxTemplateReplaceBytes = 1024 * 1024"

text \<open>\<open>strings.Count\<close> and \<open>strings.ReplaceAll\<close>; an empty text matches at every rune boundary.\<close>

function count_str :: "string \<Rightarrow> string \<Rightarrow> nat" where
  "count_str old s =
     (if old = [] then length (runes s) + 1
      else if s = [] then 0
      else if has_prefix s old then Suc (count_str old (drop (length old) s))
      else count_str old (tl s))"
  by pat_completeness auto
termination by (relation "measure (\<lambda>(old, s). length s)") auto

declare count_str.simps [simp del]

function replace_runes :: "string \<Rightarrow> int list \<Rightarrow> string" where
  "replace_runes new [] = new"
| "replace_runes new (b # bs) =
     (let w = max 1 (snd (decode_rune (b # bs)))
      in new @ of_bytes (take w (b # bs)) @ replace_runes new (drop w (b # bs)))"
  by pat_completeness auto
termination by (relation "measure (\<lambda>(new, bs). length bs)") (auto simp: Let_def)

function replace_str :: "string \<Rightarrow> string \<Rightarrow> string \<Rightarrow> string" where
  "replace_str old new s =
     (if s = [] then []
      else if old \<noteq> [] \<and> has_prefix s old then new @ replace_str old new (drop (length old) s)
      else hd s # replace_str old new (tl s))"
  by pat_completeness auto
termination by (relation "measure (\<lambda>(old, new, s). length s)") auto

declare replace_str.simps [simp del]

definition replace_all :: "string \<Rightarrow> string \<Rightarrow> string \<Rightarrow> string" where
  "replace_all old new s =
     (if old = new then s
      else if old = [] then replace_runes new (bytes_of s) else replace_str old new s)"

definition fn_truncate :: "int \<Rightarrow> string \<Rightarrow> string" where
  "fn_truncate n s = fst (Truncate s n)"

definition fn_default :: "string \<Rightarrow> string \<Rightarrow> string" where
  "fn_default def v = (if blank v then def else v)"

text \<open>\<open>replace\<close>, with Go's \<open>int\<close> arithmetic at 64 bits.\<close>

definition fn_replace :: "string \<Rightarrow> string \<Rightarrow> string \<Rightarrow> go_error + string" where
  "fn_replace old new s =
     (let count = int (count_str old s);
          remaining = int64 (int (length s) - int64 (count * int (length old)))
      in if remaining > maxTemplateReplaceBytes \<or>
            (count > 0 \<and> int (length new) > (maxTemplateReplaceBytes - remaining) div count)
         then Inl (PlainError (''replace: result exceeds maximum size of '' @ itoa maxTemplateReplaceBytes @ '' bytes''))
         else Inr (replace_all old new s))"

definition fn_discordTime :: "(int \<Rightarrow> bool) \<Rightarrow> string \<Rightarrow> int \<Rightarrow> go_error + string" where
  "fn_discordTime printable style t =
     (if \<not> str_contains ''tTdDfFR'' style \<or> length style \<noteq> 1
      then Inl (PlainError (''discordTime: unknown style '' @ go_quote printable style @
        '' (want one of t T d D f F R)''))
      else if t = 0 then Inr []
      else Inr (''<t:'' @ itoa t @ '':'' @ style @ ''>''))"

section \<open>What is compiled\<close>

text \<open>Every node of a tree, and what is refused, wherever it stands.\<close>

primrec nodes_of :: "node \<Rightarrow> node list" where
  "nodes_of (ListNode ns) = ListNode ns # concat (map nodes_of ns)"
| "nodes_of (ActionNode pipe) = ActionNode pipe # nodes_of pipe"
| "nodes_of (IfNode pipe l els) =
     IfNode pipe l els # nodes_of pipe @ nodes_of l @ (case map_option nodes_of els of None \<Rightarrow> [] | Some xs \<Rightarrow> xs)"
| "nodes_of RangeNode = [RangeNode]"
| "nodes_of WithNode = [WithNode]"
| "nodes_of TemplateNode = [TemplateNode]"
| "nodes_of (PipeNode decl cmds) = PipeNode decl cmds # concat (map concat (map (map nodes_of) cmds))"
| "nodes_of (ChainNode n) = ChainNode n # nodes_of n"
| "nodes_of (IdentifierNode ident) = [IdentifierNode ident]"
| "nodes_of VariableNode = [VariableNode]"
| "nodes_of OtherNode = [OtherNode]"

fun forbidden :: "node \<Rightarrow> bool" where
  "forbidden RangeNode = True"
| "forbidden WithNode = True"
| "forbidden TemplateNode = True"
| "forbidden (PipeNode decl cmds) = (decl \<noteq> [])"
| "forbidden (IdentifierNode ident) = (ident \<in> set growthBuiltins)"
| "forbidden _ = False"

lemma checkNode_exact:
  "checkNode n = None \<longleftrightarrow> \<not> list_ex forbidden (nodes_of n)"
  "checkNodes ns = None \<longleftrightarrow> (\<forall>n \<in> set ns. \<not> list_ex forbidden (nodes_of n))"
  "checkCmds cmds = None \<longleftrightarrow> (\<forall>args \<in> set cmds. \<forall>n \<in> set args. \<not> list_ex forbidden (nodes_of n))"
  by (induction n and ns and cmds rule: checkNode_checkNodes_checkCmds.induct)
    (auto simp: list_ex_iff split: option.splits)

lemma checkNode_Some: "checkNode n = Some e \<Longrightarrow> list_ex forbidden (nodes_of n)"
  using checkNode_exact(1) [of n] by simp

lemma limited_writes_concat: "limited_writes buf ps = Inr out \<Longrightarrow> out = buf @ concat ps"
  by (induction ps arbitrary: buf) (fastforce simp: limited_write_def split: if_splits)+

lemma limited_writes_bound:
  "limited_writes buf ps = Inr out \<Longrightarrow> int (length buf) \<le> maxTemplateOutputBytes \<Longrightarrow> int (length out) \<le> maxTemplateOutputBytes"
  by (induction ps arbitrary: buf) (auto simp: limited_write_def split: if_splits)

lemma limited_writes_fits:
  "int (length (buf @ concat ps)) \<le> maxTemplateOutputBytes \<Longrightarrow> limited_writes buf ps = Inr (buf @ concat ps)"
  by (induction ps arbitrary: buf) (auto simp: limited_write_def)

lemma limited_writes_iff:
  "limited_writes [] ps = Inr out \<longleftrightarrow> out = concat ps \<and> int (length (concat ps)) \<le> maxTemplateOutputBytes"
  using limited_writes_concat [of "[]" ps out] limited_writes_bound [of "[]" ps out] limited_writes_fits [of "[]" ps] by (auto simp: maxTemplateOutputBytes_def)

definition accepted :: "go_error + string list \<times> node option \<Rightarrow> bool" where
  "accepted parsed =
     (case parsed of
        Inl e \<Rightarrow> False
      | Inr (names, tree) \<Rightarrow>
          length names \<le> 1 \<and> (case tree of None \<Rightarrow> True | Some root \<Rightarrow> \<not> list_ex forbidden (nodes_of root)))"

lemma reject_exact:
  "rejectUnboundedConstructs names tree = None \<longleftrightarrow> accepted (Inr (names, tree))"
  by (cases tree) (auto simp: rejectUnboundedConstructs_def accepted_def checkNode_exact(1))

lemma Compile_exact:
  "(\<exists>t. Compile T txt fallback = Inr t) \<longleftrightarrow> accepted (te_parse T (if blank txt then fallback else trim_space txt))"
proof (cases "te_parse T (if blank txt then fallback else trim_space txt)")
  case (Inl e)
  then show ?thesis by (simp add: Compile_def accepted_def)
next
  case (Inr p)
  obtain names tree where p: "p = (names, tree)" by (cases p)
  show ?thesis
    using reject_exact [of names tree] unfolding Compile_def Let_def Inr p
    by (cases "rejectUnboundedConstructs names tree") simp_all
qed

lemma Execute_exact:
  "Execute T t data = Inr out \<longleftrightarrow>
     snd (te_exec T (ct_tree t) data) = None \<and> out = concat (fst (te_exec T (ct_tree t) data)) \<and>
     int (length out) \<le> maxTemplateOutputBytes"
proof -
  obtain writes err where te: "te_exec T (ct_tree t) data = (writes, err)" by fastforce
  show ?thesis
  proof (cases "limited_writes [] writes")
    case (Inl e)
    then show ?thesis using limited_writes_iff [of writes out] by (auto simp: Execute_def te)
  next
    case (Inr b)
    then show ?thesis using limited_writes_iff [of writes b] by (cases err) (auto simp: Execute_def te)
  qed
qed

text \<open>C38: The template sandbox.  A text compiles exactly when it (or the fallback, for a blank text)
  parses, defines no second template, and nothing anywhere in its tree is a range, with or
  template action, declares or assigns a variable, or names a string-building builtin.  Executing
  it returns exactly what it writes when execution succeeds and that is at most 1 MiB, and an
  error otherwise.\<close>

theorem template_sandbox:
  "((\<exists>t. Compile T txt fallback = Inr t) \<longleftrightarrow>
      accepted (te_parse T (if blank txt then fallback else trim_space txt))) \<and>
   (Execute T t data = Inr out \<longleftrightarrow>
      snd (te_exec T (ct_tree t) data) = None \<and> out = concat (fst (te_exec T (ct_tree t) data)) \<and>
      int (length out) \<le> 1048576)"
  using Compile_exact [of T "txt" fallback] Execute_exact [of T t data out]
  unfolding maxTemplateOutputBytes_def by simp

section \<open>What replace returns\<close>

lemma length_replace_str:
  "old \<noteq> [] \<Longrightarrow> length (replace_str old new s) + count_str old s * length old = length s + count_str old s * length new"
proof (induction old new s rule: replace_str.induct)
  case (1 old new s)
  consider "s = []" | "s \<noteq> []" "has_prefix s old" | c t where "s = c # t" "\<not> has_prefix s old"
    by (cases s) auto
  then show ?case
  proof cases
    case 1
    then show ?thesis using \<open>old \<noteq> []\<close> by (simp add: replace_str.simps [of old new "[]"] count_str.simps [of old "[]"])
  next
    case 2
    then have len: "length old \<le> length s" by (metis has_prefix_def length_take min.cobounded1)
    have "replace_str old new s = new @ replace_str old new (drop (length old) s)"
      "count_str old s = Suc (count_str old (drop (length old) s))"
      using 2 \<open>old \<noteq> []\<close> by (simp_all add: replace_str.simps [of old new s] count_str.simps [of old s])
    then show ?thesis using "1.IH"(1) 2 \<open>old \<noteq> []\<close> len by (simp add: algebra_simps)
  next
    case 3
    have "replace_str old new (c # t) = c # replace_str old new t" "count_str old (c # t) = count_str old t"
      using 3 \<open>old \<noteq> []\<close> by (simp_all add: replace_str.simps [of old new "c # t"] count_str.simps [of old "c # t"])
    then show ?thesis using "1.IH"(2) 3 \<open>old \<noteq> []\<close> by simp
  qed
qed

lemma decode_width: "1 \<le> snd (decode_rune (b # bs)) \<and> snd (decode_rune (b # bs)) \<le> length (b # bs)"
  by (auto simp: decode_rune.simps(2) split: list.splits)

lemma length_replace_runes: "length (replace_runes new bs) = length bs + (length (utf8_decode bs) + 1) * length new"
proof (induction new bs rule: replace_runes.induct)
  case (2 new b bs)
  let ?w = "snd (decode_rune (b # bs))"
  have w: "max 1 ?w = ?w" "1 \<le> ?w" "?w \<le> length (b # bs)" using decode_width [of b bs] by simp_all
  then have step: "replace_runes new (b # bs) = new @ of_bytes (take ?w (b # bs)) @ replace_runes new (drop ?w (b # bs))"
    by (simp add: Let_def del: take_Cons' drop_Cons')
  have "drop ?w (b # bs) = drop (?w - 1) bs" using w(2) by (cases ?w) simp_all
  then have "utf8_decode (b # bs) = fst (decode_rune (b # bs)) # utf8_decode (drop ?w (b # bs))"
    by (simp add: utf8_decode.simps(2))
  moreover have "length (replace_runes new (drop ?w (b # bs))) =
      length (drop ?w (b # bs)) + (length (utf8_decode (drop ?w (b # bs))) + 1) * length new"
    using "2.IH" [OF refl] unfolding w(1) .
  ultimately show ?case using w(3) unfolding step by (simp add: algebra_simps del: take_Cons' drop_Cons')
qed simp

lemma length_replace_all:
  "length (replace_all old new s) + count_str old s * length old = length s + count_str old s * length new"
proof -
  have "length (replace_runes new (bytes_of s)) = length s + count_str [] s * length new"
    by (simp add: length_replace_runes count_str.simps [of "[]" s] runes_def)
  then show ?thesis using length_replace_str [of old new s] by (auto simp: replace_all_def)
qed

lemma count_removed: "count_str old s * length old \<le> length s"
  using length_replace_str [of old "[]" s] by (cases "old = []") auto

lemma div_less_mult:
  assumes "(0::int) < c"
  shows "y div c < n \<longleftrightarrow> y < n * c"
proof
  assume "y div c < n"
  then have "(y div c + 1) * c \<le> n * c" using assms by (intro mult_right_mono) simp_all
  moreover have "y = y div c * c + y mod c" by simp
  moreover have "y mod c < c" using assms by simp
  ultimately show "y < n * c" unfolding distrib_right by linarith
next
  assume y: "y < n * c"
  have "y = y div c * c + y mod c" by simp
  moreover have "0 \<le> y mod c" using assms by simp
  ultimately have "y div c * c < n * c" using y by linarith
  then show "y div c < n" using assms by simp
qed

text \<open>The replace helper returns the text with every occurrence replaced exactly when that has
  at most 1 MiB, and an error otherwise, deciding so before it builds the text and without
  overflow of 64-bit integers; also for an empty search text, which matches at every
  character boundary.\<close>

theorem replace_bounded:
  assumes "int (length s) < 2 ^ 63"
  shows "fn_replace old new s =
    (if int (length (replace_all old new s)) \<le> maxTemplateReplaceBytes then Inr (replace_all old new s)
     else Inl (PlainError (''replace: result exceeds maximum size of 1048576 bytes'')))"
proof -
  let ?c = "int (count_str old s)" and ?o = "int (length old)" and ?n = "int (length new)" and ?s = "int (length s)"
  have co: "?c * ?o \<le> ?s" using count_removed [of old s] by (metis of_nat_le_iff of_nat_mult)
  have nn: "0 \<le> ?c * ?o" by simp
  have small: "?s < 9223372036854775808" using assms by simp
  have "int64 (?c * ?o) = ?c * ?o" using co nn small by (intro int64_id) linarith+
  moreover have "int64 (?s - ?c * ?o) = ?s - ?c * ?o" using co nn small by (intro int64_id) linarith+
  ultimately have rem: "int64 (?s - int64 (?c * ?o)) = ?s - ?c * ?o" by simp
  have len: "int (length (replace_all old new s)) = ?s - ?c * ?o + ?c * ?n"
    using arg_cong [OF length_replace_all [of old new s], of int] unfolding of_nat_add of_nat_mult by linarith
  have div: "?n > y div ?c \<longleftrightarrow> ?n * ?c > y" if "?c > 0" for y
    using div_less_mult [of ?c y ?n] that by simp
  have "(?s - ?c * ?o > maxTemplateReplaceBytes \<or>
      (?c > 0 \<and> ?n > (maxTemplateReplaceBytes - (?s - ?c * ?o)) div ?c)) \<longleftrightarrow>
      \<not> int (length (replace_all old new s)) \<le> maxTemplateReplaceBytes"
  proof (cases "?c = 0")
    case True
    then show ?thesis unfolding len by auto
  next
    case False
    then have "?c > 0" by simp
    moreover have "0 \<le> ?c * ?n" by simp
    moreover have "?n * ?c = ?c * ?n" by (rule mult.commute)
    ultimately show ?thesis unfolding len div [OF \<open>?c > 0\<close>] by linarith
  qed
  moreover have "itoa maxTemplateReplaceBytes = ''1048576''" by code_simp
  ultimately show ?thesis unfolding fn_replace_def Let_def rem by auto
qed

theorem replace_bounded_witness:
  "fn_replace '', '' ''; '' ''a, b, c'' = Inr ''a; b; c'' \<and> fn_replace [] ''-'' ''ab'' = Inr ''-a-b-''"
proof -
  have "replace_all '', '' ''; '' ''a, b, c'' = ''a; b; c''" "replace_all [] ''-'' ''ab'' = ''-a-b-''" by code_simp+
  then show ?thesis
    using replace_bounded [of "''a, b, c''" "'', ''" "''; ''"] replace_bounded [of "''ab''" "[]" "''-''"]
    by (simp add: maxTemplateReplaceBytes_def)
qed

lemma discordTime_cases:
  "fn_discordTime printable style t =
    (if style \<in> {''t'', ''T'', ''d'', ''D'', ''f'', ''F'', ''R''}
     then Inr (if t = 0 then [] else ''<t:'' @ itoa t @ '':'' @ style @ ''>'')
     else Inl (PlainError (''discordTime: unknown style '' @ go_quote printable style @ '' (want one of t T d D f F R)'')))"
proof (cases "length style = 1")
  case True
  then obtain c where "style = [c]" by (metis One_nat_def length_0_conv length_Suc_conv)
  then show ?thesis by (auto simp: fn_discordTime_def has_prefix_def)
next
  case False
  then show ?thesis by (auto simp: fn_discordTime_def)
qed

end
