(* ===== verification/Sanitize.thy ===== *)
theory Sanitize
  imports Go_Trim Feed_Xml Identity
begin

text \<open>
  Entry text made presentable (\<^verbatim>\<open>internal/controller/sanitize.go\<close>): markup removed over the HTML
  tokenizer's tokens (\<open>de_html\<close> of \<open>doc_env\<close>), white space normalised, and trailing
  ``Continue reading'' links dropped.

  The two regular expressions for the latter end in \<open>$\<close>, so that replacing the leftmost match is
  cutting the text at the first position from where all the rest matches.  They are regular
  expressions over runes, matched by derivatives; \<open>matches_iff\<close> relates the matcher to the
  language.
\<close>

section \<open>Regular expressions\<close>

datatype regex =
    Never
  | Empty
  | Class "int \<Rightarrow> bool"
  | Alt regex regex
  | Then regex regex
  | Many regex

primrec nullable :: "regex \<Rightarrow> bool" where
  "nullable Never = False"
| "nullable Empty = True"
| "nullable (Class P) = False"
| "nullable (Alt r s) = (nullable r \<or> nullable s)"
| "nullable (Then r s) = (nullable r \<and> nullable s)"
| "nullable (Many r) = True"

primrec deriv :: "int \<Rightarrow> regex \<Rightarrow> regex" where
  "deriv c Never = Never"
| "deriv c Empty = Never"
| "deriv c (Class P) = (if P c then Empty else Never)"
| "deriv c (Alt r s) = Alt (deriv c r) (deriv c s)"
| "deriv c (Then r s) =
     (if nullable r then Alt (Then (deriv c r) s) (deriv c s) else Then (deriv c r) s)"
| "deriv c (Many r) = Then (deriv c r) (Many r)"

fun matches_all :: "regex \<Rightarrow> int list \<Rightarrow> bool" where
  "matches_all r [] = nullable r"
| "matches_all r (c # w) = matches_all (deriv c r) w"

inductive_set star :: "int list set \<Rightarrow> int list set" for A where
  star_Nil: "[] \<in> star A"
| star_step: "u \<in> A \<Longrightarrow> v \<in> star A \<Longrightarrow> u @ v \<in> star A"

primrec lang :: "regex \<Rightarrow> int list set" where
  "lang Never = {}"
| "lang Empty = {[]}"
| "lang (Class P) = {[c] | c. P c}"
| "lang (Alt r s) = lang r \<union> lang s"
| "lang (Then r s) = {u @ v | u v. u \<in> lang r \<and> v \<in> lang s}"
| "lang (Many r) = star (lang r)"

lemma nullable_iff: "nullable r \<longleftrightarrow> [] \<in> lang r"
  by (induction r) (auto intro: star_Nil)

lemma star_Cons: "c # w \<in> star A \<longleftrightarrow> (\<exists>u v. w = u @ v \<and> c # u \<in> A \<and> v \<in> star A)"
proof
  assume "c # w \<in> star A"
  then show "\<exists>u v. w = u @ v \<and> c # u \<in> A \<and> v \<in> star A"
  proof (induction "c # w" arbitrary: w rule: star.induct)
    case (star_step u v)
    show ?case
    proof (cases u)
      case Nil
      then show ?thesis using star_step by simp
    next
      case (Cons d u')
      then show ?thesis using star_step by auto
    qed
  qed
next
  assume "\<exists>u v. w = u @ v \<and> c # u \<in> A \<and> v \<in> star A"
  then obtain u v where "w = u @ v" "c # u \<in> A" "v \<in> star A" by blast
  then show "c # w \<in> star A" using star.star_step [of "c # u" A v] by simp
qed

lemma append_Cons_iff: "(\<exists>u v. c # w = u @ v \<and> P u v) \<longleftrightarrow> P [] (c # w) \<or> (\<exists>u v. w = u @ v \<and> P (c # u) v)"
  by (auto simp: Cons_eq_append_conv)

lemma deriv_iff: "w \<in> lang (deriv c r) \<longleftrightarrow> c # w \<in> lang r"
proof (induction r arbitrary: w)
  case (Then r s)
  have "c # w \<in> lang (Then r s) \<longleftrightarrow> (\<exists>u v. c # w = u @ v \<and> u \<in> lang r \<and> v \<in> lang s)" by simp
  also have "\<dots> \<longleftrightarrow> ([] \<in> lang r \<and> c # w \<in> lang s) \<or> (\<exists>u v. w = u @ v \<and> c # u \<in> lang r \<and> v \<in> lang s)"
    by (rule append_Cons_iff)
  finally show ?case using Then by (auto simp: nullable_iff)
next
  case (Many r)
  then show ?case by (simp add: star_Cons)
qed auto

lemma matches_iff: "matches_all r w \<longleftrightarrow> w \<in> lang r"
  by (induction w arbitrary: r) (simp_all add: nullable_iff deriv_iff)

section \<open>The expressions of the source\<close>

definition rune :: "int \<Rightarrow> regex" where "rune c = Class (\<lambda>r. r = c)"

text \<open>A letter under \<open>(?i)\<close>; none of those used here folds outside ASCII.\<close>

definition letter :: "char \<Rightarrow> regex" where
  "letter c = Class (\<lambda>r. r = of_char c \<or> (is_letter c \<and> r = of_char c - 32))"

definition letters :: "string \<Rightarrow> regex" where
  "letters s = foldr (\<lambda>c r. Then (letter c) r) s Empty"

text \<open>\<open>\s*\<close> and \<open>(\.{2,3}|...)?\<close>.\<close>

definition spaces :: regex where
  "spaces = Many (Class (\<lambda>r. r \<in> {9, 10, 12, 13, 32}))"

definition dots :: regex where
  "dots = Alt Empty (Alt (letters ''..'') (Alt (letters ''...'') (rune 8230)))"

text \<open>\<open>\b[^>]*>\<close> after a letter: what follows the letter is no word character.\<close>

definition is_word :: "int \<Rightarrow> bool" where
  "is_word r \<longleftrightarrow> 48 \<le> r \<and> r \<le> 57 \<or> 65 \<le> r \<and> r \<le> 90 \<or> r = 95 \<or> 97 \<le> r \<and> r \<le> 122"

definition tag_rest :: regex where
  "tag_rest = Alt (rune 62)
     (Then (Class (\<lambda>r. r \<noteq> 62 \<and> \<not> is_word r)) (Then (Many (Class (\<lambda>r. r \<noteq> 62))) (rune 62)))"

text \<open>\<open>[a-z0-9]\<close> under \<open>(?i)\<close>, which folds the long s and the Kelvin sign.\<close>

definition closing_tags :: regex where
  "closing_tags =
     (let c = Class (\<lambda>r. is_word r \<and> r \<noteq> 95 \<or> r = 383 \<or> r = 8490)
      in Many (Then (letters ''</'') (Then c (Then (Many c) (Then (rune 62) spaces)))))"

definition continueReadingText :: regex where
  "continueReadingText = Then (letters ''continue reading'') (Then spaces (Then dots spaces))"

definition continueReadingLink :: regex where
  "continueReadingLink =
     Then (letters ''<a'') (Then tag_rest (Then spaces (Then continueReadingText
       (Then (letters ''</a>'') (Then spaces closing_tags)))))"

text \<open>\<open>ReplaceAllString(s, "")\<close> of an expression that ends in \<open>$\<close>.  Both start with an ASCII
  character, so that a match starts at no byte inside of a longer one.\<close>

fun cut_trailing :: "regex \<Rightarrow> string \<Rightarrow> string" where
  "cut_trailing r [] = []"
| "cut_trailing r (c # s) = (if matches_all r (runes (c # s)) then [] else c # cut_trailing r s)"

text \<open>\<open>blankLineRegex\<close>: every run of three or more line breaks becomes two; \<open>k\<close> of the current run
  have been read.\<close>

abbreviation nl :: char where "nl \<equiv> CHR 0x0A"

definition newlines :: "nat \<Rightarrow> string" where
  "newlines k = replicate (if k \<ge> 3 then 2 else k) nl"

fun collapse_blank :: "nat \<Rightarrow> string \<Rightarrow> string" where
  "collapse_blank k [] = newlines k"
| "collapse_blank k (c # s) =
     (if c = nl then collapse_blank (Suc k) s else newlines k @ c # collapse_blank 0 s)"

section \<open>Stripping\<close>

definition httpURLOrEmpty :: "go_env \<Rightarrow> string \<Rightarrow> string" where
  "httpURLOrEmpty E rawURL =
     (case url_parse E rawURL of
        None \<Rightarrow> []
      | Some u \<Rightarrow> if scheme u \<noteq> schemeHTTP \<and> scheme u \<noteq> schemeHTTPS then [] else rawURL)"

definition isBlockTag :: "string \<Rightarrow> bool" where
  "isBlockTag tag \<longleftrightarrow> tag \<in> {''p'', ''li'', ''br'', ''div'', ''h1'', ''h2'', ''h3'', ''h4'', ''h5'', ''h6''}"

definition finishStrippedText :: "string \<Rightarrow> string" where
  "finishStrippedText t =
     (let ls = map trim_space (split_on nl t);
          t1 = collapse_blank 0 (str_join [nl] ls);
          t2 = cut_trailing continueReadingText (trim_space t1)
      in trim_space t2)"

definition raw_text_tag :: "string \<Rightarrow> bool" where
  "raw_text_tag tag \<longleftrightarrow> tag = ''script'' \<or> tag = ''style''"

text \<open>The text the tokens leave; \<open>skip\<close> is the element whose body is being dropped, empty outside
  of one.  A start tag opens such an element, a self-closing or end tag does not.\<close>

fun strip_tokens :: "string \<Rightarrow> html_token list \<Rightarrow> string"
  and strip_tag :: "bool \<Rightarrow> string \<Rightarrow> string \<Rightarrow> html_token list \<Rightarrow> string"
where
  "strip_tokens skip [] = []"
| "strip_tokens skip (TextToken t # ts) = (if skip = [] then t else []) @ strip_tokens skip ts"
| "strip_tokens skip (StartTagToken name # ts) = strip_tag True skip (local_tag name) ts"
| "strip_tokens skip (SelfClosingTagToken name # ts) = strip_tag False skip (local_tag name) ts"
| "strip_tokens skip (EndTagToken name # ts) = strip_tag False skip (local_tag name) ts"
| "strip_tokens skip (OtherToken # ts) = strip_tokens skip ts"
| "strip_tag start skip tag ts =
     (if skip \<noteq> [] then strip_tokens (if tag = skip then [] else skip) ts
      else if raw_text_tag tag then strip_tokens (if start then tag else []) ts
      else if isBlockTag tag then nl # strip_tokens [] ts
      else strip_tokens [] ts)"

definition stripHTML :: "doc_env \<Rightarrow> string \<Rightarrow> string" where
  "stripHTML D input = finishStrippedText (strip_tokens [] (de_html D (cut_trailing continueReadingLink input)))"

end
