(* ===== verification/Sanitize_Laws.thy ===== *)
theory Sanitize_Laws
  imports Sanitize
begin

text \<open>
  What sanitised text looks like: no white space around it or around any of its lines, at most one
  blank line in a row, and nothing of the bodies of script and style elements.
\<close>

section \<open>Lines\<close>

lemma join_middle:
  "str_join [sep] (xs @ l # ys) = concat (map (\<lambda>x. x @ [sep]) xs) @ l @ concat (map ((#) sep) ys)"
proof (induction xs)
  case Nil
  show ?case by (induction ys arbitrary: l) simp_all
next
  case (Cons x xs)
  then show ?case by (cases "xs @ l # ys") auto
qed

lemma split_middle:
  assumes "split_on sep s = xs @ l # ys"
  shows "\<exists>u v. s = u @ l @ v \<and> (if xs = [] then u = [] else u \<noteq> [] \<and> last u = sep) \<and> (if ys = [] then v = [] else v \<noteq> [] \<and> hd v = sep)"
proof -
  have "s = concat (map (\<lambda>x. x @ [sep]) xs) @ l @ concat (map ((#) sep) ys)"
    using join_split_on [of sep s] unfolding assms join_middle by simp
  moreover have "xs \<noteq> [] \<Longrightarrow> concat (map (\<lambda>x. x @ [sep]) xs) \<noteq> [] \<and> last (concat (map (\<lambda>x. x @ [sep]) xs)) = sep"
    by (cases xs rule: rev_cases) auto
  moreover have "ys \<noteq> [] \<Longrightarrow> concat (map ((#) sep) ys) \<noteq> [] \<and> hd (concat (map ((#) sep) ys)) = sep"
    by (cases ys) auto
  ultimately show ?thesis
    by (intro exI [of _ "concat (map (\<lambda>x. x @ [sep]) xs)"] exI [of _ "concat (map ((#) sep) ys)"]) auto
qed

lemma split_factor:
  assumes "l \<in> set (split_on sep s)"
  obtains u v where "s = u @ l @ v" "u = [] \<or> last u = sep" "v = [] \<or> hd v = sep"
proof -
  obtain xs ys where "split_on sep s = xs @ l # ys" using assms by (meson split_list)
  from split_middle [OF this] show ?thesis using that by (metis (full_types))
qed

lemma split_hd:
  obtains rest where "s = hd (split_on sep s) @ rest" "rest = [] \<or> hd rest = sep"
  using split_middle [of sep s "[]" "hd (split_on sep s)" "tl (split_on sep s)"] that by (auto split: if_splits)

lemma split_last:
  obtains p where "s = p @ last (split_on sep s)" "p = [] \<or> last p = sep"
  using split_middle [of sep s "butlast (split_on sep s)" "last (split_on sep s)" "[]"] that by (auto split: if_splits)

section \<open>White space at line breaks\<close>

abbreviation lead_ok :: "string \<Rightarrow> bool" where "lead_ok s \<equiv> no_lead (bytes_of s)"
abbreviation trail_ok :: "string \<Rightarrow> bool" where "trail_ok s \<equiv> trailing_space (bytes_of s) = 0"

lemma decode_before_nl: "bs \<noteq> [] \<Longrightarrow> decode_rune (bs @ 10 # cs) = decode_rune bs"
proof (cases bs)
  case (Cons b rest)
  then show ?thesis
    by (cases rest; cases "tl rest"; cases "tl (tl rest)")
      (auto simp: decode_rune.simps(2) is_cont_def second_ok_def split: list.splits)
qed simp

lemma lead_ok_line:
  assumes "lead_ok l" "l \<noteq> []" "rest = [] \<or> hd rest = nl"
  shows "lead_ok (l @ rest)"
proof (cases rest)
  case Nil
  then show ?thesis using assms by simp
next
  case (Cons c r)
  then have "bytes_of (l @ rest) = bytes_of l @ 10 # bytes_of r" using assms(3) by (simp add: bytes_of_def)
  moreover have "bytes_of l \<noteq> []" using assms(2) by (simp add: bytes_of_def)
  ultimately show ?thesis using assms(1) decode_before_nl by (simp add: no_lead_def)
qed

lemma lead_ok_take: "lead_ok (l @ rest) \<Longrightarrow> lead_ok l"
  using no_lead_take [of "bytes_of (l @ rest)" "length l"] by (simp add: bytes_of_def)

lemma ends_drop: "ends_with_space k bs \<Longrightarrow> ends_with_space k (cs @ bs)"
  by (auto simp: ends_with_space_def)

lemma trail_ok_drop: "trail_ok (p @ l) \<Longrightarrow> trail_ok l"
proof -
  assume t: "trail_ok (p @ l)"
  have "\<not> ends_with_space k (bytes_of l)" if "k = 1 \<or> k = 2 \<or> k = 3" for k
    using t that ends_drop [of k "bytes_of l" "bytes_of p"]
    by (auto simp: trailing_space_def bytes_of_def split: if_splits)
  then show ?thesis by (simp add: trailing_space_def)
qed

lemma ends_short: "k \<le> length bs \<Longrightarrow> ends_with_space k (cs @ bs) = ends_with_space k bs"
  by (simp add: ends_with_space_def)

lemma decode_after_nl:
  "snd (decode_rune (10 # cs)) = 1" "snd (decode_rune (b # 10 # cs)) = 1"
  by (auto simp: decode_rune.simps(2) is_cont_def second_ok_def split: list.splits)

lemma trail_ok_line:
  assumes "trail_ok l" "l \<noteq> []" "p = [] \<or> last p = nl"
  shows "trail_ok (p @ l)"
proof (cases p rule: rev_cases)
  case Nil
  then show ?thesis using assms by simp
next
  case (snoc p' c)
  define bs where "bs = bytes_of l"
  have p: "bytes_of (p @ l) = bytes_of p' @ 10 # bs" and bs: "bs \<noteq> []" "trailing_space bs = 0"
    using snoc assms by (simp_all add: bytes_of_def bs_def)
  have no: "\<not> ends_with_space k (bytes_of p' @ 10 # bs)" if k: "k = 1 \<or> k = 2 \<or> k = 3" for k
  proof (cases "k \<le> length bs")
    case True
    then show ?thesis
      using ends_short [of k bs "bytes_of p' @ [10]"] bs(2) k by (auto simp: trailing_space_def split: if_splits)
  next
    case False
    obtain x xs where x: "bs = x # xs" using bs(1) by (cases bs) auto
    show ?thesis
    proof
      assume e: "ends_with_space k (bytes_of p' @ 10 # bs)"
      define w where "w = drop (length (bytes_of p' @ 10 # bs) - k) (bytes_of p' @ 10 # bs)"
      have w: "snd (decode_rune w) = k" "length w = k" using e by (auto simp: ends_with_space_def w_def)
      have "1 \<le> length bs" using x by simp
      then have "k = Suc (length bs) \<or> k = 3 \<and> length bs = 1" using False k by linarith
      then consider "k = Suc (length bs)" | "k = 3" "length bs = 1" by blast
      then show False
      proof cases
        case 1
        then have "w = 10 # bs" by (simp add: w_def)
        then show False using w(1) decode_after_nl(1) [of bs] 1 bs(1) by simp
      next
        case 2
        then obtain b where "w = b # 10 # bs"
          using w(2) e by (cases "bytes_of p'" rule: rev_cases) (auto simp: w_def ends_with_space_def)
        then show False using w(1) decode_after_nl(2) [of b bs] 2 by simp
      qed
    qed
  qed
  show ?thesis using no [of 1] no [of 2] no [of 3] unfolding p by (simp add: trailing_space_def)
qed

text \<open>No white space but line breaks next to a line break.\<close>

definition tidy :: "string \<Rightarrow> bool" where
  "tidy s \<longleftrightarrow> (\<forall>u v. s = u @ nl # v \<longrightarrow>
     (v = [] \<or> lead_ok v \<or> hd v = nl) \<and> (u = [] \<or> trail_ok u \<or> last u = nl))"

lemma tidy_factor: "tidy (p @ r @ q) \<Longrightarrow> tidy r"
proof -
  assume t: "tidy (p @ r @ q)"
  show "tidy r"
    unfolding tidy_def
  proof (intro allI impI)
    fix u v assume r: "r = u @ nl # v"
    then have "p @ r @ q = (p @ u) @ nl # (v @ q)" by simp
    with t have "v @ q = [] \<or> lead_ok (v @ q) \<or> hd (v @ q) = nl" "p @ u = [] \<or> trail_ok (p @ u) \<or> last (p @ u) = nl"
      unfolding tidy_def by blast+
    then show "(v = [] \<or> lead_ok v \<or> hd v = nl) \<and> (u = [] \<or> trail_ok u \<or> last u = nl)"
      using lead_ok_take [of v q] trail_ok_drop [of p u] by (cases "v = []"; cases "u = []") auto
  qed
qed

lemma lines_tidy:
  assumes "\<forall>l \<in> set (split_on nl s). trimmed l"
  shows "tidy s"
  unfolding tidy_def
proof (intro allI impI conjI)
  fix u v assume s: "s = u @ nl # v"
  have lines: "\<forall>l \<in> set (split_on nl u) \<union> set (split_on nl v). trimmed l"
    using assms unfolding s split_append by auto
  obtain rest where v: "v = hd (split_on nl v) @ rest" "rest = [] \<or> hd rest = nl" by (rule split_hd)
  have "trimmed (hd (split_on nl v))" using lines by simp
  then show "v = [] \<or> lead_ok v \<or> hd v = nl"
    using v lead_ok_line [of "hd (split_on nl v)" rest] by (cases "hd (split_on nl v) = []") (auto simp: trimmed_def)
  obtain p where u: "u = p @ last (split_on nl u)" "p = [] \<or> last p = nl" by (rule split_last)
  have "trimmed (last (split_on nl u))" using lines by simp
  then show "u = [] \<or> trail_ok u \<or> last u = nl"
    using u trail_ok_line [of "last (split_on nl u)" p] by (cases "last (split_on nl u) = []") (auto simp: trimmed_def)
qed

lemma tidy_lines:
  assumes "tidy s" "trimmed s" "l \<in> set (split_on nl s)"
  shows "trimmed l"
proof (cases "l = []")
  case True
  then show ?thesis by (simp add: trimmed_def no_lead_def trailing_space_def ends_with_space_def)
next
  case False
  obtain u v where s: "s = u @ l @ v" "u = [] \<or> last u = nl" "v = [] \<or> hd v = nl"
    using split_factor [OF assms(3)] by blast
  have nonl: "hd l \<noteq> nl" "last l \<noteq> nl"
    using split_no_sep [OF assms(3)] False by (metis hd_in_set, metis last_in_set)
  have "lead_ok l"
  proof (cases u rule: rev_cases)
    case Nil
    then show ?thesis using assms(2) s(1) lead_ok_take [of l v] by (simp add: trimmed_def)
  next
    case (snoc u' c)
    then have "s = u' @ nl # (l @ v)" using s by simp
    then have "l @ v = [] \<or> lead_ok (l @ v) \<or> hd (l @ v) = nl" using assms(1) unfolding tidy_def by blast
    then show ?thesis using nonl False lead_ok_take [of l v] by auto
  qed
  moreover have "trail_ok l"
  proof (cases v)
    case Nil
    then show ?thesis using assms(2) s(1) trail_ok_drop [of u l] by (simp add: trimmed_def)
  next
    case (Cons c v')
    then have "s = (u @ l) @ nl # v'" using s by simp
    then have "u @ l = [] \<or> trail_ok (u @ l) \<or> last (u @ l) = nl" using assms(1) unfolding tidy_def by blast
    then show ?thesis using nonl False trail_ok_drop [of u l] by auto
  qed
  ultimately show ?thesis by (simp add: trimmed_def)
qed

section \<open>The finished text\<close>

lemma trim_left_drop: "\<exists>n. trim_left_bytes bs = drop n bs"
proof (induction bs rule: trim_left_bytes.induct)
  case (2 b bs)
  show ?case
  proof (cases "is_space (fst (decode_rune (b # bs)))")
    case True
    with 2 obtain n where "trim_left_bytes (drop (snd (decode_rune (b # bs)) - 1) bs) = drop n (drop (snd (decode_rune (b # bs)) - 1) bs)"
      by blast
    then have "trim_left_bytes (b # bs) = drop (Suc (n + (snd (decode_rune (b # bs)) - 1))) (b # bs)"
      using True by simp
    then show ?thesis by blast
  next
    case False
    then have "trim_left_bytes (b # bs) = drop 0 (b # bs)" by simp
    then show ?thesis by blast
  qed
qed simp

lemma trim_space_factor: "\<exists>p q. s = p @ trim_space s @ q"
proof -
  obtain m where m: "trim_left_bytes (bytes_of s) = drop m (bytes_of s)" using trim_left_drop by blast
  obtain n where n: "trim_right_bytes (trim_left_bytes (bytes_of s)) = take n (drop m (bytes_of s))"
    unfolding m [symmetric] using trim_right_take by blast
  have "trim_space s = take n (drop m s)"
    unfolding trim_space_def n by (simp add: bytes_of_def of_bytes_def take_map drop_map o_def)
  then have "s = take m s @ trim_space s @ drop n (drop m s)" by (metis append_take_drop_id)
  then show ?thesis by blast
qed

lemma cut_trailing_prefix: "\<exists>q. s = cut_trailing r s @ q"
  by (induction s) auto

text \<open>The runs of line breaks that \<open>collapse_blank\<close> leaves.\<close>

fun runs_ok :: "nat \<Rightarrow> string \<Rightarrow> bool" where
  "runs_ok k [] = True"
| "runs_ok k (c # s) = (if c = nl then k < 2 \<and> runs_ok (Suc k) s else runs_ok 0 s)"

lemma runs_ok_newlines: "s = [] \<or> hd s \<noteq> nl \<Longrightarrow> runs_ok 0 (newlines k @ s) = runs_ok 0 s"
proof -
  assume s: "s = [] \<or> hd s \<noteq> nl"
  have j: "runs_ok (Suc 0) s = runs_ok 0 s" "runs_ok (Suc (Suc 0)) s = runs_ok 0 s" using s by (cases s; auto)+
  have "newlines k = [] \<or> newlines k = [nl] \<or> newlines k = [nl, nl]"
    by (auto simp: newlines_def numeral_2_eq_2 numeral_3_eq_3 not_le less_Suc_eq)
  then show ?thesis using j by (elim disjE) simp_all
qed

lemma collapse_runs: "runs_ok 0 (collapse_blank k s)"
proof (induction k s rule: collapse_blank.induct)
  case (1 k)
  show ?case using runs_ok_newlines [of "[]" k] by simp
next
  case (2 k c s)
  then show ?case using runs_ok_newlines [of "c # collapse_blank 0 s" k] by auto
qed

lemma runs_ok_triple: "\<not> runs_ok k (p @ nl # nl # nl # q)"
  by (induction p arbitrary: k) auto

lemma split_newlines: "split_on nl (replicate k nl @ s) = replicate k [] @ split_on nl s"
  by (induction k) auto

lemma collapse_hd: "0 < k \<Longrightarrow> hd (split_on nl (collapse_blank k s)) = []"
proof (induction k s rule: collapse_blank.induct)
  case (1 k)
  then show ?case using split_newlines [of _ "[]"] by (auto simp: newlines_def hd_append)
next
  case (2 k c s)
  then show ?case using split_newlines [of _ "c # collapse_blank 0 s"] by (auto simp: newlines_def hd_append)
qed

lemma set_hd_tl: "xs \<noteq> [] \<Longrightarrow> set xs = insert (hd xs) (set (tl xs))"
  by (cases xs) auto

lemma collapse_lines:
  "set (tl (split_on nl (collapse_blank k s))) \<subseteq> insert [] (set (if k = 0 then tl (split_on nl s) else split_on nl s)) \<and>
   (k = 0 \<longrightarrow> hd (split_on nl (collapse_blank k s)) = hd (split_on nl s))"
proof (induction k s rule: collapse_blank.induct)
  case (1 k)
  have "set (split_on nl (newlines k)) = {[]}"
    using split_newlines [of _ "[]"] by (auto simp: newlines_def set_replicate_conv_if)
  then have "set (tl (split_on nl (newlines k))) \<subseteq> {[]}" by (metis list.set_sel(2) split_on_nonempty subsetI)
  then show ?case by (auto simp: newlines_def)
next
  case (2 k c s)
  show ?case
  proof (cases "c = nl")
    case True
    then show ?thesis using "2.IH"(1) collapse_hd [of "Suc k" s] by auto
  next
    case False
    obtain l1 ls where sp: "split_on nl s = l1 # ls" by (cases "split_on nl s") auto
    obtain m1 ms where m: "split_on nl (collapse_blank 0 s) = m1 # ms" by (cases "split_on nl (collapse_blank 0 s)") auto
    have "m1 = l1" "set ms \<subseteq> insert [] (set ls)" using "2.IH"(2) [OF False] sp m by auto
    moreover have "split_on nl (collapse_blank k (c # s)) = replicate (if k \<ge> 3 then 2 else k) [] @ (c # m1) # ms"
      using False m split_newlines [of _ "c # collapse_blank 0 s"] by (simp add: newlines_def)
    moreover have "split_on nl (c # s) = (c # l1) # ls" using False sp by simp
    ultimately show ?thesis by (cases k) (auto simp: set_replicate_conv_if)
  qed
qed

lemma collapse_subset: "set (split_on nl (collapse_blank 0 s)) \<subseteq> insert [] (set (split_on nl s))"
  using collapse_lines [of 0 s] set_hd_tl [OF split_on_nonempty [of nl s]] set_hd_tl [OF split_on_nonempty [of nl "collapse_blank 0 s"]]
  by auto

lemma finishStrippedText_lines:
  assumes "l \<in> set (split_on nl (finishStrippedText t))"
  shows "trimmed l"
proof -
  let ?ls = "map trim_space (split_on nl t)"
  let ?t1 = "collapse_blank 0 (str_join [nl] ?ls)"
  let ?t2 = "cut_trailing continueReadingText (trim_space ?t1)"
  have "\<forall>l \<in> set ?ls. nl \<notin> set l"
  proof
    fix l assume "l \<in> set ?ls"
    then obtain l' where l': "l' \<in> set (split_on nl t)" "l = trim_space l'" by auto
    obtain p q where "l' = p @ l @ q" using trim_space_factor [of l'] l'(2) by blast
    then show "nl \<notin> set l" using split_no_sep [OF l'(1)] by auto
  qed
  then have "split_on nl (str_join [nl] ?ls) = ?ls" by (intro split_join) simp_all
  then have "set (split_on nl ?t1) \<subseteq> insert [] (set ?ls)"
    using collapse_subset [of "str_join [nl] ?ls"] by simp
  moreover have "trimmed []" by (simp add: trimmed_def no_lead_def trailing_space_def ends_with_space_def)
  ultimately have "\<forall>l \<in> set (split_on nl ?t1). trimmed l" by auto
  then have "tidy ?t1" by (rule lines_tidy)
  then have "tidy (trim_space ?t1)" using trim_space_factor [of ?t1] tidy_factor by metis
  then have "tidy ?t2" using cut_trailing_prefix [of "trim_space ?t1" continueReadingText] tidy_factor [of "[]" ?t2]
    by (metis append_Nil)
  then have "tidy (trim_space ?t2)" using trim_space_factor [of ?t2] tidy_factor by metis
  then show ?thesis using assms tidy_lines [of "trim_space ?t2" l] by (simp add: finishStrippedText_def Let_def)
qed

lemma finishStrippedText_runs: "finishStrippedText t \<noteq> p @ [nl, nl, nl] @ q"
proof
  assume eq: "finishStrippedText t = p @ [nl, nl, nl] @ q"
  let ?t1 = "collapse_blank 0 (str_join [nl] (map trim_space (split_on nl t)))"
  let ?t2 = "cut_trailing continueReadingText (trim_space ?t1)"
  obtain a b where "?t2 = a @ finishStrippedText t @ b"
    using trim_space_factor [of ?t2] unfolding finishStrippedText_def Let_def by blast
  moreover obtain c where "trim_space ?t1 = ?t2 @ c" using cut_trailing_prefix by blast
  moreover obtain d e where "?t1 = d @ trim_space ?t1 @ e" using trim_space_factor by blast
  ultimately have "?t1 = (d @ a @ p) @ nl # nl # nl # (q @ b @ c @ e)" using eq by simp
  then show False using collapse_runs [of 0] runs_ok_triple by metis
qed

lemma stripHTML_trimmed [simp]: "trimmed (stripHTML D input)"
  by (simp add: stripHTML_def finishStrippedText_def Let_def)

text \<open>C39: Sanitised text is tidy whatever markup and white space the feed sends: no white space
  around it, none around any of its lines, and never two blank lines in a row.\<close>

theorem stripped_text_tidy:
  "trimmed (stripHTML D input) \<and> list_all trimmed (split_on nl (stripHTML D input)) \<and>
   (\<forall>p q. stripHTML D input \<noteq> p @ [nl, nl, nl] @ q)"
  using finishStrippedText_lines finishStrippedText_runs
  using stripHTML_trimmed [of D input] unfolding stripHTML_def list_all_iff by blast

section \<open>Dropped bodies\<close>

text \<open>The name a tag token carries, and the element whose body is being dropped after some tokens.\<close>

fun tag_of :: "html_token \<Rightarrow> string option" where
  "tag_of (StartTagToken name) = Some (local_tag name)"
| "tag_of (EndTagToken name) = Some (local_tag name)"
| "tag_of (SelfClosingTagToken name) = Some (local_tag name)"
| "tag_of _ = None"

definition skip_after :: "string \<Rightarrow> html_token \<Rightarrow> string" where
  "skip_after skip tok =
     (case tag_of tok of
        None \<Rightarrow> skip
      | Some tag \<Rightarrow>
          if skip \<noteq> [] then (if tag = skip then [] else skip)
          else if raw_text_tag tag \<and> (\<exists>name. tok = StartTagToken name) then tag else [])"

lemma strip_tokens_append:
  "strip_tokens skip (ts @ us) = strip_tokens skip ts @ strip_tokens (fold (\<lambda>tok s. skip_after s tok) ts skip) us"
proof (induction ts arbitrary: skip)
  case (Cons t ts)
  then show ?case by (cases t) (auto simp: skip_after_def)
qed simp

lemma strip_body:
  assumes "skip \<noteq> []" "\<forall>t \<in> set body. tag_of t \<noteq> Some skip"
  shows "strip_tokens skip body = [] \<and> fold (\<lambda>tok s. skip_after s tok) body skip = skip"
  using assms(2)
proof (induction body)
  case (Cons t body)
  then show ?case using assms(1) by (cases t) (auto simp: skip_after_def)
qed simp

text \<open>A script or style element leaves nothing: the text a document is stripped to is that
  without the element, whatever the element's body holds up to its end tag.\<close>

theorem scripts_leave_nothing:
  assumes "raw_text_tag (local_tag name)" "local_tag name' = local_tag name"
    and "\<forall>t \<in> set body. tag_of t \<noteq> Some (local_tag name)"
    and "fold (\<lambda>tok s. skip_after s tok) before [] = []"
  shows "strip_tokens [] (before @ StartTagToken name # body @ EndTagToken name' # after) = strip_tokens [] (before @ after)"
proof -
  have "local_tag name \<noteq> []" using assms(1) by (auto simp: raw_text_tag_def)
  then show ?thesis
    using strip_body [of "local_tag name" body] assms by (simp add: strip_tokens_append)
qed

theorem scripts_leave_nothing_witness:
  "strip_tokens [] [TextToken ''a'', StartTagToken ''svg:script'', TextToken ''alert(1)'', EndTagToken ''script'', TextToken ''b''] = ''ab''"
  using scripts_leave_nothing [of "''svg:script''" "''script''" "[TextToken ''alert(1)'']" "[TextToken ''a'']" "[TextToken ''b'']"]
  by (simp add: local_tag_def raw_text_tag_def skip_after_def)

end
