(* ===== verification/Display.thy ===== *)
theory Display
  imports Sanitize_Laws Failures Go_Format Api_Types
begin

text \<open>
  The display form of an entry (\<^verbatim>\<open>display.go\<close>) and the filter that selects entries
  (\<^verbatim>\<open>filter.go\<close>).  A compiled regular expression of the spec is a parameter: Go's \<^verbatim>\<open>regexp\<close> is
  given as a function from the expression to its error or its match predicate.
\<close>

section \<open>Display form\<close>

record displayEntry =
  ds_title :: string
  ds_description :: string
  ds_link :: string
  ds_image :: string
  ds_published :: string
  ds_published_unix :: int
  ds_author :: string
  ds_categories :: "string list"
  ds_feed_title :: string
  ds_raw_content :: string

text \<open>Entries hold instants; the zero time is the undated one.\<close>

definition formatPublished :: "int \<Rightarrow> string" where
  "formatPublished t = (if t = zero_time then [] else format_rfc3339 t)"

definition publishedUnix :: "int \<Rightarrow> int" where
  "publishedUnix t = (if t = zero_time then 0 else unix t)"

definition stripCategories :: "doc_env \<Rightarrow> string list \<Rightarrow> string list" where
  "stripCategories D cs = filter (\<lambda>c. c \<noteq> []) (map (stripHTML D) cs)"

definition displayOf :: "doc_env \<Rightarrow> entry \<Rightarrow> displayEntry" where
  "displayOf D e =
     \<lparr>ds_title = stripHTML D (en_title e),
      ds_description = stripHTML D (en_description e),
      ds_link = httpURLOrEmpty (de_go D) (en_link e),
      ds_image = httpURLOrEmpty (de_go D) (en_image e),
      ds_published = formatPublished (en_published e),
      ds_published_unix = publishedUnix (en_published e),
      ds_author = stripHTML D (en_author e),
      ds_categories = stripCategories D (en_categories e),
      ds_feed_title = stripHTML D (en_feed_title e),
      ds_raw_content = en_content e\<rparr>"

definition display_content :: "doc_env \<Rightarrow> displayEntry \<Rightarrow> string" where
  "display_content D d = stripHTML D (ds_raw_content d)"

definition joinedCategories :: "displayEntry \<Rightarrow> string" where
  "joinedCategories d = str_join '', '' (ds_categories d)"

section \<open>Filter\<close>

type_synonym regexp_engine = "string \<Rightarrow> go_error + (string \<Rightarrow> bool)"

record entryFilter =
  ef_spec :: "feed_filter option"
  ef_regex :: "(string \<Rightarrow> bool) option"

definition compileEntryFilter :: "go_env \<Rightarrow> regexp_engine \<Rightarrow> feed_filter option \<Rightarrow> go_error + entryFilter" where
  "compileEntryFilter E rx flt =
     (let f = \<lparr>ef_spec = flt, ef_regex = None\<rparr> in
      case flt of
        None \<Rightarrow> Inr f
      | Some sp \<Rightarrow>
          if blank (flt_regex sp) then Inr f
          else (case rx (flt_regex sp) of
                  Inl err \<Rightarrow> Inl (WrapError
                    (''invalid filter regex '' @ go_quote (env_print E) (flt_regex sp) @ '': '' @ err_text err) err)
                | Inr re \<Rightarrow> Inr (f\<lparr>ef_regex := Some re\<rparr>)))"

fun any_keyword :: "go_env \<Rightarrow> string \<Rightarrow> string list \<Rightarrow> bool" where
  "any_keyword E content [] = False"
| "any_keyword E content (k # ks) =
     (let keyword = trim_space k in
      if keyword = [] then any_keyword E content ks
      else if str_contains content (to_lower E keyword) then True
      else any_keyword E content ks)"

definition filter_matches :: "go_env \<Rightarrow> entryFilter \<Rightarrow> entry \<Rightarrow> bool" where
  "filter_matches E f e =
     (let whole = en_title e @ [nl] @ en_description e in
      case ef_spec f of
        None \<Rightarrow> True
      | Some sp \<Rightarrow>
          if (case ef_regex f of None \<Rightarrow> False | Some re \<Rightarrow> \<not> re whole) then False
          else if flt_keywords sp = [] then True
          else any_keyword E (to_lower E (trim_space whole)) (flt_keywords sp))"

section \<open>What is displayed, what matches\<close>

lemma httpURLOrEmpty_cases:
  "httpURLOrEmpty E u = [] \<or>
   (httpURLOrEmpty E u = u \<and> (\<exists>p. url_parse E u = Some p \<and> scheme p \<in> {''http'', ''https''}))"
  by (auto simp: httpURLOrEmpty_def schemeHTTP_def schemeHTTPS_def split: option.splits)

definition web_or_empty :: "go_env \<Rightarrow> string \<Rightarrow> bool" where
  "web_or_empty E u \<longleftrightarrow> u = [] \<or> (\<exists>p. url_parse E u = Some p \<and> scheme p \<in> {''http'', ''https''})"

lemma web_httpURLOrEmpty [simp]: "web_or_empty E (httpURLOrEmpty E u)"
  using httpURLOrEmpty_cases [of E u] by (auto simp: web_or_empty_def)

lemma any_keyword_iff:
  "any_keyword E content ks \<longleftrightarrow>
     (\<exists>k \<in> set ks. \<not> blank k \<and> str_contains content (to_lower E (trim_space k)))"
  by (induction ks) (auto simp: Let_def)

text \<open>What a filter of the spec selects once it compiles.\<close>

lemma compiled_filter_matches:
  assumes "compileEntryFilter E rx flt = Inr f"
  shows "filter_matches E f e \<longleftrightarrow>
    (case flt of
       None \<Rightarrow> True
     | Some sp \<Rightarrow>
         (blank (flt_regex sp) \<or> (\<exists>re. rx (flt_regex sp) = Inr re \<and> re (en_title e @ [nl] @ en_description e))) \<and>
         (flt_keywords sp = [] \<or>
          (\<exists>k \<in> set (flt_keywords sp). \<not> blank k \<and>
             str_contains (to_lower E (trim_space (en_title e @ [nl] @ en_description e))) (to_lower E (trim_space k)))))"
  using assms
  by (auto simp: compileEntryFilter_def filter_matches_def Let_def any_keyword_iff split: option.splits sum.splits if_splits)

lemma compile_filter_fails:
  "(\<exists>err. compileEntryFilter E rx flt = Inl err) \<longleftrightarrow>
     (\<exists>sp err. flt = Some sp \<and> \<not> blank (flt_regex sp) \<and> rx (flt_regex sp) = Inl err)"
  by (auto simp: compileEntryFilter_def Let_def split: option.splits sum.splits)

lemma stripCategories_nonempty: "c \<in> set (stripCategories D cs) \<Longrightarrow> c \<noteq> [] \<and> trimmed c"
  by (auto simp: stripCategories_def)

end
