(* ===== verification/Render.thy ===== *)
theory Render
  imports Display Msg_Template Feed_Sync
begin

text \<open>
  Entries turned into messages (\<^verbatim>\<open>render.go\<close>): the templates and the embed a feed resolves to, what
  templates see of an entry, and the message that is built.  The template engine, the regular
  expressions and the document parameters of \<open>Feed_Xml\<close> are the record \<open>render_env\<close>.
\<close>

section \<open>Configuration\<close>

definition defaultMessageFormat :: string where
  "defaultMessageFormat = ''**{{.Title}}**'' @ [nl] @ ''{{.Description}}'' @ [nl] @ ''[Read more]({{.Link}})''"

definition defaultDescriptionFormat :: string where
  "defaultDescriptionFormat = ''{{.Description}}''"

text \<open>What a template executes against; \<open>Content\<close> is a method in the source.\<close>

record templateData =
  td_title :: string
  td_description :: string
  td_link :: string
  td_image :: string
  td_published :: string
  td_published_unix :: int
  td_author :: string
  td_categories :: string
  td_feed_title :: string
  td_content :: string

record render_env =
  rn_doc :: doc_env
  rn_templates :: "templateData template_engine"
  rn_regexp :: regexp_engine

definition compileMessageTemplate :: "templateData template_engine \<Rightarrow> feed_group \<Rightarrow> feed_spec \<Rightarrow> go_error + compiled" where
  "compileMessageTemplate T g f =
     (let t1 = trim_space (sp_format f);
          t2 = (if t1 = [] then trim_space (group_format (fg_spec g)) else t1);
          t3 = (if t2 = [] then defaultMessageFormat else t2)
      in Compile T t3 defaultMessageFormat)"

definition resolveEmbedSpec :: "feed_group \<Rightarrow> feed_spec \<Rightarrow> embed_spec option" where
  "resolveEmbedSpec g f = (if sp_embed f \<noteq> None then sp_embed f else group_embed (fg_spec g))"

text \<open>\<open>strconv.ParseInt(s, 16, 32)\<close>.\<close>

fun hex_number :: "int \<Rightarrow> string \<Rightarrow> int option" where
  "hex_number n [] = Some n"
| "hex_number n (c # s) = (case hex_value c of None \<Rightarrow> None | Some d \<Rightarrow> hex_number (16 * n + d) s)"

definition parse_int16 :: "string \<Rightarrow> int option" where
  "parse_int16 s =
     (let neg = has_prefix s ''-'';
          digits = (if neg \<or> has_prefix s ''+'' then tl s else s)
      in if digits = [] then None
         else case hex_number 0 digits of
                None \<Rightarrow> None
              | Some n \<Rightarrow>
                  if neg then (if n > 2147483648 then None else Some (- n))
                  else if n \<ge> 2147483648 then None else Some n)"

definition parseHexColor :: "string \<Rightarrow> int" where
  "parseHexColor s =
     (let t = trim_space s; t' = (if has_prefix t ''#'' then tl t else t) in
      if t' = [] then 0 else case parse_int16 t' of None \<Rightarrow> 0 | Some v \<Rightarrow> v)"

section \<open>The renderer\<close>

record feedRenderer =
  fr_group :: feed_group
  fr_feed :: feed_spec
  fr_embed :: "embed_spec option"
  fr_content :: "compiled option"
  fr_description :: "compiled option"
  fr_threadName :: "compiled option"
  fr_filter :: entryFilter

definition embed_enabled :: "embed_spec option \<Rightarrow> bool" where
  "embed_enabled em \<longleftrightarrow> (case em of None \<Rightarrow> False | Some e \<Rightarrow> em_enabled e)"

definition newFeedRenderer :: "render_env \<Rightarrow> feed_group \<Rightarrow> feed_spec \<Rightarrow> go_error + feedRenderer" where
  "newFeedRenderer R g f =
     (case compileEntryFilter (de_go (rn_doc R)) (rn_regexp R) (sp_filter f) of
        Inl err \<Rightarrow> Inl err
      | Inr flt \<Rightarrow>
          let em = resolveEmbedSpec g f;
              fr = \<lparr>fr_group = g, fr_feed = f, fr_embed = em, fr_content = None, fr_description = None,
                    fr_threadName = None, fr_filter = flt\<rparr>;
              main = (if embed_enabled em
                then map_sum id (\<lambda>t. fr\<lparr>fr_description := Some t\<rparr>)
                  (Compile (rn_templates R) (em_description_format (the em)) defaultDescriptionFormat)
                else map_sum id (\<lambda>t. fr\<lparr>fr_content := Some t\<rparr>) (compileMessageTemplate (rn_templates R) g f))
          in case main of
               Inl err \<Rightarrow> Inl err
             | Inr fr1 \<Rightarrow>
                 if blank (forum_thread_name f) then Inr fr1
                 else map_sum id (\<lambda>t. fr1\<lparr>fr_threadName := Some t\<rparr>)
                        (Compile (rn_templates R) (forum_thread_name f) []))"

definition data_of :: "doc_env \<Rightarrow> displayEntry \<Rightarrow> templateData" where
  "data_of D d =
     \<lparr>td_title = ds_title d, td_description = ds_description d, td_link = ds_link d,
      td_image = ds_image d, td_published = ds_published d, td_published_unix = ds_published_unix d,
      td_author = ds_author d, td_categories = joinedCategories d, td_feed_title = ds_feed_title d,
      td_content = display_content D d\<rparr>"

definition renderTemplate :: "render_env \<Rightarrow> compiled \<Rightarrow> displayEntry \<Rightarrow> go_error + string" where
  "renderTemplate R t d = Execute (rn_templates R) t (data_of (rn_doc R) d)"

text \<open>A message under construction: the template of a renderer that has none is a nil pointer.\<close>

definition with_rendered :: "render_env \<Rightarrow> compiled option \<Rightarrow> displayEntry \<Rightarrow> (string \<Rightarrow> 'm built) \<Rightarrow> 'm built" where
  "with_rendered R t d k =
     (case t of
        None \<Rightarrow> BuildPanic nil_dereference
      | Some t \<Rightarrow> (case renderTemplate R t d of Inl err \<Rightarrow> BuildError err | Inr out \<Rightarrow> k out))"

definition embed_of :: "embed_spec \<Rightarrow> displayEntry \<Rightarrow> string \<Rightarrow> embed" where
  "embed_of em d desc =
     (let large = em_image_style em = ''image'' in
      \<lparr>eb_title = ds_title d, eb_description = desc, eb_url = ds_link d,
       eb_color = parseHexColor (em_color em), eb_timestamp = ds_published d,
       eb_thumbnail_url = (if large then [] else ds_image d),
       eb_image_url = (if large then ds_image d else []),
       eb_author_name = em_author_name em, eb_footer_text = em_footer_text em\<rparr>)"

definition emptyContent :: go_error where
  "emptyContent = PlainError ''message template rendered empty content for this entry''"
definition emptyThreadName :: go_error where
  "emptyThreadName = PlainError ''forum thread name template rendered empty for this entry''"

text \<open>The end of \<open>build\<close>: the thread a message goes to, and its limits.\<close>

definition finish_message :: "render_env \<Rightarrow> feedRenderer \<Rightarrow> displayEntry \<Rightarrow> message \<Rightarrow> message built" where
  "finish_message R fr d msg =
     (let fit = (\<lambda>m. case Fit m of (m', n) \<Rightarrow> Built m' n) in
      if \<not> blank (forum_thread_id (fr_feed fr))
      then fit (msg\<lparr>msg_thread_id := forum_thread_id (fr_feed fr)\<rparr>)
      else if fr_threadName fr \<noteq> None
      then with_rendered R (fr_threadName fr) d (\<lambda>name.
             if blank name then BuildError emptyThreadName else fit (msg\<lparr>msg_thread_name := name\<rparr>))
      else fit msg)"

definition build :: "render_env \<Rightarrow> feedRenderer \<Rightarrow> entry \<Rightarrow> message built" where
  "build R fr raw =
     (let d = displayOf (rn_doc R) raw;
          msg = \<lparr>msg_content = [], msg_embed = None, msg_thread_name = [], msg_thread_id = [],
                 msg_username = sp_username (fg_spec (fr_group fr)),
                 msg_avatar_url = sp_avatar_url (fg_spec (fr_group fr))\<rparr>
      in if embed_enabled (fr_embed fr)
         then with_rendered R (fr_description fr) d (\<lambda>desc.
                finish_message R fr d (msg\<lparr>msg_embed := Some (embed_of (the (fr_embed fr)) d desc)\<rparr>))
         else with_rendered R (fr_content fr) d (\<lambda>content.
                if blank content then BuildError emptyContent
                else finish_message R fr d (msg\<lparr>msg_content := content\<rparr>)))"

text \<open>The renderer as the send loop uses it.\<close>

definition renderer_of :: "render_env \<Rightarrow> feedRenderer \<Rightarrow> message renderer" where
  "renderer_of R fr =
     \<lparr>rd_matches = filter_matches (de_go (rn_doc R)) (fr_filter fr), rd_build = build R fr\<rparr>"

definition feed_renderer :: "render_env \<Rightarrow> feed_group \<Rightarrow> feed_spec \<Rightarrow> go_error + message renderer" where
  "feed_renderer R g f = map_sum id (renderer_of R) (newFeedRenderer R g f)"

end
