(* ===== verification/Render_Laws.thy ===== *)
theory Render_Laws
  imports Render Feed_Sync_Laws Discord_Client_Laws
begin

text \<open>
  What is built can be sent: a renderer that is configured builds messages Discord's limits and the
  client's checks accept, or an error, and a sync hands the sender no other.
\<close>

section \<open>Limits\<close>

lemma Truncate_blank:
  assumes "\<not> blank s" "2 \<le> limit"
  shows "\<not> blank (fst (Truncate s limit))"
proof (cases "rune_count s \<le> limit")
  case True
  then show ?thesis using assms(1) Truncate_id [of s limit] by simp
next
  case False
  then have "8230 \<in> set (runes (fst (Truncate s limit)))"
    using Truncate_runes [of s limit] assms(2) by simp
  moreover have "\<not> is_space 8230" by (simp add: is_space_def)
  ultimately show ?thesis unfolding blank_iff by blast
qed

lemma Fit_parts:
  "msg_content (fst (Fit m)) = fst (Truncate (msg_content m) MaxContentLength)"
  "msg_thread_name (fst (Fit m)) = fst (Truncate (msg_thread_name m) MaxThreadNameLength)"
  "msg_embed (fst (Fit m)) = map_option (\<lambda>e. fst (fit_embed e)) (msg_embed m)"
  "msg_thread_id (fst (Fit m)) = msg_thread_id m" "msg_avatar_url (fst (Fit m)) = msg_avatar_url m"
  by (simp_all add: Fit_def Let_def case_prod_beta split: option.split)

lemma fit_embed_frame:
  "eb_url (fst (fit_embed e)) = eb_url e" "eb_image_url (fst (fit_embed e)) = eb_image_url e"
  "eb_thumbnail_url (fst (fit_embed e)) = eb_thumbnail_url e" "eb_color (fst (fit_embed e)) = eb_color e"
  "eb_timestamp (fst (fit_embed e)) = eb_timestamp e"
  by (simp_all add: fit_embed_def clampEmbedTotalLength_def Let_def case_prod_beta)

lemma Fit_fits: "message_fits (fst (Fit m))"
proof -
  have "msg_username (fst (Fit m)) = fst (Truncate (msg_username m) MaxUsernameLength)"
    by (simp add: Fit_def Let_def case_prod_beta split: option.split)
  then show ?thesis
    by (auto simp: message_fits_def Fit_parts Truncate_le limit_defs fit_embed_fits)
qed

lemma Fit_id: "message_fits m \<Longrightarrow> Fit m = (m, 0)"
  by (cases "msg_embed m") (simp_all add: Fit_def [of m] message_fits_def Truncate_id fit_embed_id)

section \<open>Messages that can be sent\<close>

definition safe_embed :: "go_env \<Rightarrow> embed \<Rightarrow> bool" where
  "safe_embed E e \<longleftrightarrow> web_or_empty E (eb_url e) \<and> web_or_empty E (eb_image_url e) \<and>
     web_or_empty E (eb_thumbnail_url e)"

text \<open>The message a feed may send: within the limits; text that is not blank or an embed whose links
  are web links, as the feed is configured; and in a forum the thread it names.\<close>

definition sendable :: "go_env \<Rightarrow> feed_group \<Rightarrow> feed_spec \<Rightarrow> message \<Rightarrow> bool" where
  "sendable E g f m \<longleftrightarrow> message_fits m \<and>
     (if embed_enabled (resolveEmbedSpec g f)
      then msg_content m = [] \<and> (\<exists>e. msg_embed m = Some e \<and> safe_embed E e)
      else msg_embed m = None \<and> \<not> blank (msg_content m)) \<and>
     (if \<not> blank (forum_thread_id f)
      then msg_thread_id m = forum_thread_id f \<and> msg_thread_name m = []
      else msg_thread_id m = [] \<and> (blank (msg_thread_name m) \<longleftrightarrow> blank (forum_thread_name f)))"

lemma newFeedRenderer_parts:
  assumes "newFeedRenderer R g f = Inr fr"
  shows "fr_group fr = g" "fr_feed fr = f" "fr_embed fr = resolveEmbedSpec g f"
    and "(fr_threadName fr = None) = blank (forum_thread_name f)"
    and "embed_enabled (resolveEmbedSpec g f) \<Longrightarrow> fr_description fr \<noteq> None"
    and "\<not> embed_enabled (resolveEmbedSpec g f) \<Longrightarrow> fr_content fr \<noteq> None"
  using assms by (auto simp: newFeedRenderer_def Let_def map_sum_def split: sum.splits if_splits)

lemma with_rendered_Built:
  "with_rendered R t d k = Built m n \<longleftrightarrow> (\<exists>t' out. t = Some t' \<and> renderTemplate R t' d = Inr out \<and> k out = Built m n)"
  by (auto simp: with_rendered_def split: option.splits sum.splits)

lemma with_rendered_panic:
  "with_rendered R t d k = BuildPanic p \<longleftrightarrow>
     (t = None \<and> p = nil_dereference) \<or> (\<exists>t' out. t = Some t' \<and> renderTemplate R t' d = Inr out \<and> k out = BuildPanic p)"
  by (auto simp: with_rendered_def split: option.splits sum.splits)

text \<open>How a message is finished: it is fitted after at most its thread was set.\<close>

lemma finish_Built:
  assumes "finish_message R fr d msg = Built m n"
  obtains tid tname where "(m, n) = Fit (msg\<lparr>msg_thread_id := tid, msg_thread_name := tname\<rparr>)"
    "if \<not> blank (forum_thread_id (fr_feed fr)) then tid = forum_thread_id (fr_feed fr) \<and> tname = msg_thread_name msg
     else tid = msg_thread_id msg \<and> (if fr_threadName fr \<noteq> None then \<not> blank tname else tname = msg_thread_name msg)"
proof (cases "blank (forum_thread_id (fr_feed fr))")
  case False
  then have "(m, n) = Fit (msg\<lparr>msg_thread_id := forum_thread_id (fr_feed fr), msg_thread_name := msg_thread_name msg\<rparr>)"
    using assms by (auto simp: finish_message_def split: prod.splits)
  then show ?thesis using that False by simp
next
  case blank: True
  show ?thesis
  proof (cases "fr_threadName fr")
    case None
    then have "(m, n) = Fit (msg\<lparr>msg_thread_id := msg_thread_id msg, msg_thread_name := msg_thread_name msg\<rparr>)"
      using assms blank by (auto simp: finish_message_def split: prod.splits)
    then show ?thesis using that blank None by simp
  next
    case (Some t)
    then obtain name where name: "\<not> blank name" "(case Fit (msg\<lparr>msg_thread_name := name\<rparr>) of (m', n) \<Rightarrow> Built m' n) = Built m n"
      using assms blank by (auto simp: finish_message_def Let_def with_rendered_Built split: if_splits)
    then have "(m, n) = Fit (msg\<lparr>msg_thread_id := msg_thread_id msg, msg_thread_name := name\<rparr>)"
      by (auto split: prod.splits)
    then show ?thesis using that blank Some name(1) by simp
  qed
qed

lemma build_Built:
  assumes "newFeedRenderer R g f = Inr fr" "build R fr e = Built m n"
  obtains msg where "finish_message R fr (displayOf (rn_doc R) e) msg = Built m n"
    "msg_thread_id msg = []" "msg_thread_name msg = []"
    "if embed_enabled (resolveEmbedSpec g f)
     then msg_content msg = [] \<and> (\<exists>desc. msg_embed msg = Some (embed_of (the (fr_embed fr)) (displayOf (rn_doc R) e) desc))
     else msg_embed msg = None \<and> \<not> blank (msg_content msg)"
proof (cases "embed_enabled (resolveEmbedSpec g f)")
  case True
  then obtain desc where "finish_message R fr (displayOf (rn_doc R) e)
      \<lparr>msg_content = [], msg_embed = Some (embed_of (the (fr_embed fr)) (displayOf (rn_doc R) e) desc),
       msg_thread_name = [], msg_thread_id = [], msg_username = sp_username (fg_spec (fr_group fr)),
       msg_avatar_url = sp_avatar_url (fg_spec (fr_group fr))\<rparr> = Built m n"
    using assms(2) newFeedRenderer_parts(3) [OF assms(1)] by (auto simp: build_def Let_def with_rendered_Built)
  then show ?thesis using True by (intro that) auto
next
  case False
  then obtain content where "\<not> blank content" "finish_message R fr (displayOf (rn_doc R) e)
      \<lparr>msg_content = content, msg_embed = None,
       msg_thread_name = [], msg_thread_id = [], msg_username = sp_username (fg_spec (fr_group fr)),
       msg_avatar_url = sp_avatar_url (fg_spec (fr_group fr))\<rparr> = Built m n"
    using assms(2) newFeedRenderer_parts(3) [OF assms(1)]
    by (auto simp: build_def Let_def with_rendered_Built split: if_splits)
  then show ?thesis using False by (intro that) auto
qed

lemma embed_of_safe: "safe_embed (de_go D) (embed_of em (displayOf D e) desc)"
  by (simp add: safe_embed_def embed_of_def displayOf_def Let_def) (simp add: web_or_empty_def)

lemma built_sendable:
  assumes "newFeedRenderer R g f = Inr fr" "build R fr e = Built m n"
  shows "sendable (de_go (rn_doc R)) g f m"
proof -
  note parts = newFeedRenderer_parts [OF assms(1)]
  obtain msg where msg: "finish_message R fr (displayOf (rn_doc R) e) msg = Built m n"
    "msg_thread_id msg = []" "msg_thread_name msg = []"
    "if embed_enabled (resolveEmbedSpec g f)
     then msg_content msg = [] \<and> (\<exists>desc. msg_embed msg = Some (embed_of (the (fr_embed fr)) (displayOf (rn_doc R) e) desc))
     else msg_embed msg = None \<and> \<not> blank (msg_content msg)"
    by (rule build_Built [OF assms])
  obtain tid tname where fit: "(m, n) = Fit (msg\<lparr>msg_thread_id := tid, msg_thread_name := tname\<rparr>)"
    and thread: "if \<not> blank (forum_thread_id f) then tid = forum_thread_id f \<and> tname = []
     else tid = [] \<and> (if fr_threadName fr \<noteq> None then \<not> blank tname else tname = [])"
    using finish_Built [OF msg(1)] msg(2,3) parts(2) by metis
  have m: "m = fst (Fit (msg\<lparr>msg_thread_id := tid, msg_thread_name := tname\<rparr>))" by (metis fit fst_conv)
  have short: "fst (Truncate [] l) = []" if "0 \<le> l" for l using that by (simp add: Truncate_def)
  have fits: "message_fits m" unfolding m by (rule Fit_fits)
  have content: "if embed_enabled (resolveEmbedSpec g f)
      then msg_content m = [] \<and> (\<exists>e. msg_embed m = Some e \<and> safe_embed (de_go (rn_doc R)) e)
      else msg_embed m = None \<and> \<not> blank (msg_content m)"
    using msg(4) embed_of_safe [of "rn_doc R"]
    by (auto simp: m Fit_parts short limit_defs Truncate_blank safe_embed_def fit_embed_frame)
  have "if \<not> blank (forum_thread_id f)
      then msg_thread_id m = forum_thread_id f \<and> msg_thread_name m = []
      else msg_thread_id m = [] \<and> (blank (msg_thread_name m) \<longleftrightarrow> blank (forum_thread_name f))"
    using thread parts(4) by (auto simp: m Fit_parts short limit_defs Truncate_blank split: if_splits)
  with fits content show ?thesis by (simp add: sendable_def)
qed

lemma build_no_panic:
  assumes "newFeedRenderer R g f = Inr fr"
  shows "build R fr e \<noteq> BuildPanic p"
  using newFeedRenderer_parts [OF assms]
  by (auto simp: build_def Let_def with_rendered_panic finish_message_def split: if_splits prod.splits)

lemma sendable_Fit: "sendable E g f m \<Longrightarrow> Fit m = (m, 0)"
  by (rule Fit_id) (simp add: sendable_def)

lemma sendable_nonblank: "sendable E g f m \<Longrightarrow> \<not> (blank (msg_content m) \<and> msg_embed m = None)"
  by (auto simp: sendable_def split: if_splits)

lemma sendable_prepared:
  assumes "sendable E g f m"
  shows "prepareRequest E' P url m \<noteq> Inl (PlainError ''discord message content is empty'') \<and>
    (prepareRequest E' P url m = Inr rq \<longrightarrow> pr_body rq = message_body m)"
proof -
  have fit: "fst (Fit m) = m" using sendable_Fit [OF assms] by simp
  show ?thesis
    using sendable_nonblank [OF assms] unfolding prepareRequest_def Let_def fit by (auto split: option.splits)
qed

section \<open>What a sync posts\<close>

lemma apply_posts_built:
  assumes "apply_sync run s st = (st', r)"
  shows "\<exists>ms. posts (st_log st') = posts (st_log st) @ ms \<and>
    (\<forall>m \<in> set ms. \<exists>rend e ov. fn_renderer run (fn_group run) (fn_feed run) = Inr rend \<and> rd_build rend e = Built m ov)"
proof (cases "\<exists>rend. deliverable run rend s")
  case True
  then obtain rend where del: "deliverable run rend s" by blast
  let ?s = "begun_sync run s st"
  obtain hs ps rs st2 where run: "delivers (delivery_of run rend ?s) (plan_entries (fy_plan ?s)) (begun run s st) hs ps rs st2 r"
    and st': "st' = (case r of Panicked p \<Rightarrow> st2 | Returned v \<Rightarrow> close_sync ?s (settlement v) st2)"
    by (rule apply_runs [OF del assms])
  have "posts (st_log st') = posts (st_log st) @ map (message_of (delivery_of run rend ?s)) ps"
    using delivers_posts [OF run] unfolding st' by (cases r) simp_all
  moreover have "\<forall>e \<in> set ps. \<exists>m ov. rd_build rend e = Built m ov"
    using delivers_only_due [OF run begun_ledger] by simp
  moreover have "fn_renderer run (fn_group run) (fn_feed run) = Inr rend" using del by (simp add: deliverable_def)
  ultimately show ?thesis by (fastforce simp: message_of_def)
next
  case False
  then have "posts (st_log st') = posts (st_log st)"
    using assms by (auto simp: apply_sync_def deliverable_def Let_def case_prod_beta split: option.splits sum.splits)
  then show ?thesis by simp
qed

text \<open>C14: Whatever a feed sends and however it is configured, every message a sync hands to the
  sender is within every length limit, has text that is not blank or an embed whose links are web
  links, and goes to the forum thread the feed names; the client refuses none of them as empty and
  transmits it as it was built.  That an embed shows anything is not claimed: \<open>empty_embed_built\<close>
  is one that does not.\<close>

theorem posted_messages_sendable:
  assumes "fn_renderer run = feed_renderer R" "apply_sync run s st = (st', r)"
  shows "\<exists>ms. posts (st_log st') = posts (st_log st) @ ms \<and>
    (\<forall>m \<in> set ms. sendable (de_go (rn_doc R)) (fn_group run) (fn_feed run) m \<and>
       (\<forall>E P url rq. prepareRequest E P url m \<noteq> Inl (PlainError ''discord message content is empty'') \<and>
          (prepareRequest E P url m = Inr rq \<longrightarrow> pr_body rq = message_body m)))"
proof -
  obtain ms where ms: "posts (st_log st') = posts (st_log st) @ ms"
    and built: "\<forall>m \<in> set ms. \<exists>rend e ov. fn_renderer run (fn_group run) (fn_feed run) = Inr rend \<and> rd_build rend e = Built m ov"
    using apply_posts_built [OF assms(2)] by blast
  have "sendable (de_go (rn_doc R)) (fn_group run) (fn_feed run) m" if m: "m \<in> set ms" for m
  proof -
    obtain rend e ov where rend: "feed_renderer R (fn_group run) (fn_feed run) = Inr rend" "rd_build rend e = Built m ov"
      using built m unfolding assms(1) by blast
    then obtain fr where fr: "newFeedRenderer R (fn_group run) (fn_feed run) = Inr fr" "rend = renderer_of R fr"
      unfolding feed_renderer_def by (cases "newFeedRenderer R (fn_group run) (fn_feed run)") auto
    then show ?thesis using built_sendable [OF fr(1)] rend(2) by (simp add: renderer_of_def)
  qed
  then show ?thesis using ms sendable_prepared by blast
qed

definition example_render :: render_env where
  "example_render =
     \<lparr>rn_doc = \<lparr>de_go = plain_env, de_root = (\<lambda>s. Inl (PlainError [])), de_tree = (\<lambda>s. Inl (PlainError [])),
        de_html = (\<lambda>s. [TextToken s]), de_zone = (\<lambda>z t. None)\<rparr>,
      rn_templates = \<lparr>te_parse = (\<lambda>s. Inr ([''t''], Some (ListNode []))), te_exec = (\<lambda>t d. ([td_title d], None))\<rparr>,
      rn_regexp = (\<lambda>s. Inr (\<lambda>w. True))\<rparr>"

definition render_run :: "(message, unit) feed_run" where
  "render_run = \<lparr>fn_group = example_group [example_feed ''https://go.dev/feed''] [],
     fn_feed = example_feed ''https://go.dev/feed'',
     fn_fetched = \<lparr>fo_result = example_fetch, fo_err = None\<rparr>, fn_sender = (\<lambda>m w. (SendOk, w)),
     fn_cadence = at_cadence example_attempt, fn_recorder = True, fn_now = 1700000000000000000,
     fn_clock = at_clock example_attempt, fn_env = plain_env, fn_conditions = list_conditions 0,
     fn_renderer = feed_renderer example_render\<rparr>"

definition render_start :: "(message, unit) sync_state" where
  "render_start = \<lparr>st_fs = new_feed_status ''https://go.dev/feed'', st_log = [], st_ticks = 0,
     sy_world = (), sy_handled = 0, sy_closing = False\<rparr>"

theorem posted_messages_sendable_witness:
  "\<exists>ms. posts (st_log (fst (apply_sync render_run example_sync render_start))) = ms \<and>
    (\<forall>m \<in> set ms. sendable plain_env (fn_group render_run) (fn_feed render_run) m)"
  using posted_messages_sendable [of render_run example_render example_sync render_start
      "fst (apply_sync render_run example_sync render_start)" "snd (apply_sync render_run example_sync render_start)"]
  by (auto simp: render_run_def render_start_def example_render_def)

section \<open>Configuration\<close>

text \<open>The template a feed's messages are rendered with.\<close>

definition message_text :: "feed_group \<Rightarrow> feed_spec \<Rightarrow> string" where
  "message_text g f =
     (case resolveEmbedSpec g f of
        Some em \<Rightarrow>
          if em_enabled em
          then (if blank (em_description_format em) then defaultDescriptionFormat else trim_space (em_description_format em))
          else if \<not> blank (sp_format f) then trim_space (sp_format f)
          else if \<not> blank (group_format (fg_spec g)) then trim_space (group_format (fg_spec g)) else defaultMessageFormat
      | None \<Rightarrow>
          if \<not> blank (sp_format f) then trim_space (sp_format f)
          else if \<not> blank (group_format (fg_spec g)) then trim_space (group_format (fg_spec g)) else defaultMessageFormat)"

definition filter_compiles :: "render_env \<Rightarrow> feed_filter option \<Rightarrow> bool" where
  "filter_compiles R flt =
     (case flt of None \<Rightarrow> True | Some sp \<Rightarrow> blank (flt_regex sp) \<or> (\<exists>re. rn_regexp R (flt_regex sp) = Inr re))"

lemma default_trimmed: "trim_space defaultMessageFormat = defaultMessageFormat"
  by code_simp

lemma compileMessageTemplate_exact:
  "\<not> embed_enabled (resolveEmbedSpec g f) \<Longrightarrow>
     (\<exists>t. compileMessageTemplate T g f = Inr t) \<longleftrightarrow> accepted (te_parse T (message_text g f))"
  unfolding compileMessageTemplate_def Let_def Compile_exact
  by (auto simp: message_text_def embed_enabled_def default_trimmed split: option.splits)

lemma description_exact:
  "embed_enabled (resolveEmbedSpec g f) \<Longrightarrow>
     (\<exists>t. Compile T (em_description_format (the (resolveEmbedSpec g f))) defaultDescriptionFormat = Inr t) \<longleftrightarrow>
     accepted (te_parse T (message_text g f))"
  unfolding Compile_exact by (auto simp: message_text_def embed_enabled_def split: option.splits)

text \<open>A feed's configuration is checked before any entry is rendered: a renderer exists exactly
  when the filter's expression compiles and the sandbox accepts the template the feed resolves
  to and its thread name's; with a renderer, building a message never panics.\<close>

theorem renderer_config_exact:
  "((\<exists>fr. newFeedRenderer R g f = Inr fr) \<longleftrightarrow>
      filter_compiles R (sp_filter f) \<and>
      accepted (te_parse (rn_templates R) (message_text g f)) \<and>
      (blank (forum_thread_name f) \<or> accepted (te_parse (rn_templates R) (trim_space (forum_thread_name f))))) \<and>
   \<not> (newFeedRenderer R g f = Inr fr' \<and> build R fr' e = BuildPanic p)"
proof
  show "\<not> (newFeedRenderer R g f = Inr fr' \<and> build R fr' e = BuildPanic p)" using build_no_panic by blast
  let ?main = "\<exists>t. (if embed_enabled (resolveEmbedSpec g f)
      then Compile (rn_templates R) (em_description_format (the (resolveEmbedSpec g f))) defaultDescriptionFormat
      else compileMessageTemplate (rn_templates R) g f) = Inr t"
  have main: "?main \<longleftrightarrow> accepted (te_parse (rn_templates R) (message_text g f))"
    using compileMessageTemplate_exact [of g f "rn_templates R"] description_exact [of g f "rn_templates R"]
    by (cases "embed_enabled (resolveEmbedSpec g f)") simp_all
  have thread: "(\<exists>t. Compile (rn_templates R) (forum_thread_name f) [] = Inr t) \<longleftrightarrow>
      accepted (te_parse (rn_templates R) (trim_space (forum_thread_name f)))" if "\<not> blank (forum_thread_name f)"
    using that unfolding Compile_exact by simp
  have filter: "(\<exists>flt. compileEntryFilter (de_go (rn_doc R)) (rn_regexp R) (sp_filter f) = Inr flt) \<longleftrightarrow>
      filter_compiles R (sp_filter f)"
    by (auto simp: filter_compiles_def compileEntryFilter_def Let_def split: option.splits sum.splits)
  have "(\<exists>fr. newFeedRenderer R g f = Inr fr) \<longleftrightarrow>
      (\<exists>flt. compileEntryFilter (de_go (rn_doc R)) (rn_regexp R) (sp_filter f) = Inr flt) \<and> ?main \<and>
      (blank (forum_thread_name f) \<or> (\<exists>t. Compile (rn_templates R) (forum_thread_name f) [] = Inr t))"
    by (auto simp: newFeedRenderer_def Let_def map_sum_def split: sum.splits)
  then show "(\<exists>fr. newFeedRenderer R g f = Inr fr) \<longleftrightarrow>
      filter_compiles R (sp_filter f) \<and>
      accepted (te_parse (rn_templates R) (message_text g f)) \<and>
      (blank (forum_thread_name f) \<or> accepted (te_parse (rn_templates R) (trim_space (forum_thread_name f))))"
    unfolding filter main using thread by blast
qed

text \<open>Only the plain text is checked for being blank: an entry without title and description whose
  template renders nothing is built into an embed without content.\<close>

definition embed_group :: feed_group where
  "embed_group =
     (let g = example_group [example_feed ''https://go.dev/feed''] [] in
      g\<lparr>fg_spec := (fg_spec g)\<lparr>group_embed := Some \<lparr>em_enabled = True, em_color = [], em_description_format = [],
        em_image_style = [], em_author_name = [], em_footer_text = []\<rparr>\<rparr>\<rparr>)"

lemma empty_embed_built:
  "(case newFeedRenderer example_render embed_group (example_feed ''https://go.dev/feed'') of
      Inl e \<Rightarrow> None
    | Inr fr \<Rightarrow> (case build example_render fr (example_entry\<lparr>en_title := [], en_link := [], en_published := zero_time\<rparr>) of
          Built m n \<Rightarrow> msg_embed m | _ \<Rightarrow> None)) =
   Some \<lparr>eb_title = [], eb_description = [], eb_url = [], eb_color = 0, eb_timestamp = [], eb_thumbnail_url = [],
     eb_image_url = [], eb_author_name = [], eb_footer_text = []\<rparr>"
  by code_simp

end
