(* ===== verification/Redact.thy ===== *)
theory Redact
  imports Sanitize_Laws Go_Url
begin

text \<open>
  Webhook tokens kept out of trace backends (\<^verbatim>\<open>internal/telemetry/redact.go\<close>): the rewriting of
  string attributes of exported spans.  A span is the list of its attributes; the exporter
  behind it is wiring.
\<close>

section \<open>Redaction\<close>

definition redacted :: string where "redacted = ''REDACTED''"

text \<open>\<open>webhookTokenRE.ReplaceAllString\<close>: every \<open>/webhooks/<id>/<token>\<close>, left to right.  The classes
  exclude the slash, so that an id or a token is as long as it can be.\<close>

definition in_segment :: "char \<Rightarrow> bool" where
  "in_segment c \<longleftrightarrow> c \<notin> set ''/?#''"

definition webhook_match :: "string \<Rightarrow> (string \<times> string) option" where
  "webhook_match s =
     (if \<not> has_prefix s ''/webhooks/'' then None
      else let ident = takeWhile in_segment (drop 10 s); after = dropWhile in_segment (drop 10 s) in
        if ident = [] \<or> \<not> has_prefix after ''/'' then None
        else if takeWhile in_segment (tl after) = [] then None
        else Some (''/webhooks/'' @ ident @ ''/'', dropWhile in_segment (tl after)))"

lemma webhook_match_shorter: "webhook_match s = Some (m, rest) \<Longrightarrow> length rest < length s"
proof -
  assume w: "webhook_match s = Some (m, rest)"
  let ?after = "dropWhile in_segment (drop 10 s)"
  have rest: "rest = dropWhile in_segment (tl ?after)" and "has_prefix ?after ''/''"
    using w by (auto simp: webhook_match_def Let_def split: if_splits)
  then have "?after \<noteq> []" unfolding has_prefix_def by fastforce
  then have "length (tl ?after) < length ?after" by simp
  moreover have "length rest \<le> length (tl ?after)" unfolding rest by (rule length_dropWhile_le)
  moreover have "length ?after \<le> length s" using length_dropWhile_le [of in_segment "drop 10 s"] by simp
  ultimately show ?thesis by simp
qed

function replace_tokens :: "string \<Rightarrow> string" where
  "replace_tokens s =
     (case s of
        [] \<Rightarrow> []
      | c # s' \<Rightarrow>
          (case webhook_match s of
             Some (kept, rest) \<Rightarrow> kept @ redacted @ replace_tokens rest
           | None \<Rightarrow> c # replace_tokens s'))"
  by pat_completeness auto
termination by (relation "measure length") (auto dest: webhook_match_shorter)

declare replace_tokens.simps [simp del]

text \<open>\<open>strings.Trim(s, "/")\<close>.\<close>

definition trim_slashes :: "string \<Rightarrow> string" where
  "trim_slashes s = rev (dropWhile (\<lambda>c. c = CHR ''/'') (rev (dropWhile (\<lambda>c. c = CHR ''/'') s)))"

text \<open>The index of the first segment \<open>webhooks\<close> that is not the last one.\<close>

fun webhooks_index :: "string list \<Rightarrow> nat option" where
  "webhooks_index [] = None"
| "webhooks_index [s] = None"
| "webhooks_index (s # t # ss) = (if s = ''webhooks'' then Some 0 else map_option Suc (webhooks_index (t # ss)))"

definition redactWebhookURL :: "go_env \<Rightarrow> string \<Rightarrow> string \<times> bool" where
  "redactWebhookURL E raw =
     (case url_parse E raw of
        None \<Rightarrow> (let r = replace_tokens raw in (r, r \<noteq> raw))
      | Some u \<Rightarrow>
          let segments = split_on CHR ''/'' (trim_slashes (path u)) in
          case webhooks_index segments of
            None \<Rightarrow> (raw, False)
          | Some idx \<Rightarrow>
              if idx + 2 \<ge> length segments then (raw, False)
              else (url_string (u\<lparr>path := CHR ''/'' # str_join ''/'' (segments[idx + 2 := redacted])\<rparr>), True))"

datatype 'v attr_value = StringValue string | OtherValue 'v

definition span_attributes :: "go_env \<Rightarrow> (string \<times> 'v attr_value) list \<Rightarrow> (string \<times> 'v attr_value) list" where
  "span_attributes E attrs =
     map (\<lambda>(k, v). case v of
            OtherValue w \<Rightarrow> (k, v)
          | StringValue s \<Rightarrow> (case redactWebhookURL E s of (r, changed) \<Rightarrow> (k, if changed then StringValue r else v)))
       attrs"

definition ExportSpans :: "go_env \<Rightarrow> (string \<times> 'v attr_value) list list \<Rightarrow> (string \<times> 'v attr_value) list list" where
  "ExportSpans E spans = map (span_attributes E) spans"

section \<open>What is left of a webhook URL\<close>

text \<open>Characters that mean themselves anywhere in a URL, as those of webhook ids and tokens do.\<close>

definition plain_char :: "char \<Rightarrow> bool" where
  "plain_char c \<longleftrightarrow> is_letter c \<or> is_digit c \<or> c \<in> set ''-_.~''"

definition plain :: "string \<Rightarrow> bool" where
  "plain s \<longleftrightarrow> s \<noteq> [] \<and> (\<forall>c \<in> set s. plain_char c)"

lemma plain_char_not:
  assumes "plain_char c"
  shows "c \<notin> set ''%/?#@:*+''" "\<not> (of_char c :: int) < 32" "c \<noteq> CHR 0x7F"
  using assms by (auto simp: plain_char_def is_letter_def is_digit_def lower_ascii_def Let_def split: if_splits)

lemma plain_char_escape: "plain_char c \<Longrightarrow> \<not> should_escape m c"
  by (auto simp: plain_char_def should_escape_def)

lemma escape_id: "\<forall>c \<in> set s. \<not> should_escape m c \<Longrightarrow> escape m s = s"
  by (induction s) (auto simp: escape_def escape_char_def)

lemma unescape_id: "CHR ''%'' \<notin> set s \<Longrightarrow> m \<noteq> encodeQueryComponent \<Longrightarrow> unescape m s = Some s"
  by (induction s) auto

text \<open>A host of plain characters, maybe with a port.\<close>

definition host_text :: "string \<Rightarrow> bool" where
  "host_text h \<longleftrightarrow> h \<noteq> [] \<and> (\<forall>c \<in> set h. plain_char c \<or> c = CHR '':'')"

lemma host_text_char:
  assumes "host_text h" "c \<in> set h"
  shows "c \<notin> set ''%/?#@''" "\<not> (of_char c :: int) < 32" "c \<noteq> CHR 0x7F"
proof -
  have "plain_char c \<or> c = CHR '':''" using assms by (simp add: host_text_def)
  then have "c \<notin> set ''%/?#@'' \<and> \<not> (of_char c :: int) < 32 \<and> c \<noteq> CHR 0x7F"
  proof
    show "plain_char c \<Longrightarrow> ?thesis" using plain_char_not [of c] by simp
  qed simp
  then show "c \<notin> set ''%/?#@''" "\<not> (of_char c :: int) < 32" "c \<noteq> CHR 0x7F" by blast+
qed

definition query_part :: "string \<Rightarrow> string" where
  "query_part q = (if q = [] then [] else CHR ''?'' # q)"

text \<open>An https URL with such a host, a path of plain segments and maybe a query.\<close>

definition https_url :: "string \<Rightarrow> string list \<Rightarrow> string \<Rightarrow> string" where
  "https_url h segs q = ''https://'' @ h @ CHR ''/'' # str_join ''/'' segs @ query_part q"

definition query_ok :: "string \<Rightarrow> bool" where
  "query_ok q \<longleftrightarrow> (\<forall>c \<in> set q. c \<noteq> CHR ''#'' \<and> c \<noteq> CHR 0x7F \<and> \<not> (of_char c :: int) < 32)"

definition parsed_url :: "string \<Rightarrow> string list \<Rightarrow> string \<Rightarrow> url" where
  "parsed_url h segs q =
     empty_url\<lparr>scheme := ''https'', host := h, path := CHR ''/'' # str_join ''/'' segs, raw_query := q\<rparr>"

lemma set_join: "set (str_join ''/'' segs) \<subseteq> insert CHR ''/'' (\<Union> (set ` set segs))"
  by (induction segs rule: induct_list012) auto

lemma path_chars:
  assumes "\<forall>s \<in> set segs. plain s"
  shows "\<forall>c \<in> set (CHR ''/'' # str_join ''/'' segs). c = CHR ''/'' \<or> plain_char c"
  using set_join [of segs] assms by (auto simp: plain_def)

lemma escape_path:
  assumes "\<forall>s \<in> set segs. plain s"
  shows "escape encodePath (CHR ''/'' # str_join ''/'' segs) = CHR ''/'' # str_join ''/'' segs"
proof (intro escape_id ballI)
  fix c assume "c \<in> set (CHR ''/'' # str_join ''/'' segs)"
  then have "c = CHR ''/'' \<or> plain_char c" using path_chars [OF assms] by (rule bspec [rotated])
  moreover have "\<not> should_escape encodePath CHR ''/''" by code_simp
  ultimately show "\<not> should_escape encodePath c" using plain_char_escape [of c encodePath] by metis
qed

lemma unescape_path:
  assumes "\<forall>s \<in> set segs. plain s"
  shows "unescape encodePath (CHR ''/'' # str_join ''/'' segs) = Some (CHR ''/'' # str_join ''/'' segs)"
proof (rule unescape_id)
  show "CHR ''%'' \<notin> set (CHR ''/'' # str_join ''/'' segs)"
  proof
    assume "CHR ''%'' \<in> set (CHR ''/'' # str_join ''/'' segs)"
    then have "CHR ''%'' = CHR ''/'' \<or> plain_char CHR ''%''" using path_chars [OF assms] by (rule bspec [rotated])
    then show False using plain_char_not(1) [of "CHR ''%''"] by simp
  qed
qed simp

lemma split_query_part:
  assumes "CHR ''?'' \<notin> set p" "p \<noteq> []"
  shows "split_query (p @ query_part q) = (False, p, q)"
proof (cases "q = []")
  case True
  then show ?thesis using assms by (auto simp: split_query_def query_part_def cut_at_absent dest: last_in_set)
next
  case False
  then have "CHR ''?'' \<in> set (butlast (p @ CHR ''?'' # q))" by (simp add: butlast_append)
  then show ?thesis using False assms by (simp add: split_query_def query_part_def cut_at_append)
qed

lemma scheme_of_https: "get_scheme raw [] (''https:'' @ s) = Some (''https'', s)"
  by (simp add: is_letter_def lower_ascii_def Let_def is_digit_def)

lemma upto_sep:
  "x \<notin> set h \<Longrightarrow> takeWhile (\<lambda>c. c \<noteq> x) (h @ x # t) = h \<and> dropWhile (\<lambda>c. c \<noteq> x) (h @ x # t) = x # t"
  by (induction h) auto

lemma parse_https:
  assumes "host_text h" "\<forall>s \<in> set segs. plain s" "query_ok q" "env_parse_host E h = Some h"
  shows "url_parse E (https_url h segs q) = Some (parsed_url h segs q)"
proof -
  let ?path = "CHR ''/'' # str_join ''/'' segs"
  note pth = path_chars [OF assms(2)]
  have raw: "https_url h segs q = ''https:'' @ (''//'' @ h @ ?path) @ query_part q" by (simp add: https_url_def)
  have front: "c \<notin> set ''?#@%'' \<and> c \<noteq> CHR 0x7F \<and> \<not> (of_char c :: int) < 32"
    if "c \<in> set (''https:'' @ ''//'' @ h @ ?path)" for c
  proof -
    have "c \<in> set ''https:'' \<or> c \<in> set ''//'' \<or> c \<in> set h \<or> c \<in> set ?path"
      using that unfolding set_append by blast
    moreover have "c \<in> set h \<Longrightarrow> ?thesis" using host_text_char [OF assms(1), of c] by auto
    moreover have "c \<in> set ?path \<Longrightarrow> c = CHR ''/'' \<or> plain_char c" using pth by (rule bspec)
    moreover have "c \<in> set ''https:'' \<Longrightarrow> c \<in> set ''https:/''" "c \<in> set ''//'' \<Longrightarrow> c \<in> set ''https:/''"
      "c = CHR ''/'' \<Longrightarrow> c \<in> set ''https:/''" by auto
    moreover have "c \<in> set ''https:/'' \<or> plain_char c \<Longrightarrow> ?thesis" using plain_char_not [of c] by (elim disjE) auto
    ultimately show ?thesis by argo
  qed
  have tail: "c \<noteq> CHR ''#'' \<and> c \<noteq> CHR 0x7F \<and> \<not> (of_char c :: int) < 32" if "c \<in> set (query_part q)" for c
  proof -
    have "c = CHR ''?'' \<or> c \<in> set q" using that by (simp add: query_part_def split: if_splits)
    then show ?thesis
    proof
      show "c \<in> set q \<Longrightarrow> ?thesis" using assms(3) unfolding query_ok_def by (rule bspec)
    qed simp
  qed
  have all: "c \<noteq> CHR ''#'' \<and> c \<noteq> CHR 0x7F \<and> \<not> (of_char c :: int) < 32" if "c \<in> set (https_url h segs q)" for c
  proof -
    have "c \<in> set (''https:'' @ ''//'' @ h @ ?path) \<or> c \<in> set (query_part q)"
      using that unfolding raw by (simp only: set_append Un_iff disj_assoc)
    then show ?thesis
    proof
      assume "c \<in> set (''https:'' @ ''//'' @ h @ ?path)"
      then have "c \<notin> set ''?#@%'' \<and> c \<noteq> CHR 0x7F \<and> \<not> (of_char c :: int) < 32" by (rule front)
      then show ?thesis by simp
    qed (rule tail)
  qed
  have "url_parse E (https_url h segs q) = parse_no_fragment E False (https_url h segs q)"
    using all by (intro url_parse_no_hash) blast
  also have "\<dots> = parse_hier E False (''//'' @ h @ ?path) (empty_url\<lparr>scheme := ''https'', force_query := False, raw_query := q\<rparr>)"
  proof -
    have "\<not> (\<exists>c \<in> set (https_url h segs q). (of_char c :: int) < 32 \<or> c = CHR 0x7F)" using all by blast
    moreover have "https_url h segs q \<noteq> ''*''" unfolding raw by simp
    moreover have "get_scheme (https_url h segs q) [] (https_url h segs q) = Some (''https'', (''//'' @ h @ ?path) @ query_part q)"
      unfolding raw by (rule scheme_of_https)
    moreover have "split_query ((''//'' @ h @ ?path) @ query_part q) = (False, ''//'' @ h @ ?path, q)"
    proof (rule split_query_part)
      show "CHR ''?'' \<notin> set (''//'' @ h @ ?path)"
      proof
        assume "CHR ''?'' \<in> set (''//'' @ h @ ?path)"
        then have "CHR ''?'' \<in> set (''https:'' @ ''//'' @ h @ ?path)" unfolding set_append by (rule UnI2)
        from front [OF this] show False by simp
      qed
    qed simp
    moreover have "map lower_ascii ''https'' = ''https''" by code_simp
    ultimately show ?thesis unfolding parse_no_fragment_def by (simp only: if_False simp_thms option.case prod.case)
  qed
  also have "\<dots> = Some (parsed_url h segs q)"
  proof -
    have no: "CHR ''/'' \<notin> set h" "CHR ''@'' \<notin> set h" using host_text_char(1) [OF assms(1)] by fastforce+
    have tw: "takeWhile (\<lambda>c. c \<noteq> CHR ''/'') (h @ ?path) = h" "dropWhile (\<lambda>c. c \<noteq> CHR ''/'') (h @ ?path) = ?path"
      using upto_sep [OF no(1)] by simp_all
    have "parse_authority E h = Some (None, h)" using no(2) assms(4) by (simp add: parse_authority_def split_last_def)
    then show ?thesis
      using tw unescape_path [OF assms(2)] escape_path [OF assms(2)]
      by (simp add: parse_hier_def has_prefix_def set_path_def raw_hint_def parsed_url_def empty_url_def)
  qed
  finally show ?thesis .
qed

lemma string_https:
  assumes "host_text h" "\<forall>s \<in> set segs. plain s" "segs \<noteq> []"
  shows "url_string (parsed_url h segs q) = https_url h segs q"
proof -
  have "\<not> should_escape encodeHost CHR '':''" by code_simp
  then have "escape encodeHost h = h" using assms(1) plain_char_escape by (intro escape_id) (auto simp: host_text_def)
  moreover have "escape encodePath (CHR ''/'' # str_join ''/'' segs) = CHR ''/'' # str_join ''/'' segs"
    by (rule escape_path [OF assms(2)])
  ultimately show ?thesis
    by (simp add: url_string_def parsed_url_def empty_url_def hier_string_def authority_string_def escaped_path_def
        https_url_def query_part_def Let_def)
qed

lemma plain_no_slash: "plain s \<Longrightarrow> CHR ''/'' \<notin> set s"
  using plain_char_not(1) [of "CHR ''/''"] by (auto simp: plain_def)

lemma join_ends:
  assumes "segs \<noteq> []" "\<forall>s \<in> set segs. plain s"
  shows "str_join ''/'' segs \<noteq> []" "hd (str_join ''/'' segs) \<noteq> CHR ''/''" "last (str_join ''/'' segs) \<noteq> CHR ''/''"
proof -
  have ends: "hd s \<noteq> CHR ''/''" "last s \<noteq> CHR ''/''" if "plain s" for s
    using plain_no_slash [OF that] that hd_in_set [of s] last_in_set [of s] by (metis plain_def)+
  have "str_join ''/'' segs \<noteq> [] \<and> hd (str_join ''/'' segs) \<noteq> CHR ''/'' \<and> last (str_join ''/'' segs) \<noteq> CHR ''/''"
    using assms
  proof (induction segs rule: induct_list012)
    case (2 s)
    then show ?case using ends [of s] by (auto simp: plain_def)
  next
    case (3 s t segs)
    then have "str_join ''/'' (t # segs) \<noteq> []" "last (str_join ''/'' (t # segs)) \<noteq> CHR ''/''" "plain s" by auto
    then show ?case using ends [of s] by (auto simp: plain_def)
  qed simp
  then show "str_join ''/'' segs \<noteq> []" "hd (str_join ''/'' segs) \<noteq> CHR ''/''" "last (str_join ''/'' segs) \<noteq> CHR ''/''"
    by blast+
qed

lemma dropWhile_hd: "xs \<noteq> [] \<Longrightarrow> hd xs \<noteq> a \<Longrightarrow> dropWhile (\<lambda>c. c = a) xs = xs"
  by (cases xs) auto

lemma trim_path:
  assumes "segs \<noteq> []" "\<forall>s \<in> set segs. plain s"
  shows "trim_slashes (CHR ''/'' # str_join ''/'' segs) = str_join ''/'' segs"
  using join_ends [OF assms] by (simp add: trim_slashes_def dropWhile_hd hd_rev)

lemma webhooks_index_first:
  "''webhooks'' \<notin> set pre \<Longrightarrow> webhooks_index (pre @ ''webhooks'' # s # ss) = Some (length pre)"
proof (induction pre)
  case (Cons p pre)
  then show ?case by (cases pre) auto
qed simp

text \<open>The URL of a webhook request keeps everything but its token.\<close>

lemma webhook_url_redacted:
  assumes "host_text h" "env_parse_host E h = Some h" "query_ok q"
    and "\<forall>s \<in> set (pre @ ident # token # post). plain s" "''webhooks'' \<notin> set pre"
  shows "redactWebhookURL E (https_url h (pre @ ''webhooks'' # ident # token # post) q) =
    (https_url h (pre @ ''webhooks'' # ident # redacted # post) q, True)"
proof -
  let ?segs = "pre @ ''webhooks'' # ident # token # post"
  let ?new = "pre @ ''webhooks'' # ident # redacted # post"
  have "plain ''webhooks''" "plain redacted" by code_simp+
  then have segs: "\<forall>s \<in> set ?segs. plain s" and new: "\<forall>s \<in> set ?new. plain s" using assms(4) by simp_all
  have "split_on CHR ''/'' (str_join [CHR ''/''] ?segs) = ?segs"
    using segs plain_no_slash by (intro split_join) blast+
  then have split: "split_on CHR ''/'' (trim_slashes (path (parsed_url h ?segs q))) = ?segs"
    using trim_path [OF _ segs] by (simp add: parsed_url_def)
  have "?segs[length pre + 2 := redacted] = ?new" by (simp add: list_update_append numeral_2_eq_2)
  moreover have "(parsed_url h ?segs q)\<lparr>path := CHR ''/'' # str_join ''/'' ?new\<rparr> = parsed_url h ?new q"
    by (simp add: parsed_url_def)
  moreover have "\<not> length pre + 2 \<ge> length ?segs" by simp
  ultimately show ?thesis
    using parse_https [OF assms(1) segs assms(3,2)] string_https [OF assms(1) new] webhooks_index_first [OF assms(5)] split
    unfolding redactWebhookURL_def Let_def by (simp del: str_join.simps)
qed

text \<open>A text that is no URL is redacted where the expression matches, up to the end of the token.\<close>

lemma fallback_redacts:
  assumes "\<forall>i < length front. webhook_match (drop i (front @ ''/webhooks/'' @ ident @ ''/'' @ token @ rest)) = None"
    and "ident \<noteq> []" "\<forall>c \<in> set ident. in_segment c" "token \<noteq> []" "\<forall>c \<in> set token. in_segment c"
    and "rest = [] \<or> \<not> in_segment (hd rest)"
  shows "replace_tokens (front @ ''/webhooks/'' @ ident @ ''/'' @ token @ rest) =
    front @ ''/webhooks/'' @ ident @ ''/'' @ redacted @ replace_tokens rest"
  using assms(1)
proof (induction front)
  case Nil
  have "takeWhile in_segment (token @ rest) = token" "dropWhile in_segment (token @ rest) = rest"
    using assms(5,6) by (auto simp: takeWhile_append dropWhile_append dropWhile_eq_Nil_conv) (cases rest; simp)+
  moreover have "takeWhile in_segment (ident @ ''/'' @ token @ rest) = ident"
    "dropWhile in_segment (ident @ ''/'' @ token @ rest) = ''/'' @ token @ rest"
    using assms(3) by (auto simp: takeWhile_append dropWhile_append in_segment_def)
  ultimately have "webhook_match (''/webhooks/'' @ ident @ ''/'' @ token @ rest) = Some (''/webhooks/'' @ ident @ ''/'', rest)"
    using assms(2,4) by (simp add: webhook_match_def Let_def has_prefix_def)
  then show ?case using replace_tokens.simps [of "''/webhooks/'' @ ident @ ''/'' @ token @ rest"] by simp
next
  case (Cons c front)
  have "webhook_match ((c # front) @ ''/webhooks/'' @ ident @ ''/'' @ token @ rest) = None"
    using Cons.prems by force
  moreover have "\<forall>i < length front. webhook_match (drop i (front @ ''/webhooks/'' @ ident @ ''/'' @ token @ rest)) = None"
    using Cons.prems by force
  ultimately show ?case
    using Cons.IH replace_tokens.simps [of "(c # front) @ ''/webhooks/'' @ ident @ ''/'' @ token @ rest"] by simp
qed

lemma no_match_unchanged:
  "\<forall>i < length s. \<not> has_prefix (drop i s) ''/webhooks/'' \<Longrightarrow> replace_tokens s = s"
proof (induction s)
  case (Cons c s)
  have "\<not> has_prefix (c # s) ''/webhooks/''" using Cons.prems by force
  moreover have "\<forall>i < length s. \<not> has_prefix (drop i s) ''/webhooks/''" using Cons.prems by force
  ultimately show ?case using Cons.IH replace_tokens.simps [of "c # s"] by (simp add: webhook_match_def)
qed (simp add: replace_tokens.simps)

lemma webhooks_index_absent: "''webhooks'' \<notin> set segs \<Longrightarrow> webhooks_index segs = None"
  by (induction segs rule: webhooks_index.induct) auto

section \<open>What is exported\<close>

text \<open>A text with a webhook token, and the same text with the token replaced: the URL of a webhook
  request, with nothing but plain segments in its path and the first \<open>webhooks\<close> among them
  before the id; or a text that is no URL, up to its first match of the expression, which the
  token ends.  The second text is built without the token.\<close>

inductive token_text :: "go_env \<Rightarrow> string \<Rightarrow> string \<Rightarrow> bool" for E where
  request_url: "host_text h \<Longrightarrow> env_parse_host E h = Some h \<Longrightarrow> query_ok q
     \<Longrightarrow> \<forall>s \<in> set (pre @ ident # token # post). plain s \<Longrightarrow> ''webhooks'' \<notin> set pre
     \<Longrightarrow> token_text E (https_url h (pre @ ''webhooks'' # ident # token # post) q)
           (https_url h (pre @ ''webhooks'' # ident # redacted # post) q)"
| no_url: "raw = front @ ''/webhooks/'' @ ident @ ''/'' @ token @ rest \<Longrightarrow> url_parse E raw = None
     \<Longrightarrow> \<forall>i < length front. webhook_match (drop i raw) = None
     \<Longrightarrow> ident \<noteq> [] \<Longrightarrow> \<forall>c \<in> set ident. in_segment c
     \<Longrightarrow> token \<noteq> [] \<Longrightarrow> \<forall>c \<in> set token. in_segment c \<Longrightarrow> rest = [] \<or> \<not> in_segment (hd rest)
     \<Longrightarrow> token_text E raw (front @ ''/webhooks/'' @ ident @ ''/'' @ redacted @ replace_tokens rest)"

text \<open>A text that does not speak of webhooks: a URL without a path segment \<open>webhooks\<close>, or a text that is no URL
  and has no \<open>/webhooks/\<close> in it.\<close>

definition unrelated_text :: "go_env \<Rightarrow> string \<Rightarrow> bool" where
  "unrelated_text E s \<longleftrightarrow>
     (case url_parse E s of
        None \<Rightarrow> \<forall>i < length s. \<not> has_prefix (drop i s) ''/webhooks/''
      | Some u \<Rightarrow> ''webhooks'' \<notin> set (split_on CHR ''/'' (trim_slashes (path u))))"

lemma token_text_redacted: "token_text E raw shown \<Longrightarrow> fst (redactWebhookURL E raw) = shown"
proof (induction rule: token_text.induct)
  case (request_url h q pre ident token post)
  show ?case unfolding webhook_url_redacted [OF request_url] by simp
next
  case (no_url raw front ident token rest)
  then show ?case using fallback_redacts [of front ident token rest] by (simp add: redactWebhookURL_def Let_def)
qed

lemma redact_unchanged: "\<not> snd (redactWebhookURL E s) \<Longrightarrow> fst (redactWebhookURL E s) = s"
  by (auto simp: redactWebhookURL_def Let_def split: option.splits if_splits)

lemma unrelated_text_unchanged: "unrelated_text E s \<Longrightarrow> \<not> snd (redactWebhookURL E s)"
  by (auto simp: unrelated_text_def redactWebhookURL_def Let_def no_match_unchanged webhooks_index_absent split: option.splits)

text \<open>An attribute of a span, and what is exported of it.\<close>

definition exported_as :: "go_env \<Rightarrow> string \<times> 'v attr_value \<Rightarrow> string \<times> 'v attr_value \<Rightarrow> bool" where
  "exported_as E attr attr' \<longleftrightarrow> fst attr' = fst attr \<and>
     (case snd attr of
        OtherValue w \<Rightarrow> snd attr' = OtherValue w
      | StringValue s \<Rightarrow> snd attr' = StringValue s \<and> unrelated_text E s \<or>
          (\<exists>shown. snd attr' = StringValue shown \<and> token_text E s shown))"

lemma string_exported:
  "span_attributes E [(k, StringValue s)] = [(k, StringValue (fst (redactWebhookURL E s)))]"
  using redact_unchanged [of E s] by (simp add: span_attributes_def case_prod_beta)

lemma attribute_exported:
  assumes "exported_as E (k, v) attr'"
  shows "span_attributes E [(k, v)] = [attr']"
proof (cases v)
  case (StringValue s)
  then have "snd attr' = StringValue (fst (redactWebhookURL E s))"
    using assms token_text_redacted redact_unchanged [OF unrelated_text_unchanged] by (auto simp: exported_as_def)
  then show ?thesis using assms StringValue by (simp add: string_exported exported_as_def prod_eq_iff)
next
  case (OtherValue w)
  then show ?thesis using assms by (simp add: span_attributes_def exported_as_def prod_eq_iff)
qed

lemma attributes_exported:
  "list_all2 (exported_as E) attrs shown \<Longrightarrow> span_attributes E attrs = shown"
proof (induction rule: list_all2_induct)
  case (Cons attr attrs attr' shown)
  have "span_attributes E (attr # attrs) = span_attributes E [attr] @ span_attributes E attrs"
    by (simp add: span_attributes_def)
  then show ?case using Cons attribute_exported [of E "fst attr" "snd attr" attr'] by simp
qed (simp add: span_attributes_def)

text \<open>C40: The export of spans replaces the tokens of webhook requests.  Whatever spans are
  exported, if each of their attributes is a value that is no string, a text that does not speak of
  webhooks, or a text with a webhook token (\<open>token_text\<close>: the URL of a request, under any attribute
  key, or a text that is no URL), then what is exported is the same spans with the same keys and
  values in the same order, except that each such text has its token replaced.  The exported spans
  are a function of the texts without their tokens, so two requests that differ only in the token
  export the same.  URLs whose path has an empty segment or an earlier segment \<open>webhooks\<close> are not
  covered: \<open>empty_segment_keeps_token\<close> shows one whose token stays.\<close>

theorem webhook_token_redacted:
  assumes "list_all2 (list_all2 (exported_as E)) spans shown"
  shows "ExportSpans E spans = shown"
  using assms by (induction rule: list_all2_induct) (simp_all add: ExportSpans_def attributes_exported)

definition request_span :: "string \<Rightarrow> (string \<times> int attr_value) list" where
  "request_span token =
     [(''url.full'', StringValue (''https://discord.com:443/api/webhooks/1/'' @ token @ ''?thread_id=2'')),
      (''http.request.method'', StringValue ''POST''), (''http.response.status_code'', OtherValue 204),
      (''error'', StringValue (''Post \"https://discord.com/api/webhooks/1/'' @ token))]"

lemma webhook_token_redacted_witness:
  "ExportSpans plain_env [request_span ''secret''] = [request_span ''REDACTED'']"
proof (rule webhook_token_redacted)
  have "host_text ''discord.com:443''" "\<forall>s \<in> set ([''api''] @ ''1'' # ''secret'' # []). plain s" "query_ok ''thread_id=2''"
    "env_parse_host plain_env ''discord.com:443'' = Some ''discord.com:443''" "''webhooks'' \<notin> set [''api'']" by code_simp+
  from token_text.request_url [OF this(1,4,3,2,5)]
  have "token_text plain_env (https_url ''discord.com:443'' ([''api''] @ ''webhooks'' # ''1'' # ''secret'' # []) ''thread_id=2'')
    (https_url ''discord.com:443'' ([''api''] @ ''webhooks'' # ''1'' # redacted # []) ''thread_id=2'')" .
  moreover have "https_url ''discord.com:443'' ([''api''] @ ''webhooks'' # ''1'' # ''secret'' # []) ''thread_id=2'' =
      ''https://discord.com:443/api/webhooks/1/'' @ ''secret'' @ ''?thread_id=2''"
    "https_url ''discord.com:443'' ([''api''] @ ''webhooks'' # ''1'' # redacted # []) ''thread_id=2'' =
      ''https://discord.com:443/api/webhooks/1/'' @ ''REDACTED'' @ ''?thread_id=2''" by code_simp+
  ultimately have url: "token_text plain_env (''https://discord.com:443/api/webhooks/1/'' @ ''secret'' @ ''?thread_id=2'')
      (''https://discord.com:443/api/webhooks/1/'' @ ''REDACTED'' @ ''?thread_id=2'')" by (simp only:)
  let ?front = "''Post \"https://discord.com/api''"
  let ?raw = "''Post \"https://discord.com/api/webhooks/1/'' @ ''secret''"
  have split: "?raw = ?front @ ''/webhooks/'' @ ''1'' @ ''/'' @ ''secret'' @ []"
    "?front @ ''/webhooks/'' @ ''1'' @ ''/'' @ redacted @ replace_tokens [] = ''Post \"https://discord.com/api/webhooks/1/'' @ ''REDACTED''"
    by code_simp+
  have "url_parse plain_env ?raw = None" "\<forall>i < length ?front. webhook_match (drop i ?raw) = None"
    "''1'' \<noteq> []" "\<forall>c \<in> set ''1''. in_segment c" "''secret'' \<noteq> []" "\<forall>c \<in> set ''secret''. in_segment c"
    by code_simp+
  from token_text.no_url [OF split(1) this disjI1 [OF refl]]
  have err: "token_text plain_env ?raw (''Post \"https://discord.com/api/webhooks/1/'' @ ''REDACTED'')" unfolding split(2) .
  have "unrelated_text plain_env ''POST''" by code_simp
  with url err show "list_all2 (list_all2 (exported_as plain_env)) [request_span ''secret''] [request_span ''REDACTED'']"
    unfolding request_span_def by (simp only: list_all2_Cons list.rel_inject list_all2_Nil exported_as_def)
      (simp only: fst_conv snd_conv attr_value.case attr_value.inject simp_thms ex_simps)
qed

text \<open>An empty segment is counted like any other: after a doubled slash the id is replaced and the
  token stays.\<close>

lemma empty_segment_keeps_token:
  "redactWebhookURL plain_env ''https://discord.com/api/webhooks//1/secret'' =
     (''https://discord.com/api/webhooks//REDACTED/secret'', True)"
  by code_simp

end
