(* ===== verification/Status_Apply.thy ===== *)
theory Status_Apply
  imports Group_Status Discord_Payload
begin

text \<open>
  How a status is written (\<^verbatim>\<open>applyStatus\<close> and \<^verbatim>\<open>statusApplyConfiguration\<close> of
  \<^verbatim>\<open>internal/controller/status_store.go\<close>): the typed status becomes its generated apply
  configuration (\<^verbatim>\<open>api/v1alpha1/applyconfiguration\<close>) by a round trip through JSON, which the
  Kubernetes API applies for this field owner.

  A JSON text is its tree here; a string goes through it as \<open>read_json_string\<close> of
  \<open>Discord_Payload\<close> says.  The conditions are types of apimachinery and client-go, so that their
  two codecs are parameters, as is the text of a decoding error.
\<close>

section \<open>JSON trees\<close>

datatype json = JString string | JNumber int | JBool bool | JArray "json list" | JObject "(string \<times> json) list"

definition json_text :: "string \<Rightarrow> string" where
  "json_text s = of_runes (runes s)"

text \<open>The members of a struct: \<open>None\<close> for one that \<^verbatim>\<open>omitempty\<close> leaves out.\<close>

definition json_members :: "(string \<times> json option) list \<Rightarrow> (string \<times> json) list" where
  "json_members l = List.map_filter (\<lambda>(k, v). map_option (Pair k) v) l"

definition unless_zero :: "bool \<Rightarrow> json \<Rightarrow> json option" where
  "unless_zero zero j = (if zero then None else Some j)"

definition write_text :: "string \<Rightarrow> json option" where
  "write_text s = unless_zero (s = []) (JString (json_text s))"

definition write_number :: "int \<Rightarrow> json option" where
  "write_number n = unless_zero (n = 0) (JNumber n)"

definition write_map :: "(string \<times> string) list \<Rightarrow> json option" where
  "write_map m = unless_zero (m = [])
     (JObject (map (\<lambda>(k, v). (json_text k, JString (json_text v))) (sort_key fst m)))"

record 'c json_codec =
  jc_write :: "condition \<Rightarrow> json"
  jc_read :: "json \<Rightarrow> go_error + 'c"
  jc_type_error :: "json \<Rightarrow> go_error"

definition write_conditions :: "'c json_codec \<Rightarrow> condition list \<Rightarrow> json option" where
  "write_conditions L cs = unless_zero (cs = []) (JArray (map (jc_write L) cs))"

section \<open>Writing a status\<close>

definition marshal_feed_status :: "'c json_codec \<Rightarrow> feed_status \<Rightarrow> json" where
  "marshal_feed_status L fs = JObject (json_members
     [(''conditions'', write_conditions L (conditions fs)),
      (''rssUrl'', Some (JString (json_text (fs_url fs)))),
      (''lastChecked'', write_text (last_checked fs)),
      (''initialized'', unless_zero (\<not> initialized fs) (JBool (initialized fs))),
      (''stateVersion'', write_number (state_version fs)),
      (''lastSeenEntry'', write_text (last_seen_entry fs)),
      (''lastSent'', write_map (last_sent fs)),
      (''lastError'', write_text (last_error fs)),
      (''etag'', write_text (etag fs)),
      (''lastModified'', write_text (last_modified fs)),
      (''retryCount'', write_number (retry_count fs)),
      (''backoffUntil'', write_text (backoff_until fs))])"

definition marshal_status :: "'c json_codec \<Rightarrow> feed_group_status \<Rightarrow> json" where
  "marshal_status L s = JObject (json_members
     [(''conditions'', write_conditions L (gs_conditions s)),
      (''feeds'', unless_zero (gs_feeds s = []) (JArray (map (marshal_feed_status L) (gs_feeds s)))),
      (''observedGeneration'', write_number (observed_generation s)),
      (''webhookSecretResourceVersion'', write_text (webhook_secret_version s))])"

section \<open>Reading an apply configuration\<close>

text \<open>A pointer field is an option; a nil slice or map is empty.\<close>

record 'c feed_status_config =
  fc_conditions :: "'c list"
  fc_url :: "string option"
  fc_last_checked :: "string option"
  fc_initialized :: "bool option"
  fc_state_version :: "int option"
  fc_last_seen_entry :: "string option"
  fc_last_sent :: "(string \<times> string) list"
  fc_last_error :: "string option"
  fc_etag :: "string option"
  fc_last_modified :: "string option"
  fc_retry_count :: "int option"
  fc_backoff_until :: "string option"

record 'c group_status_config =
  gc_conditions :: "'c list"
  gc_feeds :: "'c feed_status_config list"
  gc_observed_generation :: "int option"
  gc_webhook_secret_version :: "string option"

definition and_then :: "go_error + 'a \<Rightarrow> ('a \<Rightarrow> go_error + 'b) \<Rightarrow> go_error + 'b" where
  "and_then r f = (case r of Inl e \<Rightarrow> Inl e | Inr x \<Rightarrow> f x)"

fun read_all :: "('a \<Rightarrow> go_error + 'b) \<Rightarrow> 'a list \<Rightarrow> go_error + 'b list" where
  "read_all rd [] = Inr []"
| "read_all rd (x # xs) = and_then (rd x) (\<lambda>y. and_then (read_all rd xs) (\<lambda>ys. Inr (y # ys)))"

text \<open>One reader per kind of field; a number must fit its type.\<close>

definition read_text :: "'c json_codec \<Rightarrow> json \<Rightarrow> go_error + string" where
  "read_text L j = (case j of JString s \<Rightarrow> Inr s | _ \<Rightarrow> Inl (jc_type_error L j))"

definition read_flag :: "'c json_codec \<Rightarrow> json \<Rightarrow> go_error + bool" where
  "read_flag L j = (case j of JBool b \<Rightarrow> Inr b | _ \<Rightarrow> Inl (jc_type_error L j))"

definition fits :: "nat \<Rightarrow> int \<Rightarrow> bool" where
  "fits w n \<longleftrightarrow> - (2 ^ (w - 1)) \<le> n \<and> n < 2 ^ (w - 1)"

definition read_number :: "'c json_codec \<Rightarrow> nat \<Rightarrow> json \<Rightarrow> go_error + int" where
  "read_number L w j =
     (case j of JNumber n \<Rightarrow> if fits w n then Inr n else Inl (jc_type_error L j) | _ \<Rightarrow> Inl (jc_type_error L j))"

definition read_list :: "'c json_codec \<Rightarrow> (json \<Rightarrow> go_error + 'a) \<Rightarrow> json \<Rightarrow> go_error + 'a list" where
  "read_list L rd j = (case j of JArray js \<Rightarrow> read_all rd js | _ \<Rightarrow> Inl (jc_type_error L j))"

definition read_map :: "'c json_codec \<Rightarrow> json \<Rightarrow> go_error + (string \<times> string) list" where
  "read_map L j =
     (case j of
        JObject ms \<Rightarrow> and_then (read_all (\<lambda>(k, v). and_then (read_text L v) (\<lambda>s. Inr (k, s))) ms)
          (\<lambda>kvs. Inr (fold (\<lambda>(k, v). AList.update k v) kvs []))
      | _ \<Rightarrow> Inl (jc_type_error L j))"

text \<open>A field is the last member with its key.\<close>

definition json_field :: "(json \<Rightarrow> go_error + 'a) \<Rightarrow> string \<Rightarrow> (string \<times> json) list \<Rightarrow> go_error + 'a option" where
  "json_field rd k ms = (case map_of (rev ms) k of None \<Rightarrow> Inr None | Some j \<Rightarrow> and_then (rd j) (\<lambda>x. Inr (Some x)))"

definition or_nil :: "'a list option \<Rightarrow> 'a list" where
  "or_nil v = (case v of None \<Rightarrow> [] | Some xs \<Rightarrow> xs)"

definition unmarshal_feed_status :: "'c json_codec \<Rightarrow> json \<Rightarrow> go_error + 'c feed_status_config" where
  "unmarshal_feed_status L j =
     (case j of
        JObject ms \<Rightarrow>
          (let txt = (\<lambda>k. json_field (read_text L) k ms) in
           and_then (json_field (read_list L (jc_read L)) ''conditions'' ms) (\<lambda>cs.
           and_then (txt ''rssUrl'') (\<lambda>url.
           and_then (txt ''lastChecked'') (\<lambda>checked.
           and_then (json_field (read_flag L) ''initialized'' ms) (\<lambda>init.
           and_then (json_field (read_number L 32) ''stateVersion'' ms) (\<lambda>version.
           and_then (txt ''lastSeenEntry'') (\<lambda>seen.
           and_then (json_field (read_map L) ''lastSent'' ms) (\<lambda>sent.
           and_then (txt ''lastError'') (\<lambda>lastErr.
           and_then (txt ''etag'') (\<lambda>et.
           and_then (txt ''lastModified'') (\<lambda>modified.
           and_then (json_field (read_number L 32) ''retryCount'' ms) (\<lambda>retries.
           and_then (txt ''backoffUntil'') (\<lambda>until.
             Inr \<lparr>fc_conditions = or_nil cs, fc_url = url, fc_last_checked = checked, fc_initialized = init,
                  fc_state_version = version, fc_last_seen_entry = seen, fc_last_sent = or_nil sent,
                  fc_last_error = lastErr, fc_etag = et, fc_last_modified = modified, fc_retry_count = retries,
                  fc_backoff_until = until\<rparr>)))))))))))))
      | _ \<Rightarrow> Inl (jc_type_error L j))"

definition unmarshal_status :: "'c json_codec \<Rightarrow> json \<Rightarrow> go_error + 'c group_status_config" where
  "unmarshal_status L j =
     (case j of
        JObject ms \<Rightarrow>
          and_then (json_field (read_list L (jc_read L)) ''conditions'' ms) (\<lambda>cs.
          and_then (json_field (read_list L (unmarshal_feed_status L)) ''feeds'' ms) (\<lambda>feeds.
          and_then (json_field (read_number L 64) ''observedGeneration'' ms) (\<lambda>gen.
          and_then (json_field (read_text L) ''webhookSecretResourceVersion'' ms) (\<lambda>version.
            Inr \<lparr>gc_conditions = or_nil cs, gc_feeds = or_nil feeds, gc_observed_generation = gen,
                 gc_webhook_secret_version = version\<rparr>))))
      | _ \<Rightarrow> Inl (jc_type_error L j))"

definition conversion_error :: "go_error \<Rightarrow> go_error" where
  "conversion_error e = WrapError (''converting FeedGroup status to an apply configuration: '' @ err_text e) e"

definition statusApplyConfiguration :: "'c json_codec \<Rightarrow> feed_group_status \<Rightarrow> go_error + 'c group_status_config" where
  "statusApplyConfiguration L s = map_sum conversion_error id (unmarshal_status L (marshal_status L s))"

section \<open>Applying it\<close>

definition statusFieldOwner :: string where "statusFieldOwner = ''feedgroup-controller''"

record 'c apply_request =
  ar_name :: string
  ar_namespace :: string
  ar_status :: "'c group_status_config"
  ar_field_owner :: string
  ar_force :: bool

definition applyStatus :: "'c json_codec \<Rightarrow> ('c apply_request \<Rightarrow> 's \<Rightarrow> go_error option \<times> 's) \<Rightarrow> feed_group \<Rightarrow> 's \<Rightarrow> go_error option \<times> 's" where
  "applyStatus L apply_api g w =
     (case statusApplyConfiguration L (fg_status g) of
        Inl err \<Rightarrow> (Some err, w)
      | Inr status \<Rightarrow> apply_api \<lparr>ar_name = fg_name g, ar_namespace = fg_namespace g, ar_status = status,
          ar_field_owner = statusFieldOwner, ar_force = True\<rparr> w)"

section \<open>What is written is what was computed\<close>

subsection \<open>Members\<close>

lemma json_members_Cons:
  "json_members ((k, v) # l) = (case v of None \<Rightarrow> [] | Some j \<Rightarrow> [(k, j)]) @ json_members l"
  by (simp add: json_members_def List.map_filter_def split: option.split)

lemma members_keys: "k \<notin> fst ` set l \<Longrightarrow> k \<notin> fst ` set (json_members l)"
proof (induction l)
  case (Cons kv l)
  then show ?case by (cases kv) (auto simp: json_members_Cons split: option.splits)
qed (simp add: json_members_def List.map_filter_def)

lemma lookup_members:
  "distinct (map fst l) \<Longrightarrow> map_of l k = Some v \<Longrightarrow> map_of (rev (json_members l)) k = v"
proof (induction l)
  case (Cons kv l)
  obtain k' v' where kv: "kv = (k', v')" by force
  show ?case
  proof (cases "k' = k")
    case True
    then have "map_of (rev (json_members l)) k = None"
      using Cons.prems(1) members_keys [of k l] kv by (simp add: map_of_eq_None_iff rev_map)
    then show ?thesis using Cons.prems(2) True kv by (auto simp: json_members_Cons map_add_def split: option.splits)
  next
    case False
    then show ?thesis using Cons kv by (auto simp: json_members_Cons map_add_def split: option.splits)
  qed
qed simp

definition read_back :: "(json \<Rightarrow> go_error + 'a) \<Rightarrow> json option \<Rightarrow> go_error + 'a option" where
  "read_back rd v = (case v of None \<Rightarrow> Inr None | Some j \<Rightarrow> and_then (rd j) (\<lambda>x. Inr (Some x)))"

lemma field_of_members:
  "distinct (map fst l) \<Longrightarrow> map_of l k = Some v \<Longrightarrow> json_field rd k (json_members l) = read_back rd v"
  by (simp add: json_field_def read_back_def lookup_members)

subsection \<open>Each kind of field\<close>

definition nonzero :: "bool \<Rightarrow> 'a \<Rightarrow> 'a option" where
  "nonzero zero x = (if zero then None else Some x)"

lemma and_then_simps [simp]: "and_then (Inr x) f = f x" "and_then (Inl e) f = Inl e"
  by (simp_all add: and_then_def)

lemma read_all_Inr: "(\<And>x. x \<in> set xs \<Longrightarrow> rd (w x) = Inr (f x)) \<Longrightarrow> read_all rd (map w xs) = Inr (map f xs)"
  by (induction xs) simp_all

definition stored_map :: "(string \<times> string) list \<Rightarrow> (string \<times> string) list" where
  "stored_map m = fold (\<lambda>(k, v). AList.update k v) (map (\<lambda>(k, v). (json_text k, json_text v)) (sort_key fst m)) []"

lemma read_back_text: "read_back (read_text L) (write_text s) = Inr (nonzero (s = []) (json_text s))"
  by (simp add: read_back_def write_text_def unless_zero_def nonzero_def read_text_def)

lemma read_back_number: "fits w n \<Longrightarrow> read_back (read_number L w) (write_number n) = Inr (nonzero (n = 0) n)"
  by (simp add: read_back_def write_number_def unless_zero_def nonzero_def read_number_def)

lemma read_back_flag: "read_back (read_flag L) (unless_zero (\<not> b) (JBool b)) = Inr (nonzero (\<not> b) b)"
  by (simp add: read_back_def unless_zero_def nonzero_def read_flag_def)

lemma read_back_map: "read_back (read_map L) (write_map m) = Inr (nonzero (m = []) (stored_map m))"
proof -
  have "read_all (\<lambda>(k, v). and_then (read_text L v) (\<lambda>s. Inr (k, s)))
      (map (\<lambda>(k, v). (json_text k, JString (json_text v))) (sort_key fst m)) =
      Inr (map (\<lambda>(k, v). (json_text k, json_text v)) (sort_key fst m))"
    by (rule read_all_Inr) (auto simp: read_text_def)
  then show ?thesis by (simp add: read_back_def write_map_def unless_zero_def nonzero_def read_map_def stored_map_def)
qed

lemma read_back_list:
  assumes "\<And>x. x \<in> set xs \<Longrightarrow> rd (w x) = Inr (f x)"
  shows "read_back (read_list L rd) (unless_zero (xs = []) (JArray (map w xs))) = Inr (nonzero (xs = []) (map f xs))"
  using read_all_Inr [of xs rd w f, OF assms] by (simp add: read_back_def unless_zero_def nonzero_def read_list_def)

lemma or_nil_nonzero [simp]: "or_nil (nonzero (xs = []) (map f xs)) = map f xs" "or_nil (nonzero (m = []) (stored_map m)) = stored_map m"
  by (simp_all add: or_nil_def nonzero_def stored_map_def)

lemma read_back_present: "read_back (read_text L) (Some (JString s)) = Inr (Some s)"
  by (simp add: read_back_def read_text_def)

lemmas read_backs = read_back_text read_back_number read_back_flag read_back_map read_back_present

subsection \<open>The configuration of a status\<close>

definition feed_config :: "(condition \<Rightarrow> 'c) \<Rightarrow> feed_status \<Rightarrow> 'c feed_status_config" where
  "feed_config conv fs =
     (let txt = (\<lambda>s. nonzero (s = []) (json_text s)); num = (\<lambda>n. nonzero (n = 0) n) in
      \<lparr>fc_conditions = map conv (conditions fs), fc_url = Some (json_text (fs_url fs)),
       fc_last_checked = txt (last_checked fs), fc_initialized = nonzero (\<not> initialized fs) (initialized fs),
       fc_state_version = num (state_version fs), fc_last_seen_entry = txt (last_seen_entry fs),
       fc_last_sent = stored_map (last_sent fs), fc_last_error = txt (last_error fs), fc_etag = txt (etag fs),
       fc_last_modified = txt (last_modified fs), fc_retry_count = num (retry_count fs),
       fc_backoff_until = txt (backoff_until fs)\<rparr>)"

lemma feed_converted:
  assumes "\<And>c. jc_read L (jc_write L c) = Inr (conv c)" "fits 32 (state_version fs)" "fits 32 (retry_count fs)"
  shows "unmarshal_feed_status L (marshal_feed_status L fs) = Inr (feed_config conv fs)"
proof -
  have "read_back (read_list L (jc_read L)) (write_conditions L (conditions fs)) =
      Inr (nonzero (conditions fs = []) (map conv (conditions fs)))"
    unfolding write_conditions_def by (rule read_back_list) (simp add: assms(1))
  then show ?thesis
    using assms(2,3) by (simp add: unmarshal_feed_status_def marshal_feed_status_def field_of_members read_backs feed_config_def Let_def)
qed

definition status_fits :: "feed_group_status \<Rightarrow> bool" where
  "status_fits s \<longleftrightarrow> fits 64 (observed_generation s) \<and>
     list_all (\<lambda>fs. fits 32 (state_version fs) \<and> fits 32 (retry_count fs)) (gs_feeds s)"

lemma status_converted:
  assumes "\<And>c. jc_read L (jc_write L c) = Inr (conv c)" "status_fits s"
  shows "statusApplyConfiguration L s = Inr
    \<lparr>gc_conditions = map conv (gs_conditions s), gc_feeds = map (feed_config conv) (gs_feeds s),
     gc_observed_generation = nonzero (observed_generation s = 0) (observed_generation s),
     gc_webhook_secret_version = nonzero (webhook_secret_version s = []) (json_text (webhook_secret_version s))\<rparr>"
proof -
  have "read_back (read_list L (jc_read L)) (write_conditions L (gs_conditions s)) =
      Inr (nonzero (gs_conditions s = []) (map conv (gs_conditions s)))"
    unfolding write_conditions_def by (rule read_back_list) (simp add: assms(1))
  moreover have "read_back (read_list L (unmarshal_feed_status L))
      (unless_zero (gs_feeds s = []) (JArray (map (marshal_feed_status L) (gs_feeds s)))) =
      Inr (nonzero (gs_feeds s = []) (map (feed_config conv) (gs_feeds s)))"
    by (rule read_back_list) (use assms in \<open>auto simp: status_fits_def list_all_iff intro!: feed_converted\<close>)
  ultimately show ?thesis
    using assms(2) by (simp add: statusApplyConfiguration_def unmarshal_status_def marshal_status_def field_of_members
        read_backs status_fits_def)
qed

subsection \<open>The round trip\<close>

text \<open>The status a configuration declares when this owner is the only one: a field it leaves out has
  its zero value.\<close>

definition or_zero :: "'a \<Rightarrow> 'a option \<Rightarrow> 'a" where
  "or_zero z v = (case v of None \<Rightarrow> z | Some x \<Rightarrow> x)"

definition declared_feed :: "('c \<Rightarrow> condition) \<Rightarrow> 'c feed_status_config \<Rightarrow> feed_status" where
  "declared_feed dec c =
     \<lparr>conditions = map dec (fc_conditions c), fs_url = or_zero [] (fc_url c), last_checked = or_zero [] (fc_last_checked c),
      initialized = or_zero False (fc_initialized c), state_version = or_zero 0 (fc_state_version c),
      last_seen_entry = or_zero [] (fc_last_seen_entry c), last_sent = fc_last_sent c, last_error = or_zero [] (fc_last_error c),
      etag = or_zero [] (fc_etag c), last_modified = or_zero [] (fc_last_modified c),
      retry_count = or_zero 0 (fc_retry_count c), backoff_until = or_zero [] (fc_backoff_until c)\<rparr>"

definition declared :: "('c \<Rightarrow> condition) \<Rightarrow> 'c group_status_config \<Rightarrow> feed_group_status" where
  "declared dec c =
     \<lparr>gs_conditions = map dec (gc_conditions c), gs_feeds = map (declared_feed dec) (gc_feeds c),
      observed_generation = or_zero 0 (gc_observed_generation c),
      webhook_secret_version = or_zero [] (gc_webhook_secret_version c)\<rparr>"

text \<open>No field is declared with its zero value but a feed's URL, which is the key of the list.\<close>

definition lean_feed :: "'c feed_status_config \<Rightarrow> bool" where
  "lean_feed c \<longleftrightarrow> fc_url c \<noteq> None \<and> fc_initialized c \<noteq> Some False \<and>
     Some 0 \<notin> {fc_state_version c, fc_retry_count c} \<and>
     Some [] \<notin> {fc_last_checked c, fc_last_seen_entry c, fc_last_error c, fc_etag c, fc_last_modified c, fc_backoff_until c}"

definition lean :: "'c group_status_config \<Rightarrow> bool" where
  "lean c \<longleftrightarrow> gc_observed_generation c \<noteq> Some 0 \<and> gc_webhook_secret_version c \<noteq> Some [] \<and> list_all lean_feed (gc_feeds c)"

text \<open>A status as it is stored: every text as JSON carries it, the transition times of the conditions
  in whole seconds.\<close>

definition stored_condition :: "condition \<Rightarrow> condition" where
  "stored_condition c =
     c\<lparr>cond_type := json_text (cond_type c), cond_reason := json_text (cond_reason c),
       cond_message := json_text (cond_message c), cond_transition := unix (cond_transition c) * second\<rparr>"

definition stored_feed :: "feed_status \<Rightarrow> feed_status" where
  "stored_feed fs =
     \<lparr>conditions = map stored_condition (conditions fs), fs_url = json_text (fs_url fs),
      last_checked = json_text (last_checked fs), initialized = initialized fs, state_version = state_version fs,
      last_seen_entry = json_text (last_seen_entry fs), last_sent = stored_map (last_sent fs),
      last_error = json_text (last_error fs), etag = json_text (etag fs), last_modified = json_text (last_modified fs),
      retry_count = retry_count fs, backoff_until = json_text (backoff_until fs)\<rparr>"

definition stored :: "feed_group_status \<Rightarrow> feed_group_status" where
  "stored s =
     \<lparr>gs_conditions = map stored_condition (gs_conditions s), gs_feeds = map stored_feed (gs_feeds s),
      observed_generation = observed_generation s, webhook_secret_version = json_text (webhook_secret_version s)\<rparr>"

text \<open>What apimachinery and client-go promise of a condition: it is read back, its time in seconds.\<close>

definition condition_codec :: "'c json_codec \<Rightarrow> ('c \<Rightarrow> condition) \<Rightarrow> bool" where
  "condition_codec L dec \<longleftrightarrow> (\<forall>c. \<exists>x. jc_read L (jc_write L c) = Inr x \<and> dec x = stored_condition c)"

lemma json_text_empty: "json_text s = [] \<longleftrightarrow> s = []"
proof -
  have "encode_rune r \<noteq> []" for r by (simp add: encode_rune_def)
  then have "utf8_encode rs = [] \<longleftrightarrow> rs = []" for rs by (cases rs) (simp_all add: utf8_encode_def)
  then have "of_runes rs = [] \<longleftrightarrow> rs = []" for rs by (simp add: of_runes_def of_bytes_def)
  then show ?thesis by (simp add: json_text_def runes_empty_iff)
qed

lemma declared_fields:
  "or_zero [] (nonzero (s = []) (json_text s)) = json_text s" "or_zero 0 (nonzero (n = 0) n) = n"
  "or_zero False (nonzero (\<not> b) b) = b" "or_zero z (Some x) = x"
  using json_text_empty [of s] by (auto simp: or_zero_def nonzero_def)

lemma lean_fields:
  "nonzero (s = []) (json_text s) \<noteq> Some []" "nonzero (n = 0) n \<noteq> Some 0" "nonzero (\<not> b) b \<noteq> Some False"
  using json_text_empty [of s] by (auto simp: nonzero_def)

lemma feed_config_declares:
  assumes "\<And>c. dec (conv c) = stored_condition c"
  shows "declared_feed dec (feed_config conv fs) = stored_feed fs" "lean_feed (feed_config conv fs)"
proof -
  have "dec \<circ> conv = stored_condition" using assms by auto
  then show "declared_feed dec (feed_config conv fs) = stored_feed fs"
    by (simp add: declared_feed_def feed_config_def stored_feed_def Let_def declared_fields)
  show "lean_feed (feed_config conv fs)"
    by (simp add: lean_feed_def feed_config_def Let_def lean_fields lean_fields [THEN not_sym])
qed

lemma status_declares:
  assumes "condition_codec L dec" "status_fits s"
  shows "\<exists>c. statusApplyConfiguration L s = Inr c \<and> declared dec c = stored s \<and> lean c"
proof -
  obtain conv where conv: "\<And>c. jc_read L (jc_write L c) = Inr (conv c)" "\<And>c. dec (conv c) = stored_condition c"
    using assms(1) unfolding condition_codec_def by metis
  have "dec \<circ> conv = stored_condition" "declared_feed dec \<circ> feed_config conv = stored_feed"
    using conv(2) feed_config_declares(1) [of dec conv, OF conv(2)] by auto
  then show ?thesis
    unfolding status_converted [OF conv(1) assms(2)]
    by (simp add: declared_def stored_def lean_def list_all_iff declared_fields lean_fields
        feed_config_declares(2) [of dec conv, OF conv(2)])
qed

text \<open>C20: Writing a status loses nothing and declares nothing more: for a status whose numbers fit their
  types the conversion never fails and exactly one apply request is made, under the controller's
  field owner and for the group itself; what it declares is the status with every text as JSON
  carries it, which is the text itself where it is UTF-8 (\<open>stored_plain\<close>); and every field at its
  zero value is left out, so that the API server removes it, but for the URL of a feed.\<close>

theorem status_apply_roundtrip:
  assumes "condition_codec L dec" "status_fits (fg_status g)"
  shows "\<exists>c. applyStatus L apply_api g w = apply_api \<lparr>ar_name = fg_name g, ar_namespace = fg_namespace g, ar_status = c,
      ar_field_owner = ''feedgroup-controller'', ar_force = True\<rparr> w \<and>
    declared dec c = stored (fg_status g) \<and> lean c"
  using status_declares [OF assms] by (auto simp: applyStatus_def statusFieldOwner_def)

subsection \<open>Plain statuses\<close>

text \<open>UTF-8 texts, sorted keys and whole seconds are stored as they are.\<close>

lemma json_text_of_runes: "list_all valid_rune rs \<Longrightarrow> json_text (of_runes rs) = of_runes rs"
  by (simp add: json_text_def list_all_iff runes_of_runes)

lemma json_text_idem: "json_text (json_text s) = json_text s"
  using json_text_of_runes [of "runes s"] runes_valid [of s] by (simp add: json_text_def list_all_iff)

lemma update_all:
  "distinct (map fst (acc @ m)) \<Longrightarrow> fold (\<lambda>(k, v). AList.update k v) m acc = acc @ m"
proof (induction m arbitrary: acc)
  case (Cons kv m)
  obtain k v where kv: "kv = (k, v)" by force
  have "AList.update k v acc = acc @ [(k, v)]" using Cons.prems kv by (intro update_new) auto
  then show ?case using Cons.IH [of "acc @ [(k, v)]"] Cons.prems kv by simp
qed simp

lemma stored_map_id:
  assumes "distinct (map fst m)" "sorted (map fst m)" "list_all (\<lambda>(k, v). json_text k = k \<and> json_text v = v) m"
  shows "stored_map m = m"
proof -
  have "map (\<lambda>(k, v). (json_text k, json_text v)) m = m" using assms(3) by (induction m) auto
  then show ?thesis using assms(1,2) update_all [of "[]" m] by (simp add: stored_map_def sort_key_id_if_sorted case_prod_beta')
qed

definition plain_text :: "string \<Rightarrow> bool" where
  "plain_text s \<longleftrightarrow> json_text s = s"

definition plain_feed :: "feed_status \<Rightarrow> bool" where
  "plain_feed fs \<longleftrightarrow> map stored_condition (conditions fs) = conditions fs \<and>
     list_all plain_text [fs_url fs, last_checked fs, last_seen_entry fs, last_error fs, etag fs, last_modified fs, backoff_until fs] \<and>
     distinct (map fst (last_sent fs)) \<and> sorted (map fst (last_sent fs)) \<and>
     list_all (\<lambda>(k, v). plain_text k \<and> plain_text v) (last_sent fs)"

lemma stored_plain:
  assumes "map stored_condition (gs_conditions s) = gs_conditions s" "list_all plain_feed (gs_feeds s)"
    and "plain_text (webhook_secret_version s)"
  shows "stored s = s"
proof -
  have "stored_feed fs = fs" if "plain_feed fs" for fs
  proof -
    have "stored_map (last_sent fs) = last_sent fs"
      using that by (intro stored_map_id) (auto simp: plain_feed_def plain_text_def)
    then show ?thesis using that by (simp add: stored_feed_def plain_feed_def plain_text_def)
  qed
  then have "map stored_feed (gs_feeds s) = gs_feeds s"
    using assms(2) by (intro map_idI) (auto simp: list_all_iff)
  then show ?thesis using assms(1,3) by (simp add: stored_def plain_text_def)
qed

subsection \<open>A codec of conditions\<close>

text \<open>Conditions as arrays of their fields, and a group with a failing feed.\<close>

definition list_codec :: "condition json_codec" where
  "list_codec =
     \<lparr>jc_write = (\<lambda>c. JArray [JString (json_text (cond_type c)),
        JNumber (case cond_status c of ConditionTrue \<Rightarrow> 0 | ConditionFalse \<Rightarrow> 1 | ConditionUnknown \<Rightarrow> 2),
        JString (json_text (cond_reason c)), JString (json_text (cond_message c)), JNumber (cond_generation c),
        JNumber (unix (cond_transition c))]),
      jc_read = (\<lambda>j. case j of
          JArray [JString t, JNumber st, JString r, JString m, JNumber g, JNumber s] \<Rightarrow>
            Inr \<lparr>cond_type = t, cond_status = (if st = 0 then ConditionTrue else if st = 1 then ConditionFalse else ConditionUnknown),
              cond_reason = r, cond_message = m, cond_generation = g, cond_transition = s * second\<rparr>
        | _ \<Rightarrow> Inl (PlainError ''not a condition'')),
      jc_type_error = (\<lambda>j. PlainError ''json: cannot unmarshal'')\<rparr>"

lemma list_codec_reads: "condition_codec list_codec id"
proof -
  have "\<exists>x. jc_read list_codec (jc_write list_codec c) = Inr x \<and> id x = stored_condition c" for c
    by (cases "cond_status c") (simp_all add: list_codec_def stored_condition_def)
  then show ?thesis by (simp add: condition_codec_def)
qed

definition failing_status :: feed_group_status where
  "failing_status =
     \<lparr>gs_conditions = [\<lparr>cond_type = ''Ready'', cond_status = ConditionFalse, cond_reason = ''FeedErrors'',
        cond_message = ''1 of 1 feeds failing'', cond_generation = 2, cond_transition = 1700000000000000000\<rparr>],
      gs_feeds = [(new_feed_status ''https://a'')\<lparr>last_error := ''boom'', retry_count := 2, last_sent := [(''k'', ''t'')]\<rparr>],
      observed_generation = 2, webhook_secret_version = []\<rparr>"

definition failing_group :: feed_group where
  "failing_group = (example_group [example_feed ''https://a''] [])\<lparr>fg_status := failing_status\<rparr>"

lemma failing_fits: "status_fits (fg_status failing_group)"
  by (simp add: failing_group_def status_fits_def failing_status_def fits_def new_feed_status_def)

lemma failing_plain: "stored (fg_status failing_group) = failing_status"
  by code_simp

text \<open>An API that keeps the last request.\<close>

lemma status_apply_roundtrip_witness:
  "case snd (applyStatus list_codec (\<lambda>rq w. (None, Some rq)) failing_group None) of
     None \<Rightarrow> False
   | Some rq \<Rightarrow> declared id (ar_status rq) = failing_status \<and> ar_name rq = ''go'' \<and> ar_namespace rq = ''news''"
  using status_apply_roundtrip [OF list_codec_reads failing_fits, of "\<lambda>rq w. (None, Some rq)" None]
  by (auto simp: failing_plain) (simp_all add: failing_group_def example_group_def)

end
