(* ===== verification/Operator.thy ===== *)
theory Operator
  imports Render_Laws Reconcile_Laws Metrics Feed_Client Status_Apply
begin

text \<open>
  The operator assembled (\<^verbatim>\<open>ports.go\<close>, \<^verbatim>\<open>clientsFor\<close> and \<^verbatim>\<open>cmd/main.go\<close>): the reconciler with the
  feed client, the renderer and the Discord client it runs with, the latter two behind the
  timing adapters of their ports, and the status writer.  The world of a reconcile is what all of them share: the wire
  to Discord with its rate limiter, the metrics registry and the clock.

  The locale \<open>message_wire\<close> is what the send path asks of a sender, for any relation between
  worlds that sending good messages keeps; its interpretation is the real client.
\<close>

section \<open>The ports\<close>

record 'w op_world =
  ow_wire :: "'w wire"
  ow_registry :: registry
  ow_readings :: nat

text \<open>A call of an inner port, timed by two readings of the clock.\<close>

definition timed :: "(nat \<Rightarrow> int) \<Rightarrow> group_labels \<Rightarrow> string \<Rightarrow> 'w wire \<Rightarrow> 'w op_world \<Rightarrow> 'w op_world" where
  "timed clock labels oper wire w =
     (let start = clock (ow_readings w); stop = clock (Suc (ow_readings w))
      in w\<lparr>ow_wire := wire, ow_registry := requestDuration labels oper (time_sub stop start) (ow_registry w),
           ow_readings := ow_readings w + 2\<rparr>)"

definition operationFetch :: string where "operationFetch = ''fetch''"
definition operationSend :: string where "operationSend = ''send''"

definition timedSender ::
  "(nat \<Rightarrow> int) \<Rightarrow> group_labels \<Rightarrow> (message \<Rightarrow> 'w wire \<Rightarrow> go_error option \<times> 'w wire) \<Rightarrow> (message, 'w op_world) message_sender" where
  "timedSender clock labels inner msg w =
     (case inner msg (ow_wire w) of
        (err, wire) \<Rightarrow> (case err of None \<Rightarrow> SendOk | Some e \<Rightarrow> SendError e, timed clock labels operationSend wire w))"

text \<open>An error comes with the zero result.\<close>

definition outcome_of :: "go_error + fetch_result \<Rightarrow> fetch_outcome" where
  "outcome_of r =
     (case r of
        Inl e \<Rightarrow> \<lparr>fo_result = \<lparr>fr_entries = [], fr_feed_title = [], fr_etag = [], fr_last_modified = [],
                   fr_not_modified = False\<rparr>, fo_err = Some e\<rparr>
      | Inr res \<Rightarrow> \<lparr>fo_result = res, fo_err = None\<rparr>)"

definition timedFetcher ::
  "(nat \<Rightarrow> int) \<Rightarrow> group_labels \<Rightarrow> (string \<Rightarrow> cache_validators \<Rightarrow> go_error + fetch_result)
     \<Rightarrow> string \<Rightarrow> cache_validators \<Rightarrow> 'w op_world \<Rightarrow> fetch_outcome \<times> 'w op_world" where
  "timedFetcher clock labels inner url v w = (outcome_of (inner url v), timed clock labels operationFetch (ow_wire w) w)"

text \<open>The adapters change nothing but the registry and the clock, and always observe one duration.\<close>

lemma timed_adapters:
  "fst (timedSender clock labels inner msg w) =
     (case fst (inner msg (ow_wire w)) of None \<Rightarrow> SendOk | Some e \<Rightarrow> SendError e)"
  "ow_wire (snd (timedSender clock labels inner msg w)) = snd (inner msg (ow_wire w))"
  "fst (timedFetcher clock labels fetch url v w) = outcome_of (fetch url v)"
  "ow_wire (snd (timedFetcher clock labels fetch url v w)) = ow_wire w"
  by (simp_all add: timedSender_def timedFetcher_def timed_def Let_def case_prod_beta)

section \<open>The reconciler\<close>

text \<open>What the operator is built from: the document, template and expression engines, the HTTP ports of
  the two clients, and the apply call of the Kubernetes API with its codec of conditions.\<close>

record ('c, 'w) operator_parts =
  op_render :: render_env
  op_fetch_port :: "nat \<Rightarrow> fetch_port"
  op_port :: "'w port"
  op_clock :: "nat \<Rightarrow> int"
  op_codec :: "'c json_codec"
  op_apply :: "'c apply_request \<Rightarrow> 'w op_world \<Rightarrow> go_error option \<times> 'w op_world"

definition discord_sender :: "('c, 'w) operator_parts \<Rightarrow> group_labels \<Rightarrow> string \<Rightarrow> (message, 'w op_world) message_sender" where
  "discord_sender A labels webhookURL =
     (let E = de_go (rn_doc (op_render A))
      in timedSender (op_clock A) labels (SendMessage E (op_port A) (NewClient E webhookURL True)))"

definition feed_fetcher :: "('c, 'w) operator_parts \<Rightarrow> nat \<Rightarrow> string \<Rightarrow> string \<Rightarrow> string \<Rightarrow> fetch_outcome" where
  "feed_fetcher A i url e lm =
     outcome_of (snd (FetchEntries (rn_doc (op_render A)) (op_fetch_port A i) url \<lparr>cv_etag = e, cv_last_modified = lm\<rparr>))"

definition with_clients ::
  "('c, 'w) operator_parts \<Rightarrow> group_labels \<Rightarrow> (message, 'w op_world) reconciler \<Rightarrow> (message, 'w op_world) reconciler" where
  "with_clients A labels R =
     R\<lparr>rr_fetch := feed_fetcher A, rr_sender := discord_sender A labels, rr_renderer := feed_renderer (op_render A),
      rr_apply := applyStatus (op_codec A) (op_apply A)\<rparr>"

section \<open>What the send path asks of a sender\<close>

text \<open>The renderers of a spec build good messages, and the Kubernetes API keeps a relation of worlds.\<close>

definition builds_good :: "('m \<Rightarrow> bool) \<Rightarrow> (feed_group \<Rightarrow> feed_spec \<Rightarrow> go_error + 'm renderer) \<Rightarrow> feed_group_spec \<Rightarrow> bool" where
  "builds_good good renderer spec \<longleftrightarrow>
     (\<forall>g f rend e m n. fg_spec g = spec \<longrightarrow> f \<in> set (sp_feeds spec) \<longrightarrow> renderer g f = Inr rend \<longrightarrow>
        rd_build rend e = Built m n \<longrightarrow> good m)"

definition api_keeps :: "('s \<Rightarrow> 's \<Rightarrow> bool) \<Rightarrow> ('m, 's) reconciler \<Rightarrow> bool" where
  "api_keeps rel R \<longleftrightarrow> (\<forall>w. rel w (snd (rr_get R w))) \<and> (\<forall>ns n w. rel w (snd (rr_secret R ns n w))) \<and>
     (\<forall>g w. rel w (snd (rr_apply R g w)))"

locale message_wire =
  fixes sender :: "string \<Rightarrow> ('m, 's) message_sender"
    and good :: "'m \<Rightarrow> bool"
    and rel :: "'s \<Rightarrow> 's \<Rightarrow> bool"
  assumes rel_refl: "rel w w"
    and rel_trans: "rel a b \<Longrightarrow> rel b c \<Longrightarrow> rel a c"
    and rel_send: "good m \<Longrightarrow> rel w (snd (sender url m w))"
begin

lemma send_rel:
  assumes "send_message d m st = (st1, res)" "dl_sender d = sender url" "good m"
  shows "rel (sy_world st) (sy_world st1)"
  using rel_send [OF assms(3), of "sy_world st" url] assms(1,2) by (auto simp: send_message_def case_prod_beta)

lemma delivers_rel:
  assumes "delivers d es st hs ps rs st' r" "dl_sender d = sender url"
    and "\<And>e m n. rd_build (dl_renderer d) e = Built m n \<Longrightarrow> good m"
  shows "rel (sy_world st) (sy_world st')"
  using assms(1)
proof (induction rule: delivers.induct)
  case (skipped st e err st1 v es hs ps rs st' r)
  then show ?case using render_failed_world by metis
next
  case (render_stops st e err st1 v es)
  then show ?case using render_failed_world rel_refl by metis
next
  case (evidence_panics st e err st1 p es)
  then show ?case using render_failed_world rel_refl by metis
next
  case (posted st e m ov st1 es hs ps rs st' r)
  have "sy_world (after_sent d e st1) = sy_world st1" by (simp add: after_sent_def)
  then show ?case
    using rel_trans [OF send_rel [OF posted(4) assms(2) assms(3) [OF posted(3)]]] posted.IH
    by (simp add: observed_world)
next
  case (send_stops st e m ov st1 err st2 v es)
  have "sy_world st2 = sy_world st1"
    using record_same_more(1) [of "dl_attempt d" "attemptSendFailed err" st1] send_stops(5) by simp
  then show ?case
    using send_rel [OF send_stops(4) assms(2) assms(3) [OF send_stops(3)]] by (simp add: observed_world)
next
  case (send_panics st e m ov st1 p es)
  then show ?case
    using send_rel [OF send_panics(4) assms(2) assms(3) [OF send_panics(3)]] by (simp add: observed_world)
qed (auto intro: rel_refl)

text \<open>A sync, a feed and a pass of a group.\<close>

lemma apply_rel:
  assumes "apply_sync run s st = (st', r)" "fn_sender run = sender url" "builds_good good (fn_renderer run) spec"
    and "fg_spec (fn_group run) = spec" "fn_feed run \<in> set (sp_feeds spec)"
  shows "rel (sy_world st) (sy_world st')"
proof (cases "\<exists>rend. deliverable run rend s")
  case True
  then obtain rend where del: "deliverable run rend s" by blast
  have good: "good m" if "rd_build rend e = Built m n" for e m n
    using assms(3-5) del that unfolding builds_good_def deliverable_def by blast
  obtain hs ps rs st2 where run: "delivers (delivery_of run rend (begun_sync run s st))
      (plan_entries (fy_plan (begun_sync run s st))) (begun run s st) hs ps rs st2 r"
    and st': "st' = (case r of Panicked p \<Rightarrow> st2 | Returned v \<Rightarrow> close_sync (begun_sync run s st) (settlement v) st2)"
    by (rule apply_runs [OF del assms(1)])
  have "rel (sy_world (begun run s st)) (sy_world st2)"
    by (rule delivers_rel [OF run, of url]) (simp_all add: assms(2) good)
  then show ?thesis unfolding st' by (cases r) simp_all
next
  case False
  then have "sy_world st' = sy_world st"
    using assms(1) by (auto simp: apply_sync_def deliverable_def Let_def case_prod_beta split: option.splits sum.splits)
  then show ?thesis by (simp add: rel_refl)
qed

lemma process_rel:
  assumes "processFeed stack run ps = (ps', r)" "fn_sender run = sender url" "builds_good good (fn_renderer run) spec"
    and "fg_spec (fn_group run) = spec" "fn_feed run \<in> set (sp_feeds spec)"
  shows "rel (ps_world ps) (ps_world ps')"
proof (cases "feed_status_for (statuses ps) (rss_url (fn_feed run))")
  case None
  then show ?thesis using assms(1) rel_refl by (simp add: processFeed_def Let_def)
next
  case (Some fs)
  let ?s = "openFeedSync fs (fo_result (fn_fetched run)) (feedSyncSpecFor (fn_group run) (fn_now run))"
  obtain st res where ap: "apply_sync run ?s (sync_state_of fs ps) = (st, res)" by force
  have "rel (ps_world ps) (sy_world st)" using apply_rel [OF ap assms(2-5)] by simp
  moreover have "ps_world ps' = sy_world st"
    using assms(1) Some ap by (auto simp: processFeed_def Let_def secured_world split: result.splits)
  ultimately show ?thesis by simp
qed

lemma pass_loop_rel:
  assumes "pass_loop R url cad items v ps = (ps', r)" "rr_sender R = sender" "builds_good good (rr_renderer R) spec"
    and "fg_spec (ps_group ps) = spec" "\<forall>i \<in> set items. fst i \<in> set (sp_feeds spec)"
  shows "rel (ps_world ps) (ps_world ps')"
  using assms(1,4,5)
proof (induction items arbitrary: v ps)
  case Nil
  then show ?case by (simp add: rel_refl)
next
  case (Cons item items)
  obtain feed fetched where item: "item = (feed, fetched)" by force
  show ?case
  proof (cases "0 < v_retry_after v")
    case True
    then show ?thesis using Cons.prems item by (simp add: rel_refl)
  next
    case False
    let ?run = "run_of R url cad (ps_group ps) feed fetched"
    obtain ps1 r1 where step: "processFeed (rr_stack R) ?run ps = (ps1, r1)" by force
    have rel1: "rel (ps_world ps) (ps_world ps1)"
      by (rule process_rel [OF step, of url spec]) (use assms(2,3) Cons.prems item in \<open>simp_all add: run_of_def\<close>)
    have "fg_spec (ps_group ps1) = spec"
      using processFeed_frame(1) [OF step] Cons.prems(2) by (simp add: pass_frame_def)
    then show ?thesis
      using rel1 Cons.prems item False step rel_trans [OF rel1] Cons.IH [of _ ps1]
      by (auto split: process_result.splits)
  qed
qed

lemma pass_rel:
  assumes "reconcilePass R url cad force ps = (ps', r)" "rr_sender R = sender"
    and "builds_good good (rr_renderer R) (fg_spec (ps_group ps))"
  shows "rel (ps_world ps) (ps_world ps')"
proof (cases "fetchAll (rr_fetch R) (ps_group ps) (plan_active (planFeeds (ps_group ps) cad (rr_now R) force))")
  case None
  then show ?thesis using assms(1) by (simp add: reconcilePass_def Let_def rel_refl)
next
  case (Some outs)
  let ?items = "zip (plan_active (planFeeds (ps_group ps) cad (rr_now R) force)) outs"
  obtain v ps1 r1 where lp: "pass_loop R url cad ?items no_verdict ps = (ps1, r1)" by force
  have "\<forall>i \<in> set ?items. fst i \<in> set (sp_feeds (fg_spec (ps_group ps)))"
    using planFeeds_active [of "ps_group ps" cad "rr_now R" force] by (auto dest: set_zip_leftD)
  then have "rel (ps_world ps) (ps_world ps1)" using pass_loop_rel [OF lp assms(2,3)] by simp
  moreover have "ps' = ps1"
    using assms(1) Some lp by (auto simp: reconcilePass_def Let_def split: process_result.splits prod.splits)
  ultimately show ?thesis by simp
qed

text \<open>A whole reconcile.\<close>

lemma webhook_rel:
  assumes "webhook R st = (st1, r)" "api_keeps rel R"
  shows "rel (ps_world (rc_pass st)) (ps_world (rc_pass st1))"
proof -
  let ?call = "rr_secret R (fg_namespace (rc_group st)) (webhook_secret_name (fg_spec (rc_group st))) (ps_world (rc_pass st))"
  have "ps_world (rc_pass st1) = snd ?call"
    using assms(1) by (cases ?call; cases "fst ?call")
      (auto simp: webhook_def Let_def on_group_def split: option.splits if_splits)
  then show ?thesis using assms(2) by (simp add: api_keeps_def)
qed

lemma settle_rel:
  assumes "settle R original cad decision groupErr through st = (st1, r)" "api_keeps rel R"
  shows "rel (ps_world (rc_pass st)) (ps_world (rc_pass st1))"
proof -
  have "ps_world (rc_pass st1) = ps_world (rc_pass st) \<or> (\<exists>g. ps_world (rc_pass st1) = snd (rr_apply R g (ps_world (rc_pass st))))"
    using assms(1)
    by (auto simp: settle_def Let_def rc_emit_def on_group_def split: prod.splits if_splits option.splits) (metis snd_conv)+
  then show ?thesis using assms(2) rel_refl by (auto simp: api_keeps_def)
qed

lemma prepared_rel:
  assumes "reconcile_prepared R prep st = (st', res)" "api_keeps rel R" "rr_sender R = sender"
    and "builds_good good (rr_renderer R) (fg_spec (rc_group st))"
  shows "rel (ps_world (rc_pass st)) (ps_world (rc_pass st'))"
proof -
  let ?cad = "cadenceOf (env_print (rr_env R)) (fg_spec (rc_group st))"
  obtain st1 w where web: "webhook R st = (st1, w)" by force
  note rel1 = webhook_rel [OF web assms(2)]
  show ?thesis
  proof (cases w)
    case (Inl err)
    obtain st2 r where s: "settleGroup R (prep_snapshot prep) ?cad (retryRequeue ?cad) (Some (WebhookError err)) st1 = (st2, r)" by force
    then have "st' = st2" using assms(1) web Inl by (simp add: reconcile_prepared_def settled_def)
    then show ?thesis using rel_trans [OF rel1 settle_rel [OF s [unfolded settleGroup_def] assms(2)]] by simp
  next
    case (Inr u)
    obtain ps r where pass: "reconcilePass R u ?cad (prep_specChanged prep) (rc_pass st1) = (ps, r)" by force
    have "fg_spec (ps_group (rc_pass st1)) = fg_spec (rc_group st)"
      using webhook_view [OF web] by (simp add: group_view_def rc_group_def)
    then have "rel (ps_world (rc_pass st1)) (ps_world ps)" using pass_rel [OF pass assms(3)] assms(4) by simp
    note rel2 = rel_trans [OF rel1 this]
    let ?settle = "\<lambda>dec ge through. settle R (prep_snapshot prep) ?cad dec ge through (st1\<lparr>rc_pass := ps\<rparr>)"
    show ?thesis
    proof (cases r)
      case (Processed vp)
      obtain vd plan where vp: "vp = (vd, plan)" by force
      obtain st2 x where s: "?settle (plan_requeue plan ?cad (v_retry vd) (v_retry_after vd)) None True = (st2, x)" by force
      then have "st' = st2"
        using assms(1) web Inr pass Processed vp by (simp add: reconcile_prepared_def settled_def settleGroup_def)
      then show ?thesis using rel_trans [OF rel2] settle_rel [OF s assms(2)] by simp
    next
      case (FeedPanicked p)
      obtain st2 x where s: "?settle (retryRequeue ?cad) (Some (PassPanicked p)) False = (st2, x)" by force
      then have "st' = st2"
        using assms(1) web Inr pass FeedPanicked by (auto simp: reconcile_prepared_def split: sum.splits)
      then show ?thesis using rel_trans [OF rel2] settle_rel [OF s assms(2)] by simp
    next
      case (Crashed p)
      then have "st' = st1\<lparr>rc_pass := ps\<rparr>" using assms(1) web Inr pass by (simp add: reconcile_prepared_def)
      then show ?thesis using rel2 by simp
    qed
  qed
qed

lemma reconcile_rel:
  assumes "Reconcile R w0 = ((log, evs, w), res)" "api_keeps rel R" "rr_sender R = sender"
    and "\<And>g0. fst (rr_get R w0) = Inr g0 \<Longrightarrow> builds_good good (rr_renderer R) (fg_spec g0)"
  shows "rel w0 w"
proof -
  obtain got w1 where got: "rr_get R w0 = (got, w1)" by force
  have rel1: "rel w0 w1" using assms(2) got by (metis api_keeps_def snd_conv)
  show ?thesis
  proof (cases got)
    case (Inl e)
    then show ?thesis using assms(1) got rel1 by (cases e) (simp_all add: Reconcile_def)
  next
    case (Inr g0)
    obtain g prep where prep: "prepareStatus g0 = (g, prep)" by force
    have spec: "fg_spec g = fg_spec g0"
      using prep by (auto simp: prepareStatus_def ensureFeedStatuses_def clearPermanentBackoffs_def Let_def case_prod_beta)
    let ?st0 = "\<lparr>rc_pass = \<lparr>ps_group = g, ps_log = [], ps_ticks = 0, ps_world = w1\<rparr>,
      rc_events = map FeedForgotten (prep_pruned prep)\<rparr>"
    obtain st r where run: "reconcile_prepared R prep ?st0 = (st, r)" by force
    have "rel w1 (ps_world (rc_pass st))"
      using prepared_rel [OF run assms(2,3)] assms(4) [of g0] got Inr spec by (simp add: rc_group_def)
    moreover have "w = ps_world (rc_pass st)"
      using assms(1) got Inr prep run by (simp add: Reconcile_def Let_def)
    ultimately show ?thesis using rel_trans [OF rel1] by simp
  qed
qed

end

section \<open>The Discord client as the sender\<close>

text \<open>A request as it must be: to an allowed host over HTTPS, carrying a message a feed of the spec may
  send.  The laws hold for every way of parsing hosts that reads back what it printed.\<close>

definition discord_post :: "go_env \<Rightarrow> feed_group_spec \<Rightarrow> url \<times> string \<Rightarrow> bool" where
  "discord_post E spec q \<longleftrightarrow> scheme (fst q) = ''https'' \<and> AllowedWebhookHosts (to_lower E (hostname (fst q))) \<and>
     (\<exists>g f m. fg_spec g = spec \<and> f \<in> set (sp_feeds spec) \<and> sendable E g f m \<and> snd q = message_body m)"

definition message_of_spec :: "go_env \<Rightarrow> feed_group_spec \<Rightarrow> message \<Rightarrow> bool" where
  "message_of_spec E spec m \<longleftrightarrow> (\<exists>g f. fg_spec g = spec \<and> f \<in> set (sp_feeds spec) \<and> sendable E g f m)"

definition posts_from :: "go_env \<Rightarrow> feed_group_spec \<Rightarrow> 'w op_world \<Rightarrow> 'w op_world \<Rightarrow> bool" where
  "posts_from E spec w w' \<longleftrightarrow>
     (host_roundtrip E \<longrightarrow> (\<exists>qs. wr_requests (ow_wire w') = wr_requests (ow_wire w) @ qs \<and> list_all (discord_post E spec) qs))"

lemma posts_from_trans:
  assumes "posts_from E spec a b" "posts_from E spec b c"
  shows "posts_from E spec a c"
  unfolding posts_from_def
proof
  assume "host_roundtrip E"
  then obtain qs rs where "wr_requests (ow_wire b) = wr_requests (ow_wire a) @ qs" "list_all (discord_post E spec) qs"
    "wr_requests (ow_wire c) = wr_requests (ow_wire b) @ rs" "list_all (discord_post E spec) rs"
    using assms unfolding posts_from_def by blast
  then show "\<exists>qs. wr_requests (ow_wire c) = wr_requests (ow_wire a) @ qs \<and> list_all (discord_post E spec) qs"
    by (intro exI [of _ "qs @ rs"]) simp
qed

lemma discord_sender_posts:
  assumes "message_of_spec (de_go (rn_doc (op_render A))) spec m"
  shows "posts_from (de_go (rn_doc (op_render A))) spec w (snd (discord_sender A labels url m w))"
  unfolding posts_from_def
proof
  let ?E = "de_go (rn_doc (op_render A))" and ?c = "NewClient (de_go (rn_doc (op_render A))) url True"
  assume "host_roundtrip ?E"
  from send_requests [OF this, of "op_port A" ?c m "ow_wire w"]
  consider "wr_requests (snd (SendMessage ?E (op_port A) ?c m (ow_wire w))) = wr_requests (ow_wire w)"
    | v where "wr_requests (snd (SendMessage ?E (op_port A) ?c m (ow_wire w))) = wr_requests (ow_wire w) @ [(v, message_body (fst (Fit m)))]"
      "scheme v = ''https''" "AllowedWebhookHosts (to_lower ?E (hostname v))" by blast
  then show "\<exists>qs. wr_requests (ow_wire (snd (discord_sender A labels url m w))) = wr_requests (ow_wire w) @ qs \<and> list_all (discord_post ?E spec) qs"
  proof cases
    case 1
    then show ?thesis by (intro exI [of _ "[]"]) (simp add: discord_sender_def Let_def timed_adapters)
  next
    case (2 v)
    have "discord_post ?E spec (v, message_body (fst (Fit m)))"
      using 2(2,3) assms sendable_Fit unfolding discord_post_def message_of_spec_def by (metis fst_conv snd_conv)
    then show ?thesis
      using 2(1) by (intro exI [of _ "[(v, message_body (fst (Fit m)))]"]) (simp add: discord_sender_def Let_def timed_adapters)
  qed
qed

interpretation discord_wire: message_wire "discord_sender A labels" "message_of_spec (de_go (rn_doc (op_render A))) spec"
    "posts_from (de_go (rn_doc (op_render A))) spec" for A labels spec
proof unfold_locales
  show "posts_from (de_go (rn_doc (op_render A))) spec w w" for w by (simp add: posts_from_def)
qed (fact posts_from_trans discord_sender_posts)+

lemma feed_renderer_good:
  "builds_good (message_of_spec (de_go (rn_doc (op_render A))) spec) (feed_renderer (op_render A)) spec"
  unfolding builds_good_def message_of_spec_def
proof (intro allI impI)
  fix g f rend e m n
  assume spec: "fg_spec g = spec" "f \<in> set (sp_feeds spec)" and rend: "feed_renderer (op_render A) g f = Inr rend"
    and built: "rd_build rend e = Built m n"
  obtain fr where fr: "newFeedRenderer (op_render A) g f = Inr fr" "rend = renderer_of (op_render A) fr"
    using rend unfolding feed_renderer_def by (cases "newFeedRenderer (op_render A) g f") auto
  have "sendable (de_go (rn_doc (op_render A))) g f m"
    using built_sendable [OF fr(1)] built fr(2) by (simp add: renderer_of_def)
  then show "\<exists>g f. fg_spec g = spec \<and> f \<in> set (sp_feeds spec) \<and> sendable (de_go (rn_doc (op_render A))) g f m"
    using spec by blast
qed

text \<open>What a reconcile adds to the requests, by what the lookup of its group returned.\<close>

definition requests_of_group :: "go_env \<Rightarrow> (get_error + feed_group) \<Rightarrow> (url \<times> string) list \<Rightarrow> bool" where
  "requests_of_group E got qs \<longleftrightarrow> (case got of Inl e \<Rightarrow> qs = [] | Inr g \<Rightarrow> list_all (discord_post E (fg_spec g)) qs)"

text \<open>The Kubernetes API has no part in the wire to Discord.\<close>

definition cluster_keeps_wire :: "('c, 'w) operator_parts \<Rightarrow> (message, 'w op_world) reconciler \<Rightarrow> bool" where
  "cluster_keeps_wire A R \<longleftrightarrow> (\<forall>w. ow_wire (snd (rr_get R w)) = ow_wire w) \<and>
     (\<forall>ns n w. ow_wire (snd (rr_secret R ns n w)) = ow_wire w) \<and> (\<forall>rq w. ow_wire (snd (op_apply A rq w)) = ow_wire w)"

lemma applyStatus_wire:
  assumes "cluster_keeps_wire A R"
  shows "ow_wire (snd (applyStatus (op_codec A) (op_apply A) g w)) = ow_wire w"
  using assms by (simp add: applyStatus_def cluster_keeps_wire_def split: sum.split)

lemma reconcile_requests:
  assumes "host_roundtrip (de_go (rn_doc (op_render A)))" "cluster_keeps_wire A R"
    and "Reconcile (with_clients A labels R) w0 = ((log, evs, w), res)"
  shows "\<exists>qs. wr_requests (ow_wire w) = wr_requests (ow_wire w0) @ qs \<and>
    requests_of_group (de_go (rn_doc (op_render A))) (fst (rr_get R w0)) qs"
proof (cases "fst (rr_get R w0)")
  case (Inl e)
  have "ow_wire (snd (rr_get R w0)) = ow_wire w0" using assms(2) unfolding cluster_keeps_wire_def by blast
  then have "wr_requests (ow_wire w) = wr_requests (ow_wire w0)"
    using assms(3) Inl by (cases "rr_get R w0"; cases e) (auto simp: Reconcile_def with_clients_def)
  then show ?thesis using Inl by (simp add: requests_of_group_def)
next
  case (Inr g0)
  let ?E = "de_go (rn_doc (op_render A))"
  have keeps: "api_keeps (posts_from ?E (fg_spec g0)) (with_clients A labels R)"
    using assms(2) applyStatus_wire [OF assms(2)] unfolding api_keeps_def with_clients_def posts_from_def cluster_keeps_wire_def
    by simp
  have sender: "rr_sender (with_clients A labels R) = discord_sender A labels" by (simp add: with_clients_def)
  have "posts_from ?E (fg_spec g0) w0 w"
    by (rule discord_wire.reconcile_rel [OF assms(3) keeps sender])
      (use Inr feed_renderer_good in \<open>simp add: with_clients_def\<close>)
  then show ?thesis using assms(1) Inr by (simp add: posts_from_def requests_of_group_def)
qed

subsection \<open>An example\<close>

definition example_operator :: "(condition, unit) operator_parts" where
  "example_operator = \<lparr>op_render = example_render\<lparr>rn_doc := (rn_doc example_render)\<lparr>de_go := strict_env\<rparr>\<rparr>,
     op_fetch_port = (\<lambda>i. \<lparr>ft_do = (\<lambda>rq. Inl (DNSError ''no such host'' False)), ft_url_error = PlainError\<rparr>),
     op_port = still_port busy_response, op_clock = (\<lambda>n. 0),
     op_codec = list_codec, op_apply = (\<lambda>rq w. (None, w))\<rparr>"

definition example_api :: "(message, unit op_world) reconciler" where
  "example_api = \<lparr>rr_get = (\<lambda>w. (Inr two_feeds, w)),
     rr_secret = (\<lambda>ns n w. (Inr \<lparr>ws_data = [(''url'', ''https://discord.com/api/webhooks/1'')], ws_version = ''7''\<rparr>, w)),
     rr_apply = (\<lambda>g w. (None, w)), rr_fetch = feed_fetcher example_operator,
     rr_sender = discord_sender example_operator (''default'', ''news''), rr_renderer = feed_renderer example_render,
     rr_env = strict_env, rr_conditions = list_conditions 0, rr_recorder = True, rr_now = 1700000000000000000,
     rr_clock = (\<lambda>n. 1700000000000000000), rr_jitter = id, rr_stack = []\<rparr>"

definition no_series :: registry where
  "no_series = \<lparr>feedOperationsTotal = (\<lambda>_. None), feedRequestDuration = (\<lambda>_. None), feedLastSuccessTimestamp = (\<lambda>_. None),
     feedHealthy = (\<lambda>_. None), feedLastCheckedTimestamp = (\<lambda>_. None), messageOverflowChars = (\<lambda>_. None),
     feedGroupReconcileDuration = (\<lambda>_. None)\<rparr>"

definition example_world :: "unit op_world" where
  "example_world = \<lparr>ow_wire = idle_wire, ow_registry = no_series, ow_readings = 0\<rparr>"

end
