(* ===== verification/Secret_Watch.thy ===== *)
theory Secret_Watch
  imports Reconcile_Laws Go_Trim
begin

text \<open>
  The watch on webhook Secrets (\<^verbatim>\<open>internal/controller/secret_watch.go\<close>): which groups a changed
  Secret wakes up, what the cache keeps of a Secret and which namespaces are watched at all.  What
  a group then does with the Secret's new version is \<open>noteWebhookSecretVersion\<close> of
  \<open>Group_Status\<close>.  The Kubernetes list call is the parameter of \<open>feedGroupsForSecret\<close>.
\<close>

section \<open>Definitions\<close>

definition feedGroupsForSecret ::
  "(string \<Rightarrow> go_error + feed_group list) \<Rightarrow> string \<times> string \<Rightarrow> (string \<times> string) list" where
  "feedGroupsForSecret list_groups secret =
     (case list_groups (fst secret) of
        Inl err \<Rightarrow> []
      | Inr groups \<Rightarrow> map (\<lambda>g. (fg_namespace g, fg_name g))
          (filter (\<lambda>g. webhook_secret_name (fg_spec g) = snd secret) groups))"

text \<open>An object of the cache: the metadata of one that is watched for its metadata only, or any
  other object.  The names and the version of the metadata stand for the fields that stay.\<close>

record object_meta =
  om_namespace :: string
  om_name :: string
  om_resource_version :: string
  om_annotations :: "(string \<times> string) list"
  om_managed_fields :: "string list"

datatype 'o cache_object = PartialObjectMetadata object_meta | FullObject 'o

definition StripMetadataOnlyAnnotations :: "'o cache_object \<Rightarrow> 'o cache_object" where
  "StripMetadataOnlyAnnotations obj =
     (case obj of
        PartialObjectMetadata m \<Rightarrow> PartialObjectMetadata (m\<lparr>om_annotations := [], om_managed_fields := []\<rparr>)
      | FullObject x \<Rightarrow> FullObject x)"

text \<open>The keys of the map of namespaces, in the order they are added; \<open>None\<close> is the nil map,
  which watches every namespace.\<close>

definition add_namespace :: "string \<Rightarrow> string list option \<Rightarrow> string list option" where
  "add_namespace part nss =
     (let ns = trim_space part in
      if ns = [] then nss
      else (case nss of None \<Rightarrow> Some [ns] | Some l \<Rightarrow> Some (if ns \<in> set l then l else l @ [ns])))"

definition WatchNamespaces :: "string \<Rightarrow> string list option" where
  "WatchNamespaces flagValue = fold add_namespace (split_on CHR '','' flagValue) None"

section \<open>The watched namespaces\<close>

definition named_in :: "string list option \<Rightarrow> string set" where
  "named_in nss = (case nss of None \<Rightarrow> {} | Some l \<Rightarrow> set l)"

text \<open>A map is never empty, and has no key twice.\<close>

definition namespaces_ok :: "string list option \<Rightarrow> bool" where
  "namespaces_ok nss \<longleftrightarrow> (case nss of None \<Rightarrow> True | Some l \<Rightarrow> l \<noteq> [] \<and> distinct l)"

lemma add_namespace_ok: "namespaces_ok nss \<Longrightarrow> namespaces_ok (add_namespace part nss)"
  by (auto simp: namespaces_ok_def add_namespace_def Let_def split: option.splits)

lemma add_namespace_named:
  "named_in (add_namespace part nss) = named_in nss \<union> (if trim_space part = [] then {} else {trim_space part})"
  by (auto simp: named_in_def add_namespace_def Let_def split: option.splits)

lemma fold_namespaces:
  assumes "namespaces_ok nss"
  shows "namespaces_ok (fold add_namespace parts nss) \<and>
    named_in (fold add_namespace parts nss) = named_in nss \<union> (trim_space ` set parts - {[]})"
  using assms
proof (induction parts arbitrary: nss)
  case (Cons p parts)
  show ?case using Cons.IH [OF add_namespace_ok [OF Cons.prems, of p]] by (auto simp: add_namespace_named)
qed simp

lemma watched_namespaces:
  "namespaces_ok (WatchNamespaces s)" "named_in (WatchNamespaces s) = trim_space ` set (split_on CHR '','' s) - {[]}"
  using fold_namespaces [of None "split_on CHR '','' s"] by (simp_all add: WatchNamespaces_def namespaces_ok_def named_in_def)

text \<open>Printing a set of namespaces, however spaced, ordered or repeated, and reading the flag back.\<close>

lemma namespaces_read_back:
  assumes "parts \<noteq> []" "\<forall>p \<in> set parts. CHR '','' \<notin> set p"
  shows "case WatchNamespaces (str_join '','' parts) of
      None \<Rightarrow> \<forall>p \<in> set parts. blank p
    | Some l \<Rightarrow> distinct l \<and> set l = trim_space ` set (filter (\<lambda>p. \<not> blank p) parts)"
proof -
  have "split_on CHR '','' (str_join '','' parts) = parts" using split_join assms by blast
  then have n: "named_in (WatchNamespaces (str_join '','' parts)) = trim_space ` set parts - {[]}"
    using watched_namespaces(2) by simp
  show ?thesis
  proof (cases "WatchNamespaces (str_join '','' parts)")
    case None
    then show ?thesis using n by (auto simp: named_in_def)
  next
    case (Some l)
    then have "set l = trim_space ` set parts - {[]}" using n by (simp add: named_in_def)
    then show ?thesis
      using Some watched_namespaces(1) [of "str_join '','' parts"] by (auto simp: namespaces_ok_def)
  qed
qed

section \<open>A changed Secret\<close>

lemma noted_status:
  assumes "webhook_secret_version (fg_status g) \<noteq> v"
  shows "feed_status_for (gs_feeds (fg_status (noteWebhookSecretVersion K v g))) url =
    map_option (\<lambda>fs. if send_caused K fs then run_clear fs else fs) (feed_status_for (gs_feeds (fg_status g)) url)"
proof -
  have "feed_status_for (map (\<lambda>fs. if send_caused K fs then run_clear fs else fs) l) url =
      map_option (\<lambda>fs. if send_caused K fs then run_clear fs else fs) (feed_status_for l url)" for l
    by (induction l) (simp_all add: run_clear_def)
  then show ?thesis using assms by (simp add: noteWebhookSecretVersion_def clearSendBackoffs_def Let_def)
qed

lemma cleared_idle: "\<not> run_active (run_clear fs) now"
  by (simp add: run_active_def run_clear_def)

lemma failed_due: "check_failed fs \<Longrightarrow> feed_due fs interval now force"
  by (simp add: feed_due_def failed_or_retrying_def)

text \<open>C25: Replacing the webhook in its Secret resumes the sends that failed on the old one: the Secret's
  change requests a reconcile of every group of its namespace that refers to it, and the
  reconcile, which finds another version than the recorded one, then fetches a feed whose last
  check failed exactly when its backoff came from a send or is over: a feed that is backed off
  because its own URL fails keeps its backoff.\<close>

theorem replaced_secret_resumes_sends:
  assumes "list_groups ns = Inr groups" "g \<in> set groups" "webhook_secret_name (fg_spec g) = secret_name"
    and "webhook_secret_version (fg_status g) \<noteq> v"
    and "f \<in> set (sp_feeds (fg_spec g))" "rss_url f \<noteq> []" "\<not> sp_paused f"
    and "feed_status_for (gs_feeds (fg_status g)) (rss_url f) = Some fs" "check_failed fs"
  shows "(fg_namespace g, fg_name g) \<in> set (feedGroupsForSecret list_groups (ns, secret_name)) \<and>
    (f \<in> set (plan_active (planFeeds (noteWebhookSecretVersion K v g) cad now force)) \<longleftrightarrow>
       send_caused K fs \<or> \<not> run_active fs now)"
proof
  show "(fg_namespace g, fg_name g) \<in> set (feedGroupsForSecret list_groups (ns, secret_name))"
    using assms(1-3) by (auto simp: feedGroupsForSecret_def)
  have "check_failed (run_clear fs)" using assms(9) by (simp add: check_failed_def run_clear_def)
  then show "f \<in> set (plan_active (planFeeds (noteWebhookSecretVersion K v g) cad now force)) \<longleftrightarrow>
      send_caused K fs \<or> \<not> run_active fs now"
    using assms(5-9) noted_status [OF assms(4), of K "rss_url f"]
    by (simp add: plan_of_group to_fetch_def cleared_idle failed_due)
qed

definition held_status :: feed_status where
  "held_status = (new_feed_status ''https://a'')\<lparr>last_error := ''discord returned 404'',
     backoff_until := ''2030-01-01T00:00:00Z'', retry_count := 5\<rparr>"

definition held_group :: feed_group where
  "held_group = example_group [example_feed ''https://a''] [held_status]"

lemma replaced_secret_resumes_sends_witness:
  "example_feed ''https://a'' \<in> set (plan_active (planFeeds (noteWebhookSecretVersion (list_conditions 0) ''8'' held_group)
     example_cadence 1700000000000000000 False)) \<and> run_set held_status"
proof -
  have "send_caused (list_conditions 0) held_status" by code_simp
  then show ?thesis
    using replaced_secret_resumes_sends [of "\<lambda>ns. Inr [held_group]" "''default''" "[held_group]" held_group "''hook''"
        "''8''" "example_feed ''https://a''" held_status "list_conditions 0" example_cadence 1700000000000000000 False]
    by (simp add: held_group_def example_group_def example_feed_def held_status_def new_feed_status_def check_failed_def run_set_def)
qed

end
