(* ===== verification/Status_Schema.thy ===== *)
theory Status_Schema
  imports Status_Apply
begin

text \<open>
  What the API server admits: the validation rules of the FeedGroup resource, the
  \<^verbatim>\<open>+kubebuilder:validation\<close> markers of \<^verbatim>\<open>api/v1alpha1/feedgroup_types.go\<close> with the rules of
  \<^verbatim>\<open>metav1.Condition\<close> the generated resource (\<^verbatim>\<open>config/crd/bases\<close>) repeats, as executable
  predicates.  \<open>spec_admitted\<close> is about the specs the controller reads, \<open>schema_admits\<close> about
  the statuses it writes: a write the schema refuses is refused as a whole.

  A string that is absent is empty, as everywhere; lengths count characters.  The transition
  time of a condition is written by apimachinery alone and is not looked at.
\<close>

section \<open>Lengths and patterns\<close>

definition chars :: "string \<Rightarrow> int" where
  "chars s = int (length (runes s))"

text \<open>\<open>MinLength=1\<close> and \<open>MaxLength=n\<close> of a required string, of a string that may be absent, and of an
  optional field of a configuration.\<close>

definition text_upto :: "int \<Rightarrow> string \<Rightarrow> bool" where
  "text_upto n s \<longleftrightarrow> 1 \<le> chars s \<and> chars s \<le> n"

definition absent_or :: "(string \<Rightarrow> bool) \<Rightarrow> string \<Rightarrow> bool" where
  "absent_or P s \<longleftrightarrow> s = [] \<or> P s"

definition if_present :: "('a \<Rightarrow> bool) \<Rightarrow> 'a option \<Rightarrow> bool" where
  "if_present P v \<longleftrightarrow> (case v of None \<Rightarrow> True | Some x \<Rightarrow> P x)"

text \<open>A character class, by its ranges.\<close>

definition char_in :: "(char \<times> char) list \<Rightarrow> char \<Rightarrow> bool" where
  "char_in ranges c \<longleftrightarrow> list_ex (\<lambda>(a, b). of_char a \<le> (of_char c :: int) \<and> (of_char c :: int) \<le> of_char b) ranges"

definition digits :: "(char \<times> char) list" where "digits = [(CHR ''0'', CHR ''9'')]"
definition lowers :: "(char \<times> char) list" where "lowers = [(CHR ''a'', CHR ''z'')]"
definition letters :: "(char \<times> char) list" where "letters = (CHR ''A'', CHR ''Z'') # lowers"

definition just :: "string \<Rightarrow> (char \<times> char) list" where
  "just s = map (\<lambda>c. (c, c)) s"

text \<open>The shape \<^verbatim>\<open>first(middle*last)?\<close> of the three patterns below.\<close>

definition framed :: "(char \<times> char) list \<Rightarrow> (char \<times> char) list \<Rightarrow> (char \<times> char) list \<Rightarrow> string \<Rightarrow> bool" where
  "framed first middle final s \<longleftrightarrow> s \<noteq> [] \<and> char_in first (hd s) \<and>
     (tl s = [] \<or> list_all (char_in middle) (butlast (tl s)) \<and> char_in final (last (tl s)))"

text \<open>\<^verbatim>\<open>[A-Za-z]([A-Za-z0-9_,:]*[A-Za-z0-9_])?\<close>\<close>

definition reason_pattern :: "string \<Rightarrow> bool" where
  "reason_pattern = framed letters (letters @ digits @ just ''_,:'') (letters @ digits @ just ''_'')"

text \<open>\<^verbatim>\<open>([a-z0-9]([-a-z0-9]*[a-z0-9])?(\.[a-z0-9]([-a-z0-9]*[a-z0-9])?)*/)?(([A-Za-z0-9][-A-Za-z0-9_.]*)?[A-Za-z0-9])\<close>\<close>

definition type_pattern :: "string \<Rightarrow> bool" where
  "type_pattern s =
     (let label = framed (lowers @ digits) (lowers @ digits @ just ''-'') (lowers @ digits);
          name = framed (letters @ digits) (letters @ digits @ just ''-_.'') (letters @ digits)
      in case split_on (CHR ''/'') s of
           [n] \<Rightarrow> name n
         | [domain, n] \<Rightarrow> list_all label (split_on (CHR ''.'') domain) \<and> name n
         | _ \<Rightarrow> False)"

text \<open>\<^verbatim>\<open>https?://\<close>, a prefix\<close>

definition web_pattern :: "string \<Rightarrow> bool" where
  "web_pattern s \<longleftrightarrow> has_prefix s ''http://'' \<or> has_prefix s ''https://''"

text \<open>\<^verbatim>\<open>#?[0-9a-fA-F]{6}\<close>\<close>

definition color_pattern :: "string \<Rightarrow> bool" where
  "color_pattern s =
     (let d = (if has_prefix s ''#'' then tl s else s)
      in length d = 6 \<and> list_all (char_in (digits @ [(CHR ''a'', CHR ''f''), (CHR ''A'', CHR ''F'')])) d)"

text \<open>\<^verbatim>\<open>([0-9]+(\.[0-9]+)?(ns|us|ms|s|m|h))+\<close>: a unit ends where a digit or the text does.\<close>

definition span_digits :: "string \<Rightarrow> string \<times> string" where
  "span_digits s = (takeWhile (char_in digits) s, dropWhile (char_in digits) s)"

definition drop_unit :: "string \<Rightarrow> string option" where
  "drop_unit s =
     (let u = takeWhile (\<lambda>c. \<not> char_in digits c) s in
      if u \<in> set [''ns'', ''us'', ''ms'', ''s'', ''m'', ''h''] then Some (drop (length u) s) else None)"

definition duration_term :: "string \<Rightarrow> string option" where
  "duration_term s =
     (case span_digits s of (whole, rest) \<Rightarrow>
        if whole = [] then None
        else if has_prefix rest ''.'' then
          (case span_digits (tl rest) of (frac, rest') \<Rightarrow> if frac = [] then None else drop_unit rest')
        else drop_unit rest)"

lemma duration_term_shorter: "duration_term s = Some t \<Longrightarrow> length t < length s"
proof -
  have u: "drop_unit s = Some t \<Longrightarrow> length t \<le> length s" for s t
    by (auto simp: drop_unit_def Let_def simp del: set_simps split: if_splits)
  have d: "span_digits s = (v, t) \<Longrightarrow> length v + length t = length s" for s v t
    by (auto simp: span_digits_def simp flip: length_append)
  show "duration_term s = Some t \<Longrightarrow> length t < length s"
    by (auto simp: duration_term_def simp flip: length_greater_0_conv split: prod.splits if_splits dest!: u d)
qed

function duration_pattern :: "string \<Rightarrow> bool" where
  "duration_pattern s = (case duration_term s of None \<Rightarrow> False | Some t \<Rightarrow> t = [] \<or> duration_pattern t)"
  by pat_completeness auto
termination
  by (relation "measure length") (auto simp: duration_term_shorter)

declare duration_pattern.simps [simp del]

section \<open>Specs\<close>

definition filter_admitted :: "feed_filter \<Rightarrow> bool" where
  "filter_admitted f \<longleftrightarrow> (flt_regex f \<noteq> [] \<or> flt_keywords f \<noteq> []) \<and> absent_or (text_upto 1024) (flt_regex f) \<and>
     length (flt_keywords f) \<le> 50 \<and> distinct (flt_keywords f) \<and> list_all (text_upto 200) (flt_keywords f)"

definition embed_admitted :: "embed_spec \<Rightarrow> bool" where
  "embed_admitted e \<longleftrightarrow> absent_or (\<lambda>s. color_pattern s \<and> text_upto 7 s) (em_color e) \<and>
     absent_or (text_upto 4096) (em_description_format e) \<and>
     absent_or (\<lambda>s. s \<in> set [''thumbnail'', ''image'']) (em_image_style e) \<and>
     absent_or (text_upto 256) (em_author_name e) \<and> absent_or (text_upto 2048) (em_footer_text e)"

definition feed_admitted :: "feed_spec \<Rightarrow> bool" where
  "feed_admitted f \<longleftrightarrow> web_pattern (rss_url f) \<and> text_upto 2048 (rss_url f) \<and>
     if_present filter_admitted (sp_filter f) \<and> absent_or (text_upto 4096) (sp_format f) \<and>
     if_present embed_admitted (sp_embed f) \<and> absent_or (text_upto 100) (forum_thread_name f) \<and>
     absent_or (\<lambda>s. text_upto 32 s \<and> list_all (char_in digits) s) (forum_thread_id f)"

text \<open>The rule on an interval is in CEL, whose \<^verbatim>\<open>duration(self)\<close> is \<^verbatim>\<open>time.ParseDuration\<close>.\<close>

definition interval_admitted :: "int \<Rightarrow> string \<Rightarrow> bool" where
  "interval_admitted least s \<longleftrightarrow> duration_pattern s \<and> text_upto 32 s \<and>
     (case parse_duration s of Inl e \<Rightarrow> False | Inr d \<Rightarrow> least \<le> d)"

definition username_admitted :: "string \<Rightarrow> bool" where
  "username_admitted s \<longleftrightarrow> text_upto 80 s \<and> \<not> str_contains (map lower_ascii s) ''clyde'' \<and>
     \<not> str_contains (map lower_ascii s) ''discord''"

definition spec_admitted :: "feed_group_spec \<Rightarrow> bool" where
  "spec_admitted spec \<longleftrightarrow> absent_or (interval_admitted minute) (sp_interval spec) \<and>
     absent_or (text_upto 4096) (group_format spec) \<and> if_present embed_admitted (group_embed spec) \<and>
     absent_or username_admitted (sp_username spec) \<and>
     absent_or (\<lambda>s. text_upto 2048 s \<and> web_pattern s) (sp_avatar_url spec) \<and>
     0 \<le> sp_retries spec \<and> sp_retries spec \<le> 100 \<and>
     absent_or (interval_admitted (10 * second)) (sp_retry_interval spec) \<and>
     1 \<le> length (sp_feeds spec) \<and> length (sp_feeds spec) \<le> 50 \<and> list_all feed_admitted (sp_feeds spec) \<and>
     distinct (map rss_url (sp_feeds spec)) \<and>
     if_present (\<lambda>n. 0 \<le> n \<and> n \<le> 100) (sp_catch_up_limit spec)"

section \<open>Statuses\<close>

text \<open>\<^verbatim>\<open>metav1.Condition\<close>, in a list that is a map on the type.\<close>

definition condition_admitted :: "condition \<Rightarrow> bool" where
  "condition_admitted c \<longleftrightarrow> chars (cond_type c) \<le> 316 \<and> type_pattern (cond_type c) \<and>
     text_upto 1024 (cond_reason c) \<and> reason_pattern (cond_reason c) \<and> chars (cond_message c) \<le> 32768 \<and>
     0 \<le> cond_generation c \<and> fits 64 (cond_generation c)"

definition conditions_admitted :: "condition list \<Rightarrow> bool" where
  "conditions_admitted cs \<longleftrightarrow> length cs \<le> 20 \<and> distinct (map cond_type cs) \<and> list_all condition_admitted cs"

definition feed_config_admitted :: "('c \<Rightarrow> condition) \<Rightarrow> 'c feed_status_config \<Rightarrow> bool" where
  "feed_config_admitted dec c \<longleftrightarrow> conditions_admitted (map dec (fc_conditions c)) \<and>
     (case fc_url c of None \<Rightarrow> False | Some u \<Rightarrow> text_upto 2048 u) \<and>
     if_present (text_upto 64) (fc_last_checked c) \<and>
     if_present (\<lambda>n. fits 32 n \<and> 0 \<le> n) (fc_state_version c) \<and>
     if_present (text_upto 2048) (fc_last_seen_entry c) \<and>
     if_present (text_upto 2048) (fc_last_error c) \<and>
     if_present (text_upto 256) (fc_etag c) \<and>
     if_present (text_upto 64) (fc_last_modified c) \<and>
     if_present (fits 32) (fc_retry_count c) \<and>
     if_present (text_upto 64) (fc_backoff_until c)"

definition schema_admits :: "('c \<Rightarrow> condition) \<Rightarrow> 'c group_status_config \<Rightarrow> bool" where
  "schema_admits dec c \<longleftrightarrow> conditions_admitted (map dec (gc_conditions c)) \<and>
     length (gc_feeds c) \<le> 50 \<and> distinct (map fc_url (gc_feeds c)) \<and>
     list_all (feed_config_admitted dec) (gc_feeds c) \<and>
     if_present (fits 64) (gc_observed_generation c) \<and>
     if_present (\<lambda>s. chars s \<le> 128) (gc_webhook_secret_version c)"

end
