(* ===== verification/Admissible.thy ===== *)
theory Admissible
  imports Status_Schema Reconcile_Laws
begin

text \<open>
  The statuses the resource's schema admits, as an invariant of the controller: every operation on
  the status of a feed and on the conditions of the group keeps within the schema, given a clock
  before the year 10000, validators the schema admits, and the conditions API as documented.
\<close>

section \<open>Lengths\<close>

lemma chars_le: "chars s \<le> int (length s)"
  using length_runes_le [of s] by (simp add: chars_def)

lemma chars_empty [simp]: "chars [] = 0"
  by (simp add: chars_def runes_empty_iff)

lemma chars_pos: "1 \<le> chars s \<longleftrightarrow> s \<noteq> []"
proof -
  have "0 < length (runes s) \<longleftrightarrow> s \<noteq> []" using runes_empty_iff [of s] by simp
  then show ?thesis unfolding chars_def by linarith
qed

lemma chars_json [simp]: "chars (json_text s) = chars s"
  using runes_of_runes [OF runes_valid, of s] by (simp add: chars_def json_text_def)

lemma chars_clamped: "3 \<le> n \<Longrightarrow> n \<le> m \<Longrightarrow> chars (clampText s n) \<le> m"
  using chars_le [of "clampText s n"] length_clampText [of n s] by linarith

lemma chars_errText: "chars (errText e) \<le> 2048"
  using chars_le [of "errText e"] length_errText [of e] by linarith

lemma chars_mark: "chars (clampWatermark s) \<le> 2048"
  using chars_le [of "clampWatermark s"] length_clampWatermark [of s] by (simp add: maxStatusTextBytes_def)

lemma length_dec_digits: "n < 10 ^ Suc k \<Longrightarrow> length (dec_digits n) \<le> Suc k"
proof (induction k arbitrary: n)
  case 0
  then show ?case by (subst dec_digits.simps) simp
next
  case (Suc k)
  have "n div 10 < 10 ^ Suc k" using Suc.prems by (intro int_div_less) simp_all
  then show ?case using Suc.IH [of "n div 10"] by (subst dec_digits.simps) simp
qed

lemma length_pad_int: "0 \<le> n \<Longrightarrow> n < 10 ^ Suc k \<Longrightarrow> length (pad_int w n) \<le> max w (Suc k)"
  using length_dec_digits [of n k] by (simp add: pad_int_def)

lemma length_itoa: "0 \<le> n \<Longrightarrow> n < 100 \<Longrightarrow> length (itoa n) \<le> 2"
  using length_dec_digits [of n 1] by (simp add: itoa_def)

section \<open>Timestamps\<close>

text \<open>A clock between 1970 and 10000, by more than the longest backoff.\<close>

definition clock_time :: "int \<Rightarrow> bool" where
  "clock_time t \<longleftrightarrow> 0 \<le> t \<and> t + maxPermanentBackoff < 253402300800 * second"

lemma year_bounds:
  assumes "civil_from_days z = (y, m, d)" "0 \<le> z" "z < 2932897"
  shows "0 \<le> y" "y < 100000"
proof -
  define y' where "y' = (if m \<le> 2 then y - 1 else y)"
  define mp where "mp = (if 2 < m then m - 3 else m + 9)"
  define e where "e = y' div 400"
  define q where "q = y' mod 400"
  have s: "1 \<le> m" "m \<le> 12" "1 \<le> d" "d \<le> days_in m y" "days_from_civil y m d = z"
    using civil_from_days_spec [OF assms(1)] by simp_all
  have z: "z = e * 146097 + q * 365 + q div 4 - q div 100 + day_of_months mp + d - 1 - 719468"
    unfolding s(5) [symmetric] days_from_civil_def Let_def y'_def mp_def e_def q_def epoch_days_def by (rule refl)
  have y': "y' = 400 * e + q" by (simp add: e_def q_def)
  have q: "0 \<le> q" "q < 400" by (simp_all add: q_def)
  have d: "d \<le> 31" using s(4) by (simp add: days_in_def split: if_splits)
  have "0 \<le> mp" "mp \<le> 11" using s(1,2) by (simp_all add: mp_def)
  then have mo: "0 \<le> day_of_months mp" "day_of_months mp < 338"
    unfolding day_of_months_def by (intro int_div_nonneg int_div_less, simp_all)
  have c: "0 \<le> q div 4" "q div 4 < 100" "0 \<le> q div 100" "q div 100 < 4" "q div 100 \<le> q div 4"
    using q zdiv_mono2 [of q 4 100] by (simp_all add: int_div_nonneg int_div_less)
  have "0 \<le> e" using z assms(2) q(2) d mo(2) c by linarith
  then have "0 \<le> y'" using y' q(1) by linarith
  then show "0 \<le> y" by (simp add: y'_def split: if_splits)
  have "365 * y' \<le> z + 719468 + 1" using z y' mo(1) c s(3) \<open>0 \<le> e\<close> by linarith
  then have "y' < 99999" using assms(3) by linarith
  then show "y < 100000" by (simp add: y'_def split: if_splits)
qed

lemma length_format:
  assumes "0 \<le> t" "t < 253402300800 * second"
  shows "chars (format_rfc3339 t) \<le> 64"
proof -
  define s where "s = unix t"
  have s: "0 \<le> s" "s < 253402300800"
    using assms by (auto simp: s_def unix_def second_def int_div_nonneg int_div_less)
  obtain y m d where c: "civil_date t = (y, m, d)" by (metis prod_cases3)
  have z: "0 \<le> s div day_seconds" "s div day_seconds < 2932897"
    using s unfolding day_seconds_def by (intro int_div_nonneg int_div_less, simp_all)
  have cv: "civil_from_days (s div day_seconds) = (y, m, d)" using c by (simp add: civil_date_def s_def)
  note y = year_bounds [OF cv z]
  have md: "0 \<le> m" "m < 100" "0 \<le> d" "d < 100"
    using civil_from_days_spec [OF cv] by (auto simp: days_in_def split: if_splits)
  define r where "r = s mod day_seconds"
  have "0 \<le> r" "r < 86400" by (simp_all add: r_def day_seconds_def)
  note h = sod_split [OF this]
  have p2: "length (pad_int 2 n) \<le> 2" if "0 \<le> n" "n < 100" for n
    using length_pad_int [of n 1 2] that by simp
  have f: "format_rfc3339 t = pad_int 4 y @ ''-'' @ pad_int 2 m @ ''-'' @ pad_int 2 d @ ''T'' @ pad_int 2 (r div 3600)
      @ '':'' @ pad_int 2 (r mod 3600 div 60) @ '':'' @ pad_int 2 (r mod 60) @ ''Z''"
    by (simp only: format_rfc3339_def c Let_def r_def s_def prod.case)
  have "length (pad_int 4 y) \<le> 5" using length_pad_int [of y 4 4] y by simp
  moreover have "r div 3600 < 100" "r mod 3600 div 60 < 100" "r mod 60 < 100" using h(2,4,6) by linarith+
  note p2 [OF md(1,2)] p2 [OF md(3,4)] p2 [OF h(1) this(1)] p2 [OF h(3) this(2)] p2 [OF h(5) this(3)]
  ultimately have "length (format_rfc3339 t) \<le> 64"
    unfolding f length_append by simp
  then show ?thesis using chars_le [of "format_rfc3339 t"] by linarith
qed

lemma chars_timestamp:
  "clock_time t \<Longrightarrow> chars (format_rfc3339 t) \<le> 64"
  "clock_time t \<Longrightarrow> 0 \<le> d \<Longrightarrow> d \<le> maxPermanentBackoff \<Longrightarrow> chars (format_rfc3339 (t + d)) \<le> 64"
  by (rule length_format; simp add: clock_time_def max_backoff_val)+

section \<open>Conditions\<close>

text \<open>What the package promises of the slice itself: setting a condition replaces the one of its type
  in place or appends it, and a lookup returns an element.\<close>

definition condition_slices :: "condition_api \<Rightarrow> bool" where
  "condition_slices K \<longleftrightarrow>
     (\<forall>cs c. map cond_type (fst (set_cond K cs c)) =
        (if cond_type c \<in> set (map cond_type cs) then map cond_type cs else map cond_type cs @ [cond_type c])) \<and>
     (\<forall>cs c. \<forall>x \<in> set (fst (set_cond K cs c)). x \<in> set cs \<or> same_condition x c) \<and>
     (\<forall>cs t x. find_cond K cs t = Some x \<longrightarrow> x \<in> set cs)"

lemma list_conditions_slices: "condition_slices (list_conditions now)"
proof -
  have "map cond_type (fst (list_set_cond now cs c)) =
      (if cond_type c \<in> set (map cond_type cs) then map cond_type cs else map cond_type cs @ [cond_type c])" for cs c
    by (induction cs) (auto split: prod.splits)
  moreover have "\<forall>x \<in> set (fst (list_set_cond now cs c)). x \<in> set cs \<or> same_condition x c" for cs c
    by (induction cs) (auto simp: same_condition_def split: prod.splits)
  moreover have "list_find_cond cs t = Some x \<longrightarrow> x \<in> set cs" for cs t x
    by (induction cs) auto
  ultimately show ?thesis by (simp add: condition_slices_def list_conditions_def)
qed

definition reason_ok :: "string \<Rightarrow> bool" where
  "reason_ok r \<longleftrightarrow> plain_text r \<and> reason_pattern r \<and> length r \<le> 1024"

definition generation_ok :: "int \<Rightarrow> bool" where
  "generation_ok n \<longleftrightarrow> 0 \<le> n \<and> fits 64 n"

definition condition_ok :: "condition \<Rightarrow> bool" where
  "condition_ok c \<longleftrightarrow> reason_ok (cond_reason c) \<and> chars (cond_message c) \<le> 32768 \<and> generation_ok (cond_generation c)"

definition conditions_ok :: "string set \<Rightarrow> condition list \<Rightarrow> bool" where
  "conditions_ok T cs \<longleftrightarrow> distinct (map cond_type cs) \<and> set (map cond_type cs) \<subseteq> T \<and> list_all condition_ok cs"

abbreviation feed_types :: "string set" where
  "feed_types \<equiv> {FeedConditionTypeReachable, FeedConditionTypeDelivered}"

abbreviation group_types :: "string set" where
  "group_types \<equiv> {ConditionTypeReady, ConditionTypeFeedReachable}"

lemma conditions_ok_set:
  assumes "condition_slices K" "conditions_ok T cs" "condition_ok c" "cond_type c \<in> T"
  shows "conditions_ok T (fst (set_cond K cs c))"
proof -
  have types: "map cond_type (fst (set_cond K cs c)) =
      (if cond_type c \<in> set (map cond_type cs) then map cond_type cs else map cond_type cs @ [cond_type c])"
    and elems: "\<And>x. x \<in> set (fst (set_cond K cs c)) \<Longrightarrow> x \<in> set cs \<or> same_condition x c"
    using assms(1) unfolding condition_slices_def by blast+
  have "condition_ok x" if "same_condition x c" for x
    using that assms(3) by (simp add: same_condition_def condition_ok_def)
  then have "list_all condition_ok (fst (set_cond K cs c))"
    using elems assms(2) by (auto simp: list_all_iff conditions_ok_def)
  then show ?thesis using assms(2,4) unfolding conditions_ok_def types by auto
qed

lemma conditions_ok_find:
  "condition_slices K \<Longrightarrow> conditions_ok T cs \<Longrightarrow> find_cond K cs t = Some c \<Longrightarrow> condition_ok c"
  unfolding condition_slices_def conditions_ok_def list_all_iff by blast

lemma types_admitted:
  assumes "t \<in> feed_types \<union> group_types"
  shows "chars t \<le> 316 \<and> type_pattern t \<and> plain_text t"
proof -
  have "list_all (\<lambda>t. chars t \<le> 316 \<and> type_pattern t \<and> plain_text t) [''Reachable'', ''Delivered'', ''Ready'', ''FeedReachable'']"
    by code_simp
  then show ?thesis using assms unfolding condition_types by (simp only: list.pred_inject) auto
qed

lemma condition_stored:
  assumes "condition_ok c" "cond_type c \<in> feed_types \<union> group_types"
  shows "condition_admitted (stored_condition c)" "condition_ok (stored_condition c)"
    "cond_type (stored_condition c) = cond_type c"
proof -
  have "chars (cond_reason c) \<le> 1024" "1 \<le> chars (cond_reason c)"
    using assms(1) chars_le [of "cond_reason c"] unfolding chars_pos
    by (auto simp: condition_ok_def reason_ok_def reason_pattern_def framed_def)
  then show "condition_admitted (stored_condition c)" "condition_ok (stored_condition c)"
    "cond_type (stored_condition c) = cond_type c"
    using assms(1) types_admitted [OF assms(2)]
    by (simp_all add: condition_admitted_def condition_ok_def reason_ok_def stored_condition_def generation_ok_def
        plain_text_def text_upto_def)
qed

lemma conditions_stored:
  assumes "conditions_ok T cs" "T = feed_types \<or> T = group_types"
  shows "conditions_admitted (map stored_condition cs)" "conditions_ok T (map stored_condition cs)"
proof -
  have c: "condition_ok c" "cond_type c \<in> feed_types \<union> group_types" if "c \<in> set cs" for c
    using that assms by (auto simp: conditions_ok_def list_all_iff)
  have types: "map cond_type (map stored_condition cs) = map cond_type cs"
    using condition_stored(3) [OF c] by simp
  have "card (set (map cond_type cs)) \<le> card T"
    using assms by (intro card_mono) (auto simp: conditions_ok_def)
  also have "card T \<le> 2" using assms(2) by (auto simp: card_insert_if)
  finally have "length cs \<le> 2"
    using assms(1) distinct_card [of "map cond_type cs"] by (simp add: conditions_ok_def)
  then show "conditions_admitted (map stored_condition cs)" "conditions_ok T (map stored_condition cs)"
    using assms(1) condition_stored [OF c]
    unfolding conditions_admitted_def conditions_ok_def types by (auto simp: list_all_iff)
qed

section \<open>The invariant\<close>

definition feed_ok :: "feed_status \<Rightarrow> bool" where
  "feed_ok fs \<longleftrightarrow> conditions_ok feed_types (conditions fs) \<and>
     text_upto 2048 (fs_url fs) \<and> plain_text (fs_url fs) \<and> chars (last_checked fs) \<le> 64 \<and>
     fits 32 (state_version fs) \<and> 0 \<le> state_version fs \<and> chars (last_seen_entry fs) \<le> 2048 \<and>
     chars (last_error fs) \<le> 2048 \<and> chars (etag fs) \<le> 256 \<and> chars (last_modified fs) \<le> 64 \<and>
     fits 32 (retry_count fs) \<and> chars (backoff_until fs) \<le> 64"

definition status_ok :: "feed_group_status \<Rightarrow> bool" where
  "status_ok s \<longleftrightarrow> conditions_ok group_types (gs_conditions s) \<and> length (gs_feeds s) \<le> 50 \<and>
     distinct (map fs_url (gs_feeds s)) \<and> list_all feed_ok (gs_feeds s) \<and>
     fits 64 (observed_generation s) \<and> chars (webhook_secret_version s) \<le> 128"

lemma present_text: "chars s \<le> n \<Longrightarrow> if_present (text_upto n) (nonzero (s = []) (json_text s))"
  by (simp add: if_present_def nonzero_def text_upto_def chars_pos json_text_empty)

lemma present_secret: "chars s \<le> n \<Longrightarrow> if_present (\<lambda>s. chars s \<le> n) (nonzero (s = []) (json_text s))"
  by (simp add: if_present_def nonzero_def)

lemma present_number: "P n \<Longrightarrow> if_present P (nonzero (n = 0) n)"
  by (simp add: if_present_def nonzero_def)

lemma feed_ok_admitted:
  assumes "feed_ok fs" "\<And>c. dec (conv c) = stored_condition c"
  shows "feed_config_admitted dec (feed_config conv fs)"
proof -
  have "dec \<circ> conv = stored_condition" using assms(2) by auto
  then show ?thesis
    using assms(1) conditions_stored(1) [of feed_types "conditions fs"]
    by (simp add: feed_config_admitted_def feed_config_def Let_def feed_ok_def present_text present_number
        plain_text_def)
qed

text \<open>A status within the invariant is written, and the schema admits what is written.\<close>

lemma status_ok_admitted:
  assumes "condition_codec L dec" "status_ok s"
  shows "\<exists>c. statusApplyConfiguration L s = Inr c \<and> schema_admits dec c"
proof -
  obtain conv where conv: "\<And>c. jc_read L (jc_write L c) = Inr (conv c)" "\<And>c. dec (conv c) = stored_condition c"
    using assms(1) unfolding condition_codec_def by metis
  have fits: "status_fits s"
    using assms(2) by (auto simp: status_fits_def status_ok_def list_all_iff feed_ok_def)
  have "fc_url (feed_config conv fs) = Some (fs_url fs)" if "fs \<in> set (gs_feeds s)" for fs
    using assms(2) that by (auto simp: feed_config_def Let_def status_ok_def list_all_iff feed_ok_def plain_text_def)
  then have "map fc_url (map (feed_config conv) (gs_feeds s)) = map Some (map fs_url (gs_feeds s))" by simp
  moreover have "distinct (map Some (map fs_url (gs_feeds s)))"
    using assms(2) by (simp only: distinct_map [of Some] status_ok_def) (simp add: inj_on_def)
  ultimately have urls: "distinct (map fc_url (map (feed_config conv) (gs_feeds s)))" by (simp only:)
  have feeds: "list_all (feed_config_admitted dec) (map (feed_config conv) (gs_feeds s))"
    using assms(2) feed_ok_admitted [of _ dec conv, OF _ conv(2)] by (auto simp: status_ok_def list_all_iff)
  have "dec \<circ> conv = stored_condition" using conv(2) by auto
  then have "conditions_admitted (map dec (map conv (gs_conditions s)))"
    using conditions_stored(1) [of group_types "gs_conditions s"] assms(2) by (simp add: status_ok_def)
  then show ?thesis
    unfolding status_converted [OF conv(1) fits]
    using urls feeds assms(2) by (simp add: schema_admits_def status_ok_def present_number present_secret del: map_map)
qed

lemma feed_ok_stored: "feed_ok fs \<Longrightarrow> feed_ok (stored_feed fs)"
  using conditions_stored(2) [of feed_types "conditions fs"]
  by (simp add: feed_ok_def stored_feed_def text_upto_def plain_text_def)

lemma status_ok_stored: "status_ok s \<Longrightarrow> status_ok (stored s)"
proof -
  assume ok: "status_ok s"
  then have "map fs_url (map stored_feed (gs_feeds s)) = map fs_url (gs_feeds s)"
    by (auto simp: status_ok_def list_all_iff feed_ok_def stored_feed_def plain_text_def)
  then show ?thesis
    using ok conditions_stored(2) [of group_types "gs_conditions s"]
    by (simp add: status_ok_def stored_def list_all_iff feed_ok_stored del: map_map)
qed

section \<open>One feed\<close>

text \<open>The fields the schema constrains.\<close>

lemma feed_ok_cong:
  assumes "feed_ok fs" "conditions fs' = conditions fs" "fs_url fs' = fs_url fs" "last_checked fs' = last_checked fs"
    "state_version fs' = state_version fs" "last_error fs' = last_error fs" "etag fs' = etag fs"
    "last_modified fs' = last_modified fs" "retry_count fs' = retry_count fs" "backoff_until fs' = backoff_until fs"
    "chars (last_seen_entry fs') \<le> 2048"
  shows "feed_ok fs'"
  using assms by (simp add: feed_ok_def)

lemma fits_simps [simp]: "fits 32 (int32 n)" "fits 32 0" "fits 32 1" "fits 64 0"
  using int32_range [of n] by (simp_all add: fits_def)

lemma feed_ok_updates [simp]:
  "feed_ok fs \<Longrightarrow> feed_ok (run_clear fs)"
  "feed_ok fs \<Longrightarrow> feed_ok (fs\<lparr>last_error := errText e\<rparr>)"
  "feed_ok fs \<Longrightarrow> feed_ok (fs\<lparr>initialized := b\<rparr>)"
  "feed_ok fs \<Longrightarrow> feed_ok (fs\<lparr>last_sent := m\<rparr>)"
  "feed_ok fs \<Longrightarrow> feed_ok (fs\<lparr>state_version := currentStateVersion\<rparr>)"
  "feed_ok fs \<Longrightarrow> feed_ok (clearFailure fs)"
  "feed_ok fs \<Longrightarrow> feed_ok (prune_sync fs)"
  "feed_ok fs \<Longrightarrow> feed_ok (bounded_status fs)"
  "feed_ok fs \<Longrightarrow> clock_time now \<Longrightarrow> feed_ok (fs\<lparr>last_checked := format_rfc3339 now\<rparr>)"
  by (simp_all add: feed_ok_def run_clear_def chars_errText currentStateVersion_def clearFailure_def prune_sync_def
      bounded_status_def chars_mark chars_clamped maxStatusTextBytes_def chars_timestamp)

lemma feed_ok_persist:
  "feed_ok fs \<Longrightarrow> chars (fr_etag (fy_fetch s)) \<le> 256 \<Longrightarrow> chars (fr_last_modified (fy_fetch s)) \<le> 64 \<Longrightarrow>
     feed_ok (persistValidators s fs)"
  by (simp add: feed_ok_def persistValidators_def Let_def)

lemma feed_ok_run:
  "feed_ok fs \<Longrightarrow> feed_ok (fetch_succeeded K fs)"
  "feed_ok fs \<Longrightarrow> feed_ok (run_fail K p fs)"
  by (simp_all add: fetch_succeeded_def run_fail_def Let_def feed_ok_def run_clear_def)

lemma feed_ok_condition:
  assumes "feed_ok fs" "condition_slices K" "reason_ok r" "generation_ok g" "t \<in> feed_types"
  shows "feed_ok (fst (setFeedCondition K fs t st r m g))"
proof -
  have "condition_ok \<lparr>cond_type = t, cond_status = st, cond_reason = r, cond_message = clampText m maxConditionMessageBytes,
      cond_generation = g, cond_transition = zero_time\<rparr>"
    using assms(3,4) chars_clamped [of 1024 32768 m] by (simp add: condition_ok_def maxConditionMessageBytes_def)
  from conditions_ok_set [OF assms(2) _ this, of feed_types "conditions fs"]
  show ?thesis using assms(1,5) by (simp add: setFeedCondition_def feed_ok_def case_prod_beta)
qed

lemma feed_ok_extend:
  assumes "feed_ok fs" "clock_time now"
  shows "feed_ok (fst (run_extend base now fs))"
proof -
  have "0 \<le> permanentBackoffDuration n base" for n by (simp add: permanentBackoff_formula max_backoff_val)
  then have "chars (format_rfc3339 (now + (if b then maxPermanentBackoff else permanentBackoffDuration n base))) \<le> 64" for b n
    using assms(2) by (intro chars_timestamp(2)) (auto simp: permanentBackoff_formula max_backoff_val)
  then show ?thesis using assms(1) by (simp add: run_extend_def Let_def nextBackoffUntil_def feed_ok_def)
qed

subsection \<open>Outcomes\<close>

text \<open>An attempt whose parameters are within bounds.\<close>

definition attempt_ok :: "feed_attempt \<Rightarrow> bool" where
  "attempt_ok a \<longleftrightarrow> condition_slices (at_conditions a) \<and> generation_ok (at_generation a) \<and>
     clock_time (at_now a) \<and> (\<forall>n. clock_time (at_clock a n))"

definition written_reasons :: "string list" where
  "written_reasons = [''HTTP404'', ''HTTP410'', ''RateLimited'', ''ServerError'', ''ClientError'', ''Timeout'',
     ''DNSFailure'', ''ParseError'', ''UnrecognizedFormat'', ''WebhookInvalid'', ''BlockedAddress'', ''TLSError'',
     ''ResponseTooLarge'', ''InvalidURL'', ''Other'', ''RenderError'', ''FetchSucceeded'', ''MessageSent'',
     ''EntrySkipped'', ''BacklogSkipped'', ''ConfigError'', ''WebhookUnresolved'', ''ReconcilePanicked'',
     ''Reconciled'', ''FeedErrors'', ''AllFeedsReachable'']"

lemma written_ok: "list_all reason_ok written_reasons"
  by code_simp

lemmas written_simps [simp] = written_ok [unfolded written_reasons_def list.pred_inject, simplified]

lemma class_reasons:
  "reason_ok (condition_reason (classifyFetchError e))" "reason_ok (condition_reason (classifySendError e))"
proof -
  have http: "reason_ok (condition_reason (classifyHTTPStatus n))" for n
    by (simp add: classifyHTTPStatus_def class_defs)
  have net: "classifyNetworkError e = Some c \<Longrightarrow> reason_ok (condition_reason c)" for c
    by (auto simp: classifyNetworkError_def class_defs split: if_splits option.splits bool.splits)
  show "reason_ok (condition_reason (classifyFetchError e))" "reason_ok (condition_reason (classifySendError e))"
    using http net by (auto simp: classifyFetchError_def classifySendError_def class_defs split: option.split)
qed

lemma feed_ok_counted:
  "attempt_ok a \<Longrightarrow> feed_ok fs \<Longrightarrow> reason_ok (condition_reason c) \<Longrightarrow> feed_ok (counted a p c e fs)"
  unfolding counted_def attempt_ok_def by (rule feed_ok_condition) (simp_all add: feed_ok_run)

lemma feed_ok_failed:
  "attempt_ok a \<Longrightarrow> feed_ok (st_fs st) \<Longrightarrow> reason_ok (condition_reason c) \<Longrightarrow> feed_ok (st_fs (fst (failed a p c r e st)))"
  by (auto simp: feed_ok_counted intro!: feed_ok_extend) (simp add: attempt_ok_def)

lemma feed_ok_at_condition:
  "attempt_ok a \<Longrightarrow> feed_ok (st_fs st) \<Longrightarrow> reason_ok r \<Longrightarrow> t \<in> feed_types \<Longrightarrow>
     feed_ok (st_fs (fst (at_setCondition a t c r m st)))"
  unfolding attempt_ok_def by (simp add: feed_ok_condition)

lemma feed_ok_record:
  assumes "attempt_ok a" "feed_ok (st_fs st)"
  shows "feed_ok (st_fs (fst (record_outcome a outc st)))"
proof (cases outc)
  case (attemptSendFailed e)
  show ?thesis
  proof (cases "as_type rate_limit_wait e")
    case None
    then show ?thesis using assms attemptSendFailed class_reasons
      by (simp add: record_send_failed case_prod_beta feed_ok_failed del: failed_simps)
  next
    case (Some d)
    then show ?thesis using assms attemptSendFailed
      by (simp add: record_rate_limited feed_ok_condition attempt_ok_def)
  qed
next
  case attemptFetchSucceeded
  have "clock_time (at_now a)" using assms(1) by (simp add: attempt_ok_def)
  then show ?thesis using assms attemptFetchSucceeded
    by (simp add: record_fetch_succeeded feed_ok_condition attempt_ok_def feed_ok_run)
qed (use assms class_reasons in \<open>simp_all add: record_outcome_def Let_def case_prod_beta feed_ok_failed feed_ok_condition
      attempt_ok_def reasonRenderError_def no_class_def del: failed_simps\<close>)

subsection \<open>The ledger\<close>

lemma feed_ok_mark:
  assumes "ledger_for d all" "feed_ok (st_fs st)"
  shows "feed_ok (st_fs (sync_markHandled (dl_env d) (dl_syncer d) e st))"
proof -
  let ?t = "format_rfc3339 (fy_now (dl_syncer d))" and ?ks = "entry_keys (dl_env d) all e"
  obtain m where "fold (\<lambda>k. recordKey k ?t) ?ks (st_fs st) = (st_fs st)\<lparr>last_sent := m\<rparr>"
    using fold_recordKey_frame by blast
  then have "st_fs (sync_markHandled (dl_env d) (dl_syncer d) e st) =
      (st_fs st)\<lparr>last_sent := m, last_seen_entry := clampWatermark (entryIdentity (dl_env d) e)\<rparr>"
    using assms(1) by (simp add: markHandled_eq)
  then show ?thesis using assms(2) by (simp add: feed_ok_def chars_mark)
qed

lemma feed_ok_migrate:
  assumes "feed_ok fs"
  shows "feed_ok (migratePreviousIdentities (newDeliveryLedger E es) fs)"
proof -
  let ?L = "newDeliveryLedger E es"
  have "feed_ok (fold (migrate_step ?L) is fs)" if "set is \<subseteq> {..<length es}" for "is"
    using that assms
  proof (induction "is" arbitrary: fs)
    case (Cons i "is")
    then have i: "i < length es" and seen: "chars (last_seen_entry fs) \<le> 2048" by (auto simp: feed_ok_def)
    have "chars (last_seen_entry (migrate_step ?L i fs)) \<le> 2048"
      unfolding migrate_step_watermark ledger_ids_nth(1) [OF i] the_record_simps by (simp add: seen chars_mark)
    then have "feed_ok (migrate_step ?L i fs)"
      using feed_ok_cong [OF Cons.prems(2), of "migrate_step ?L i fs"] by (simp add: status_frame)
    then show ?case using Cons.IH Cons.prems(1) by simp
  qed simp
  from this [of "[0..<length es]"] show ?thesis by (simp add: migratePreviousIdentities_def ledger_ids_nth atLeast0LessThan)
qed

lemma feed_ok_begin:
  assumes "feed_ok fs" "fr_entries (fy_fetch s) \<noteq> []"
  shows "feed_ok (snd (begin_sync E s fs))"
proof -
  let ?es = "sorted_entries (fy_fetch s)"
  let ?L = "newDeliveryLedger E ?es"
  have "length ?es - 1 < length ?es" using assms(2) sorted_entries_set [of "fy_fetch s"] by (cases ?es) auto
  then have "feed_ok (markNewest ?L fs')" if "feed_ok fs'" for fs'
    using that by (simp add: markNewest_def setWatermark_def feed_ok_def ledger_ids_nth the_record_simps chars_mark)
  then show ?thesis by (simp add: begin_sync_eq(6) feed_ok_migrate assms(1))
qed

subsection \<open>The send loop\<close>

lemma feed_ok_rendered:
  assumes "renderFailed d e err st = (st1, q)" "ledger_for d all" "attempt_ok (dl_attempt d)" "feed_ok (st_fs st)"
  shows "feed_ok (st_fs st1)"
  using assms(1) by (cases rule: render_failed_cases) (simp_all add: feed_ok_record assms feed_ok_mark [OF assms(2)] del: sync_markHandled_simps)

lemma feed_ok_sent: "send_message d m st = (st1, res) \<Longrightarrow> st_fs st1 = st_fs st"
  using send_message_simps [of d m st] by simp

lemma observed_status: "st_fs (observed ov st) = st_fs st"
  by (simp add: observed_def)

lemma feed_ok_delivers:
  assumes "delivers d es st hs ps rs st' r" "ledger_for d all" "attempt_ok (dl_attempt d)"
  shows "feed_ok (st_fs st) \<Longrightarrow> feed_ok (st_fs st')"
  using assms(1)
proof (induction rule: delivers.induct)
  case (posted st e m ov st1 es hs ps rs st' r)
  then show ?case
    using feed_ok_sent [OF posted(4)]
    by (simp add: after_sent_def observed_status feed_ok_record feed_ok_mark [OF assms(2)] assms(3) del: sync_markHandled_simps)
next
  case (send_stops st e m ov st1 err st2 v es)
  then show ?case
    using feed_ok_sent [OF send_stops(4)] feed_ok_record [OF assms(3), of st1 "attemptSendFailed err"]
    by (simp add: observed_status)
next
  case (send_panics st e m ov st1 p es)
  then show ?case using feed_ok_sent [OF send_panics(4)] by (simp add: observed_status)
qed (simp_all add: feed_ok_rendered [OF _ assms(2,3)])

subsection \<open>The sync\<close>

definition fetch_ok :: "fetch_result \<Rightarrow> bool" where
  "fetch_ok r \<longleftrightarrow> chars (fr_etag r) \<le> 256 \<and> chars (fr_last_modified r) \<le> 64"

lemma feed_ok_settle: "feed_ok fs \<Longrightarrow> fetch_ok (fy_fetch s) \<Longrightarrow> feed_ok (settle_verdict s v fs)"
  by (cases v) (simp_all add: feed_ok_persist fetch_ok_def)

lemma feed_ok_close: "feed_ok (st_fs st) \<Longrightarrow> fetch_ok (fy_fetch s) \<Longrightarrow> feed_ok (st_fs (close_sync s v st))"
  by (simp add: close_sync_def feed_ok_settle)

lemma feed_ok_apply:
  assumes "attempt_ok (newAttempt run)" "fetch_ok (fy_fetch s)" "feed_ok (st_fs st)"
  shows "feed_ok (st_fs (fst (apply_sync run s st)))"
proof (cases "\<exists>rend. deliverable run rend s")
  case True
  then obtain rend where del: "deliverable run rend s" ..
  obtain st' r where ap: "apply_sync run s st = (st', r)" by force
  let ?s = "begun_sync run s st"
  obtain hs ps rs st2 where run: "delivers (delivery_of run rend ?s) (plan_entries (fy_plan ?s)) (begun run s st) hs ps rs st2 r"
    "st' = (case r of Panicked p \<Rightarrow> st2 | Returned v \<Rightarrow> close_sync ?s (settlement v) st2)"
    by (rule apply_runs [OF del ap])
  have "fr_entries (fy_fetch s) \<noteq> []"
    using del by (auto simp: deliverable_def withoutEntries_def split: if_splits)
  then have "feed_ok (st_fs (begun run s st))"
    using assms(1,3) by (simp add: begun_def Let_def feed_ok_record feed_ok_begin checked_def)
  then have "feed_ok (st_fs st2)"
    using feed_ok_delivers [OF run(1) begun_ledger] assms(1) by simp
  moreover have "fetch_ok (fy_fetch ?s)"
    using assms(2) by (simp add: fetch_ok_def begun_sync_def begin_sync_eq)
  ultimately show ?thesis using ap run(2) by (simp add: feed_ok_settle split: result.split)
next
  case False
  then show ?thesis
    using assms by (auto simp: deliverable_def apply_sync_def Let_def case_prod_beta feed_ok_settle feed_ok_record
        split: option.splits sum.splits)
qed

lemma feed_ok_secured:
  assumes "attempt_ok a" "fetch_ok (fy_fetch s)" "feed_ok (st_fs st)" "feed_ok fs0"
  shows "feed_ok (st_fs (secureAfterPanic s fs0 a err st))"
  using assms by (simp add: secureAfterPanic_def feed_ok_close feed_ok_record)

end
