(* ===== verification/Admission.thy ===== *)
theory Admission
  imports Admissible
begin

text \<open>
  A reconcile keeps the group's status within the schema, and so does every history of
  reconciles: whatever feeds, webhooks and clocks do, no write of the controller is refused.
  The one thing asked of the feeds' servers is that their validators are not longer than the
  schema allows, because the controller stores those as they come.
\<close>

section \<open>The group\<close>

definition group_ok :: "feed_group \<Rightarrow> bool" where
  "group_ok g \<longleftrightarrow> status_ok (fg_status g) \<and> generation_ok (fg_generation g)"

lemma group_ok_status: "group_ok g \<Longrightarrow> status_ok (fg_status g)"
  by (simp add: group_ok_def)

lemma group_ok_feeds:
  assumes "group_ok g" "list_all feed_ok fss" "map fs_url fss = map fs_url (gs_feeds (fg_status g))"
  shows "group_ok (g\<lparr>fg_status := (fg_status g)\<lparr>gs_feeds := fss\<rparr>\<rparr>)"
  using assms map_eq_imp_length_eq [OF assms(3)] by (simp add: group_ok_def status_ok_def)

subsection \<open>Its conditions\<close>

lemma group_ok_condition:
  assumes "group_ok g" "condition_slices K" "reason_ok r" "chars m \<le> 32768" "t \<in> group_types"
  shows "group_ok (set_group_condition K t st r m g)"
proof -
  have "condition_ok \<lparr>cond_type = t, cond_status = st, cond_reason = r, cond_message = m,
      cond_generation = fg_generation g, cond_transition = zero_time\<rparr>"
    using assms(1,3,4) by (simp add: condition_ok_def group_ok_def)
  from conditions_ok_set [OF assms(2) _ this, of group_types "gs_conditions (fg_status g)"]
  show ?thesis using assms(1,5) by (simp add: set_group_condition_def group_ok_def status_ok_def)
qed

lemma short_message: "length s \<le> 32768 \<Longrightarrow> chars s \<le> 32768"
  using chars_le [of s] by linarith

lemma group_ok_ready:
  assumes "group_ok g" "condition_slices K"
  shows "group_ok (setReadyCondition K ge None g)"
proof -
  note set = group_ok_condition [OF assms, of _ _ ConditionTypeReady]
  have "countFailingFeeds (gs_feeds (fg_status g)) \<le> 50"
    using assms(1) le_trans [OF length_filter_le, of "gs_feeds (fg_status g)" 50 check_failed]
    by (simp add: countFailingFeeds_def group_ok_def status_ok_def)
  then have "length (itoa (int (countFailingFeeds (gs_feeds (fg_status g))))) \<le> 2" by (intro length_itoa) simp_all
  then show ?thesis
    by (auto simp: setReadyCondition_def Let_def group_reasons maxConditionMessageBytes_def chars_clamped short_message
        intro!: set split: option.split group_error.split)
qed

lemma unreachable_ok:
  assumes "condition_slices K" "list_all feed_ok fss" "distinct (map fs_url fss)"
  shows "list_all reason_ok (map snd (unreachable_reasons K fss))" "length (unreachable_reasons K fss) \<le> length fss"
proof -
  have r: "map snd (unreachable_reasons K fss) = List.map_filter (unreachable_reason K) fss"
    by (rule unreachable_reasons_are [OF assms(3)])
  have "reason_ok x" if "fs \<in> set fss" "unreachable_reason K fs = Some x" for fs x
    using that assms(2) conditions_ok_find [OF assms(1), of feed_types "conditions fs"]
    by (fastforce simp: unreachable_reason_def list_all_iff feed_ok_def condition_ok_def split: option.splits if_splits)
  then show "list_all reason_ok (map snd (unreachable_reasons K fss))"
    unfolding r by (auto simp: list_all_iff set_map_filter)
  have "length (List.map_filter (unreachable_reason K) fss) \<le> length fss"
    by (simp add: List.map_filter_def)
  then show "length (unreachable_reasons K fss) \<le> length fss" by (metis r length_map)
qed

lemma group_ok_reachable:
  assumes "group_ok g" "condition_slices K"
  shows "group_ok (setFeedReachableCondition K g)"
proof -
  let ?u = "unreachable_reasons K (gs_feeds (fg_status g))"
  note set = group_ok_condition [OF assms, of _ _ ConditionTypeFeedReachable]
  have u: "list_all reason_ok (map snd ?u)" "length ?u \<le> 50"
    using unreachable_ok [OF assms(2), of "gs_feeds (fg_status g)"] assms(1) by (auto simp: group_ok_def status_ok_def)
  show ?thesis
  proof (cases "?u = []")
    case True
    then show ?thesis
      by (auto simp: setFeedReachableCondition_def group_reasons short_message intro!: set)
  next
    case False
    then have r: "reason_ok (dominantErrorReason (map snd ?u))"
      using dominant_reason [of "map snd ?u"] u(1) by (auto simp: list_all_iff)
    have "length (itoa (int (length ?u))) \<le> 2" using u(2) by (intro length_itoa) simp_all
    moreover have "length (dominantErrorReason (map snd ?u)) \<le> 1024" using r by (simp add: reason_ok_def)
    ultimately show ?thesis using False r
      by (auto simp: setFeedReachableCondition_def Let_def short_message intro!: set)
  qed
qed

lemma group_ok_summary:
  "group_ok g \<Longrightarrow> condition_slices K \<Longrightarrow> cadence_err cad = None \<Longrightarrow> group_ok (fst (summarizeGroup K cad ge g))"
  by (simp add: summarizeGroup_def Let_def case_prod_beta group_ok_ready group_ok_reachable)

subsection \<open>Its preparation\<close>

lemma new_feed_ok: "text_upto 2048 url \<Longrightarrow> plain_text url \<Longrightarrow> feed_ok (new_feed_status url)"
  by (simp add: feed_ok_def new_feed_status_def conditions_ok_def)

text \<open>The texts of a spec came from the API server: they are UTF-8.\<close>

definition read_from_api :: "feed_group \<Rightarrow> bool" where
  "read_from_api g \<longleftrightarrow> spec_admitted (fg_spec g) \<and> generation_ok (fg_generation g) \<and>
     list_all (\<lambda>feed. plain_text (rss_url feed)) (sp_feeds (fg_spec g))"

lemma run_clear_url: "fs_url (run_clear fs) = fs_url fs"
  by (simp add: run_clear_def)

lemma group_ok_prepared:
  assumes "read_from_api g0" "status_ok (fg_status g0)" "prepareStatus g0 = (g, prep)"
  shows "group_ok g" "fg_spec g = fg_spec g0"
proof -
  let ?feeds = "sp_feeds (fg_spec g0)" and ?m = "existing_status (gs_feeds (fg_status g0))"
  have spec: "distinct (map rss_url ?feeds)" "length ?feeds \<le> 50" "generation_ok (fg_generation g0)"
    "\<And>feed. feed \<in> set ?feeds \<Longrightarrow> text_upto 2048 (rss_url feed) \<and> plain_text (rss_url feed)"
    using assms(1) by (auto simp: read_from_api_def spec_admitted_def list_all_iff feed_admitted_def)
  have known: "feed_ok fs" if "?m url = Some fs" for url fs
  proof -
    have "(url, fs) \<in> set (rev (map (\<lambda>fs. (fs_url fs, fs)) (gs_feeds (fg_status g0))))"
      using that unfolding existing_status_def by (rule map_of_SomeD)
    then show ?thesis using assms(2) by (auto simp: status_ok_def list_all_iff)
  qed
  have entry: "feed_ok (entry_of ?m (rss_url feed))" if "feed \<in> set ?feeds" for feed
    using known spec(4) [OF that] by (simp add: entry_of_def new_feed_ok split: option.split)
  have url: "fs_url (entry_of ?m u) = u" for u
    by (rule entry_of_url) (rule existing_status_url)
  define g1 where "g1 = g0\<lparr>fg_status := (fg_status g0)\<lparr>gs_feeds := map (\<lambda>feed. entry_of ?m (rss_url feed)) ?feeds\<rparr>\<rparr>"
  have g1: "fst (ensureFeedStatuses g0) = g1"
    by (simp add: ensureFeedStatuses_def Let_def case_prod_beta rebuild_entries [OF spec(1)] g1_def)
  have ok: "group_ok g1"
    using assms(2) spec entry url by (simp add: g1_def group_ok_def status_ok_def list_all_iff comp_def)
  have "group_ok (clearPermanentBackoffs g1)"
    unfolding clearPermanentBackoffs_def
    using ok by (intro group_ok_feeds) (auto simp: group_ok_def status_ok_def list_all_iff run_clear_url)
  then show "group_ok g"
    using assms(3) ok g1 by (auto simp: prepareStatus_def case_prod_beta Let_def split: if_splits)
  show "fg_spec g = fg_spec g0"
    using prepare_view(1) [OF spec(1) assms(3)] by (simp add: group_view_def)
qed

subsection \<open>The webhook Secret's version\<close>

lemma group_ok_secret:
  assumes "group_ok g" "chars v \<le> 128"
  shows "group_ok (noteWebhookSecretVersion K v g)"
proof -
  define g1 where "g1 = g\<lparr>fg_status := (fg_status g)\<lparr>webhook_secret_version := v\<rparr>\<rparr>"
  have g1: "group_ok g1" using assms by (simp add: g1_def group_ok_def status_ok_def)
  have "group_ok (clearSendBackoffs K g1)"
    unfolding clearSendBackoffs_def Let_def
    using g1 by (intro group_ok_feeds) (auto simp: group_ok_def status_ok_def list_all_iff run_clear_url)
  then show ?thesis using g1 by (simp add: noteWebhookSecretVersion_def Let_def g1_def)
qed

section \<open>The pass\<close>

text \<open>What a reconcile is run with: the conditions API as documented, clocks of this age, a Secret
  with a resource version, and a fetcher whose validators are as short as those it was given.\<close>

definition admissible_env :: "('m, 's) reconciler \<Rightarrow> bool" where
  "admissible_env R \<longleftrightarrow> condition_slices (rr_conditions R) \<and> clock_time (rr_now R) \<and> (\<forall>n. clock_time (rr_clock R n)) \<and>
     (\<forall>ns n w. case fst (rr_secret R ns n w) of Inl e \<Rightarrow> True | Inr secret \<Rightarrow> chars (ws_version secret) \<le> 128) \<and>
     (\<forall>i url e m. chars e \<le> 256 \<longrightarrow> chars m \<le> 64 \<longrightarrow> fetch_ok (fo_result (rr_fetch R i url e m)))"

lemma list_all_put: "list_all P xs \<Longrightarrow> P fs \<Longrightarrow> list_all P (put_status url fs xs)"
  by (induction xs) auto

lemma list_all_for: "list_all P xs \<Longrightarrow> feed_status_for xs url = Some fs \<Longrightarrow> P fs"
  by (induction xs) (auto split: if_splits)

lemma group_ok_process:
  assumes "admissible_env R" "group_ok (ps_group ps)" "fetch_ok (fo_result fetched)"
    and step: "processFeed stack (run_of R u cad (ps_group ps) feed fetched) ps = (ps', r)"
  shows "group_ok (ps_group ps')"
proof -
  let ?run = "run_of R u cad (ps_group ps) feed fetched" and ?url = "rss_url feed"
  have run: "fn_feed ?run = feed" "fn_fetched ?run = fetched" by (simp_all add: run_of_def)
  have att: "attempt_ok (newAttempt ?run)"
    using assms(1,2) by (simp add: attempt_ok_def newAttempt_def run_of_def admissible_env_def group_ok_def)
  show ?thesis
  proof (cases "feed_status_for (statuses ps) ?url")
    case None
    then show ?thesis using step assms(2) by (simp add: processFeed_def Let_def run)
  next
    case (Some fs)
    let ?s = "openFeedSync fs (fo_result fetched) (feedSyncSpecFor (fn_group ?run) (fn_now ?run))"
    have fs: "feed_ok fs"
      using assms(2) list_all_for [OF _ Some, of feed_ok] by (simp add: group_ok_def status_ok_def)
    have s: "fetch_ok (fy_fetch ?s)" using assms(3) by (simp add: openFeedSync_def)
    obtain st res where ap: "apply_sync ?run ?s (sync_state_of fs ps) = (st, res)" by force
    have st: "feed_ok (st_fs st)"
      using feed_ok_apply [OF att s, of "sync_state_of fs ps"] ap fs by (simp add: sync_state_of_def)
    obtain st2 where st2: "feed_ok (st_fs st2)" "ps' = write_back ?url st2 ps"
      using step Some ap st feed_ok_secured [OF att s st fs]
      by (auto simp: processFeed_def Let_def run split: result.splits)
    have "map fs_url (statuses ps') = map fs_url (statuses ps)" by (rule processFeed_frame(2) [OF step])
    then show ?thesis
      using assms(2) st2 list_all_put [of feed_ok "statuses ps" "st_fs st2" ?url]
      by (simp add: write_back_def Let_def) (intro group_ok_feeds, simp_all add: group_ok_def status_ok_def)
  qed
qed

lemma group_ok_loop:
  assumes "admissible_env R"
  shows "pass_loop R u cad items v ps = (ps', r) \<Longrightarrow> group_ok (ps_group ps) \<Longrightarrow>
    list_all (\<lambda>i. fetch_ok (fo_result (snd i))) items \<Longrightarrow> group_ok (ps_group ps')"
proof (induction items arbitrary: v ps)
  case (Cons item items)
  obtain feed fetched where item: "item = (feed, fetched)" by force
  obtain ps1 r1 where step: "processFeed (rr_stack R) (run_of R u cad (ps_group ps) feed fetched) ps = (ps1, r1)" by force
  have ok: "group_ok (ps_group ps1)"
    using group_ok_process [OF assms Cons.prems(2) _ step] Cons.prems(3) item by simp
  show ?case
  proof (cases "0 < v_retry_after v")
    case True
    then show ?thesis using Cons.prems item by simp
  next
    case False
    then show ?thesis using Cons.prems(1,3) item step ok Cons.IH [of _ ps1] by (cases r1) auto
  qed
qed simp

lemma fetched_ok:
  assumes "admissible_env R" "list_all feed_ok fss"
  shows "fetch_from (rr_fetch R) fss i feeds = Some outs \<Longrightarrow> list_all (\<lambda>o'. fetch_ok (fo_result o')) outs"
proof (induction feeds arbitrary: i outs)
  case (Cons feed feeds)
  obtain fs rest where fs: "feed_status_for fss (rss_url feed) = Some fs" "fetch_from (rr_fetch R) fss (Suc i) feeds = Some rest"
    "outs = rr_fetch R i (rss_url feed) (etag fs) (last_modified fs) # rest"
    using Cons.prems by (auto split: option.splits)
  have "feed_ok fs" by (rule list_all_for [OF assms(2) fs(1)])
  then have "fetch_ok (fo_result (rr_fetch R i (rss_url feed) (etag fs) (last_modified fs)))"
    using assms(1) by (simp add: admissible_env_def feed_ok_def)
  then show ?case using Cons.IH [OF fs(2)] fs(3) by simp
qed simp

lemma group_ok_pass:
  assumes "admissible_env R" "group_ok (ps_group ps)" "reconcilePass R u cad force ps = (ps', r)"
  shows "group_ok (ps_group ps')"
proof (cases "fetchAll (rr_fetch R) (ps_group ps) (plan_active (planFeeds (ps_group ps) cad (rr_now R) force))")
  case None
  then show ?thesis using assms(2,3) by (simp add: reconcilePass_def Let_def)
next
  case (Some outs)
  let ?items = "zip (plan_active (planFeeds (ps_group ps) cad (rr_now R) force)) outs"
  have "list_all feed_ok (statuses ps)" using assms(2) by (simp add: group_ok_def status_ok_def)
  from fetched_ok [OF assms(1) this] Some have "list_all (\<lambda>o'. fetch_ok (fo_result o')) outs"
    by (simp add: fetchAll_def)
  then have items: "list_all (\<lambda>i. fetch_ok (fo_result (snd i))) ?items"
    by (auto simp: list_all_iff dest: set_zip_rightD)
  obtain ps1 r1 where loop: "pass_loop R u cad ?items no_verdict ps = (ps1, r1)" by force
  then have "ps' = ps1" using assms(3) Some by (auto simp: reconcilePass_def Let_def split: process_result.splits)
  then show ?thesis using group_ok_loop [OF assms(1) loop assms(2) items] by simp
qed

section \<open>The reconcile\<close>

lemma admitted_interval:
  "absent_or (interval_admitted least) s \<Longrightarrow> snd (parseDurationWithDefault p s fallback) = None"
  by (auto simp: absent_or_def interval_admitted_def parseDurationWithDefault_def split: sum.splits)

lemma admitted_cadence: "spec_admitted spec \<Longrightarrow> cadence_err (cadenceOf p spec) = None"
  using admitted_interval [of minute "sp_interval spec" p fallbackInterval]
    admitted_interval [of "10 * second" "sp_retry_interval spec" p fallbackRetryInterval]
  by (simp add: cadenceOf_def case_prod_beta spec_admitted_def)

text \<open>Every status handed to the API server so far is within the invariant.\<close>

definition applied_ok :: "('m, 's) reconcile_state \<Rightarrow> bool" where
  "applied_ok st \<longleftrightarrow> (\<forall>g. StatusApplied g \<in> set (rc_events st) \<longrightarrow> group_ok g)"

lemma settle_ok:
  assumes "settle R original cad decision ge through st = (st', r)"
    and "condition_slices (rr_conditions R)" "group_ok (rc_group st)" "applied_ok st" "cadence_err cad = None"
  shows "applied_ok st'"
proof -
  define g0 where "g0 = (if through then observe_generation (rc_group st) else rc_group st)"
  define g where "g = fst (summarizeGroup (rr_conditions R) cad ge g0)"
  have "group_ok g0" using assms(3) by (simp add: g0_def observe_generation_def group_ok_def status_ok_def generation_ok_def)
  then have g: "group_ok g" unfolding g_def by (rule group_ok_summary [OF _ assms(2,5)])
  have "h = g" if "StatusApplied h \<in> set (rc_events st')" "StatusApplied h \<notin> set (rc_events st)" for h
    using assms(1) that unfolding settle_def Let_def g_def g0_def
    by (auto simp: case_prod_beta split: if_splits option.splits)
  then show ?thesis using g assms(4) unfolding applied_ok_def by blast
qed

lemma webhook_ok:
  assumes "webhook R st = (st', res)" "admissible_env R" "group_ok (rc_group st)"
  shows "group_ok (rc_group st')" "rc_events st' = rc_events st"
proof -
  let ?secret = "rr_secret R (fg_namespace (rc_group st)) (webhook_secret_name (fg_spec (rc_group st))) (ps_world (rc_pass st))"
  have "group_ok (noteWebhookSecretVersion K (ws_version secret) (rc_group st))" if "fst ?secret = Inr secret" for K secret
    using assms(2,3) that unfolding admissible_env_def by (intro group_ok_secret) (auto split: sum.splits)
  then show "group_ok (rc_group st')" "rc_events st' = rc_events st"
    using assms(1,3)
    by (auto simp: webhook_def Let_def case_prod_beta rc_group_def on_group_def split: sum.splits option.splits if_splits)
qed

text \<open>The three ways through a reconcile from its preparation on.\<close>

lemma prepared_cases:
  assumes "reconcile_prepared R prep st = (st', res)"
  obtains (unresolved) st1 err decision ge q where "webhook R st = (st1, Inl err)"
      "settle R (prep_snapshot prep) (cadenceOf (env_print (rr_env R)) (fg_spec (rc_group st))) decision ge True st1 = (st', q)"
  | (passed) st1 u ps r decision ge through q where "webhook R st = (st1, Inr u)"
      "reconcilePass R u (cadenceOf (env_print (rr_env R)) (fg_spec (rc_group st))) (prep_specChanged prep) (rc_pass st1) = (ps, r)"
      "settle R (prep_snapshot prep) (cadenceOf (env_print (rr_env R)) (fg_spec (rc_group st))) decision ge through
         (st1\<lparr>rc_pass := ps\<rparr>) = (st', q)"
  | (crashed) st1 u ps p where "webhook R st = (st1, Inr u)"
      "reconcilePass R u (cadenceOf (env_print (rr_env R)) (fg_spec (rc_group st))) (prep_specChanged prep) (rc_pass st1) = (ps, Crashed p)"
      "st' = st1\<lparr>rc_pass := ps\<rparr>"
proof -
  let ?cad = "cadenceOf (env_print (rr_env R)) (fg_spec (rc_group st))"
  obtain st1 w where web: "webhook R st = (st1, w)" by force
  show thesis
  proof (cases w)
    case (Inl err)
    obtain st2 q where s: "settle R (prep_snapshot prep) ?cad (retryRequeue ?cad) (Some (WebhookError err)) True st1 = (st2, q)"
      by force
    then have "st' = st2" using assms web Inl by (simp add: reconcile_prepared_def settled_def settleGroup_def)
    then show thesis using unresolved web Inl s by blast
  next
    case (Inr u)
    obtain ps r where pass: "reconcilePass R u ?cad (prep_specChanged prep) (rc_pass st1) = (ps, r)" by force
    show thesis
    proof (cases r)
      case (Processed vp)
      obtain vd plan where vp: "vp = (vd, plan)" by force
      obtain st2 q where s: "settle R (prep_snapshot prep) ?cad (plan_requeue plan ?cad (v_retry vd) (v_retry_after vd)) None True
          (st1\<lparr>rc_pass := ps\<rparr>) = (st2, q)" by force
      then have "st' = st2" using assms web Inr pass Processed vp
        by (simp add: reconcile_prepared_def settled_def settleGroup_def)
      then show thesis using passed web Inr pass s by blast
    next
      case (FeedPanicked p)
      obtain st2 q where s: "settle R (prep_snapshot prep) ?cad (retryRequeue ?cad) (Some (PassPanicked p)) False
          (st1\<lparr>rc_pass := ps\<rparr>) = (st2, q)" by force
      then have "st' = st2" using assms web Inr pass FeedPanicked
        by (auto simp: reconcile_prepared_def split: sum.splits)
      then show thesis using passed web Inr pass s by blast
    next
      case (Crashed p)
      then have "st' = st1\<lparr>rc_pass := ps\<rparr>" using assms web Inr pass by (simp add: reconcile_prepared_def)
      then show thesis using crashed web Inr pass Crashed by blast
    qed
  qed
qed

lemma prepared_ok:
  assumes "reconcile_prepared R prep st = (st', res)" "admissible_env R" "group_ok (rc_group st)" "applied_ok st"
    and spec: "spec_admitted (fg_spec (rc_group st))"
  shows "applied_ok st'"
proof -
  have K: "condition_slices (rr_conditions R)" using assms(2) by (simp add: admissible_env_def)
  note settle = settle_ok [OF _ K _ _ admitted_cadence [OF spec]]
  have st1: "group_ok (rc_group st1) \<and> applied_ok st1" if "webhook R st = (st1, w)" for st1 w
    using webhook_ok [OF that assms(2,3)] assms(4) by (simp add: applied_ok_def)
  have pass: "group_ok (rc_group (st1\<lparr>rc_pass := ps\<rparr>)) \<and> applied_ok (st1\<lparr>rc_pass := ps\<rparr>)"
    if "webhook R st = (st1, w)" "reconcilePass R u cad force (rc_pass st1) = (ps, r)" for st1 w u cad force ps r
    using group_ok_pass [OF assms(2) _ that(2)] st1 [OF that(1)] by (simp add: rc_group_def applied_ok_def)
  show ?thesis
    using assms(1)
  proof (cases rule: prepared_cases)
    case (unresolved s1 err decision ge q)
    show ?thesis by (rule settle [OF unresolved(2)]) (use st1 [OF unresolved(1)] in blast)+
  next
    case (passed s1 u ps r decision ge through q)
    show ?thesis by (rule settle [OF passed(3)]) (use pass [OF passed(1,2)] in blast)+
  next
    case (crashed s1 u ps p)
    then show ?thesis using pass [OF crashed(1,2)] by simp
  qed
qed

lemma reconcile_ok:
  assumes "Reconcile R w = ((log, evs, w2), res)" "rr_get R w = (Inr g0, w1)" "admissible_env R" "read_from_api g0"
    and "status_ok (fg_status g0)" "StatusApplied g \<in> set evs"
  shows "group_ok g"
proof -
  obtain g1 prep where prep: "prepareStatus g0 = (g1, prep)" by force
  note g1 = group_ok_prepared [OF assms(4,5) prep]
  let ?st = "\<lparr>rc_pass = \<lparr>ps_group = g1, ps_log = [], ps_ticks = 0, ps_world = w1\<rparr>, rc_events = map FeedForgotten (prep_pruned prep)\<rparr>"
  obtain st q where run: "reconcile_prepared R prep ?st = (st, q)" by force
  have "applied_ok st"
    using prepared_ok [OF run assms(3)] g1 assms(4) by (auto simp: rc_group_def applied_ok_def read_from_api_def)
  moreover have "StatusApplied g \<in> set (rc_events st)"
    using assms(1,2,6) prep run by (auto simp: Reconcile_def case_prod_beta)
  ultimately show ?thesis by (simp add: applied_ok_def)
qed

section \<open>Histories\<close>

text \<open>A reconcile reads \<open>g0\<close> and hands \<open>g\<close> to the API server.\<close>

definition writes :: "('m, 's) reconciler \<Rightarrow> 's \<Rightarrow> feed_group \<Rightarrow> feed_group \<Rightarrow> bool" where
  "writes R w g0 g \<longleftrightarrow> fst (rr_get R w) = Inr g0 \<and> read_from_api g0 \<and>
     StatusApplied g \<in> set (fst (snd (fst (Reconcile R w))))"

text \<open>The statuses a group can have on the API server: none at first, and then what a reconcile,
  run with what \<open>P\<close> says, writes on a spec the schema admits, which may be another one each time.\<close>

definition no_status :: feed_group_status where
  "no_status = \<lparr>gs_conditions = [], gs_feeds = [], observed_generation = 0, webhook_secret_version = []\<rparr>"

inductive served :: "(('m, 's) reconciler \<Rightarrow> bool) \<Rightarrow> feed_group_status \<Rightarrow> bool" for P where
  fresh: "served P no_status"
| written: "served P (fg_status g0) \<Longrightarrow> P R \<Longrightarrow> writes R w g0 g \<Longrightarrow> served P (stored (fg_status g))"

lemma writes_ok:
  assumes "writes R w g0 g" "admissible_env R" "status_ok (fg_status g0)"
  shows "group_ok g"
proof -
  obtain log evs w2 res where r: "Reconcile R w = ((log, evs, w2), res)" by (metis prod.exhaust)
  obtain w1 where "rr_get R w = (Inr g0, w1)" using assms(1) by (metis writes_def prod.collapse)
  from reconcile_ok [OF r this assms(2) _ assms(3)] show ?thesis using assms(1) r by (simp add: writes_def)
qed

lemma served_ok: "served admissible_env s \<Longrightarrow> status_ok s"
proof (induction rule: served.induct)
  case fresh
  then show ?case by (simp add: no_status_def status_ok_def conditions_ok_def)
next
  case (written g0 R w g)
  have "group_ok g" by (rule writes_ok [OF written(3,2) written.IH])
  then show ?case by (intro status_ok_stored group_ok_status)
qed

text \<open>C10: No write of the controller is ever refused for its contents: whatever has happened to a group so
  far, on whatever specs, the status any reconcile hands to the API server is converted without an
  error and the resource's schema admits it: every text is within its length, every condition
  has a well-formed type and reason and occurs once, there is one entry per feed and every
  number fits its type.  The servers of the feeds are asked for one thing only, validators no
  longer than the schema allows (\<open>long_etag_refused\<close> shows that without it the write is refused).\<close>

theorem written_status_admitted:
  assumes "served admissible_env (fg_status g0)" "admissible_env R" "writes R w g0 g" "condition_codec L dec"
  shows "\<exists>c. statusApplyConfiguration L (fg_status g) = Inr c \<and> schema_admits dec c"
  by (rule status_ok_admitted [OF assms(4) group_ok_status [OF writes_ok [OF assms(3,2) served_ok [OF assms(1)]]]])

section \<open>Examples\<close>

definition fresh_group :: feed_group where
  "fresh_group = (example_group [example_feed ''https://a'', example_feed ''https://b''] [])\<lparr>fg_status := no_status\<rparr>"

definition fresh_reconciler :: "(string, unit) reconciler" where
  "fresh_reconciler = example_reconciler\<lparr>rr_get := \<lambda>w. (Inr fresh_group, w)\<rparr>"

definition write_admitted :: "reconcile_event \<Rightarrow> bool" where
  "write_admitted ev = (case ev of
     StatusApplied g \<Rightarrow> (case statusApplyConfiguration list_codec (fg_status g) of Inl e \<Rightarrow> False | Inr c \<Rightarrow> schema_admits id c)
   | _ \<Rightarrow> True)"

definition is_write :: "reconcile_event \<Rightarrow> bool" where
  "is_write ev = (case ev of StatusApplied g \<Rightarrow> True | _ \<Rightarrow> False)"

lemma fresh_read: "read_from_api fresh_group"
  by code_simp

lemma fresh_admissible: "admissible_env fresh_reconciler"
proof -
  have "fetch_ok example_fetch" "chars ''7'' \<le> 128" "clock_time 1700000000000000000"
    using chars_le [of "''v2''"] chars_le [of "''7''"]
    by (simp_all add: fetch_ok_def example_fetch_def clock_time_def max_backoff_val second_def)
  then show ?thesis by (simp add: admissible_env_def fresh_reconciler_def example_reconciler_def list_conditions_slices)
qed

lemma fresh_written: "list_ex is_write (fst (snd (fst (Reconcile fresh_reconciler ()))))"
  by code_simp

lemma fresh_served: "served admissible_env (fg_status fresh_group)"
  by (simp add: fresh_group_def served.fresh)

lemma fresh_writes:
  "StatusApplied g \<in> set (fst (snd (fst (Reconcile fresh_reconciler ())))) \<Longrightarrow> writes fresh_reconciler () fresh_group g"
  using fresh_read by (simp add: writes_def fresh_reconciler_def)

lemma written_status_admitted_witness:
  "case Reconcile fresh_reconciler () of ((log, evs, w2), res) \<Rightarrow> list_ex is_write evs \<and> list_all write_admitted evs"
proof -
  obtain log evs w2 res where r: "Reconcile fresh_reconciler () = ((log, evs, w2), res)" by (metis prod.exhaust)
  note fresh_written
  moreover have "write_admitted ev" if "ev \<in> set evs" for ev
  proof (cases ev)
    case (StatusApplied g)
    then have "writes fresh_reconciler () fresh_group g" using that r by (intro fresh_writes) simp
    from written_status_admitted [OF fresh_served fresh_admissible this list_codec_reads]
    show ?thesis using StatusApplied by (auto simp: write_admitted_def)
  qed (simp_all add: write_admitted_def)
  ultimately show ?thesis using r by (simp add: list_all_iff)
qed

text \<open>A server of one feed that sends an ETag of 257 characters has the status of the whole group
  refused, with what the other feeds recorded.\<close>

definition long_etag_reconciler :: "(string, unit) reconciler" where
  "long_etag_reconciler = fresh_reconciler\<lparr>rr_fetch := \<lambda>i url e m.
     \<lparr>fo_result = \<lparr>fr_entries = [], fr_feed_title = [], fr_etag = replicate 257 (CHR ''x''), fr_last_modified = [],
        fr_not_modified = False\<rparr>,
      fo_err = if url = ''https://a'' then None else Some (DNSError ''no such host'' False)\<rparr>\<rparr>"

lemma long_etag_refused:
  "list_ex (\<lambda>ev. is_write ev \<and> \<not> write_admitted ev) (fst (snd (fst (Reconcile long_etag_reconciler ()))))"
  by code_simp

end
