(* ===== verification/Metric_Series.thy ===== *)
theory Metric_Series
  imports Admission Metrics
begin

text \<open>
  What a whole reconcile does to the metrics.  The effects of the syncs and the events of the reconcile
  say which of the operations of \<open>Metrics\<close> are called, with the labels of the request's group.
\<close>

section \<open>From a reconcile to the registry\<close>

fun on_effect :: "group_labels \<Rightarrow> 'm effect \<Rightarrow> registry \<Rightarrow> registry" where
  "on_effect m (OperationMetric url outcome) r = operation m url outcome r"
| "on_effect m (CheckSucceededMetric n) r = r\<lparr>feedLastSuccessTimestamp := (feedLastSuccessTimestamp r)(m := Some n)\<rparr>"
| "on_effect m (OverflowMetric n) r = overflow_chars m n r"
| "on_effect m _ r = r"

fun on_event :: "group_labels \<Rightarrow> int \<Rightarrow> reconcile_event \<Rightarrow> registry \<Rightarrow> registry" where
  "on_event m d MetricsForgotten r = forget m r"
| "on_event m d (FeedForgotten url) r = forgetFeed m url r"
| "on_event m d (FeedStateSynced g) r = syncFeedState m g r"
| "on_event m d ReconcileTimed r = reconcileDuration m d r"
| "on_event m d _ r = r"

fun forgets :: "reconcile_event \<Rightarrow> bool" where
  "forgets MetricsForgotten = True"
| "forgets (FeedForgotten url) = True"
| "forgets _ = False"

text \<open>The registry after a reconcile with these effects and events: what is forgotten first, then the
  requests that were timed, the syncs, and the rest; \<open>d\<close> is how long the reconcile took.\<close>

definition registry_after :: "group_labels \<Rightarrow> int \<Rightarrow> (string \<times> int) list \<Rightarrow> 'm effect list
    \<Rightarrow> reconcile_event list \<Rightarrow> registry \<Rightarrow> registry" where
  "registry_after m d reqs log evs r =
     fold (on_event m d) (dropWhile forgets evs)
       (fold (on_effect m) log
         (fold (\<lambda>(oper, t). requestDuration m oper t) reqs
           (fold (on_event m d) (takeWhile forgets evs) r)))"

lemma of_group_effects: "m' \<noteq> m \<Longrightarrow> of_group m' (fold (on_effect m) log r) = of_group m' r"
proof (induction log arbitrary: r)
  case (Cons eff log)
  have "of_group m' (on_effect m eff r) = of_group m' r" using Cons.prems by (cases eff) (simp_all add: of_group_other)
  then show ?case using Cons by simp
qed simp

lemma of_group_events: "m' \<noteq> m \<Longrightarrow> of_group m' (fold (on_event m d) evs r) = of_group m' r"
proof (induction evs arbitrary: r)
  case (Cons ev evs)
  have "of_group m' (on_event m d ev r) = of_group m' r"
    using Cons.prems by (cases ev) (simp_all add: of_group_other of_group_sync)
  then show ?case using Cons by simp
qed simp

lemma of_group_requests:
  "m' \<noteq> m \<Longrightarrow> of_group m' (fold (\<lambda>(oper, t). requestDuration m oper t) reqs r) = of_group m' r"
  by (induction reqs arbitrary: r) (auto simp: of_group_other)

lemma feed_series_requests [simp]:
  "feed_series m (fold (\<lambda>(oper, t). requestDuration m oper t) reqs r) = feed_series m r"
  by (induction reqs arbitrary: r) auto

section \<open>The feeds whose operations are counted\<close>

definition counted_urls :: "'m effect list \<Rightarrow> string set" where
  "counted_urls log = {url. \<exists>outcome. OperationMetric url outcome \<in> set log}"

lemma counted_urls_simps [simp]:
  "counted_urls [] = {}" "counted_urls (xs @ ys) = counted_urls xs \<union> counted_urls ys"
  "counted_urls [OperationMetric u x] = {u}" "counted_urls [CheckSucceededMetric n] = {}"
  "counted_urls [OverflowMetric n] = {}" "counted_urls [WarningEvent x y z] = {}" "counted_urls [Post q] = {}"
  by (auto simp: counted_urls_def)

lemma feed_series_effects: "feed_series m (fold (on_effect m) log r) = feed_series m r \<union> counted_urls log"
proof (induction log arbitrary: r)
  case (Cons eff log)
  have "feed_series m (on_effect m eff r) = feed_series m r \<union> counted_urls [eff]" by (cases eff) auto
  moreover have "counted_urls (eff # log) = counted_urls [eff] \<union> counted_urls log"
    using counted_urls_simps(2) [of "[eff]" log] by simp
  ultimately show ?case using Cons.IH by auto
qed simp

lemma apply_outcome_counted [simp]:
  "counted_urls (st_log (fst (apply_outcome a c outc st))) = counted_urls (st_log st)"
  by (cases outc) (simp_all add: Let_def case_prod_beta)

lemma record_counted: "counted_urls (st_log (fst (record_outcome a outc st))) \<subseteq> insert (at_url a) (counted_urls (st_log st))"
  unfolding record_outcome_form by auto

lemma render_failed_counted:
  "counted_urls (st_log (fst (renderFailed d e err st))) \<subseteq> insert (at_url (dl_attempt d)) (counted_urls (st_log st))"
  using record_counted [of "dl_attempt d" "attemptRenderFailed err" st]
    record_counted [of "dl_attempt d" "attemptEntrySkipped (en_title e) err"
      "sync_markHandled (dl_env d) (dl_syncer d) e (fst (record_outcome (dl_attempt d) (attemptRenderFailed err) st))"]
  by (auto simp: renderFailed_def Let_def case_prod_beta split: result.split bool.split)

lemma sent_counted:
  assumes "send_message d m (observed ov st) = (st1, res)"
  shows "counted_urls (st_log st1) = counted_urls (st_log st)"
proof -
  have "st_log st1 = st_log (observed ov st) @ [Post m]" using send_message_simps(2) assms by (metis fst_conv)
  then show ?thesis by (simp add: observed_def)
qed

lemma delivers_counted:
  assumes "delivers d es st hs ps rs st' r"
  shows "counted_urls (st_log st') \<subseteq> insert (at_url (dl_attempt d)) (counted_urls (st_log st))"
  using assms
proof (induction rule: delivers.induct)
  case (skipped st e err st1 v es hs ps rs st' r)
  then show ?case using render_failed_counted [of d e err st] by auto
next
  case (render_stops st e err st1 v es)
  then show ?case using render_failed_counted [of d e err st] by simp
next
  case (evidence_panics st e err st1 p es)
  then show ?case using render_failed_counted [of d e err st] by simp
next
  case (posted st e m ov st1 es hs ps rs st' r)
  have "counted_urls (st_log (after_sent d e st1)) \<subseteq> insert (at_url (dl_attempt d)) (counted_urls (st_log st1))"
    using record_counted [of "dl_attempt d" attemptSent "sync_markHandled (dl_env d) (dl_syncer d) e st1"]
    by (simp add: after_sent_def)
  then show ?case using posted.IH sent_counted [OF posted(4)] by blast
next
  case (send_stops st e m ov st1 err st2 v es)
  show ?case using sent_counted [OF send_stops(4)] record_counted [of "dl_attempt d" "attemptSendFailed err" st1] send_stops(5) by simp
next
  case (send_panics st e m ov st1 p es)
  then show ?case using sent_counted [OF send_panics(4)] by auto
qed auto

lemma close_sync_log [simp]: "st_log (close_sync s v st) = st_log st"
  by (simp add: close_sync_def)

lemma newAttempt_url [simp]: "at_url (newAttempt run) = rss_url (fn_feed run)"
  by (simp add: newAttempt_def)

lemma begun_counted:
  "counted_urls (st_log (begun run s st)) \<subseteq> insert (rss_url (fn_feed run)) (counted_urls (st_log st))"
proof -
  let ?bs = "begin_sync (fn_env run) s (st_fs (checked run st))"
  have "counted_urls (st_log (checked run st)) \<subseteq> insert (rss_url (fn_feed run)) (counted_urls (st_log st))"
    using record_counted [of "newAttempt run" attemptFetchSucceeded st] by (simp add: checked_def)
  moreover have "counted_urls (st_log (begun run s st)) \<subseteq>
      insert (rss_url (fn_feed run)) (counted_urls (st_log (checked run st)))"
    using record_counted [of "newAttempt run" "attemptBacklogSkipped (fy_skippedBacklog (fst ?bs))"
        "(checked run st)\<lparr>st_fs := snd ?bs\<rparr>"]
    by (auto simp: begun_def Let_def)
  ultimately show ?thesis by blast
qed

lemma apply_sync_counted:
  "counted_urls (st_log (fst (apply_sync run s st))) \<subseteq> insert (rss_url (fn_feed run)) (counted_urls (st_log st))"
proof (cases "\<exists>rend. deliverable run rend s")
  case True
  then obtain rend where del: "deliverable run rend s" ..
  obtain st' r where ap: "apply_sync run s st = (st', r)" by force
  obtain hs ps rs st2 where run: "delivers (delivery_of run rend (begun_sync run s st))
      (plan_entries (fy_plan (begun_sync run s st))) (begun run s st) hs ps rs st2 r"
    "st' = (case r of Panicked p \<Rightarrow> st2 | Returned v \<Rightarrow> close_sync (begun_sync run s st) (settlement v) st2)"
    by (rule apply_runs [OF del ap])
  have "counted_urls (st_log st2) \<subseteq> insert (rss_url (fn_feed run)) (counted_urls (st_log (begun run s st)))"
    using delivers_counted [OF run(1)] by simp
  moreover note begun_counted [of run s st]
  ultimately show ?thesis using ap run(2) by (auto split: result.split)
next
  case False
  have "counted_urls (st_log (fst (record_outcome (newAttempt run) outc st))) \<subseteq> insert (rss_url (fn_feed run)) (counted_urls (st_log st))"
    for outc and st :: "('a, 'b) sync_state"
    using record_counted [of "newAttempt run" outc st] by simp
  with False show ?thesis
    by (auto simp: deliverable_def apply_sync_def Let_def case_prod_beta split: option.splits sum.splits) blast+
qed

lemma secured_counted:
  "counted_urls (st_log (secureAfterPanic s fs a err st)) \<subseteq> insert (at_url a) (counted_urls (st_log st))"
  using record_counted [of a "attemptSendFailed err" st] by (simp add: secureAfterPanic_def subset_insertI)

lemma processFeed_counted:
  assumes "processFeed stack run ps = (ps', r)"
  shows "counted_urls (ps_log ps') \<subseteq> insert (rss_url (fn_feed run)) (counted_urls (ps_log ps))"
proof (cases "feed_status_for (gs_feeds (fg_status (ps_group ps))) (rss_url (fn_feed run))")
  case None
  then show ?thesis using assms by (auto simp: processFeed_def Let_def)
next
  case (Some fs)
  let ?s = "openFeedSync fs (fo_result (fn_fetched run)) (feedSyncSpecFor (fn_group run) (fn_now run))"
  obtain st res where ap: "apply_sync run ?s (sync_state_of fs ps) = (st, res)" by force
  have st: "counted_urls (st_log st) \<subseteq> insert (rss_url (fn_feed run)) (counted_urls (ps_log ps))"
    using apply_sync_counted [of run ?s "sync_state_of fs ps"] ap by simp
  show ?thesis
    using assms Some ap st secured_counted [of ?s fs "newAttempt run" errDeliveryPanicked st]
    by (auto simp: processFeed_def Let_def split: result.splits)
qed

lemma pass_loop_counted:
  assumes "pass_loop R u cad items v ps = (ps', r)"
  shows "counted_urls (ps_log ps') \<subseteq> counted_urls (ps_log ps) \<union> (\<lambda>i. rss_url (fst i)) ` set items"
  using assms
proof (induction items arbitrary: v ps)
  case (Cons item items)
  obtain feed fetched where item: "item = (feed, fetched)" by force
  let ?run = "run_of R u cad (ps_group ps) feed fetched"
  obtain ps1 r1 where step: "processFeed (rr_stack R) ?run ps = (ps1, r1)" by force
  have one: "counted_urls (ps_log ps1) \<subseteq> insert (rss_url feed) (counted_urls (ps_log ps))"
    using processFeed_counted [OF step] by (simp add: run_of_def)
  show ?case
  proof (cases "0 < v_retry_after v")
    case False
    then show ?thesis
      using Cons.prems item step one Cons.IH [of "fold_verdict v _" ps1]
      by (cases r1) fastforce+
  qed (use Cons.prems item in auto)
qed auto

lemma pass_counted:
  assumes "reconcilePass R u cad force ps = (ps', r)"
  shows "counted_urls (ps_log ps') \<subseteq> counted_urls (ps_log ps) \<union> rss_url ` set (sp_feeds (fg_spec (ps_group ps)))"
proof -
  let ?active = "plan_active (planFeeds (ps_group ps) cad (rr_now R) force)"
  show ?thesis
  proof (cases "fetchAll (rr_fetch R) (ps_group ps) ?active")
    case None
    then show ?thesis using assms by (auto simp: reconcilePass_def Let_def)
  next
    case (Some outs)
    obtain ps1 r1 where loop: "pass_loop R u cad (zip ?active outs) no_verdict ps = (ps1, r1)" by force
    have "ps' = ps1" using assms Some loop by (auto simp: reconcilePass_def Let_def split: process_result.splits)
    moreover have "(\<lambda>i. rss_url (fst i)) ` set (zip ?active outs) \<subseteq> rss_url ` set (sp_feeds (fg_spec (ps_group ps)))"
      using planFeeds_active [of "ps_group ps" cad "rr_now R" force] by (auto dest!: set_zip_leftD)
    ultimately show ?thesis using pass_loop_counted [OF loop] by blast
  qed
qed

section \<open>A reconcile\<close>

lemma webhook_keeps:
  assumes "webhook R st = (st', res)"
  shows "ps_log (rc_pass st') = ps_log (rc_pass st)" "rc_events st' = rc_events st"
  using assms
  by (auto simp: webhook_def Let_def case_prod_beta rc_group_def on_group_def split: sum.splits option.splits if_splits)

text \<open>The events of a settlement.\<close>

definition settles_with :: "('m, 's) reconcile_state \<Rightarrow> reconcile_event list \<Rightarrow> bool" where
  "settles_with st evs \<longleftrightarrow> (\<exists>invalid applied. rc_events st = evs @ invalid @ FeedStateSynced (rc_group st) # applied \<and>
     (invalid = [] \<or> (\<exists>t. invalid = [InvalidIntervalEvent t])) \<and> (applied = [] \<or> applied = [StatusApplied (rc_group st)]))"

lemma settle_events:
  assumes "settle R original cad decision ge through st = (st', r)"
  shows "settles_with st' (rc_events st)" "ps_log (rc_pass st') = ps_log (rc_pass st)"
    "fg_spec (rc_group st') = fg_spec (rc_group st)" "gs_feeds (fg_status (rc_group st')) = gs_feeds (fg_status (rc_group st))"
proof -
  let ?s = "summarizeGroup (rr_conditions R) cad ge (if through then observe_generation (rc_group st) else rc_group st)"
  define invalid where "invalid = (case snd ?s of Some n \<Rightarrow> if rr_recorder R then [InvalidIntervalEvent n] else [] | None \<Rightarrow> [])"
  define applied where "applied = (if same_group_status original (fg_status (fst ?s)) then [] else [StatusApplied (fst ?s)])"
  have g: "rc_group st' = fst ?s" by (rule settle_effect(1) [OF assms])
  have "rc_events st' = rc_events st @ invalid @ FeedStateSynced (fst ?s) # applied"
    using assms unfolding invalid_def applied_def
    by (auto simp: settle_def Let_def case_prod_beta rc_emit_def on_group_def rc_group_def split: if_splits option.splits)
  then show "settles_with st' (rc_events st)"
    unfolding settles_with_def g by (intro exI [of _ invalid] exI [of _ applied]) (auto simp: invalid_def applied_def split: option.split)
  show "ps_log (rc_pass st') = ps_log (rc_pass st)"
    using assms by (auto simp: settle_def Let_def case_prod_beta rc_emit_def on_group_def split: if_splits option.splits)
  show "fg_spec (rc_group st') = fg_spec (rc_group st)" "gs_feeds (fg_status (rc_group st')) = gs_feeds (fg_status (rc_group st))"
    unfolding settle_effect(1) [OF assms] by (simp_all add: summarize_frame observe_generation_def)
qed

lemma prepared_metrics:
  assumes "reconcile_prepared R prep st = (st', res)" "ps_log (rc_pass st) = []"
    and "map fs_url (gs_feeds (fg_status (rc_group st))) = map rss_url (sp_feeds (fg_spec (rc_group st)))"
  shows "settles_with st' (rc_events st) \<and> fg_spec (rc_group st') = fg_spec (rc_group st) \<and>
    map fs_url (gs_feeds (fg_status (rc_group st'))) = map rss_url (sp_feeds (fg_spec (rc_group st))) \<and>
    counted_urls (ps_log (rc_pass st')) \<subseteq> rss_url ` set (sp_feeds (fg_spec (rc_group st)))"
proof -
  have view: "fg_spec (rc_group s1) = fg_spec (rc_group st) \<and>
      map fs_url (gs_feeds (fg_status (rc_group s1))) = map rss_url (sp_feeds (fg_spec (rc_group st)))"
    if "webhook R st = (s1, w)" for s1 w using webhook_view [OF that] assms(3) by (simp add: group_view_def)
  have pass: "fg_spec (ps_group ps) = fg_spec (rc_group st) \<and>
      map fs_url (gs_feeds (fg_status (ps_group ps))) = map rss_url (sp_feeds (fg_spec (rc_group st))) \<and> (\<forall>p. r \<noteq> Crashed p)"
    if "webhook R st = (s1, Inr u)" "reconcilePass R u cad force (rc_pass s1) = (ps, r)" for s1 u cad force ps r
  proof -
    have "all_known (rc_pass s1)" using view [OF that(1)] by (simp add: all_known_def rc_group_def)
    from pass_effect [OF that(2) this] show ?thesis using view [OF that(1)] by (auto simp: pass_frame_def rc_group_def)
  qed
  show ?thesis
    using assms(1)
  proof (cases rule: prepared_cases)
    case (unresolved s1 err decision ge q)
    then show ?thesis
      using view [OF unresolved(1)] webhook_keeps [OF unresolved(1)] settle_events [OF unresolved(2)] assms(2) by simp
  next
    case (passed s1 u ps r decision ge through q)
    show ?thesis
      using view [OF passed(1)] webhook_keeps [OF passed(1)] pass [OF passed(1,2)] pass_counted [OF passed(2)]
        settle_events [OF passed(3)] assms(2) by (simp add: rc_group_def)
  next
    case (crashed s1 u ps p)
    then show ?thesis using pass [OF crashed(1,2)] by simp
  qed
qed

text \<open>The registry after a reconcile that settles, in three steps.\<close>

lemma registry_settled:
  assumes "settles_with st (map FeedForgotten pruned)"
  shows "registry_after m d reqs log (rc_events st @ [ReconcileTimed]) r =
      reconcileDuration m d (syncFeedState m (rc_group st) (fold (on_effect m) log
        (fold (\<lambda>(oper, t). requestDuration m oper t) reqs (fold (forgetFeed m) pruned r))))"
    and "FeedStateSynced (rc_group st) \<in> set (rc_events st)"
    and "StatusApplied g \<in> set (rc_events st) \<Longrightarrow> g = rc_group st"
proof -
  obtain invalid applied where evs: "rc_events st = map FeedForgotten pruned @ invalid @ FeedStateSynced (rc_group st) # applied"
    "invalid = [] \<or> (\<exists>t. invalid = [InvalidIntervalEvent t])" "applied = [] \<or> applied = [StatusApplied (rc_group st)]"
    using assms by (auto simp: settles_with_def)
  have "takeWhile forgets (map FeedForgotten pruned @ e # rest) = map FeedForgotten pruned"
    "dropWhile forgets (map FeedForgotten pruned @ e # rest) = e # rest" if "\<not> forgets e" for e rest
    using that by (induction pruned) simp_all
  note split = this
  have "fold (on_event m d) (map FeedForgotten pruned) r = fold (forgetFeed m) pruned r"
    by (induction pruned arbitrary: r) simp_all
  then show "registry_after m d reqs log (rc_events st @ [ReconcileTimed]) r =
      reconcileDuration m d (syncFeedState m (rc_group st) (fold (on_effect m) log
        (fold (\<lambda>(oper, t). requestDuration m oper t) reqs (fold (forgetFeed m) pruned r))))"
    using evs(2,3) unfolding evs(1) registry_after_def by (elim disjE exE) (simp_all add: split)
  show "FeedStateSynced (rc_group st) \<in> set (rc_events st)" "StatusApplied g \<in> set (rc_events st) \<Longrightarrow> g = rc_group st"
    using evs by auto
qed

text \<open>The gauges after the feeds' state was written.\<close>

lemma gauges_written:
  assumes "distinct (map rss_url (sp_feeds (fg_spec g)))"
    and "map fs_url (gs_feeds (fg_status g)) = map rss_url (sp_feeds (fg_spec g))"
    and "feed \<in> set (sp_feeds (fg_spec g))" "rss_url feed \<noteq> []"
  shows "\<exists>fs. feed_status_for (gs_feeds (fg_status g)) (rss_url feed) = Some fs \<and>
    feedHealthy (syncFeedState m g r) (m, rss_url feed) = (if sp_paused feed then None else Some (last_error fs = [])) \<and>
    feedLastCheckedTimestamp (syncFeedState m g r) (m, rss_url feed) =
      (if sp_paused feed then None else map_option unix (parse_rfc3339 (last_checked fs)))"
proof -
  have "rss_url feed \<in> fs_url ` set (gs_feeds (fg_status g))" using assms(2,3) by (metis image_eqI list.set_map)
  then obtain fs where fs: "fs \<in> set (gs_feeds (fg_status g))" "fs_url fs = rss_url feed" by (rule imageE) simp
  have d: "distinct (map fs_url (gs_feeds (fg_status g)))" using assms(1,2) by simp
  have "inj_on rss_url (set (sp_feeds (fg_spec g)))" using assms(1) by (simp add: distinct_map)
  then have "paused_url (sp_feeds (fg_spec g)) (rss_url feed) = sp_paused feed"
    using assms(3) unfolding paused_url_def inj_on_def by blast
  moreover have "fs_url fs \<noteq> []" using fs(2) assms(4) by simp
  ultimately show ?thesis
    using feed_status_for_distinct [OF d fs(1)] sync_feeds_set [OF d fs(1), of m "sp_feeds (fg_spec g)" r]
    by (intro exI [of _ fs]) (simp add: fs(2) syncFeedState_def)
qed

lemma found_series:
  assumes "Reconcile R w = ((log, evs, w'), res)" "rr_get R w = (Inr g, w1)" "distinct (map rss_url (sp_feeds (fg_spec g)))"
    and "feed_series m r \<subseteq> fs_url ` set (gs_feeds (fg_status g)) \<union> rss_url ` set (sp_feeds (fg_spec g))"
  shows "let after = (\<lambda>reqs. registry_after m d reqs log evs r) in
    feed_series m (after reqs) \<subseteq> rss_url ` set (sp_feeds (fg_spec g)) \<and>
      (\<exists>g'. FeedStateSynced g' \<in> set evs \<and> (\<forall>gx. StatusApplied gx \<in> set evs \<longrightarrow> gx = g') \<and>
        (\<forall>feed \<in> set (sp_feeds (fg_spec g)). rss_url feed \<noteq> [] \<longrightarrow>
          (\<exists>fs. feed_status_for (gs_feeds (fg_status g')) (rss_url feed) = Some fs \<and>
            feedHealthy (after reqs) (m, rss_url feed) = (if sp_paused feed then None else Some (last_error fs = [])) \<and>
            feedLastCheckedTimestamp (after reqs) (m, rss_url feed) =
              (if sp_paused feed then None else map_option unix (parse_rfc3339 (last_checked fs))))))"
proof -
  let ?feeds = "sp_feeds (fg_spec g)"
  obtain g1 prep where prep: "prepareStatus g = (g1, prep)" by force
  let ?st = "\<lparr>rc_pass = \<lparr>ps_group = g1, ps_log = [], ps_ticks = 0, ps_world = w1\<rparr>, rc_events = map FeedForgotten (prep_pruned prep)\<rparr>"
  obtain st q where run: "reconcile_prepared R prep ?st = (st, q)" by force
  have out: "log = ps_log (rc_pass st)" "evs = rc_events st @ [ReconcileTimed]"
    using assms(1,2) prep run by (auto simp: Reconcile_def case_prod_beta)
  have view: "fg_spec g1 = fg_spec g" "map fs_url (gs_feeds (fg_status g1)) = map rss_url ?feeds"
    using prepare_view(1) [OF assms(3) prep] by (simp_all add: group_view_def)
  have pruned: "set (prep_pruned prep) = fs_url ` set (gs_feeds (fg_status g)) - rss_url ` set ?feeds"
    using ensure_effect [OF assms(3)] prep by (auto simp: prepareStatus_def Let_def case_prod_beta)
  have m: "settles_with st (map FeedForgotten (prep_pruned prep))" "fg_spec (rc_group st) = fg_spec g"
    "map fs_url (gs_feeds (fg_status (rc_group st))) = map rss_url ?feeds" "counted_urls log \<subseteq> rss_url ` set ?feeds"
    using prepared_metrics [OF run] view by (simp_all add: rc_group_def out(1))
  let ?r2 = "fold (on_effect m) log (fold (\<lambda>(oper, t). requestDuration m oper t) reqs (fold (forgetFeed m) (prep_pruned prep) r))"
  have after: "registry_after m d reqs log evs r = reconcileDuration m d (syncFeedState m (rc_group st) ?r2)"
    unfolding out(2) by (rule registry_settled(1) [OF m(1)])
  have urls: "fs_url ` set (gs_feeds (fg_status (rc_group st))) = rss_url ` set ?feeds"
    using arg_cong [OF m(3), of set] by simp
  have "feed_series m ?r2 \<subseteq> rss_url ` set ?feeds"
    using assms(4) m(4) pruned by (auto simp: feed_series_effects forget_feeds_series)
  then have "feed_series m (registry_after m d reqs log evs r) \<subseteq> rss_url ` set ?feeds"
    using sync_series [of m "rc_group st" ?r2] urls unfolding after by auto
  moreover have "feedHealthy (registry_after m d reqs log evs r) = feedHealthy (syncFeedState m (rc_group st) ?r2)"
    "feedLastCheckedTimestamp (registry_after m d reqs log evs r) = feedLastCheckedTimestamp (syncFeedState m (rc_group st) ?r2)"
    unfolding after by (simp_all add: reconcileDuration_def)
  moreover note gauges_written [of "rc_group st", unfolded m(2), OF assms(3) m(3), of _ m ?r2]
  moreover have "FeedStateSynced (rc_group st) \<in> set evs" "\<forall>gx. StatusApplied gx \<in> set evs \<longrightarrow> gx = rc_group st"
    using registry_settled(2,3) [OF m(1)] by (auto simp: out(2))
  ultimately show ?thesis unfolding Let_def by (intro conjI exI [of _ "rc_group st"]) simp_all
qed

section \<open>Properties\<close>

text \<open>C37: What a whole reconcile does to the metrics of the request's group, whatever requests it timed and
  however long it took.  A group that is gone has no series left in any of the seven vectors.  For a
  group that was read, if its per-feed series were those of feeds of its status or its spec, they
  are those of feeds of its spec afterwards: a series of a removed feed is gone, and none is made
  for a feed that is not in the spec.  The health and last-check gauges of each feed are exactly what the
  status the reconcile ends with says, which is the one it hands to the API server if it writes one; a
  paused feed has neither.  The series of other groups do not change.\<close>

theorem series_follow_spec:
  assumes "Reconcile R w = ((log, evs, w'), res)"
  shows "let after = (\<lambda>reqs. registry_after m d reqs log evs r) in
    (\<forall>m'. m' \<noteq> m \<longrightarrow> of_group m' (after reqs) = of_group m' r) \<and>
    (case fst (rr_get R w) of
      Inl NotFound \<Rightarrow> of_group m (after []) = empty_registry
    | Inl (GetError err) \<Rightarrow> after [] = r
    | Inr g \<Rightarrow>
        metricsFor g = m \<longrightarrow> distinct (map rss_url (sp_feeds (fg_spec g))) \<longrightarrow>
        feed_series m r \<subseteq> fs_url ` set (gs_feeds (fg_status g)) \<union> rss_url ` set (sp_feeds (fg_spec g)) \<longrightarrow>
        feed_series m (after reqs) \<subseteq> rss_url ` set (sp_feeds (fg_spec g)) \<and>
        (\<exists>g'. FeedStateSynced g' \<in> set evs \<and> (\<forall>gx. StatusApplied gx \<in> set evs \<longrightarrow> gx = g') \<and>
          (\<forall>feed \<in> set (sp_feeds (fg_spec g)). rss_url feed \<noteq> [] \<longrightarrow>
            (\<exists>fs. feed_status_for (gs_feeds (fg_status g')) (rss_url feed) = Some fs \<and>
              feedHealthy (after reqs) (m, rss_url feed) = (if sp_paused feed then None else Some (last_error fs = [])) \<and>
              feedLastCheckedTimestamp (after reqs) (m, rss_url feed) =
                (if sp_paused feed then None else map_option unix (parse_rfc3339 (last_checked fs)))))))"
proof -
  let ?after = "\<lambda>reqs. registry_after m d reqs log evs r"
  have other: "of_group m' (?after reqs) = of_group m' r" if "m' \<noteq> m" for m'
    using that by (simp add: registry_after_def of_group_effects of_group_events of_group_requests)
  obtain got w1 where get: "rr_get R w = (got, w1)" by force
  show ?thesis
  proof (cases got)
    case (Inl err)
    then show ?thesis
      using assms get other
      by (cases err) (auto simp: Reconcile_def registry_after_def of_group_forget Let_def)
  next
    case (Inr g)
    then show ?thesis
      using found_series [OF assms, of g w1 m r d reqs] get other by (simp add: Let_def)
  qed
qed

definition old_registry :: registry where
  "old_registry = operation (''news'', ''go'') ''https://old'' ''sent'' empty_registry"

lemma series_follow_spec_witness:
  "''https://old'' \<in> feed_series (''news'', ''go'') old_registry \<and>
   (case Reconcile example_reconciler () of ((log, evs, w'), res) \<Rightarrow>
     ''https://old'' \<notin> feed_series (''news'', ''go'') (registry_after (''news'', ''go'') 1 [(''fetch'', 2)] log evs old_registry))"
proof -
  have m: "metricsFor two_feeds = (''news'', ''go'')" by (simp add: metricsFor_def two_feeds_def example_group_def)
  have old: "feed_series (''news'', ''go'') old_registry = {''https://old''}"
    by (simp add: old_registry_def) (simp add: feed_series_def empty_registry_def)
  have feeds: "sp_feeds (fg_spec two_feeds) = [example_feed ''https://a'', example_feed ''https://b'']"
    "rss_url (example_feed u) = u" for u
    by (simp_all add: two_feeds_def example_group_def example_feed_def)
  have known: "feed_series (''news'', ''go'') old_registry \<subseteq> fs_url ` set (gs_feeds (fg_status two_feeds)) \<union> rss_url ` set (sp_feeds (fg_spec two_feeds))"
    unfolding old by (simp add: two_feeds_def example_group_def new_feed_status_def)
  have get: "fst (rr_get example_reconciler ()) = Inr two_feeds" by (simp add: example_reconciler_def)
  obtain log evs w' res where r: "Reconcile example_reconciler () = ((log, evs, w'), res)" by (metis prod.collapse)
  have "feed_series (''news'', ''go'') (registry_after (''news'', ''go'') 1 [(''fetch'', 2)] log evs old_registry) \<subseteq>
      rss_url ` set (sp_feeds (fg_spec two_feeds))"
    using series_follow_spec [OF r, of "(''news'', ''go'')" 1 old_registry "[(''fetch'', 2)]"] known m
    by (simp add: get feeds Let_def)
  then show ?thesis using old by (auto simp: r feeds)
qed

end
