(* ===== verification/No_Repost.thy ===== *)
theory No_Repost
  imports Admission Send_Answers
begin

text \<open>
  Entries are not posted again across reconciles: what a status records as sent survives its way
  through JSON and the API server, the preparation of the next reconcile and the identity
  migration, and that reconcile posts none of it, in whatever order its feeds are processed.
\<close>

section \<open>Records in storage\<close>

text \<open>The status has a record of the entry, under the key of its identity.\<close>

definition recorded :: "go_env \<Rightarrow> feed_group_status \<Rightarrow> string \<Rightarrow> entry \<Rightarrow> bool" where
  "recorded E s url e \<longleftrightarrow>
     (case feed_status_for (gs_feeds s) url of None \<Rightarrow> False | Some fs \<Rightarrow> sentAtKey fs (computeEntryKey E e) \<noteq> None)"

lemma ascii_plain: "list_all (\<lambda>c. (of_char c :: int) < 128) s \<Longrightarrow> plain_text s"
proof -
  assume a: "list_all (\<lambda>c. (of_char c :: int) < 128) s"
  have pos: "0 \<le> (of_char c :: int)" for c by (metis of_nat_0_le_iff of_nat_of_char)
  have "utf8_encode (bytes_of s) = bytes_of s"
    using a pos by (induction s) (auto simp: utf8_encode_def bytes_of_def encode_rune_def valid_rune_def)
  then have s: "of_runes (bytes_of s) = s" by (simp add: of_runes_def)
  have "list_all valid_rune (bytes_of s)"
    using a pos by (auto simp: list_all_iff bytes_of_def valid_rune_def)
  from json_text_of_runes [OF this] show "plain_text s" by (simp add: s plain_text_def)
qed

lemma key_plain: "plain_text (computeEntryKey E e)"
proof (rule ascii_plain)
  have "c \<in> set (sha256_hex s) \<Longrightarrow> c \<in> set ''0123456789abcdef''" for c s
    by (auto simp: sha256_hex_def simp del: set_simps dest: set_hex_digits)
  then show "list_all (\<lambda>c. (of_char c :: int) < 128) (computeEntryKey E e)"
    by (fastforce simp: list_all_iff computeEntryKey_def hashIdentity_def)
qed

lemma stored_map_has:
  assumes "map_of m k \<noteq> None" "plain_text k"
  shows "map_of (stored_map m) k \<noteq> None"
proof -
  have keep: "map_of (fold (\<lambda>(k, v). AList.update k v) kvs acc) k \<noteq> None" if "k \<in> fst ` set kvs \<or> map_of acc k \<noteq> None" for kvs acc
    using that
  proof (induction kvs arbitrary: acc)
    case (Cons kv kvs)
    then show ?case by (cases kv) (auto simp: update_conv')
  qed simp
  obtain v where "(k, v) \<in> set (sort_key fst m)" using assms(1) by (auto dest: map_of_SomeD)
  then have "k \<in> fst ` set (map (\<lambda>(k, v). (json_text k, json_text v)) (sort_key fst m))"
    using assms(2) by (force simp: plain_text_def)
  then show ?thesis unfolding stored_map_def by (intro keep) simp
qed

lemma recorded_stored:
  assumes "recorded E s url e" "status_ok s"
  shows "recorded E (stored s) url e"
proof -
  have "feed_status_for (map stored_feed fss) url = map_option stored_feed (feed_status_for fss url)"
    if "list_all feed_ok fss" for fss
    using that by (induction fss) (auto simp: stored_feed_def feed_ok_def plain_text_def)
  from this [of "gs_feeds s"] show ?thesis
    using assms stored_map_has [OF _ key_plain]
    by (auto simp: recorded_def stored_def status_ok_def sentAtKey_def stored_feed_def split: option.splits)
qed

lemma feed_status_for_map:
  "(\<And>x. fs_url (f x) = fs_url x) \<Longrightarrow> feed_status_for (map f fss) url = map_option f (feed_status_for fss url)"
  by (induction fss) simp_all

lemma recorded_cong:
  assumes "gs_feeds s' = map f (gs_feeds s)" "\<And>x. fs_url (f x) = fs_url x" "\<And>x. last_sent (f x) = last_sent x"
  shows "recorded E s' url e = recorded E s url e"
  using assms(1,3) by (simp add: recorded_def sentAtKey_def feed_status_for_map [OF assms(2)] split: option.split)

text \<open>Go's maps have each key once.\<close>

definition keyed :: "feed_group_status \<Rightarrow> string \<Rightarrow> bool" where
  "keyed s url \<longleftrightarrow> (case feed_status_for (gs_feeds s) url of None \<Rightarrow> True | Some fs \<Rightarrow> distinct (map fst (last_sent fs)))"

lemma keyed_cong:
  assumes "gs_feeds s' = map f (gs_feeds s)" "\<And>x. fs_url (f x) = fs_url x" "\<And>x. last_sent (f x) = last_sent x"
  shows "keyed s' url = keyed s url"
  using assms(1,3) by (simp add: keyed_def feed_status_for_map [OF assms(2)] split: option.split)

lemma distinct_stored_map: "distinct (map fst (stored_map m))"
proof -
  have "distinct (map fst (fold (\<lambda>(k, v). AList.update k v) kvs acc))" if "distinct (map fst acc)" for kvs acc :: "(string \<times> string) list"
    using that
  proof (induction kvs arbitrary: acc)
    case (Cons kv kvs)
    then show ?case by (cases kv) (simp add: distinct_update)
  qed simp
  then show ?thesis by (simp add: stored_map_def)
qed

lemma stored_keys: "fs \<in> set (gs_feeds (stored s)) \<Longrightarrow> distinct (map fst (last_sent fs))"
  by (auto simp: stored_def stored_feed_def distinct_stored_map)

lemma served_keys: "served P s \<Longrightarrow> fs \<in> set (gs_feeds s) \<Longrightarrow> distinct (map fst (last_sent fs))"
  by (erule served.cases) (auto simp: no_status_def stored_keys)

lemma run_clear_sent: "last_sent (run_clear fs) = last_sent fs"
  by (simp add: run_clear_def)

lemma recorded_prepared:
  assumes "prepareStatus g0 = (g, prep)" "distinct (map rss_url (sp_feeds (fg_spec g0)))" "status_ok (fg_status g0)"
    and "recorded E (fg_status g0) (rss_url feed) e" "feed \<in> set (sp_feeds (fg_spec g0))"
  shows "recorded E (fg_status g) (rss_url feed) e"
proof -
  let ?fss = "gs_feeds (fg_status g0)"
  obtain g1 pruned where g1: "ensureFeedStatuses g0 = (g1, pruned)" by force
  obtain fs where fs: "feed_status_for ?fss (rss_url feed) = Some fs" "sentAtKey fs (computeEntryKey E e) \<noteq> None"
    using assms(4) by (auto simp: recorded_def split: option.splits)
  have "fs \<in> set ?fss" "fs_url fs = rss_url feed"
    using fs(1) list_all_for [of "\<lambda>x. x \<in> set ?fss" ?fss] feed_status_for_url by (auto simp: list_all_iff)
  then have "existing_status ?fss (rss_url feed) = Some fs"
    using existing_of_distinct [of ?fss fs] assms(3) by (simp add: status_ok_def)
  then have "feed_status_for (gs_feeds (fg_status g1)) (rss_url feed) = Some (bounded_status fs)"
    using ensure_effect [OF assms(2)] g1 assms(5) by (simp add: Let_def)
  then have r: "recorded E (fg_status g1) (rss_url feed) e"
    using fs(2) by (simp add: recorded_def sentAtKey_def bounded_status_def)
  have "recorded E (fg_status (clearPermanentBackoffs g1)) (rss_url feed) e = recorded E (fg_status g1) (rss_url feed) e"
    by (rule recorded_cong [where f = run_clear]) (simp_all add: clearPermanentBackoffs_def run_clear_url run_clear_sent)
  then show ?thesis using assms(1) g1 r by (auto simp: prepareStatus_def Let_def split: if_splits)
qed

lemma keyed_prepared:
  assumes "prepareStatus g0 = (g, prep)" "distinct (map rss_url (sp_feeds (fg_spec g0)))"
    and "\<And>fs. fs \<in> set (gs_feeds (fg_status g0)) \<Longrightarrow> distinct (map fst (last_sent fs))"
  shows "keyed (fg_status g) url"
proof -
  let ?fss = "gs_feeds (fg_status g0)"
  obtain g1 pruned where g1: "ensureFeedStatuses g0 = (g1, pruned)" by force
  note made = ensure_effect [OF assms(2), unfolded g1 Let_def case_prod_conv]
  have k1: "keyed (fg_status g1) url"
  proof (cases "\<exists>feed \<in> set (sp_feeds (fg_spec g0)). url = rss_url feed")
    case True
    have "distinct (map fst (last_sent fs))" if "existing_status ?fss u = Some fs" for u fs
      using that assms(3) by (auto simp: existing_status_def dest!: map_of_SomeD)
    then show ?thesis using made True
      by (auto simp: keyed_def bounded_status_def new_feed_status_def split: option.split)
  next
    case False
    then have "url \<notin> set (map fs_url (gs_feeds (fg_status g1)))" using made by auto
    then show ?thesis by (simp only: keyed_def feed_status_for_None [symmetric]) simp
  qed
  have "keyed (fg_status (clearPermanentBackoffs g1)) url = keyed (fg_status g1) url"
    by (rule keyed_cong [where f = run_clear]) (simp_all add: clearPermanentBackoffs_def run_clear_url run_clear_sent)
  then show ?thesis using assms(1) g1 k1 by (auto simp: prepareStatus_def Let_def split: if_splits)
qed

lemma secret_feeds:
  "\<exists>f. gs_feeds (fg_status (noteWebhookSecretVersion K v g)) = map f (gs_feeds (fg_status g)) \<and>
     (\<forall>x. fs_url (f x) = fs_url x \<and> last_sent (f x) = last_sent x)"
proof -
  let ?f = "\<lambda>fs. if webhook_secret_version (fg_status g) \<noteq> v \<and> send_caused K fs then run_clear fs else fs"
  have "gs_feeds (fg_status (noteWebhookSecretVersion K v g)) = map ?f (gs_feeds (fg_status g))"
    by (simp add: noteWebhookSecretVersion_def clearSendBackoffs_def Let_def)
  moreover have "\<forall>x. fs_url (?f x) = fs_url x \<and> last_sent (?f x) = last_sent x" by (simp add: run_clear_url run_clear_sent)
  ultimately show ?thesis by blast
qed

lemma recorded_secret:
  "recorded E (fg_status (noteWebhookSecretVersion K v g)) url e = recorded E (fg_status g) url e"
  using secret_feeds [of K v g] recorded_cong [of "fg_status (noteWebhookSecretVersion K v g)"] by blast

lemma keyed_secret: "keyed (fg_status (noteWebhookSecretVersion K v g)) url = keyed (fg_status g) url"
  using secret_feeds [of K v g] keyed_cong [of "fg_status (noteWebhookSecretVersion K v g)"] by blast

section \<open>What a pass posts\<close>

text \<open>The message is a rendering of the entry for the feed, under the group's spec.\<close>

definition renders :: "('m, 's) reconciler \<Rightarrow> feed_group_spec \<Rightarrow> feed_spec \<Rightarrow> entry \<Rightarrow> 'm \<Rightarrow> bool" where
  "renders R spec feed e m \<longleftrightarrow>
     (\<exists>g rend n. fg_spec g = spec \<and> rr_renderer R g feed = Inr rend \<and> rd_build rend e = Built m n)"

lemma key_begun:
  assumes "sentAtKey (st_fs st) (computeEntryKey E e) \<noteq> None" "e \<in> set (sorted_entries (fy_fetch s))"
    and "\<not> key_clash E (sorted_entries (fy_fetch s))" "fn_env run = E"
  shows "sent E (newDeliveryLedger E (sorted_entries (fy_fetch s))) (st_fs (begun run s st)) e"
proof -
  let ?es = "sorted_entries (fy_fetch s)"
  let ?L = "newDeliveryLedger E ?es"
  have "last_sent (st_fs (begun run s st)) = last_sent (migratePreviousIdentities ?L (st_fs (checked run st)))"
    using assms(4) by (simp add: status_frame begin_sync_eq(6))
  moreover have "computeEntryKey E e \<in> sent_keys (migratePreviousIdentities ?L (st_fs (checked run st)))"
    unfolding migratePreviousIdentities_def
    using assms(1) by (intro migration_keeps_own [OF assms(3,2)]) (auto simp: sent_keys_def sentAtKey_def status_frame ledger_simps)
  ultimately show ?thesis by (auto simp: sent_iff entry_keys_def sent_keys_def)
qed

text \<open>The status still has a record of the entry, or LastSent is full of records at least as new.\<close>

definition kept :: "go_env \<Rightarrow> string \<Rightarrow> feed_group_status \<Rightarrow> string \<Rightarrow> entry \<Rightarrow> bool" where
  "kept E now s url e \<longleftrightarrow> (case feed_status_for (gs_feeds s) url of None \<Rightarrow> False | Some fs \<Rightarrow> kept_in E now fs e)"

lemma processFeed_known:
  assumes "processFeed stack run ps = (ps', r)" "feed_status_for (statuses ps) (rss_url (fn_feed run)) = Some fs"
  defines "s \<equiv> openFeedSync fs (fo_result (fn_fetched run)) (feedSyncSpecFor (fn_group run) (fn_now run))"
  obtains st res where "apply_sync run s (sync_state_of fs ps) = (st, res)"
    "ps' = write_back (rss_url (fn_feed run)) (secured_run run s fs st res) ps"
    "feed_status_for (statuses ps') (rss_url (fn_feed run)) = Some (st_fs (secured_run run s fs st res))"
proof -
  let ?url = "rss_url (fn_feed run)"
  obtain st res where ap: "apply_sync run s (sync_state_of fs ps) = (st, res)" by force
  have ps': "ps' = write_back ?url (secured_run run s fs st res) ps"
    using assms(1,2) ap by (auto simp: processFeed_def Let_def secured_run_def s_def split: result.splits)
  have "fs_url (st_fs (secured_run run s fs st res)) = ?url"
    using apply_sync_url [of run s "sync_state_of fs ps"] ap feed_status_for_url [OF assms(2)]
      secureAfterPanic_url [of s fs "newAttempt run" errDeliveryPanicked st]
    by (auto simp: secured_run_def split: result.split)
  then have "feed_status_for (statuses ps') ?url = Some (st_fs (secured_run run s fs st res))"
    using put_status_found [OF assms(2)] by (simp add: ps')
  then show thesis using that ap ps' by blast
qed

lemma secured_run_effects:
  "posts (st_log (secured_run run s fs st res)) = posts (st_log st)" "sy_world (secured_run run s fs st res) = sy_world st"
  by (simp_all add: secured_run_def secured_posts secured_world split: result.split)

lemma undeliverable_nothing:
  assumes "apply_sync run s st = (st', res)" "\<nexists>rend. deliverable run rend s"
  shows "posts (st_log st') = posts (st_log st)" "sy_world st' = sy_world st"
  using assms
  by (auto simp: deliverable_def apply_sync_def Let_def case_prod_beta split: option.splits sum.splits)

text \<open>The entries and messages one feed posts, and their records in the status it leaves.\<close>

lemma process_posts:
  assumes "processFeed stack run ps = (ps', r)" "fn_env run = E" "\<not> key_clash E (sorted_entries (fo_result (fn_fetched run)))"
    and "keyed (fg_status (ps_group ps)) (rss_url (fn_feed run))"
  shows "\<exists>ems. posts (ps_log ps') = posts (ps_log ps) @ map snd ems \<and> distinct (map (entryIdentity E \<circ> fst) ems) \<and>
    (\<forall>(e, m) \<in> set ems. (\<exists>rend n. fn_renderer run (fn_group run) (fn_feed run) = Inr rend \<and> rd_build rend e = Built m n) \<and>
       \<not> recorded E (fg_status (ps_group ps)) (rss_url (fn_feed run)) e) \<and>
    ps_world ps' = world_after (fn_sender run) (ps_world ps) (map snd ems) \<and>
    (\<forall>((e, m), a) \<in> set (zip ems (sender_answers (fn_sender run) (ps_world ps) (map snd ems))). a = SendOk \<longrightarrow>
       kept E (format_rfc3339 (fn_now run)) (fg_status (ps_group ps')) (rss_url (fn_feed run)) e)"
proof (cases "feed_status_for (statuses ps) (rss_url (fn_feed run))")
  case None
  then show ?thesis using assms(1) by (intro exI [of _ "[]"]) (simp add: processFeed_def Let_def)
next
  case (Some fs)
  let ?s = "openFeedSync fs (fo_result (fn_fetched run)) (feedSyncSpecFor (fn_group run) (fn_now run))"
  let ?st = "sync_state_of fs ps" and ?es = "sorted_entries (fo_result (fn_fetched run))"
  obtain st res where ap: "apply_sync run ?s ?st = (st, res)"
    and ps': "ps' = write_back (rss_url (fn_feed run)) (secured_run run ?s fs st res) ps"
    and found: "feed_status_for (statuses ps') (rss_url (fn_feed run)) = Some (st_fs (secured_run run ?s fs st res))"
    by (rule processFeed_known [OF assms(1) Some])
  have s: "fy_fetch ?s = fo_result (fn_fetched run)" "fy_now ?s = fn_now run"
    by (simp_all add: openFeedSync_def feedSyncSpecFor_def)
  have keys: "keys_distinct ?st" using assms(4) Some by (simp add: keyed_def keys_distinct_def)
  show ?thesis
  proof (cases "\<exists>rend. deliverable run rend ?s")
    case True
    then obtain rend where del: "deliverable run rend ?s" ..
    let ?d = "delivery_of run rend (begun_sync run ?s ?st)" and ?f = "\<lambda>e. case rd_build rend e of Built m n \<Rightarrow> m"
    obtain hs es rs st2 where run: "delivers ?d (plan_entries (fy_plan (begun_sync run ?s ?st))) (begun run ?s ?st) hs es rs st2 res"
      and st: "st = (case res of Panicked p \<Rightarrow> st2 | Returned v \<Rightarrow> close_sync (begun_sync run ?s ?st) (settlement v) st2)"
      by (rule apply_runs [OF del ap])
    note due = run_posts_due [OF run, unfolded assms(2) s]
    have st2: "st_log st = st_log st2" "sy_world st = sy_world st2" unfolding st by (cases res; simp)+
    have f: "message_of ?d = ?f" by (simp add: message_of_def [abs_def])
    have answered: "sy_world st2 = world_after (fn_sender run) (ps_world ps) (map ?f es)"
      "\<forall>(e, a) \<in> set (zip es (sender_answers (fn_sender run) (ps_world ps) (map ?f es))). a = SendOk \<longrightarrow> e \<in> set hs"
      using delivers_answered [OF run] by (simp_all add: accepted_handled_def f)
    have kept: "kept E (format_rfc3339 (fn_now run)) (fg_status (ps_group ps')) (rss_url (fn_feed run)) e" if "e \<in> set hs" for e
      using run_kept [OF run st keys _ _ that, of ?s fs] found assms(2) s by (simp add: kept_def)
    have fresh: "\<not> recorded E (fg_status (ps_group ps)) (rss_url (fn_feed run)) e" if "e \<in> set es" for e
    proof
      assume "recorded E (fg_status (ps_group ps)) (rss_url (fn_feed run)) e"
      then have "sentAtKey (st_fs ?st) (computeEntryKey E e) \<noteq> None" using Some by (simp add: recorded_def)
      moreover have "e \<in> set ?es" using that subseq_subset [OF due(2)] by blast
      ultimately have "sent E (newDeliveryLedger E ?es) (st_fs (begun run ?s ?st)) e"
        using key_begun [of ?st E e ?s run] assms(2,3) by (simp add: s)
      then show False using due(4) that by blast
    qed
    let ?ems = "map (\<lambda>e. (e, ?f e)) es"
    have ems: "map snd ?ems = map ?f es" by simp
    have "a = SendOk \<longrightarrow> e \<in> set hs"
      if "((e, m), a) \<in> set (zip ?ems (sender_answers (fn_sender run) (ps_world ps) (map snd ?ems)))" for e m a
      using that answered(2) unfolding ems zip_map1 by fastforce
    then have "\<forall>((e, m), a) \<in> set (zip ?ems (sender_answers (fn_sender run) (ps_world ps) (map snd ?ems))). a = SendOk \<longrightarrow>
       kept E (format_rfc3339 (fn_now run)) (fg_status (ps_group ps')) (rss_url (fn_feed run)) e"
      using kept by blast
    moreover have "posts (ps_log ps') = posts (ps_log ps) @ map snd ?ems" "ps_world ps' = world_after (fn_sender run) (ps_world ps) (map snd ?ems)"
      using due(1) answered(1) st2 unfolding ems by (simp_all add: ps' secured_run_effects)
    moreover have "\<forall>(e, m) \<in> set ?ems. (\<exists>rend n. fn_renderer run (fn_group run) (fn_feed run) = Inr rend \<and> rd_build rend e = Built m n) \<and>
       \<not> recorded E (fg_status (ps_group ps)) (rss_url (fn_feed run)) e"
      using due(4) fresh del by (auto simp: deliverable_def split: built.split)
    moreover have "distinct (map (entryIdentity E \<circ> fst) ?ems)" using due(3) by (simp add: comp_def)
    ultimately show ?thesis by blast
  next
    case False
    from undeliverable_nothing [OF ap this] show ?thesis
      by (intro exI [of _ "[]"]) (simp add: ps' secured_run_effects)
  qed
qed

text \<open>The triples of feed, entry and message a pass posts, none of them recorded in the status it
  started from and none twice.\<close>

definition fresh_posts :: "('m, 's) reconciler \<Rightarrow> feed_group \<Rightarrow> feed_spec set \<Rightarrow> (feed_spec \<times> entry \<times> 'm) list \<Rightarrow> bool" where
  "fresh_posts R g feeds posted \<longleftrightarrow>
     distinct (map (\<lambda>(feed, e, m). (rss_url feed, entryIdentity (rr_env R) e)) posted) \<and>
     (\<forall>(feed, e, m) \<in> set posted. feed \<in> feeds \<and> renders R (fg_spec g) feed e m \<and>
        \<not> recorded (rr_env R) (fg_status g) (rss_url feed) e)"

definition unclashed :: "('m, 's) reconciler \<Rightarrow> fetch_outcome \<Rightarrow> bool" where
  "unclashed R outc \<longleftrightarrow> \<not> key_clash (rr_env R) (sorted_entries (fo_result outc))"

lemma fresh_posts_Cons:
  assumes "rss_url feed \<notin> rss_url ` feeds"
    and "distinct (map (entryIdentity (rr_env R) \<circ> fst) ems)"
    and "\<forall>(e, m) \<in> set ems. renders R (fg_spec g) feed e m \<and> \<not> recorded (rr_env R) (fg_status g) (rss_url feed) e"
    and "fresh_posts R g1 feeds posted" "fg_spec g1 = fg_spec g"
    and "\<And>url. url \<noteq> rss_url feed \<Longrightarrow> feed_status_for (gs_feeds (fg_status g1)) url = feed_status_for (gs_feeds (fg_status g)) url"
  shows "fresh_posts R g (insert feed feeds) (map (\<lambda>(e, m). (feed, e, m)) ems @ posted)"
proof -
  let ?id = "\<lambda>(f, e, m). (rss_url f, entryIdentity (rr_env R) e)"
  have "map ?id (map (\<lambda>(e, m). (feed, e, m)) ems) = map (Pair (rss_url feed)) (map (entryIdentity (rr_env R) \<circ> fst) ems)"
    by (simp add: case_prod_beta)
  then have "distinct (map ?id (map (\<lambda>(e, m). (feed, e, m)) ems))"
    using assms(2) distinct_map [of "Pair (rss_url feed)" "map (entryIdentity (rr_env R) \<circ> fst) ems"]
    by (simp only:) (simp add: inj_on_def)
  moreover have "recorded (rr_env R) (fg_status g1) (rss_url f) e = recorded (rr_env R) (fg_status g) (rss_url f) e"
    if "f \<in> feeds" for f e
  proof -
    have "rss_url f \<noteq> rss_url feed" using assms(1) that by (metis image_eqI)
    then show ?thesis by (simp add: recorded_def assms(6))
  qed
  ultimately show ?thesis
    using assms(1,3,4,5) unfolding fresh_posts_def by (fastforce simp del: map_map)
qed

text \<open>Of what was posted, the webhook at \<open>u\<close> was in the world \<open>w\<close> when the first message came, and the
  entries of the messages it accepted are kept in the status.\<close>

definition accounted :: "('m, 's) reconciler \<Rightarrow> string \<Rightarrow> 's \<Rightarrow> feed_group_status \<Rightarrow> (feed_spec \<times> entry \<times> 'm) list \<Rightarrow> bool" where
  "accounted R u w s posted \<longleftrightarrow>
     (\<forall>((feed, e, m), a) \<in> set (zip posted (sender_answers (rr_sender R u) w (map (snd \<circ> snd) posted))).
        a = SendOk \<longrightarrow> kept (rr_env R) (format_rfc3339 (rr_now R)) s (rss_url feed) e)"

lemma accounted_Nil [simp]: "accounted R u w s []"
  by (simp add: accounted_def)

lemma accounted_append:
  assumes "accounted R u w s xs" "accounted R u (world_after (rr_sender R u) w (map (snd \<circ> snd) xs)) s ys"
  shows "accounted R u w s (xs @ ys)"
  using assms by (auto simp: accounted_def sender_answers_append)

lemma accounted_cong:
  assumes "accounted R u w s posted"
    and "\<And>feed e m. (feed, e, m) \<in> set posted \<Longrightarrow>
      feed_status_for (gs_feeds s') (rss_url feed) = feed_status_for (gs_feeds s) (rss_url feed)"
  shows "accounted R u w s' posted"
  using assms unfolding accounted_def kept_def by (fastforce dest: set_zip_leftD)

lemma loop_others:
  "pass_loop R u cad items v ps = (ps', r) \<Longrightarrow> url \<notin> rss_url ` fst ` set items \<Longrightarrow>
   feed_status_for (statuses ps') url = feed_status_for (statuses ps) url"
proof (induction items arbitrary: v ps)
  case (Cons item items)
  obtain feed fetched where item: "item = (feed, fetched)" by force
  obtain ps1 r1 where step: "processFeed (rr_stack R) (run_of R u cad (ps_group ps) feed fetched) ps = (ps1, r1)" by force
  have "feed_status_for (statuses ps1) url = feed_status_for (statuses ps) url"
    using processFeed_frame(3) [OF step] Cons.prems(2) item by (simp add: run_of_def)
  then show ?case
    using Cons.prems item step Cons.IH [of _ ps1] by (cases r1) (auto split: if_splits)
qed simp

lemma loop_posts:
  "pass_loop R u cad items v ps = (ps', r) \<Longrightarrow> distinct (map (rss_url \<circ> fst) items) \<Longrightarrow>
   list_all (unclashed R \<circ> snd) items \<Longrightarrow> list_all (keyed (fg_status (ps_group ps)) \<circ> rss_url \<circ> fst) items \<Longrightarrow>
   \<exists>posted. posts (ps_log ps') = posts (ps_log ps) @ map (snd \<circ> snd) posted \<and>
     fresh_posts R (ps_group ps) (fst ` set items) posted \<and>
     ps_world ps' = world_after (rr_sender R u) (ps_world ps) (map (snd \<circ> snd) posted) \<and>
     accounted R u (ps_world ps) (fg_status (ps_group ps')) posted"
proof (induction items arbitrary: v ps)
  case Nil
  then show ?case by (intro exI [of _ "[]"]) (simp add: fresh_posts_def)
next
  case (Cons item items)
  obtain feed fetched where item: "item = (feed, fetched)" by force
  show ?case
  proof (cases "0 < v_retry_after v")
    case True
    then show ?thesis using Cons.prems item by (intro exI [of _ "[]"]) (simp add: fresh_posts_def)
  next
    case False
    let ?run = "run_of R u cad (ps_group ps) feed fetched"
    have run: "fn_feed ?run = feed" "fn_fetched ?run = fetched" "fn_env ?run = rr_env R" "fn_renderer ?run = rr_renderer R"
      "fn_group ?run = ps_group ps" "fn_sender ?run = rr_sender R u" "fn_now ?run = rr_now R" by (simp_all add: run_of_def)
    obtain ps1 r1 where step: "processFeed (rr_stack R) ?run ps = (ps1, r1)" by force
    have "\<not> key_clash (rr_env R) (sorted_entries (fo_result (fn_fetched ?run)))"
      "keyed (fg_status (ps_group ps)) (rss_url (fn_feed ?run))"
      using Cons.prems(3,4) item by (simp_all add: unclashed_def run)
    from process_posts [OF step run(3) this] obtain ems where
      ems: "posts (ps_log ps1) = posts (ps_log ps) @ map snd ems" "distinct (map (entryIdentity (rr_env R) \<circ> fst) ems)"
        "\<forall>(e, m) \<in> set ems. renders R (fg_spec (ps_group ps)) feed e m \<and>
           \<not> recorded (rr_env R) (fg_status (ps_group ps)) (rss_url feed) e"
        "ps_world ps1 = world_after (rr_sender R u) (ps_world ps) (map snd ems)"
        "\<forall>((e, m), a) \<in> set (zip ems (sender_answers (rr_sender R u) (ps_world ps) (map snd ems))). a = SendOk \<longrightarrow>
           kept (rr_env R) (format_rfc3339 (rr_now R)) (fg_status (ps_group ps1)) (rss_url feed) e"
      unfolding run renders_def by fast
    have spec: "fg_spec (ps_group ps1) = fg_spec (ps_group ps)"
      using processFeed_frame(1) [OF step] by (simp add: pass_frame_def)
    note others = processFeed_frame(3) [OF step, unfolded run]
    have new: "rss_url feed \<notin> rss_url ` fst ` set items" using Cons.prems(2) item by (auto simp: image_image)
    have keys: "list_all (keyed (fg_status (ps_group ps1)) \<circ> rss_url \<circ> fst) items"
    proof -
      have "keyed (fg_status (ps_group ps1)) (rss_url f) = keyed (fg_status (ps_group ps)) (rss_url f)" if "f \<in> fst ` set items" for f
      proof -
        have "rss_url f \<noteq> rss_url feed" using new that by (metis image_eqI)
        then show ?thesis by (simp add: keyed_def others)
      qed
      then show ?thesis using Cons.prems(4) by (auto simp: list_all_iff)
    qed
    have "\<exists>posted. posts (ps_log ps') = posts (ps_log ps1) @ map (snd \<circ> snd) posted \<and>
        fresh_posts R (ps_group ps1) (fst ` set items) posted \<and>
        ps_world ps' = world_after (rr_sender R u) (ps_world ps1) (map (snd \<circ> snd) posted) \<and>
        accounted R u (ps_world ps1) (fg_status (ps_group ps')) posted \<and>
        feed_status_for (statuses ps') (rss_url feed) = feed_status_for (statuses ps1) (rss_url feed)"
    proof (cases r1)
      case (Processed v1)
      then have "pass_loop R u cad items (fold_verdict v v1) ps1 = (ps', r)"
        using Cons.prems(1) item step False by simp
      moreover have "distinct (map (rss_url \<circ> fst) items)" "list_all (unclashed R \<circ> snd) items"
        using Cons.prems(2,3) by (simp_all add: comp_def)
      ultimately show ?thesis using Cons.IH [OF _ _ _ keys] loop_others [OF _ new] by blast
    qed (use Cons.prems item step False in \<open>auto simp: fresh_posts_def intro!: exI [of _ "[]"]\<close>)
    then obtain posted where posted: "posts (ps_log ps') = posts (ps_log ps1) @ map (snd \<circ> snd) posted"
      "fresh_posts R (ps_group ps1) (fst ` set items) posted"
      "ps_world ps' = world_after (rr_sender R u) (ps_world ps1) (map (snd \<circ> snd) posted)"
      "accounted R u (ps_world ps1) (fg_status (ps_group ps')) posted"
      "feed_status_for (statuses ps') (rss_url feed) = feed_status_for (statuses ps1) (rss_url feed)" by blast
    let ?mine = "map (\<lambda>(e, m). (feed, e, m)) ems"
    have mine: "map (snd \<circ> snd) ?mine = map snd ems" by (simp add: case_prod_beta comp_def)
    have "accounted R u (ps_world ps) (fg_status (ps_group ps1)) ?mine"
      using ems(5) unfolding accounted_def mine zip_map1 by fastforce
    then have "accounted R u (ps_world ps) (fg_status (ps_group ps')) ?mine"
      using posted(5) by (elim accounted_cong) auto
    moreover have "accounted R u (world_after (rr_sender R u) (ps_world ps) (map (snd \<circ> snd) ?mine)) (fg_status (ps_group ps')) posted"
      unfolding mine using posted(4) ems(4) by simp
    ultimately have "accounted R u (ps_world ps) (fg_status (ps_group ps')) (?mine @ posted)"
      by (rule accounted_append)
    moreover have "fresh_posts R (ps_group ps) (fst ` set (item # items)) (?mine @ posted)"
      using fresh_posts_Cons [OF new ems(2,3) posted(2) spec others] item by simp
    moreover have "posts (ps_log ps') = posts (ps_log ps) @ map (snd \<circ> snd) (?mine @ posted)"
      using posted(1) ems(1) mine by simp
    moreover have "ps_world ps' = world_after (rr_sender R u) (ps_world ps) (map (snd \<circ> snd) (?mine @ posted))"
      unfolding map_append mine world_after_append using posted(3) ems(4) by simp
    ultimately show ?thesis by blast
  qed
qed

lemma fresh_posts_mono: "fresh_posts R g A posted \<Longrightarrow> A \<subseteq> B \<Longrightarrow> fresh_posts R g B posted"
  unfolding fresh_posts_def by (auto simp: subset_iff)

lemma fetched_unclashed:
  assumes "\<forall>i url e m. unclashed R (rr_fetch R i url e m)"
  shows "fetch_from (rr_fetch R) fss i feeds = Some outs \<Longrightarrow> list_all (unclashed R) outs \<and> length outs = length feeds"
proof (induction feeds arbitrary: i outs)
  case (Cons feed feeds)
  then show ?case using assms by (auto split: option.splits)
qed simp

lemma active_distinct:
  assumes "distinct (map rss_url (sp_feeds (fg_spec g)))"
  shows "distinct (map rss_url (plan_active (planFeeds g cad now force)))"
proof -
  have "plan_active (fold (plan_step fss cad now force) feeds plan) =
      plan_active plan @ filter (to_fetch fss cad now force) feeds" for fss feeds plan
    by (induction feeds arbitrary: plan) (simp_all add: plan_step_effect)
  then have "plan_active (planFeeds g cad now force) =
      filter (to_fetch (gs_feeds (fg_status g)) cad now force) (sp_feeds (fg_spec g))"
    by (simp add: planFeeds_def)
  then show ?thesis using assms by (simp add: distinct_map_filter)
qed

lemma pass_posts:
  assumes "reconcilePass R u cad force ps = (ps', r)" "distinct (map rss_url (sp_feeds (fg_spec (ps_group ps))))"
    and "\<forall>i url e m. unclashed R (rr_fetch R i url e m)" "\<forall>url. keyed (fg_status (ps_group ps)) url"
  shows "\<exists>posted. posts (ps_log ps') = posts (ps_log ps) @ map (snd \<circ> snd) posted \<and>
    fresh_posts R (ps_group ps) (set (sp_feeds (fg_spec (ps_group ps)))) posted \<and>
    accounted R u (ps_world ps) (fg_status (ps_group ps')) posted"
proof (cases "fetchAll (rr_fetch R) (ps_group ps) (plan_active (planFeeds (ps_group ps) cad (rr_now R) force))")
  case None
  then show ?thesis using assms(1) by (intro exI [of _ "[]"]) (simp add: reconcilePass_def Let_def fresh_posts_def)
next
  case (Some outs)
  let ?active = "plan_active (planFeeds (ps_group ps) cad (rr_now R) force)"
  have outs: "list_all (unclashed R) outs" "length outs = length ?active"
    using fetched_unclashed [OF assms(3)] Some by (auto simp: fetchAll_def)
  then have items: "list_all (unclashed R \<circ> snd) (zip ?active outs)"
    by (auto simp: list_all_iff dest: set_zip_rightD)
  have keys: "list_all (keyed (fg_status (ps_group ps)) \<circ> rss_url \<circ> fst) (zip ?active outs)"
    using assms(4) by (simp add: list_all_iff)
  have "map (rss_url \<circ> fst) (zip ?active outs) = map rss_url ?active"
    using outs(2) by (simp flip: map_map)
  then have urls: "distinct (map (rss_url \<circ> fst) (zip ?active outs))"
    using active_distinct [OF assms(2)] by simp
  obtain ps1 r1 where loop: "pass_loop R u cad (zip ?active outs) no_verdict ps = (ps1, r1)" by force
  then have "ps' = ps1" using assms(1) Some by (auto simp: reconcilePass_def Let_def split: process_result.splits)
  moreover have "fst ` set (zip ?active outs) \<subseteq> set (sp_feeds (fg_spec (ps_group ps)))"
    using planFeeds_active by (force dest: set_zip_leftD)
  moreover obtain posted where "posts (ps_log ps1) = posts (ps_log ps) @ map (snd \<circ> snd) posted"
    "fresh_posts R (ps_group ps) (fst ` set (zip ?active outs)) posted"
    "accounted R u (ps_world ps) (fg_status (ps_group ps1)) posted" using loop_posts [OF loop urls items keys] by blast
  ultimately show ?thesis using fresh_posts_mono by blast
qed

section \<open>What a reconcile posts\<close>

text \<open>Where a reconcile of the group sends, and the world when the first message leaves.\<close>

definition webhook_target :: "('m, 's) reconciler \<Rightarrow> feed_group \<Rightarrow> 's \<Rightarrow> (string \<times> 's) option" where
  "webhook_target R g w =
     (case rr_secret R (fg_namespace g) (webhook_secret_name (fg_spec g)) w of
        (Inl err, w') \<Rightarrow> None
      | (Inr secret, w') \<Rightarrow>
          (case map_of (ws_data secret) (webhook_secret_key (fg_spec g)) of
             None \<Rightarrow> None
           | Some val \<Rightarrow> if trim_space val = [] then None else Some (trim_space val, w')))"

lemma webhook_log:
  assumes "webhook R st = (st', res)"
  shows "ps_log (rc_pass st') = ps_log (rc_pass st)" "fg_spec (rc_group st') = fg_spec (rc_group st)"
    "recorded E (fg_status (rc_group st')) url e = recorded E (fg_status (rc_group st)) url e"
    "keyed (fg_status (rc_group st')) url = keyed (fg_status (rc_group st)) url"
    "map fs_url (gs_feeds (fg_status (rc_group st'))) = map fs_url (gs_feeds (fg_status (rc_group st)))"
  using assms
  by (auto simp: webhook_def Let_def case_prod_beta rc_group_def on_group_def recorded_secret keyed_secret
      split: sum.splits option.splits if_splits)

lemma webhook_targeted:
  assumes "webhook R st = (st', Inr u)"
  shows "webhook_target R (rc_group st) (ps_world (rc_pass st)) = Some (u, ps_world (rc_pass st'))"
  using assms
  by (auto simp: webhook_def webhook_target_def Let_def case_prod_beta rc_group_def on_group_def
      split: sum.splits option.splits if_splits)

text \<open>The settled group: its feeds are those of the pass, and its status is stored already or written.\<close>

definition settled_group :: "('m, 's) reconcile_state \<Rightarrow> feed_group_status \<Rightarrow> bool" where
  "settled_group st snapshot \<longleftrightarrow> FeedStateSynced (rc_group st) \<in> set (rc_events st) \<and>
     (same_group_status snapshot (fg_status (rc_group st)) \<or> StatusApplied (rc_group st) \<in> set (rc_events st))"

lemma settle_log:
  assumes "settle R original cad decision ge through st = (st', r)"
  shows "ps_log (rc_pass st') = ps_log (rc_pass st)" "gs_feeds (fg_status (rc_group st')) = gs_feeds (fg_status (rc_group st))"
    "settled_group st' original"
proof -
  show "ps_log (rc_pass st') = ps_log (rc_pass st)"
    using assms by (auto simp: settle_def Let_def case_prod_beta rc_emit_def on_group_def split: if_splits option.splits)
  show "gs_feeds (fg_status (rc_group st')) = gs_feeds (fg_status (rc_group st))"
    unfolding settle_effect(1) [OF assms] by (simp add: summarize_frame observe_generation_def)
  have "FeedStateSynced (rc_group st') \<in> set (rc_events st')"
    using assms by (auto simp: settle_def Let_def case_prod_beta rc_group_def split: if_splits option.splits)
  then show "settled_group st' original" using settle_effect(1,2) [OF assms] by (simp add: settled_group_def)
qed

lemma fresh_posts_cong:
  assumes "fresh_posts R g feeds posted" "fg_spec g' = fg_spec g"
    and "\<And>feed e. feed \<in> feeds \<Longrightarrow> recorded (rr_env R) (fg_status g') (rss_url feed) e \<Longrightarrow>
      recorded (rr_env R) (fg_status g) (rss_url feed) e"
  shows "fresh_posts R g' feeds posted"
  using assms unfolding fresh_posts_def by fastforce

text \<open>Nothing was posted, or the webhook was known and the accepted entries are kept by the settled group.\<close>

definition settled_posts :: "('m, 's) reconciler \<Rightarrow> feed_group \<Rightarrow> 's \<Rightarrow> feed_group_status \<Rightarrow> ('m, 's) reconcile_state
    \<Rightarrow> (feed_spec \<times> entry \<times> 'm) list \<Rightarrow> bool" where
  "settled_posts R g w snapshot st posted \<longleftrightarrow> posted = [] \<or>
     settled_group st snapshot \<and> (\<exists>u w'. webhook_target R g w = Some (u, w') \<and> accounted R u w' (fg_status (rc_group st)) posted)"

lemma prepared_posts:
  assumes "reconcile_prepared R prep st = (st', res)" "distinct (map rss_url (sp_feeds (fg_spec (rc_group st))))"
    and "\<forall>i url e m. unclashed R (rr_fetch R i url e m)" "\<And>url. keyed (fg_status (rc_group st)) url"
    and "map fs_url (gs_feeds (fg_status (rc_group st))) = map rss_url (sp_feeds (fg_spec (rc_group st)))"
  shows "\<exists>posted. posts (ps_log (rc_pass st')) = posts (ps_log (rc_pass st)) @ map (snd \<circ> snd) posted \<and>
    fresh_posts R (rc_group st) (set (sp_feeds (fg_spec (rc_group st)))) posted \<and>
    settled_posts R (rc_group st) (ps_world (rc_pass st)) (prep_snapshot prep) st' posted"
  using assms(1)
proof (cases rule: prepared_cases)
  case (unresolved s1 err decision ge q)
  then show ?thesis using webhook_log(1) [OF unresolved(1)] settle_log(1) [OF unresolved(2)]
    by (intro exI [of _ "[]"]) (simp add: fresh_posts_def settled_posts_def)
next
  case (passed s1 u ps r decision ge through q)
  note w1 = webhook_log [OF passed(1)]
  have "distinct (map rss_url (sp_feeds (fg_spec (ps_group (rc_pass s1)))))" "\<forall>url. keyed (fg_status (ps_group (rc_pass s1))) url"
    using assms(2,4) w1(2,4) by (simp_all add: rc_group_def)
  from pass_posts [OF passed(2) this(1) assms(3) this(2)] obtain posted where
    posted: "posts (ps_log ps) = posts (ps_log (rc_pass s1)) @ map (snd \<circ> snd) posted"
      "fresh_posts R (rc_group s1) (set (sp_feeds (fg_spec (rc_group s1)))) posted"
      "accounted R u (ps_world (rc_pass s1)) (fg_status (ps_group ps)) posted" by (auto simp: rc_group_def)
  note settled = settle_log [OF passed(3)]
  have "accounted R u (ps_world (rc_pass s1)) (fg_status (rc_group st')) posted"
    using accounted_cong [OF posted(3)] settled(2) by (simp add: rc_group_def)
  then have "settled_posts R (rc_group st) (ps_world (rc_pass st)) (prep_snapshot prep) st' posted"
    using settled(3) webhook_targeted [OF passed(1)] by (auto simp: settled_posts_def)
  moreover have "fresh_posts R (rc_group st) (set (sp_feeds (fg_spec (rc_group st)))) posted"
    using fresh_posts_cong [OF posted(2), of "rc_group st"] w1(2,3) by simp
  ultimately show ?thesis using posted(1) settled(1) w1(1) by auto
next
  case (crashed s1 u ps p)
  have "rss_url feed \<in> set (map fs_url (statuses (rc_pass s1)))" if "feed \<in> set (sp_feeds (fg_spec (rc_group s1)))" for feed
    using that webhook_log(2,5) [OF crashed(1)] assms(5) by (simp add: rc_group_def)
  then have "all_known (rc_pass s1)" by (simp add: all_known_def rc_group_def)
  from pass_effect [OF crashed(2) this] show ?thesis by simp
qed

lemma reconcile_posts:
  assumes "rr_get R w = (Inr g0, w1)" "read_from_api g0" "status_ok (fg_status g0)"
    and keys: "\<And>fs. fs \<in> set (gs_feeds (fg_status g0)) \<Longrightarrow> distinct (map fst (last_sent fs))"
    and "Reconcile R w = ((log, evs, w2), res)" "\<forall>i url e m. unclashed R (rr_fetch R i url e m)"
  shows "\<exists>posted g prep st. posts log = map (snd \<circ> snd) posted \<and> fresh_posts R g0 (set (sp_feeds (fg_spec g0))) posted \<and>
    prepareStatus g0 = (g, prep) \<and> fresh_posts R g (set (sp_feeds (fg_spec g0))) posted \<and>
    set (rc_events st) \<subseteq> set evs \<and> settled_posts R g0 w1 (fg_status g) st posted"
proof -
  obtain g prep where prep: "prepareStatus g0 = (g, prep)" by force
  have urls: "distinct (map rss_url (sp_feeds (fg_spec g0)))" using assms(2) by (simp add: read_from_api_def spec_admitted_def)
  have spec: "fg_spec g = fg_spec g0" by (rule group_ok_prepared(2) [OF assms(2,3) prep])
  have ns: "fg_namespace g = fg_namespace g0" "prep_snapshot prep = fg_status g"
    using prep by (auto simp: prepareStatus_def ensureFeedStatuses_def clearPermanentBackoffs_def Let_def case_prod_beta split: if_splits)
  have known: "map fs_url (gs_feeds (fg_status g)) = map rss_url (sp_feeds (fg_spec g))"
    using prepare_view(1) [OF urls prep] by (simp add: group_view_def)
  have keyed: "keyed (fg_status g) url" for url by (rule keyed_prepared [OF prep urls keys])
  let ?st = "\<lparr>rc_pass = \<lparr>ps_group = g, ps_log = [], ps_ticks = 0, ps_world = w1\<rparr>, rc_events = map FeedForgotten (prep_pruned prep)\<rparr>"
  obtain st q where run: "reconcile_prepared R prep ?st = (st, q)" by force
  have out: "log = ps_log (rc_pass st)" "set (rc_events st) \<subseteq> set evs"
    using assms(1,5) prep run by (auto simp: Reconcile_def case_prod_beta)
  obtain posted where posted: "posts log = map (snd \<circ> snd) posted" "fresh_posts R g (set (sp_feeds (fg_spec g0))) posted"
    "settled_posts R g w1 (fg_status g) st posted"
    using prepared_posts [OF run _ assms(6)] urls keyed known unfolding out(1) by (auto simp: rc_group_def spec ns(2))
  have "webhook_target R g w1 = webhook_target R g0 w1" unfolding webhook_target_def ns(1) spec ..
  then have "settled_posts R g0 w1 (fg_status g) st posted" using posted(3) by (simp add: settled_posts_def)
  moreover have "fresh_posts R g0 (set (sp_feeds (fg_spec g0))) posted"
    using fresh_posts_cong [OF posted(2), of g0] recorded_prepared [OF prep urls assms(3)] by (simp add: spec)
  ultimately show ?thesis using prep posted(1,2) out(2) by blast
qed

text \<open>C3: What a reconcile recorded as sent is never posted by the next one.  The status a reconcile hands to
  the API server is stored and read back by a later reconcile, whatever happened before, to the spec
  in between, or to the process; every message that one posts renders an entry of a feed of its
  spec for which the earlier status has no record, and no two of its messages render the same
  entry of the same feed.  The exception is a clash of hashed texts within one fetch.\<close>

theorem recorded_never_posted_again:
  assumes "served admissible_env (fg_status g0)" "admissible_env R" "writes R w g0 g"
    and "rr_get R' w' = (Inr g1, w1)" "read_from_api g1" "fg_status g1 = stored (fg_status g)"
    and "Reconcile R' w' = ((log, evs, w2), res)"
  shows "(\<exists>posted. posts log = map (snd \<circ> snd) posted \<and>
      distinct (map (\<lambda>(feed, e, m). (rss_url feed, entryIdentity (rr_env R') e)) posted) \<and>
      list_all (\<lambda>(feed, e, m). feed \<in> set (sp_feeds (fg_spec g1)) \<and> renders R' (fg_spec g1) feed e m \<and>
        \<not> recorded (rr_env R') (fg_status g) (rss_url feed) e) posted) \<or>
    (\<exists>i url e m. key_clash (rr_env R') (sorted_entries (fo_result (rr_fetch R' i url e m))))"
proof -
  have ok: "status_ok (fg_status g)"
    by (rule group_ok_status [OF writes_ok [OF assms(3,2) served_ok [OF assms(1)]]])
  have g1: "status_ok (fg_status g1)" "\<And>fs. fs \<in> set (gs_feeds (fg_status g1)) \<Longrightarrow> distinct (map fst (last_sent fs))"
    using assms(6) status_ok_stored [OF ok] stored_keys by simp_all
  have keeps: "recorded (rr_env R') (fg_status g1) url e" if "recorded (rr_env R') (fg_status g) url e" for url e
    using recorded_stored [OF that ok] assms(6) by simp
  show ?thesis
  proof (cases "\<forall>i url e m. unclashed R' (rr_fetch R' i url e m)")
    case True
    obtain posted where posted: "posts log = map (snd \<circ> snd) posted"
      "fresh_posts R' g1 (set (sp_feeds (fg_spec g1))) posted"
      using reconcile_posts [OF assms(4,5) g1 assms(7) True] by blast
    show ?thesis
      using posted keeps unfolding fresh_posts_def list_all_iff by (intro disjI1 exI [of _ posted]) fast
  next
    case False
    then show ?thesis by (auto simp: unclashed_def)
  qed
qed

text \<open>The group of the examples, read back after a reconcile, when its feeds have an entry.\<close>

definition resumed_reconciler :: "feed_group \<Rightarrow> (string, unit) reconciler" where
  "resumed_reconciler g = fresh_reconciler\<lparr>rr_get := \<lambda>w. (Inr (fresh_group\<lparr>fg_status := stored (fg_status g)\<rparr>), w),
     rr_fetch := \<lambda>i url e m. \<lparr>fo_result = example_fetch\<lparr>fr_entries := [entry_one]\<rparr>, fo_err = None\<rparr>\<rparr>"

lemma is_writeD: "is_write ev \<Longrightarrow> \<exists>g. ev = StatusApplied g"
  by (cases ev) (simp_all add: is_write_def)

lemma recorded_never_posted_again_witness:
  "\<exists>g. writes fresh_reconciler () fresh_group g \<and>
     ((\<exists>posted :: (feed_spec \<times> entry \<times> string) list. posts (fst (fst (Reconcile (resumed_reconciler g) ()))) = map (snd \<circ> snd) posted \<and>
        distinct (map (\<lambda>(feed, e, m). (rss_url feed, entryIdentity plain_env e)) posted)) \<or>
      key_clash plain_env (sorted_entries (example_fetch\<lparr>fr_entries := [entry_one]\<rparr>)))"
proof -
  obtain g where "StatusApplied g \<in> set (fst (snd (fst (Reconcile fresh_reconciler ()))))"
    using fresh_written is_writeD unfolding list_ex_iff by blast
  then have g: "writes fresh_reconciler () fresh_group g" by (rule fresh_writes)
  let ?R = "resumed_reconciler g" and ?g = "fresh_group\<lparr>fg_status := stored (fg_status g)\<rparr>"
  obtain log evs w2 res where r: "Reconcile ?R () = ((log, evs, w2), res)" by (metis prod.exhaust)
  have "rr_get ?R () = (Inr ?g, ())" "read_from_api ?g" "rr_env ?R = plain_env" "fg_status ?g = stored (fg_status g)"
    using fresh_read by (simp_all add: resumed_reconciler_def read_from_api_def fresh_reconciler_def example_reconciler_def)
  note sound = recorded_never_posted_again [OF fresh_served fresh_admissible g this(1,2,4) r, unfolded this(3)]
  have fetch: "fo_result (rr_fetch ?R i url e m) = example_fetch\<lparr>fr_entries := [entry_one]\<rparr>" for i url e m
    by (simp add: resumed_reconciler_def)
  have "(\<exists>posted :: (feed_spec \<times> entry \<times> string) list. posts log = map (snd \<circ> snd) posted \<and>
        distinct (map (\<lambda>(feed, e, m). (rss_url feed, entryIdentity plain_env e)) posted)) \<or>
      key_clash plain_env (sorted_entries (example_fetch\<lparr>fr_entries := [entry_one]\<rparr>))"
    using sound unfolding fetch by blast
  then show ?thesis using g r by (intro exI [of _ g]) simp
qed

end
