(* ===== verification/Post_Records.thy ===== *)
theory Post_Records
  imports No_Repost
begin

text \<open>
  What a reconcile posts is on record afterwards: the entry of every message the webhook accepted is
  recorded in the status the reconcile writes, with the one exception of a LastSent that is full of
  records at least as new, which \<open>fifty_records\<close> shows to be a real one.
\<close>

text \<open>What the webhook of the group answers to a reconcile's messages.\<close>

definition webhook_answers :: "('m, 's) reconciler \<Rightarrow> feed_group \<Rightarrow> 's \<Rightarrow> 'm list \<Rightarrow> send_result list" where
  "webhook_answers R g w ms = (case webhook_target R g w of None \<Rightarrow> [] | Some (u, w') \<Rightarrow> sender_answers (rr_sender R u) w' ms)"

lemma recorded_same:
  assumes "same_group_status a b"
  shows "recorded E a url e = recorded E b url e"
proof -
  have same: "(case feed_status_for xs url of None \<Rightarrow> False | Some fs \<Rightarrow> sentAtKey fs k \<noteq> None) =
      (case feed_status_for ys url of None \<Rightarrow> False | Some fs \<Rightarrow> sentAtKey fs k \<noteq> None)"
    if "list_all2 same_feed_status xs ys" for xs ys k
    using that
  proof (induction rule: list_all2_induct)
    case (Cons x xs y ys)
    then have "fs_url x = fs_url y" "set (last_sent x) = set (last_sent y)"
      by (auto simp: same_feed_status_def dest!: arg_cong [of _ _ fs_url])
    then show ?case using Cons by (simp add: sentAtKey_def map_of_eq_None_iff)
  qed simp
  from same [of "gs_feeds a" "gs_feeds b"] assms show ?thesis by (simp add: recorded_def same_group_status_def)
qed

text \<open>The entry's record is in the status written.\<close>

definition record_written :: "go_env \<Rightarrow> reconcile_event list \<Rightarrow> string \<Rightarrow> entry \<Rightarrow> bool" where
  "record_written E evs url e \<longleftrightarrow>
     list_ex (\<lambda>ev. case ev of StatusApplied g \<Rightarrow> recorded E (fg_status g) url e | _ \<Rightarrow> False) evs"

text \<open>The feed's LastSent has room for no record of this time.\<close>

definition record_crowded_out :: "string \<Rightarrow> reconcile_event list \<Rightarrow> string \<Rightarrow> bool" where
  "record_crowded_out now evs url \<longleftrightarrow>
     list_ex (\<lambda>ev. case ev of FeedStateSynced g \<Rightarrow>
         (case feed_status_for (gs_feeds (fg_status g)) url of None \<Rightarrow> False | Some fs \<Rightarrow> crowded now fs)
       | _ \<Rightarrow> False) evs"

lemma settled_kept:
  assumes "settled_group st (fg_status g)" "kept E now (fg_status (rc_group st)) url e"
    and "\<not> recorded E (fg_status g) url e" "set (rc_events st) \<subseteq> set evs"
  shows "record_written E evs url e \<or> record_crowded_out now evs url"
proof (cases "recorded E (fg_status (rc_group st)) url e")
  case True
  then have "\<not> same_group_status (fg_status g) (fg_status (rc_group st))" using recorded_same assms(3) by blast
  then have "StatusApplied (rc_group st) \<in> set evs" using assms(1,4) by (auto simp: settled_group_def)
  then show ?thesis using True by (force simp: record_written_def list_ex_iff)
next
  case False
  then obtain fs where "feed_status_for (gs_feeds (fg_status (rc_group st))) url = Some fs" "crowded now fs"
    using assms(2) by (auto simp: kept_def recorded_def kept_in_def split: option.splits)
  moreover have "FeedStateSynced (rc_group st) \<in> set evs" using assms(1,4) by (auto simp: settled_group_def)
  ultimately show ?thesis by (force simp: record_crowded_out_def list_ex_iff)
qed

text \<open>C4: Every message the webhook accepts is on record afterwards.  Whatever happened to the group before, each
  message a reconcile posts renders an entry of a feed of its spec, and if the webhook answered it
  with success, the status the reconcile writes has the entry recorded as sent, even when a later
  message is refused, when Discord rate limits the rest or when a panic ends the pass.  The only
  exceptions are a LastSent full of fifty records of this time or later, and a clash of hashed texts
  within one fetch.\<close>

theorem accepted_post_recorded:
  assumes "served admissible_env (fg_status g0)" "rr_get R w = (Inr g0, w1)" "read_from_api g0"
    and "Reconcile R w = ((log, evs, w2), res)"
  shows "(\<exists>posted. posts log = map (snd \<circ> snd) posted \<and>
      length (webhook_answers R g0 w1 (posts log)) = length posted \<and>
      list_all (\<lambda>((feed, e, m), a). feed \<in> set (sp_feeds (fg_spec g0)) \<and> renders R (fg_spec g0) feed e m \<and>
          (a = SendOk \<longrightarrow> record_written (rr_env R) evs (rss_url feed) e \<or>
             record_crowded_out (format_rfc3339 (rr_now R)) evs (rss_url feed)))
        (zip posted (webhook_answers R g0 w1 (posts log)))) \<or>
    (\<exists>i url e m. key_clash (rr_env R) (sorted_entries (fo_result (rr_fetch R i url e m))))"
proof (cases "\<forall>i url e m. unclashed R (rr_fetch R i url e m)")
  case False
  then show ?thesis by (auto simp: unclashed_def)
next
  case True
  obtain posted g prep st where p: "posts log = map (snd \<circ> snd) posted" "fresh_posts R g0 (set (sp_feeds (fg_spec g0))) posted"
    "fresh_posts R g (set (sp_feeds (fg_spec g0))) posted" "set (rc_events st) \<subseteq> set evs"
    "settled_posts R g0 w1 (fg_status g) st posted"
    using reconcile_posts [OF assms(2,3) served_ok [OF assms(1)] served_keys [OF assms(1)] assms(4) True] by blast
  let ?as = "webhook_answers R g0 w1 (posts log)"
  have "length ?as = length posted \<and> (\<forall>((feed, e, m), a) \<in> set (zip posted ?as). a = SendOk \<longrightarrow>
      record_written (rr_env R) evs (rss_url feed) e \<or> record_crowded_out (format_rfc3339 (rr_now R)) evs (rss_url feed))"
  proof (cases "posted = []")
    case True
    then show ?thesis by (simp add: webhook_answers_def p(1) split: option.split)
  next
    case False
    then obtain u w' where u: "webhook_target R g0 w1 = Some (u, w')" "accounted R u w' (fg_status (rc_group st)) posted"
      "settled_group st (fg_status g)" using p(5) by (auto simp: settled_posts_def)
    have as: "?as = sender_answers (rr_sender R u) w' (map (snd \<circ> snd) posted)" by (simp add: webhook_answers_def u(1) p(1))
    have "record_written (rr_env R) evs (rss_url feed) e \<or> record_crowded_out (format_rfc3339 (rr_now R)) evs (rss_url feed)"
      if "((feed, e, m), SendOk) \<in> set (zip posted ?as)" for feed e m
    proof (rule settled_kept [OF u(3) _ _ p(4)])
      show "kept (rr_env R) (format_rfc3339 (rr_now R)) (fg_status (rc_group st)) (rss_url feed) e"
        using u(2) that unfolding as accounted_def by blast
      show "\<not> recorded (rr_env R) (fg_status g) (rss_url feed) e"
        using p(3) set_zip_leftD [OF that] unfolding fresh_posts_def by blast
    qed
    then show ?thesis by (auto simp: as)
  qed
  moreover have "feed \<in> set (sp_feeds (fg_spec g0)) \<and> renders R (fg_spec g0) feed e m"
    if "((feed, e, m), a) \<in> set (zip posted ?as)" for feed e m a
    using p(2) set_zip_leftD [OF that] unfolding fresh_posts_def by blast
  ultimately show ?thesis using p(1) unfolding list_all_iff by (intro disjI1 exI [of _ posted]) fast
qed

text \<open>The first reconcile of the examples' group, when its feeds have an entry.\<close>

definition posting_reconciler :: "(string, unit) reconciler" where
  "posting_reconciler = fresh_reconciler\<lparr>
     rr_fetch := \<lambda>i url e m. \<lparr>fo_result = example_fetch\<lparr>fr_entries := [entry_one]\<rparr>, fo_err = None\<rparr>\<rparr>"

lemma accepted_post_recorded_witness:
  "case Reconcile posting_reconciler () of ((log, evs, w2), res) \<Rightarrow>
     (\<exists>posted :: (feed_spec \<times> entry \<times> string) list. posts log = map (snd \<circ> snd) posted \<and>
        list_all (\<lambda>(feed, e, m). record_written plain_env evs (rss_url feed) e \<or>
          record_crowded_out (format_rfc3339 1700000000000000000) evs (rss_url feed)) posted) \<or>
     key_clash plain_env (sorted_entries (example_fetch\<lparr>fr_entries := [entry_one]\<rparr>))"
proof -
  let ?R = posting_reconciler
  obtain log evs w2 res where r: "Reconcile ?R () = ((log, evs, w2), res)" by (metis prod.exhaust)
  have R: "rr_get ?R () = (Inr fresh_group, ())" "rr_env ?R = plain_env" "rr_now ?R = 1700000000000000000"
    "\<And>i url e m. fo_result (rr_fetch ?R i url e m) = example_fetch\<lparr>fr_entries := [entry_one]\<rparr>"
    by (simp_all add: posting_reconciler_def fresh_reconciler_def example_reconciler_def)
  have ok: "list_all (\<lambda>a. a = SendOk) (webhook_answers ?R g () ms)" for g ms
  proof -
    have "list_all (\<lambda>a. a = SendOk) (sender_answers (\<lambda>m w. (SendOk, w)) () ms)" by (induction ms) simp_all
    then show ?thesis
      by (auto simp: webhook_answers_def posting_reconciler_def fresh_reconciler_def example_reconciler_def split: option.split)
  qed
  note claim = accepted_post_recorded [OF fresh_served R(1) fresh_read r, unfolded R(2-4)]
  show ?thesis unfolding r prod.case
  proof (rule disjCI)
    assume "\<not> key_clash plain_env (sorted_entries (example_fetch\<lparr>fr_entries := [entry_one]\<rparr>))"
    then obtain posted :: "(feed_spec \<times> entry \<times> string) list" where
      p: "posts log = map (snd \<circ> snd) posted" "length (webhook_answers ?R fresh_group () (posts log)) = length posted"
      "\<forall>((feed, e, m), a) \<in> set (zip posted (webhook_answers ?R fresh_group () (posts log))). a = SendOk \<longrightarrow>
         record_written plain_env evs (rss_url feed) e \<or> record_crowded_out (format_rfc3339 1700000000000000000) evs (rss_url feed)"
      using claim unfolding list_all_iff by fast
    have "record_written plain_env evs (rss_url feed) e \<or> record_crowded_out (format_rfc3339 1700000000000000000) evs (rss_url feed)"
      if elem: "(feed, e, m) \<in> set posted" for feed e m
    proof -
      obtain a where "((feed, e, m), a) \<in> set (zip posted (webhook_answers ?R fresh_group () (posts log)))"
        by (rule in_set_impl_in_set_zip1 [OF p(2) [symmetric] elem])
      moreover from this have "a = SendOk" using ok by (auto simp: list_all_iff dest: set_zip_rightD)
      ultimately show ?thesis using p(3) by blast
    qed
    then show "\<exists>posted :: (feed_spec \<times> entry \<times> string) list. posts log = map (snd \<circ> snd) posted \<and>
        list_all (\<lambda>(feed, e, m). record_written plain_env evs (rss_url feed) e \<or>
          record_crowded_out (format_rfc3339 1700000000000000000) evs (rss_url feed)) posted"
      using p(1) by (intro exI [of _ posted]) (auto simp: list_all_iff)
  qed
qed

section \<open>The cap of LastSent\<close>

lemma settled_length:
  assumes "keys_distinct st"
  shows "length (last_sent (settle_verdict s (settlement v) (st_fs st))) \<le> maxLastSentPerFeed"
  using pruned_spec(2) [of "last_sent (st_fs st)" maxLastSentPerFeed] assms
  by (simp add: settle_last_sent settlement_def keys_distinct_def)

text \<open>A sync may post up to a hundred entries (\<open>catchUpLimit\<close>), and any number behind a watermark; one that
  posts more than fifty forgets some of them: only the watermark keeps those from being posted again.\<close>

lemma fifty_records:
  assumes "deliverable run rend s" "apply_sync run s st = (st', Returned v)" "keys_distinct st"
    and "\<not> key_clash (fn_env run) (sorted_entries (fy_fetch s))"
    and "length (posts (st_log st)) + 50 < length (posts (st_log st'))"
  shows "\<exists>e \<in> set (sorted_entries (fy_fetch s)). (\<exists>m n. rd_build rend e = Built m n \<and> m \<in> set (posts (st_log st'))) \<and>
    sentAtKey (st_fs st') (computeEntryKey (fn_env run) e) = None"
proof (rule ccontr)
  assume none: "\<not> ?thesis"
  let ?E = "fn_env run" and ?es = "sorted_entries (fy_fetch s)" and ?m = "last_sent (st_fs st')"
  obtain hs ps rs st2 where run: "delivers (delivery_of run rend (begun_sync run s st)) (plan_entries (fy_plan (begun_sync run s st)))
      (begun run s st) hs ps rs st2 (Returned v)"
    and st': "st' = close_sync (begun_sync run s st) (settlement v) st2"
    using apply_runs [OF assms(1,2)] by (metis result.case(1))
  note due = run_posts_due [OF run]
  have log: "posts (st_log st') = posts (st_log st) @ map (\<lambda>e. case rd_build rend e of Built m ov \<Rightarrow> m) ps"
    using due(1) by (simp add: st')
  have sub: "set ps \<subseteq> set ?es" using subseq_subset [OF due(2)] .
  have "inj_on (computeEntryKey ?E) (set ps)"
  proof (rule inj_onI)
    fix x y assume xy: "x \<in> set ps" "y \<in> set ps" "computeEntryKey ?E x = computeEntryKey ?E y"
    then have "entryIdentity ?E x = entryIdentity ?E y"
      using entry_keys_apart [OF assms(4), of x y] sub by (fastforce simp: entry_keys_def)
    then show "x = y" using due(3) xy(1,2) by (auto simp: distinct_map inj_on_def)
  qed
  then have card: "card (computeEntryKey ?E ` set ps) = length ps"
    using due(3) by (simp add: card_image distinct_card distinct_map)
  have keys: "computeEntryKey ?E ` set ps \<subseteq> fst ` set ?m"
  proof (rule image_subsetI)
    fix e assume e: "e \<in> set ps"
    then obtain m n where "rd_build rend e = Built m n" using due(4) by blast
    moreover from this have "m \<in> set (posts (st_log st'))" using e by (force simp: log)
    ultimately have "map_of ?m (computeEntryKey ?E e) \<noteq> None" using none e subsetD [OF sub e] unfolding sentAtKey_def by metis
    then show "computeEntryKey ?E e \<in> fst ` set ?m" by (simp add: map_of_eq_None_iff)
  qed
  have "length ps \<le> card (fst ` set ?m)" using card_mono [OF _ keys] card by simp
  also have "\<dots> \<le> length ?m" by (metis card_length length_map set_map)
  also have "\<dots> \<le> 50"
  proof -
    have "keys_distinct st2" by (rule delivers_keys_distinct [OF run begun_keys_distinct [OF assms(3)]])
    then show ?thesis
      using settled_length [of st2 "begun_sync run s st" v] by (simp add: st' maxLastSentPerFeed_def)
  qed
  finally show False using assms(5) by (simp add: log)
qed

end
