(* ===== verification/Spec2Isabelle.thy ===== *)
theory Spec2Isabelle
  imports Prelude Go_Text Go_Sha256 Go_Time Go_Format Api_Types Failures Status_Text Backoff Schedule
    Go_Url Identity Ledger Ledger_Laws Attempt Attempt_Laws Attempt_Policy
    Delivery Delivery_Laws Feed_Sync Feed_Sync_Laws Resync Send_Answers Panics
    Discord_Fit Rate_Limiter Go_Float Discord_Payload Discord_Client Discord_Client_Laws
    Group_Status Group_Status_Laws Reconcile Reconcile_Laws Fetch_Pool Metrics
    Dial_Guard Go_Trim Feed_Xml Feed_Time Rss_Feed Atom_Feed Atom_Feed_Laws Feed_Client
    Msg_Template Sanitize Sanitize_Laws Display Render Render_Laws Redact Operator Secret_Watch Status_Apply
    Status_Schema Admissible Admission Metric_Series No_Repost Post_Records
begin

text \<open>
  A verification development for rss2discord-operator, a Kubernetes operator in Go that posts the
  new entries of RSS and Atom feeds to Discord webhooks.

  \<^bold>\<open>The program.\<close>  A FeedGroup names feeds and the Secret with a webhook URL.  A reconcile of a group
  (\<^verbatim>\<open>internal/controller/feedgroup_controller.go\<close>) prepares one status per feed, reads the webhook,
  plans which feeds are due, fetches them concurrently (\<^verbatim>\<open>internal/rss\<close>), and then processes them one
  by one: a sync sorts the entries, finds out from the feed's ledger which are new, renders each
  (\<^verbatim>\<open>render.go\<close>, \<^verbatim>\<open>internal/msgtemplate\<close>) and sends it (\<^verbatim>\<open>internal/discord\<close>), recording what happened in
  the feed's status.  At the end the group's conditions are summarised, the status is applied and
  the next reconcile is scheduled.

  \<^bold>\<open>Conventions.\<close>  A Go string is a HOL string of bytes, and runes are decoded where the code decodes
  them.  A time or duration is the integer of its nanoseconds, a \<^verbatim>\<open>time.Time\<close> the instant; \<^verbatim>\<open>int32\<close> and
  \<^verbatim>\<open>int64\<close> arithmetic that can overflow is wrapped explicitly (\<open>Prelude\<close>).  Errors are the datatype
  \<open>go_error\<close> with one constructor per typed error, in sums; panics are results of their own.  A map
  that is iterated is an association list with distinct keys.  Every definition is executable, and
  is named as in the code where HOL leaves the name free.

  \<^bold>\<open>The theories,\<close> by the part of the code each models.

  \<^item> The standard library, written out as far as the source uses it: \<open>Go_Text\<close>, \<open>Go_Trim\<close> (strings,
    UTF-8, trimming), \<open>Go_Time\<close>, \<open>Go_Format\<close> (RFC 3339, durations, quoting), \<open>Go_Float\<close> (ParseFloat),
    \<open>Go_Sha256\<close>, \<open>Go_Url\<close>.
  \<^item> The API objects and a feed's status: \<open>Api_Types\<close> (\<^verbatim>\<open>api/v1alpha1/feedgroup_types.go\<close>),
    \<open>Failures\<close> (\<^verbatim>\<open>classify.go\<close>), \<open>Status_Text\<close> and \<open>Group_Status\<close> (\<^verbatim>\<open>status_store.go\<close>,
    \<^verbatim>\<open>group_summary.go\<close>), \<open>Status_Apply\<close> (the status written through JSON into its generated apply
    configuration), \<open>Backoff\<close> (\<^verbatim>\<open>backoff.go\<close>), \<open>Schedule\<close> (\<^verbatim>\<open>check.go\<close>, \<^verbatim>\<open>cadence.go\<close>, \<^verbatim>\<open>schedule.go\<close>),
    \<open>Secret_Watch\<close> (\<^verbatim>\<open>secret_watch.go\<close>).
  \<^item> Reading feeds, \<^verbatim>\<open>internal/rss\<close>: \<open>Feed_Xml\<close> (\<^verbatim>\<open>text.go\<close> and decoding by struct tags), \<open>Feed_Time\<close>
    (\<^verbatim>\<open>time.go\<close>), \<open>Rss_Feed\<close>, \<open>Atom_Feed\<close> with \<open>Atom_Feed_Laws\<close>, \<open>Feed_Client\<close> (\<^verbatim>\<open>parse.go\<close>,
    \<^verbatim>\<open>client.go\<close>), \<open>Dial_Guard\<close> (\<^verbatim>\<open>transport.go\<close>).
  \<^item> Entries and what is known of them: \<open>Identity\<close> (\<^verbatim>\<open>identity.go\<close> of both packages), \<open>Ledger\<close> with
    \<open>Ledger_Laws\<close> (\<^verbatim>\<open>ledger.go\<close>, \<^verbatim>\<open>identity_migration.go\<close>).
  \<^item> A sync: \<open>Attempt\<close>, \<open>Attempt_Laws\<close>, \<open>Attempt_Policy\<close> (\<^verbatim>\<open>attempt.go\<close>), \<open>Delivery\<close> with
    \<open>Delivery_Laws\<close> (\<^verbatim>\<open>delivery_plan.go\<close>, \<^verbatim>\<open>delivery.go\<close>), \<open>Feed_Sync\<close> with \<open>Feed_Sync_Laws\<close>,
    \<open>Resync\<close>, \<open>Send_Answers\<close> (what the webhook answered and what becomes of the records) and \<open>Panics\<close>
    (\<^verbatim>\<open>feed_sync.go\<close> and \<open>processFeed\<close>).
  \<^item> Messages: \<open>Sanitize\<close> with \<open>Sanitize_Laws\<close> (\<^verbatim>\<open>sanitize.go\<close>), \<open>Display\<close> (\<^verbatim>\<open>display.go\<close>, \<^verbatim>\<open>filter.go\<close>),
    \<open>Msg_Template\<close> (\<^verbatim>\<open>internal/msgtemplate\<close>), \<open>Render\<close> with \<open>Render_Laws\<close> (\<^verbatim>\<open>render.go\<close>).
  \<^item> Discord, \<^verbatim>\<open>internal/discord\<close>: \<open>Discord_Fit\<close> (\<^verbatim>\<open>fit.go\<close>), \<open>Rate_Limiter\<close> (\<^verbatim>\<open>ratelimiter.go\<close>),
    \<open>Discord_Payload\<close> and \<open>Discord_Client\<close> with its laws (\<^verbatim>\<open>client.go\<close>).
  \<^item> The reconcile: \<open>Reconcile\<close> with \<open>Reconcile_Laws\<close> (\<^verbatim>\<open>feedgroup_controller.go\<close>, \<^verbatim>\<open>settle.go\<close>),
    \<open>Fetch_Pool\<close> (the goroutines of \<open>fetchAll\<close>), \<open>Metrics\<close> (\<^verbatim>\<open>metrics.go\<close>) with
    \<open>Metric_Series\<close> (what a whole reconcile does to them), \<open>Redact\<close>
    (\<^verbatim>\<open>internal/telemetry/redact.go\<close>), and \<open>Operator\<close>, which runs the reconcile with the
    operator's own clients, renderer and status writer (\<^verbatim>\<open>ports.go\<close>, \<open>clientsFor\<close>).
  \<^item> The contract with the API server: \<open>Status_Schema\<close> (the validation markers of
    \<^verbatim>\<open>api/v1alpha1/feedgroup_types.go\<close>), \<open>Admissible\<close> (the statuses within it, kept by every operation
    on a feed's status), \<open>Admission\<close> (kept by every reconcile and every history of reconciles).
  \<^item> Across reconciles: \<open>No_Repost\<close> (what one reconcile recorded, the next one does not post) and
    \<open>Post_Records\<close> (what the webhook accepted is recorded).

  \<^bold>\<open>Parameters.\<close>  What is not code of the repository is an argument: the Kubernetes API, clocks and
  jitter (\<open>reconciler\<close>), the condition helpers of apimachinery (\<open>condition_api\<close>, with the documented
  laws \<open>condition_laws\<close> and \<open>condition_slices\<close>) and the JSON codec of conditions (\<open>json_codec\<close>, \<open>condition_codec\<close>), the HTTP
  round trips (\<open>fetch_port\<close>, \<open>port\<close>), the XML and HTML tokenizers and zone abbreviations (\<open>doc_env\<close>),
  text/template (\<open>template_engine\<close>), regexp (\<open>regexp_engine\<close>), and the non-ASCII half of lower-casing
  and host parsing (\<open>go_env\<close>; \<open>host_roundtrip\<close> states that a host is printed as it was read).

  \<^bold>\<open>Interfaces.\<close>  The locale \<open>sent_store\<close> is what the ledger asks of the map of sent entries,
  \<open>deadline_map\<close> what the rate limiter asks of its two tables, and \<open>message_wire\<close> what the send path
  asks of a sender: any relation of worlds that sending good messages keeps is kept by a whole
  reconcile.  Each is interpreted on the model's own definitions.

  \<^bold>\<open>What the lemmas show.\<close>

  \<^item> Posting: a sync posts only due entries, oldest first and each identity once; what it does not
    settle stays unsent and is scanned again; syncing an accounted-for document again posts nothing;
    a panic keeps the records of exactly what was handled and a configuration error loses nothing
    (\<open>Feed_Sync_Laws\<close>, \<open>Resync\<close>, \<open>Panics\<close>).  The identity migration keeps the records of an entry
    unless another entry's takes a stripped one (\<open>Ledger_Laws\<close>).  Across
    reconciles, what a written status records as sent is not posted by one that reads it back
    (\<open>No_Repost\<close>), and every message the webhook accepted is recorded, as far as LastSent holds it
    (\<open>Post_Records\<close>): together, no accepted entry is posted by the next reconcile.  These rest
    on a step relation of the send loop (\<open>delivers\<close>), shown to be exactly its runs, and on the
    ledger's invariant that every key of a record leads back to it.
  \<^item> Failing: each failure is classified by its cause, retried with exact, bounded backoff, announced
    once, and a rate limit spends no retry; a failed send does to status, metrics and Events exactly
    what the policy says; a changed Secret or spec resumes what was held.
  \<^item> Reaching out: a feed is fetched by at most one http(s) request to a public address, and a
    message leaves only for an allowed Discord host over HTTPS, fitted to Discord's limits; the
    theorem of this file states it of the whole reconcile.  The spans of webhook requests are
    exported without the token, for URLs without an empty path segment (\<open>Redact\<close>).
  \<^item> Reading: the shortcuts of the decoder (bounded slices, the pre-check for earlier identities) do
    not change what is read; sanitised text is tidy; exactly the bounded templates compile.
  \<^item> Settling: a reconcile that read its group always settles, its status has one entry per feed of
    the spec, says what the feeds' statuses say and is written without loss; in no history of
    reconciles is a write refused by the resource's schema, unless a feed's server sends a longer
    validator than the schema holds; a reconcile leaves
    no metric series of a deleted group or a removed feed; any schedule of the fetch goroutines ends after two steps per feed with the
    outcomes of the sequential fetch.

  \<^bold>\<open>Bounds and termination.\<close>  Every function is total; loops of the code are structural recursion,
  folds, or recursion with a measure, and the send loop ends with its list of entries, so no fuel is
  used.  The step relation of the fetch pool is shown to end by a rank.

  \<^bold>\<open>Not modelled.\<close>  Logging; the process entry point \<^verbatim>\<open>cmd/main.go\<close> and \<open>SetupWithManager\<close>, which
  configure controller-runtime; the tracer setup of \<^verbatim>\<open>telemetry.go\<close>; generated code without a call
  from the program's logic (deep copies, the With builders and the merge schema of the apply
  configurations); registration and buckets of metrics; the build tool \<^verbatim>\<open>hack/promrules\<close> and the test
  helpers.  Reconciles of several groups at once share only the rate limiter, whose operations a
  mutex makes a sequence, and the metrics registry; they are modelled one at a time.  Cancellation
  of a context reaches the model as the error of the call it interrupts.
\<close>

section \<open>The operator\<close>

text \<open>C1: A whole reconcile, with the clients, the renderer and the timing the operator runs with, sends
  nothing but webhook requests to an allowed Discord host over HTTPS, each with a message a feed of
  the group may send; and nothing at all when the group could not be read.  The Kubernetes API is
  assumed to leave the wire to Discord alone, and the host parser to read back what it printed.\<close>

theorem operator_posts_only_to_discord:
  assumes "host_roundtrip (de_go (rn_doc (op_render A)))" "cluster_keeps_wire A R"
    and "Reconcile (with_clients A labels R) w0 = ((log, evs, w), res)"
  shows "\<exists>qs. wr_requests (ow_wire w) = wr_requests (ow_wire w0) @ qs \<and>
    (case fst (rr_get R w0) of
       Inl e \<Rightarrow> qs = []
     | Inr g \<Rightarrow> list_all (discord_post (de_go (rn_doc (op_render A))) (fg_spec g)) qs)"
  using reconcile_requests [OF assms] by (simp add: requests_of_group_def)

lemma operator_posts_only_to_discord_witness:
  "case Reconcile (with_clients example_operator (''default'', ''news'') example_api) example_world of
     ((log, evs, w), res) \<Rightarrow> list_all (discord_post strict_env (fg_spec two_feeds)) (wr_requests (ow_wire w))"
proof -
  obtain log evs w res where
    run: "Reconcile (with_clients example_operator (''default'', ''news'') example_api) example_world = ((log, evs, w), res)"
    by (metis prod.collapse)
  have E: "de_go (rn_doc (op_render example_operator)) = strict_env" by (simp add: example_operator_def)
  have "cluster_keeps_wire example_operator example_api"
    by (simp add: cluster_keeps_wire_def example_api_def example_operator_def)
  from operator_posts_only_to_discord [OF _ this run, unfolded E, OF strict_env_roundtrip]
  show ?thesis using run by (auto simp: example_api_def example_world_def idle_wire_def)
qed

end
